(* ===== verification/Prelude.thy ===== *)
theory Prelude
  imports Main "HOL-Library.Word"
begin

text \<open>
  Shared vocabulary of the development: the machine integers the C++ code converts between,
  \<open>std::map\<close> as a list sorted by key, the \<open>try\<close> block that keeps the assignments made
  before the exception, and the generic list lemmas the components use.
\<close>

named_theorems omap_simps "rewrite rules for std::map"
named_theorems list_pos "facts about positions in lists"

section \<open>Machine integers\<close>

text \<open>
  The C++ code mixes \<open>int\<close>, \<open>uint32_t\<close> and \<open>size_t\<close>. Values are kept as
  \<open>int\<close>; a conversion that can change the value is written out.
\<close>

definition to_i32 :: "int \<Rightarrow> int" where
  "to_i32 n = (n + 2 ^ 31) mod 2 ^ 32 - 2 ^ 31"

definition to_u32 :: "int \<Rightarrow> int" where
  "to_u32 n = n mod 2 ^ 32"

definition to_u64 :: "int \<Rightarrow> int" where
  "to_u64 n = n mod 2 ^ 64"

definition is_i32 :: "int \<Rightarrow> bool" where
  "is_i32 n \<longleftrightarrow> - (2 ^ 31) \<le> n \<and> n < 2 ^ 31"

lemma to_i32_id [simp]: "is_i32 n \<Longrightarrow> to_i32 n = n"
  by (simp add: to_i32_def is_i32_def)

lemma is_i32_to_i32 [simp, intro]: "is_i32 (to_i32 n)"
  by (simp add: to_i32_def is_i32_def)

lemma to_i32_add [simp]: "to_i32 (to_i32 a + b) = to_i32 (a + b)"
  by (simp add: to_i32_def algebra_simps) (simp add: mod_simps add.commute flip: add.assoc)

lemma to_u32_id [simp]: "0 \<le> n \<Longrightarrow> n < 2 ^ 32 \<Longrightarrow> to_u32 n = n"
  by (simp add: to_u32_def)

lemma to_u64_id [simp]: "0 \<le> n \<Longrightarrow> n < 2 ^ 64 \<Longrightarrow> to_u64 n = n"
  by (simp add: to_u64_def)

section \<open>std::map: a list sorted by key\<close>

type_synonym ('k, 'v) omap = "('k \<times> 'v) list"

text \<open>\<open>emplace\<close> keeps the old value when the key is present, as \<open>std::map::emplace\<close> does.\<close>

fun omap_emplace :: "'k::linorder \<Rightarrow> 'v \<Rightarrow> ('k, 'v) omap \<Rightarrow> ('k, 'v) omap" where
  "omap_emplace k v [] = [(k, v)]"
| "omap_emplace k v ((k', v') # xs) =
     (if k < k' then (k, v) # (k', v') # xs
      else if k = k' then (k', v') # xs
      else (k', v') # omap_emplace k v xs)"

definition omap_erase :: "'k \<Rightarrow> ('k, 'v) omap \<Rightarrow> ('k, 'v) omap" where
  "omap_erase k xs = filter (\<lambda>kv. fst kv \<noteq> k) xs"

text \<open>Loops that insert or erase a queue of entries.\<close>

definition omap_emplace_all :: "('v \<times> 'k) list \<Rightarrow> ('k::linorder, 'v) omap \<Rightarrow> ('k, 'v) omap" where
  "omap_emplace_all q xs = foldl (\<lambda>xs (v, k). omap_emplace k v xs) xs q"

definition omap_erase_all :: "'k list \<Rightarrow> ('k, 'v) omap \<Rightarrow> ('k, 'v) omap" where
  "omap_erase_all q xs = foldl (\<lambda>xs k. omap_erase k xs) xs q"

definition omap_ok :: "('k::linorder, 'v) omap \<Rightarrow> bool" where
  "omap_ok xs \<longleftrightarrow> sorted_wrt (<) (map fst xs)"

lemma omap_ok_Nil [simp]: "omap_ok []"
  by (simp add: omap_ok_def)

lemma omap_ok_distinct: "omap_ok xs \<Longrightarrow> distinct (map fst xs)"
  by (simp add: omap_ok_def strict_sorted_iff)

lemma keys_omap_emplace [omap_simps]:
  "fst ` set (omap_emplace k v xs) = insert k (fst ` set xs)"
  by (induction k v xs rule: omap_emplace.induct) auto

lemma keys_omap_erase [omap_simps]: "fst ` set (omap_erase k xs) = fst ` set xs - {k}"
  by (auto simp: omap_erase_def)

lemma omap_ok_emplace [intro]: "omap_ok xs \<Longrightarrow> omap_ok (omap_emplace k v xs)"
proof (induction k v xs rule: omap_emplace.induct)
  case (2 k v k' v' xs)
  have keys: "set (map fst (omap_emplace k v xs)) = insert k (set (map fst xs))"
    using keys_omap_emplace [of k v xs] by simp
  show ?case
    using 2 keys unfolding omap_ok_def by (auto intro: less_trans)
qed (simp add: omap_ok_def)

lemma omap_ok_erase [intro]: "omap_ok xs \<Longrightarrow> omap_ok (omap_erase k xs)"
  unfolding omap_ok_def omap_erase_def
  by (induction xs) auto

lemma omap_ok_emplace_all [intro]: "omap_ok xs \<Longrightarrow> omap_ok (omap_emplace_all q xs)"
  unfolding omap_emplace_all_def by (induction q arbitrary: xs) auto

lemma omap_ok_erase_all [intro]: "omap_ok xs \<Longrightarrow> omap_ok (omap_erase_all q xs)"
  unfolding omap_erase_all_def by (induction q arbitrary: xs) auto

lemma keys_omap_emplace_all [omap_simps]:
  "fst ` set (omap_emplace_all q xs) = fst ` set xs \<union> snd ` set q"
  unfolding omap_emplace_all_def
proof (induction q arbitrary: xs)
  case (Cons x q)
  obtain v k where "x = (v, k)" by (cases x)
  with Cons show ?case by (simp add: keys_omap_emplace)
qed simp

lemma keys_omap_erase_all [omap_simps]: "fst ` set (omap_erase_all q xs) = fst ` set xs - set q"
  unfolding omap_erase_all_def
  by (induction q arbitrary: xs) (auto simp: keys_omap_erase)

lemma omap_emplace_fresh_length:
  "k \<notin> fst ` set xs \<Longrightarrow> length (omap_emplace k v xs) = Suc (length xs)"
  by (induction k v xs rule: omap_emplace.induct) auto

lemma omap_length_bound:
  assumes "omap_ok xs" and "fst ` set xs \<subseteq> {1..n :: int}"
  shows "length xs \<le> nat n"
proof -
  have "length xs = card (fst ` set xs)"
    using omap_ok_distinct [OF assms(1)] distinct_card [of "map fst xs"] by simp
  also have "\<dots> \<le> card {1..n}"
    using assms(2) by (intro card_mono) auto
  finally show ?thesis by simp
qed

section \<open>try blocks\<close>

text \<open>
  A \<open>try\<close> block of the parsers is a list of statements over the object being filled; a
  statement that throws is \<open>None\<close> and leaves the object as the statements before it made
  it, which is what the \<open>catch\<close> that only logs returns.
\<close>

fun try_block :: "('d \<Rightarrow> 'd option) list \<Rightarrow> 'd \<Rightarrow> 'd" where
  "try_block [] d = d"
| "try_block (f # fs) d = (case f d of None \<Rightarrow> d | Some d' \<Rightarrow> try_block fs d')"

lemma try_block_throw [simp]: "f d = None \<Longrightarrow> try_block (f # fs) d = d"
  by simp

text \<open>A list of fallible steps on a state; the first error ends the run.\<close>

fun fold_err :: "('x \<Rightarrow> 's \<Rightarrow> 'e + 's) \<Rightarrow> 'x list \<Rightarrow> 's \<Rightarrow> 'e + 's" where
  "fold_err f [] s = Inr s"
| "fold_err f (x # xs) s = (case f x s of Inl e \<Rightarrow> Inl e | Inr t \<Rightarrow> fold_err f xs t)"

lemma fold_err_append:
  "fold_err f (xs @ ys) s = (case fold_err f xs s of Inl e \<Rightarrow> Inl e | Inr t \<Rightarrow> fold_err f ys t)"
  by (induction xs arbitrary: s) (auto split: sum.splits)

section \<open>Lists\<close>

lemma count_list_update:
  "i < length xs \<Longrightarrow>
     count_list (xs[i := y]) x =
       count_list xs x - (if xs ! i = x then 1 else 0) + (if y = x then 1 else 0)"
proof (induction xs arbitrary: i)
  case (Cons a xs)
  show ?case
  proof (cases i)
    case (Suc j)
    have "xs ! j = x \<Longrightarrow> j < length xs \<Longrightarrow> count_list xs x > 0"
      by (metis count_list_0_iff gr0I nth_mem)
    with Cons Suc show ?thesis by auto
  qed simp
qed simp

lemma count_list_replicate [simp]: "count_list (replicate n y) x = (if x = y then n else 0)"
  by (induction n) auto

lemma count_list_pos [list_pos]:
  "i < length xs \<Longrightarrow> xs ! i = x \<Longrightarrow> 0 < count_list xs x"
  by (metis count_list_0_iff gr0I nth_mem)

lemma count_list_posD [list_pos]: "0 < count_list xs x \<Longrightarrow> \<exists>i < length xs. xs ! i = x"
  by (metis count_list_0_iff in_set_conv_nth less_numeral_extra(3))

end
