(* ===== verification/SlotPool.thy ===== *)
theory SlotPool
  imports Prelude
begin

text \<open>
  The contract between a pipe of slots and the readers it has notified: a reader owes one
  release per notification, a release counts down what is owed for its slot and touches no
  other, and the slot is free again with the last one. The connectors, encoders and
  packetizers rely on these laws only.
\<close>

locale slot_release =
  fixes release :: "nat \<Rightarrow> 'p \<Rightarrow> 'e + 'p"
    and owed :: "'p \<Rightarrow> nat \<Rightarrow> nat"
  assumes release_owed:
    "0 < owed p i \<Longrightarrow> \<exists>q. release i p = Inr q \<and> owed q = (owed p)(i := owed p i - 1)"
begin

lemma release_list:
  assumes "\<And>i. count_list xs i \<le> owed p i"
  shows "\<exists>q. fold_err release xs p = Inr q \<and> (\<forall>i. owed q i = owed p i - count_list xs i)"
  using assms
proof (induction xs arbitrary: p)
  case (Cons x xs)
  from Cons.prems [of x] have "0 < owed p x" by simp
  then obtain q where q: "release x p = Inr q" "owed q = (owed p)(x := owed p x - 1)"
    using release_owed by blast
  have "count_list xs i \<le> owed q i" for i
    using Cons.prems [of i] q(2) by (auto split: if_splits)
  from Cons.IH [OF this] obtain r where
    "fold_err release xs q = Inr r" "\<forall>i. owed r i = owed q i - count_list xs i" by blast
  with q show ?case by auto
qed simp

lemma release_replicate:
  assumes "k \<le> owed p i"
  shows "\<exists>q. fold_err release (replicate k i) p = Inr q \<and> owed q i = owed p i - k"
proof -
  have "count_list (replicate k i) j \<le> owed p j" for j using assms by simp
  from release_list [OF this] show ?thesis by auto
qed

end

locale slot_pool = slot_release +
  fixes free :: "'p \<Rightarrow> nat \<Rightarrow> bool"
    and available :: "'p \<Rightarrow> nat"
  assumes release_free:
    "0 < owed p i \<Longrightarrow> release i p = Inr q \<Longrightarrow> free q i \<longleftrightarrow> owed p i = 1"
    and release_available:
    "0 < owed p i \<Longrightarrow> release i p = Inr q \<Longrightarrow>
       available q = available p + (if owed p i = 1 then 1 else 0)"
begin

lemma last_release_frees:
  assumes "0 < owed p i" and "\<not> free p i" and "k \<le> owed p i"
  shows "\<exists>q. fold_err release (replicate k i) p = Inr q \<and> (free q i \<longleftrightarrow> k = owed p i) \<and>
           available q = available p + (if k = owed p i then 1 else 0)"
  using assms
proof (induction k arbitrary: p)
  case (Suc k)
  from Suc.prems obtain q where q: "release i p = Inr q" "owed q = (owed p)(i := owed p i - 1)"
    using release_owed by blast
  note fq = release_free [OF Suc.prems(1) q(1)] release_available [OF Suc.prems(1) q(1)]
  show ?case
  proof (cases "owed p i = 1")
    case True
    with Suc.prems q fq show ?thesis by simp
  next
    case False
    with Suc.prems q fq have "0 < owed q i" "\<not> free q i" "k \<le> owed q i" by simp_all
    from Suc.IH [OF this] obtain r where
      "fold_err release (replicate k i) q = Inr r" "free r i \<longleftrightarrow> k = owed q i"
      "available r = available q + (if k = owed q i then 1 else 0)" by blast
    moreover have "k = owed q i \<longleftrightarrow> Suc k = owed p i" using q(2) Suc.prems(1) by auto
    ultimately show ?thesis using q fq False by simp
  qed
qed simp

end

end
