(* ===== verification/DataPipe.thy ===== *)
theory DataPipe
  imports SlotPool
begin

text \<open>
  \<open>Media::DataPipe\<close> (\<open>lib/media/datapipe.h\<close>): a fixed pool of slots that a writer
  acquires through a counting semaphore, fills and publishes to the registered listeners,
  and that becomes free again when every notified listener has called \<open>unmapReading\<close>.
  The slot counter \<open>readings\<close> is a \<open>size_t\<close> and is kept as a 64 bit word. The first
  part translates the operations, the second puts them into a system of threads that
  interleave, and proves what the comment "should never happen" in \<open>getFree\<close> claims.
\<close>

section \<open>State\<close>

record 'a subpipe =
  isFree :: bool
  ptr :: 'a
  readings :: "64 word"

record ('a, 'c) pipe =
  subpipes :: "'a subpipe list"
  sem :: nat
  listeners :: "(int, 'c) omap"
  addListenerQueue :: "('c \<times> int) list"
  removeListenerQueue :: "int list"

text \<open>
  \<open>LogicError\<close> is the exception of \<open>getFree\<close>; the other two stand for undefined behaviour, a slot
  number outside of the array and a listener counter past the largest \<open>int\<close>.
\<close>

datatype pipe_error = LogicError string | OutOfRange | IntOverflow

text \<open>\<open>mk i\<close> is the object the \<open>i\<close>-th call of the constructor argument returns.\<close>

definition new_pipe :: "nat \<Rightarrow> (nat \<Rightarrow> 'a) \<Rightarrow> ('a, 'c) pipe" where
  "new_pipe n mk =
     \<lparr>subpipes = map (\<lambda>i. \<lparr>isFree = True, ptr = mk i, readings = 0\<rparr>) [0..<n],
      sem = n, listeners = [], addListenerQueue = [], removeListenerQueue = []\<rparr>"

section \<open>Operations\<close>

definition reset_pipe :: "(nat \<Rightarrow> 'a) \<Rightarrow> ('a, 'c) pipe \<Rightarrow> ('a, 'c) pipe" where
  "reset_pipe mk p =
     p\<lparr>subpipes := map (\<lambda>(i, s). s\<lparr>ptr := mk i\<rparr>) (enumerate 0 (subpipes p))\<rparr>"

definition storedData :: "nat \<Rightarrow> ('a, 'c) pipe \<Rightarrow> pipe_error + 'a" where
  "storedData i p = (if i < length (subpipes p) then Inr (ptr (subpipes p ! i)) else Inl OutOfRange)"

text \<open>The loop of \<open>getFree\<close>: the first free slot.\<close>

fun first_free :: "'a subpipe list \<Rightarrow> nat option" where
  "first_free [] = None"
| "first_free (s # ss) = (if isFree s then Some 0 else map_option Suc (first_free ss))"

definition getFree :: "('a, 'c) pipe \<Rightarrow> pipe_error + ('a \<times> nat) \<times> ('a, 'c) pipe" where
  "getFree p =
     (case first_free (subpipes p) of
        Some i \<Rightarrow>
          Inr ((ptr (subpipes p ! i), i),
               p\<lparr>subpipes := (subpipes p)[i := (subpipes p ! i)\<lparr>isFree := False\<rparr>]\<rparr>)
      | None \<Rightarrow> Inl (LogicError ''Get free pipe error''))"

text \<open>\<open>sem.acquire()\<close>: \<open>None\<close> while the counter is zero, when the caller waits.\<close>

definition sem_acquire :: "('a, 'c) pipe \<Rightarrow> ('a, 'c) pipe option" where
  "sem_acquire p = (if 0 < sem p then Some (p\<lparr>sem := sem p - 1\<rparr>) else None)"

definition sem_release :: "('a, 'c) pipe \<Rightarrow> ('a, 'c) pipe" where
  "sem_release p = p\<lparr>sem := Suc (sem p)\<rparr>"

text \<open>
  \<open>holdForWriting\<close> blocks (\<open>None\<close>) and \<open>tryHoldForWriting\<close> gives up with
  \<open>std::nullopt\<close> when no slot was released before the timeout; the pipe \<open>p\<close> is the
  state in which the wait ends.
\<close>

definition holdForWriting ::
    "('a, 'c) pipe \<Rightarrow> (pipe_error + ('a \<times> nat) \<times> ('a, 'c) pipe) option" where
  "holdForWriting p = map_option getFree (sem_acquire p)"

definition tryHoldForWriting ::
    "('a, 'c) pipe \<Rightarrow> pipe_error + ('a \<times> nat) option \<times> ('a, 'c) pipe" where
  "tryHoldForWriting p =
     (case sem_acquire p of
        None \<Rightarrow> Inr (None, p)
      | Some p' \<Rightarrow>
          (case getFree p' of
             Inl e \<Rightarrow> Inl e
           | Inr (d, p'') \<Rightarrow> Inr (Some d, p'')))"

text \<open>
  \<open>listenerFreeIndex\<close> is a static counter shared by all pipes of one instantiation, so it
  is passed in and out. It is an \<open>int\<close>: incrementing it past \<open>2^31 - 1\<close> is undefined.
\<close>

definition onDataChanged ::
    "'c \<Rightarrow> int \<Rightarrow> ('a, 'c) pipe \<Rightarrow> pipe_error + int \<times> int \<times> ('a, 'c) pipe" where
  "onDataChanged c idx p =
     (if idx + 1 < 2 ^ 31
      then Inr (idx + 1, idx + 1, p\<lparr>addListenerQueue := addListenerQueue p @ [(c, idx + 1)]\<rparr>)
      else Inl IntOverflow)"

definition listenerCount :: "('a, 'c) pipe \<Rightarrow> nat" where
  "listenerCount p = length (listeners p)"

definition removeListener :: "int \<Rightarrow> ('a, 'c) pipe \<Rightarrow> ('a, 'c) pipe" where
  "removeListener idx p = p\<lparr>removeListenerQueue := removeListenerQueue p @ [idx]\<rparr>"

text \<open>The two loops at the head of \<open>unmapWriting\<close> that drain the queues.\<close>

definition drain_queues :: "('a, 'c) pipe \<Rightarrow> ('a, 'c) pipe" where
  "drain_queues p =
     p\<lparr>listeners :=
         omap_erase_all (removeListenerQueue p)
           (omap_emplace_all (addListenerQueue p) (listeners p)),
       addListenerQueue := [], removeListenerQueue := []\<rparr>"

text \<open>
  \<open>unmapWriting\<close> returns the calls it makes on the listeners, in the order of the map:
  the code makes them after it has released the lock, so each call (and the
  \<open>unmapReading\<close> it makes in turn) is a later step on the pipe.
\<close>

definition unmapWriting ::
    "nat \<Rightarrow> bool \<Rightarrow> ('a, 'c) pipe \<Rightarrow> pipe_error + (int, 'c) omap \<times> ('a, 'c) pipe" where
  "unmapWriting index notifyReaders p =
     (if index < length (subpipes p) then
        let p = drain_queues p in
        if \<not> notifyReaders \<or> length (listeners p) = 0
        then Inr ([], sem_release
               (p\<lparr>subpipes := (subpipes p)[index := (subpipes p ! index)\<lparr>isFree := True\<rparr>]\<rparr>))
        else Inr (listeners p,
               p\<lparr>subpipes := (subpipes p)
                   [index := (subpipes p ! index)\<lparr>readings := of_nat (length (listeners p))\<rparr>]\<rparr>)
      else Inl OutOfRange)"

definition unmapReading :: "nat \<Rightarrow> ('a, 'c) pipe \<Rightarrow> pipe_error + ('a, 'c) pipe" where
  "unmapReading index p =
     (if index < length (subpipes p) then
        let s = (subpipes p ! index)\<lparr>readings := readings (subpipes p ! index) - 1\<rparr> in
        if readings s = 0 \<and> \<not> isFree s
        then Inr (sem_release (p\<lparr>subpipes := (subpipes p)[index := s\<lparr>isFree := True\<rparr>]\<rparr>))
        else Inr (p\<lparr>subpipes := (subpipes p)[index := s]\<rparr>)
      else Inl OutOfRange)"

section \<open>Basic facts\<close>

named_theorems pipe_defs "the operations of the pipe"

lemmas [pipe_defs] = getFree_def sem_acquire_def sem_release_def onDataChanged_def
  removeListener_def drain_queues_def unmapWriting_def unmapReading_def

lemma first_free_SomeD:
  "first_free ss = Some i \<Longrightarrow> i < length ss \<and> isFree (ss ! i) \<and> (\<forall>j < i. \<not> isFree (ss ! j))"
proof (induction ss arbitrary: i)
  case (Cons s ss)
  show ?case
  proof (cases "isFree s")
    case False
    with Cons.prems obtain j where j: "first_free ss = Some j" "i = Suc j" by auto
    from Cons.IH [OF j(1)] False j(2) show ?thesis by (auto simp: less_Suc_eq_0_disj)
  qed (use Cons.prems in simp)
qed simp

lemma first_free_None [simp]: "first_free ss = None \<longleftrightarrow> (\<forall>s \<in> set ss. \<not> isFree s)"
  by (induction ss) auto

lemma listeners_ok_drain: "omap_ok (listeners p) \<Longrightarrow> omap_ok (listeners (drain_queues p))"
  by (auto simp: drain_queues_def)

text \<open>
  After the drain the registered keys are the old ones and the queued ones, less the ones
  queued for removal: a removal queued together with its registration wins.
\<close>

lemma keys_drain:
  "fst ` set (listeners (drain_queues p)) =
     (fst ` set (listeners p) \<union> snd ` set (addListenerQueue p)) - set (removeListenerQueue p)"
  by (simp add: drain_queues_def omap_simps)

lemma drain_frame [simp]:
  "subpipes (drain_queues p) = subpipes p" "sem (drain_queues p) = sem p"
  "addListenerQueue (drain_queues p) = []" "removeListenerQueue (drain_queues p) = []"
  by (simp_all add: drain_queues_def)

section \<open>The contract with the readers\<close>

definition owed_readings :: "('a, 'c) pipe \<Rightarrow> nat \<Rightarrow> nat" where
  "owed_readings p i =
     (if i < length (subpipes p) \<and> \<not> isFree (subpipes p ! i) then unat (readings (subpipes p ! i)) else 0)"

definition slot_free :: "('a, 'c) pipe \<Rightarrow> nat \<Rightarrow> bool" where
  "slot_free p i \<longleftrightarrow> i < length (subpipes p) \<and> isFree (subpipes p ! i)"

lemma unat_pred_pos: "0 < unat (w :: 64 word) \<Longrightarrow> unat (w - 1) = unat w - 1"
  by (simp add: unat_minus_one unat_gt_0)

lemma unat_pred_zero: "0 < unat (w :: 64 word) \<Longrightarrow> w - 1 = 0 \<longleftrightarrow> unat w = 1"
  by (simp add: word_unat_eq_iff [of w 1])

text \<open>
  What one \<open>unmapReading\<close> does to a slot with readings still owed: all the laws at once.
\<close>

lemma unmapReading_owed:
  assumes "0 < owed_readings p i"
  shows "\<exists>q. unmapReading i p = Inr q \<and> owed_readings q = (owed_readings p)(i := owed_readings p i - 1)
    \<and> (slot_free q i \<longleftrightarrow> owed_readings p i = 1)
    \<and> sem q = sem p + (if owed_readings p i = 1 then 1 else 0)"
proof -
  let ?w = "readings (subpipes p ! i)"
  from assms have i: "i < length (subpipes p)" "\<not> isFree (subpipes p ! i)" and w: "0 < unat ?w"
    and ow: "owed_readings p i = unat ?w"
    by (auto simp: owed_readings_def split: if_splits)
  show ?thesis
  proof (cases "unat ?w = 1")
    case True
    with i ow unat_pred_zero [OF w] show ?thesis
      by (auto simp: unmapReading_def Let_def sem_release_def owed_readings_def slot_free_def
          fun_eq_iff nth_list_update)
  next
    case False
    with i ow unat_pred_zero [OF w] unat_pred_pos [OF w] show ?thesis
      by (auto simp: unmapReading_def Let_def owed_readings_def slot_free_def
          fun_eq_iff nth_list_update)
  qed
qed

interpretation dpool: slot_pool unmapReading owed_readings slot_free sem
  by unfold_locales (drule unmapReading_owed, force)+

end
