(* ===== verification/Capture.thy ===== *)
theory Capture
  imports DataPipe
begin

text \<open>
  The capture threads: \<open>Camera::threadFunc\<close> (\<open>lib/media/camerainput.cpp\<close>) and
  \<open>Microphone::threadFunc\<close> (\<open>lib/media/microphoneinput.cpp\<close>). FFmpeg's \<open>av_read_frame\<close>
  is the argument that says, per iteration, whether the read failed. The two loops differ in
  what they do then, and only one of them keeps the pipe's books balanced.
\<close>

datatype loop_control = Again | Return

text \<open>
  One iteration of the camera loop. After a failed read the slot is unmapped without notice
  and the code falls through to the second \<open>unmapWriting\<close>.
\<close>

definition camera_iteration ::
    "bool \<Rightarrow> ('a, 'c) pipe \<Rightarrow> pipe_error + loop_control \<times> (int, 'c) omap \<times> ('a, 'c) pipe" where
  "camera_iteration failed out =
     (case tryHoldForWriting out of
        Inl e \<Rightarrow> Inl e
      | Inr (None, out) \<Rightarrow> Inr (Return, [], out)
      | Inr (Some (packet, subpipe), out) \<Rightarrow>
          (case (if failed then map_sum id snd (unmapWriting subpipe False out) else Inr out) of
             Inl e \<Rightarrow> Inl e
           | Inr out \<Rightarrow>
               (case unmapWriting subpipe True out of
                  Inl e \<Rightarrow> Inl e
                | Inr (ns, out) \<Rightarrow> Inr (Again, ns, out))))"

definition microphone_iteration ::
    "bool \<Rightarrow> ('a, 'c) pipe \<Rightarrow> pipe_error + loop_control \<times> (int, 'c) omap \<times> ('a, 'c) pipe" where
  "microphone_iteration failed out =
     (case tryHoldForWriting out of
        Inl e \<Rightarrow> Inl e
      | Inr (None, out) \<Rightarrow> Inr (Return, [], out)
      | Inr (Some (packet, subpipe), out) \<Rightarrow>
          (if failed
           then (case unmapWriting subpipe False out of
                   Inl e \<Rightarrow> Inl e
                 | Inr (ns, out) \<Rightarrow> Inr (Return, ns, out))
           else (case unmapWriting subpipe True out of
                   Inl e \<Rightarrow> Inl e
                 | Inr (ns, out) \<Rightarrow> Inr (Again, ns, out))))"

text \<open>
  The loops: one entry of the list per iteration that finds \<open>active\<close> set, \<open>True\<close> where the
  read fails; the list ends when \<open>active\<close> is cleared. What the notified listeners do to the
  pipe between two iterations is the argument \<open>env\<close>.
\<close>

fun capture_loop ::
    "(bool \<Rightarrow> 'p \<Rightarrow> 'e + loop_control \<times> 'n \<times> 'p) \<Rightarrow> ('n \<Rightarrow> 'p \<Rightarrow> 'p) \<Rightarrow> bool list \<Rightarrow> 'p \<Rightarrow> 'e + 'p" where
  "capture_loop iter env [] out = Inr out"
| "capture_loop iter env (failed # rest) out =
     (case iter failed out of
        Inl e \<Rightarrow> Inl e
      | Inr (Return, ns, out) \<Rightarrow> Inr (env ns out)
      | Inr (Again, ns, out) \<Rightarrow> capture_loop iter env rest (env ns out))"

definition camera_threadFunc where
  "camera_threadFunc = capture_loop camera_iteration"

definition microphone_threadFunc where
  "microphone_threadFunc = capture_loop microphone_iteration"

section \<open>Balance of the semaphore\<close>

definition taken :: "('a, 'c) pipe \<Rightarrow> nat" where
  "taken p = length (filter (\<lambda>s. \<not> isFree s) (subpipes p))"

definition balanced :: "('a, 'c) pipe \<Rightarrow> bool" where
  "balanced p \<longleftrightarrow> sem p + taken p = length (subpipes p)"

lemma filter_update_length:
  "i < length xs \<Longrightarrow>
     length (filter P (xs[i := y])) + (if P (xs ! i) then 1 else 0) =
     length (filter P xs) + (if P y then 1 else 0)"
proof (induction xs arbitrary: i)
  case (Cons a xs)
  then show ?case by (cases i) (auto split: if_splits)
qed simp

lemma taken_le: "taken p \<le> length (subpipes p)"
  by (simp add: taken_def)

lemma all_taken: "\<forall>s \<in> set (subpipes p). \<not> isFree s \<Longrightarrow> taken p = length (subpipes p)"
  by (simp add: taken_def)

text \<open>A balanced pipe with a positive counter hands out a slot, and stays balanced.\<close>

lemma tryHold_balanced:
  assumes "balanced p" and "tryHoldForWriting p = r"
  shows "(sem p = 0 \<and> r = Inr (None, p)) \<or>
    (\<exists>d i q. r = Inr (Some (d, i), q) \<and> i < length (subpipes p) \<and> isFree (subpipes p ! i) \<and>
       subpipes q = (subpipes p)[i := (subpipes p ! i)\<lparr>isFree := False\<rparr>] \<and>
       Suc (sem q) = sem p \<and> balanced q)"
proof (cases "sem p = 0")
  case True
  with assms(2) show ?thesis by (simp add: tryHoldForWriting_def sem_acquire_def)
next
  case False
  with assms(1) have "taken p \<noteq> length (subpipes p)" by (auto simp: balanced_def)
  then obtain i where i: "first_free (subpipes p) = Some i"
    using all_taken [of p] by (metis first_free_None option.exhaust)
  note f = first_free_SomeD [OF i]
  have "taken (p\<lparr>subpipes := (subpipes p)[i := (subpipes p ! i)\<lparr>isFree := False\<rparr>]\<rparr>) = Suc (taken p)"
    using filter_update_length [of i "subpipes p" "\<lambda>s. \<not> isFree s" "(subpipes p ! i)\<lparr>isFree := False\<rparr>"] f
    by (simp add: taken_def)
  with False assms f i show ?thesis
    by (auto simp: tryHoldForWriting_def sem_acquire_def getFree_def balanced_def taken_def)
qed

lemma unmapWriting_taken:
  assumes "balanced p" and "i < length (subpipes p)" and "\<not> isFree (subpipes p ! i)"
    and "unmapWriting i b p = Inr (ns, q)"
  shows "balanced q" and "length (subpipes q) = length (subpipes p)"
    and "(\<not> b \<or> listeners (drain_queues p) = []) \<Longrightarrow> isFree (subpipes q ! i) \<and> ns = [] \<and> sem q = Suc (sem p)"
proof -
  have f: "length (filter (\<lambda>s. \<not> isFree s) ((subpipes p)[i := s'])) + 1 =
      taken p + (if isFree s' then 0 else 1)" for s'
    using filter_update_length [of i "subpipes p" "\<lambda>s. \<not> isFree s" s'] assms(2,3)
    by (simp add: taken_def)
  show "balanced q" "length (subpipes q) = length (subpipes p)"
    using assms f [of "(subpipes p ! i)\<lparr>isFree := True\<rparr>"]
      f [of "(subpipes p ! i)\<lparr>readings := of_nat (length (listeners (drain_queues p)))\<rparr>"]
    by (auto simp: unmapWriting_def Let_def sem_release_def balanced_def taken_def split: if_splits)
  show "(\<not> b \<or> listeners (drain_queues p) = []) \<Longrightarrow> isFree (subpipes q ! i) \<and> ns = [] \<and> sem q = Suc (sem p)"
    using assms by (auto simp: unmapWriting_def Let_def sem_release_def split: if_splits)
qed


section \<open>The two loops\<close>

lemma hold_then_unmap:
  assumes "balanced p" and "0 < sem p"
  obtains d i q where "tryHoldForWriting p = Inr (Some (d, i), q)" "balanced q"
    "i < length (subpipes p)" "length (subpipes q) = length (subpipes p)" "\<not> isFree (subpipes q ! i)"
    "listeners (drain_queues q) = listeners (drain_queues p)"
proof -
  from tryHold_balanced [OF assms(1) refl] assms(2)
  obtain d i q where h: "tryHoldForWriting p = Inr (Some (d, i), q)" "i < length (subpipes p)"
    "subpipes q = (subpipes p)[i := (subpipes p ! i)\<lparr>isFree := False\<rparr>]" "balanced q"
    by auto
  from h(1) have "listeners q = listeners p" "addListenerQueue q = addListenerQueue p"
    "removeListenerQueue q = removeListenerQueue p"
    by (auto simp: tryHoldForWriting_def sem_acquire_def getFree_def split: if_splits option.splits)
  then have d: "listeners (drain_queues q) = listeners (drain_queues p)"
    by (simp add: drain_queues_def)
  show ?thesis by (rule that [OF h(1,4,2) _ _ d]) (use h(2,3) in simp_all)
qed

lemma tryHold_empty: "sem p = 0 \<Longrightarrow> tryHoldForWriting p = Inr (None, p)"
  by (simp add: tryHoldForWriting_def sem_acquire_def)

lemma unmapWriting_in_range:
  "i < length (subpipes p) \<Longrightarrow> \<exists>ns q. unmapWriting i b p = Inr (ns, q)"
  by (simp add: unmapWriting_def Let_def)

lemma microphone_iteration_balanced:
  assumes "balanced p"
  shows "\<exists>c ns q. microphone_iteration failed p = Inr (c, ns, q) \<and> balanced q \<and>
           length (subpipes q) = length (subpipes p)"
proof (cases "sem p = 0")
  case True
  with assms show ?thesis by (simp add: microphone_iteration_def tryHold_empty)
next
  case False
  with assms obtain d i q where h: "tryHoldForWriting p = Inr (Some (d, i), q)" "balanced q"
    "i < length (subpipes p)" "length (subpipes q) = length (subpipes p)" "\<not> isFree (subpipes q ! i)"
    by (meson hold_then_unmap gr0I)
  obtain ns r where u: "unmapWriting i (\<not> failed) q = Inr (ns, r)"
    using h(3,4) by (metis unmapWriting_in_range)
  from unmapWriting_taken(1,2) [OF h(2) _ h(5) u] h(1,3,4) u show ?thesis
    by (cases failed) (simp_all add: microphone_iteration_def)
qed

lemma camera_iteration_balanced:
  assumes "balanced p"
  shows "\<exists>c ns q. camera_iteration False p = Inr (c, ns, q) \<and> balanced q \<and>
           length (subpipes q) = length (subpipes p)"
proof (cases "sem p = 0")
  case True
  with assms show ?thesis by (simp add: camera_iteration_def tryHold_empty)
next
  case False
  with assms obtain d i q where h: "tryHoldForWriting p = Inr (Some (d, i), q)" "balanced q"
    "i < length (subpipes p)" "length (subpipes q) = length (subpipes p)" "\<not> isFree (subpipes q ! i)"
    by (meson hold_then_unmap gr0I)
  obtain ns r where u: "unmapWriting i True q = Inr (ns, r)"
    using h(3,4) by (metis unmapWriting_in_range)
  from unmapWriting_taken(1,2) [OF h(2) _ h(5) u] h(1,3,4) u show ?thesis
    by (simp add: camera_iteration_def)
qed

lemma capture_loop_invariant:
  assumes step: "\<And>f p. I p \<Longrightarrow> f \<in> set fs \<Longrightarrow> \<exists>c ns q. iter f p = Inr (c, ns, q) \<and> I q"
    and env: "\<And>ns p. I p \<Longrightarrow> I (env ns p)" and "I p"
  shows "\<exists>q. capture_loop iter env fs p = Inr q \<and> I q"
  using assms(3) step
proof (induction fs arbitrary: p)
  case (Cons f fs)
  from Cons.prems obtain c ns q where s: "iter f p = Inr (c, ns, q)" "I q"
    by (meson list.set_intros(1))
  show ?case
  proof (cases c)
    case Again
    have "\<exists>r. capture_loop iter env fs (env ns q) = Inr r \<and> I r"
      by (rule Cons.IH [OF env [OF s(2)] Cons.prems(2)]) simp_all
    with s Again show ?thesis by simp
  next
    case Return
    with s env show ?thesis by auto
  qed
qed simp

text \<open>
  The microphone thread keeps the pipe's books: whatever reads fail and in
  whatever way the listeners change the pipe between two iterations, as long as they keep it
  balanced, the loop never throws and leaves semaphore plus taken slots equal to the pool.
\<close>

theorem microphone_keeps_balance:
  assumes "balanced p" and "\<And>ns q. balanced q \<Longrightarrow> balanced (env ns q)"
  shows "\<exists>q. microphone_threadFunc env fails p = Inr q \<and> balanced q"
  unfolding microphone_threadFunc_def
  by (rule capture_loop_invariant) (use assms microphone_iteration_balanced in blast)+

theorem microphone_keeps_balance_witness:
  "\<exists>q. microphone_threadFunc (\<lambda>ns q. q) [False, True] (new_pipe 2 id :: (nat, nat) pipe) = Inr q \<and> balanced q"
  by (rule microphone_keeps_balance) (simp_all add: balanced_def taken_def new_pipe_def)

text \<open>
  The camera thread does the same only while every read succeeds.
\<close>

theorem camera_keeps_balance_without_errors:
  assumes "balanced p" and "\<And>ns q. balanced q \<Longrightarrow> balanced (env ns q)"
  shows "\<exists>q. camera_threadFunc env (replicate n False) p = Inr q \<and> balanced q"
  unfolding camera_threadFunc_def
  proof (rule capture_loop_invariant)
  show "\<exists>c ns q. camera_iteration f p = Inr (c, ns, q) \<and> balanced q"
    if "balanced p" "f \<in> set (replicate n False)" for f p
    using camera_iteration_balanced [OF that(1)] that(2) by (cases f) (auto split: if_splits)
qed (use assms in simp_all)

theorem camera_keeps_balance_without_errors_witness:
  "\<exists>q. camera_threadFunc (\<lambda>ns q. q) (replicate 3 False) (new_pipe 2 id :: (nat, nat) pipe) = Inr q \<and> balanced q"
  by (rule camera_keeps_balance_without_errors) (simp_all add: balanced_def taken_def new_pipe_def)

text \<open>
  A failed read of the camera unmaps its slot twice. With no listener the semaphore is
  one too high afterwards; with listeners they are all notified of a slot that is already
  marked free, while readings are recorded for it.
\<close>

theorem camera_read_error_unbalances:
  assumes "balanced p" and "0 < sem p"
  shows "\<exists>ns q. camera_iteration True p = Inr (Again, ns, q) \<and> ns = listeners (drain_queues p) \<and>
           (ns = [] \<longrightarrow> sem q + taken q = Suc (length (subpipes q))) \<and>
           (ns \<noteq> [] \<longrightarrow> (\<exists>i < length (subpipes q).
              isFree (subpipes q ! i) \<and> readings (subpipes q ! i) = of_nat (length ns)))"
proof -
  from assms obtain d i q where h: "tryHoldForWriting p = Inr (Some (d, i), q)" "balanced q"
    "i < length (subpipes p)" "length (subpipes q) = length (subpipes p)" "\<not> isFree (subpipes q ! i)"
    "listeners (drain_queues q) = listeners (drain_queues p)"
    by (rule hold_then_unmap)
  obtain ms r where u: "unmapWriting i False q = Inr (ms, r)"
    using h(3,4) by (metis unmapWriting_in_range)
  have r: "r = sem_release ((drain_queues q)\<lparr>subpipes := (subpipes q)[i := (subpipes q ! i)\<lparr>isFree := True\<rparr>]\<rparr>)"
    using u h(3,4) by (simp add: unmapWriting_def Let_def)
  note br = unmapWriting_taken(1,2) [OF h(2) _ h(5) u]
  have i: "i < length (subpipes r)" "isFree (subpipes r ! i)"
    using r h(3,4) by (simp_all add: sem_release_def)
  have l: "listeners (drain_queues r) = listeners (drain_queues p)"
    using r h(6) by (simp add: sem_release_def drain_queues_def omap_emplace_all_def omap_erase_all_def)
  have t: "(subpipes r)[i := (subpipes r ! i)\<lparr>isFree := True\<rparr>] = subpipes r"
    using i by (simp add: list_update_same_conv)
  show ?thesis
    using h(1,3,4) u i l t br
    by (cases "listeners (drain_queues p) = []")
      (simp_all add: camera_iteration_def unmapWriting_def [of i True] Let_def sem_release_def
        balanced_def taken_def, force)
qed

theorem camera_read_error_unbalances_witness:
  "\<exists>ns q. camera_iteration True (new_pipe 1 id :: (nat, nat) pipe) = Inr (Again, ns, q) \<and>
     ns = listeners (drain_queues (new_pipe 1 id :: (nat, nat) pipe)) \<and>
     (ns = [] \<longrightarrow> sem q + taken q = Suc (length (subpipes q))) \<and>
     (ns \<noteq> [] \<longrightarrow> (\<exists>i < length (subpipes q).
        isFree (subpipes q ! i) \<and> readings (subpipes q ! i) = of_nat (length ns)))"
  by (rule camera_read_error_unbalances) (simp_all add: balanced_def taken_def new_pipe_def)

end
