(* ===== verification/MediaSources.thy ===== *)
theory MediaSources
  imports Prelude
begin

text \<open>
  The sources of the local streams: \<open>Camera\<close> and \<open>Microphone\<close> (\<open>lib/media/camerainput.cpp\<close>,
  \<open>lib/media/microphoneinput.cpp\<close>), which open a device and run the capture thread, and the pipelines over them
  (\<open>lib/media/pipelines.cpp\<close>), which the views and the call controller open and close. The capture threads
  themselves are in the theory of the capture loops. What FFmpeg finds when a device is opened, and whether it decodes it,
  is an argument.
\<close>

section \<open>Devices\<close>

text \<open>
  \<open>cd_thread\<close>: the thread object is joinable; \<open>cd_ctx\<close>: the format context is set. A stream is a flag, whether it is
  of the wanted type, and its parameters; the second argument of \<open>Streams\<close>: a decoder for the stream that is used is found, allocated and
  opened.
\<close>

record capture =
  cd_device :: string
  cd_active :: bool
  cd_thread :: bool
  cd_ctx :: bool

datatype 'c probe = InputFails | InfoFails | Streams "(bool \<times> 'c) list" bool

definition new_capture :: "string \<Rightarrow> capture" where
  "new_capture dev = \<lparr>cd_device = dev, cd_active = False, cd_thread = False, cd_ctx = False\<rparr>"

fun find_stream :: "(bool \<times> 'c) list \<Rightarrow> 'c option" where
  "find_stream [] = None"
| "find_stream ((wanted, par) # ss) = (if wanted then Some par else find_stream ss)"

text \<open>
  \<open>availableDevices\<close>: \<open>platform\<close>, whether the device API of the platform is found, and the list FFmpeg fills in, null when it
  fails: of each device the description and of each of its media types whether it is the wanted one. The loops list a device once for
  each such type. Only the microphone looks at the null pointer.
\<close>

fun wanted_types :: "string \<Rightarrow> bool list \<Rightarrow> string list" where
  "wanted_types desc [] = []"
| "wanted_types desc (t # ts) = (if t then desc # wanted_types desc ts else wanted_types desc ts)"

fun listed_devices :: "(string \<times> bool list) list \<Rightarrow> string list" where
  "listed_devices [] = []"
| "listed_devices ((desc, types) # ds) = wanted_types desc types @ listed_devices ds"

definition camera_devices :: "bool \<Rightarrow> (string \<times> bool list) list option \<Rightarrow> string list option" where
  "camera_devices platform dlist = (if \<not> platform then Some [] else map_option listed_devices dlist)"

definition microphone_devices :: "bool \<Rightarrow> (string \<times> bool list) list option \<Rightarrow> string list" where
  "microphone_devices platform dlist =
     (if \<not> platform then [] else case dlist of None \<Rightarrow> [] | Some ds \<Rightarrow> listed_devices ds)"

text \<open>The result of \<open>open\<close>: the name of the device and the parameters of its first stream of the type.\<close>

definition camera_open :: "'c probe \<Rightarrow> capture \<Rightarrow> (string \<times> 'c) option \<times> capture" where
  "camera_open r c =
     (if cd_active c then (None, c)
      else case r of
             InputFails \<Rightarrow> (None, c\<lparr>cd_ctx := False\<rparr>)
           | InfoFails \<Rightarrow> (None, c\<lparr>cd_ctx := False\<rparr>)
           | Streams ss found \<Rightarrow>
               (case find_stream ss of
                  None \<Rightarrow> (None, c\<lparr>cd_ctx := False\<rparr>)
                | Some par \<Rightarrow> (Some (cd_device c, par), c\<lparr>cd_active := True, cd_thread := True, cd_ctx := True\<rparr>)))"

text \<open>
  \<open>Microphone::isOpened\<close> is always false. Assigning to a joinable thread ends the program: \<open>None\<close>.
\<close>

definition microphone_open :: "'c probe \<Rightarrow> capture \<Rightarrow> ((string \<times> 'c) option \<times> capture) option" where
  "microphone_open r c =
     (case r of
        InputFails \<Rightarrow> Some (None, c\<lparr>cd_ctx := False\<rparr>)
      | InfoFails \<Rightarrow> Some (None, c\<lparr>cd_ctx := False\<rparr>)
      | Streams ss found \<Rightarrow>
          (case find_stream ss of
             None \<Rightarrow> Some (None, c\<lparr>cd_ctx := False\<rparr>)
           | Some par \<Rightarrow>
               (if cd_thread c then None
                else Some (Some (cd_device c, par), c\<lparr>cd_active := True, cd_thread := True, cd_ctx := True\<rparr>))))"

definition camera_close :: "capture \<Rightarrow> capture" where
  "camera_close c = c\<lparr>cd_active := False, cd_thread := False, cd_ctx := False\<rparr>"

definition microphone_close :: "capture \<Rightarrow> capture" where
  "microphone_close c = c\<lparr>cd_active := False, cd_thread := False, cd_ctx := False\<rparr>"

lemma listed_devices_set: "set (listed_devices ds) = {desc. \<exists>types. (desc, types) \<in> set ds \<and> True \<in> set types}"
proof -
  have "set (wanted_types desc types) = (if True \<in> set types then {desc} else {})" for desc types
    by (induction types) auto
  then show ?thesis by (induction ds rule: listed_devices.induct) auto
qed

lemma devices_agree:
  "camera_devices platform dlist = (if platform \<and> dlist = None then None else Some (microphone_devices platform dlist))"
  by (simp add: camera_devices_def microphone_devices_def split: option.split)

section \<open>Pipelines\<close>

text \<open>
  \<open>pl_decoder\<close> is the decoder: the number of its frame pipe, a null pointer when its constructor gave up, and whether it runs. A future is a number; \<open>pl_results\<close> is
  what the futures hold.
\<close>

record 'c pipeline =
  pl_dev :: string
  pl_source :: "capture option"
  pl_decoder :: "(nat option \<times> bool) option"
  pl_fresh :: nat
  pl_isOpen :: bool
  pl_opening :: "nat option"
  pl_next :: nat
  pl_results :: "nat \<Rightarrow> (string + string \<times> 'c) option"
  pl_deviceChanges :: nat

definition unknownDevice :: string where
  "unknownDevice = ''unknown''"

definition new_pipeline :: "nat \<Rightarrow> 'c pipeline" where
  "new_pipeline a =
     \<lparr>pl_dev = unknownDevice, pl_source = None, pl_decoder = None, pl_fresh = a, pl_isOpen = False, pl_opening = None,
      pl_next = 0, pl_results = Map.empty, pl_deviceChanges = 0\<rparr>"

definition setCurrentDevice :: "string \<Rightarrow> 'c pipeline \<Rightarrow> 'c pipeline" where
  "setCurrentDevice dev p =
     (if dev = pl_dev p then p else p\<lparr>pl_dev := dev, pl_deviceChanges := Suc (pl_deviceChanges p)\<rparr>)"

text \<open>\<open>frameOutput\<close> goes through the decoder, which is null before the first opening; the pipe it returns may be null too.\<close>

definition frameOutput :: "'c pipeline \<Rightarrow> nat option option" where
  "frameOutput p = map_option fst (pl_decoder p)"

text \<open>
  \<open>open\<close> in the caller's thread: without an opening future a worker is started, then its future is stored, then the
  stored future is returned; \<open>None\<close> is the exception of an empty optional. The worker runs in another thread, and
  may end before the future is stored.
\<close>

definition spawn_open :: "'c pipeline \<Rightarrow> nat option \<times> 'c pipeline" where
  "spawn_open p =
     (case pl_opening p of
        Some n \<Rightarrow> (None, p)
      | None \<Rightarrow> (Some (pl_next p), p\<lparr>pl_next := Suc (pl_next p)\<rparr>))"

definition assign_open :: "nat \<Rightarrow> 'c pipeline \<Rightarrow> 'c pipeline" where
  "assign_open n p = p\<lparr>pl_opening := Some n\<rparr>"

definition value_open :: "'c pipeline \<Rightarrow> nat option" where
  "value_open p = pl_opening p"

definition close_camera :: "'c pipeline \<Rightarrow> 'c pipeline" where
  "close_camera p =
     p\<lparr>pl_source := map_option camera_close (pl_source p), pl_decoder := map_option (\<lambda>(a, _). (a, False)) (pl_decoder p),
       pl_isOpen := False\<rparr>"

definition close_microphone :: "'c pipeline \<Rightarrow> 'c pipeline" where
  "close_microphone p =
     p\<lparr>pl_source := map_option microphone_close (pl_source p),
       pl_decoder := map_option (\<lambda>(a, _). (a, False)) (pl_decoder p), pl_isOpen := False\<rparr>"

text \<open>
  \<open>_decoder.reset(new Decoder(config)); _decoder->start(source->output());\<close> A decoder that is not initialized has no output, and its
  \<open>start\<close> returns false, which nobody looks at. (The output is made from the context before the context is moved into the call; the
  other order of evaluation is in the theory of the constructors.)
\<close>

definition decoder_found :: "'c probe \<Rightarrow> bool" where
  "decoder_found r = (case r of Streams ss found \<Rightarrow> found | _ \<Rightarrow> False)"

definition started_decoder :: "bool \<Rightarrow> nat \<Rightarrow> nat option \<times> bool" where
  "started_decoder initialized a = (if initialized then (Some a, True) else (None, False))"

text \<open>The body of the worker: the result, or the exception it throws.\<close>

definition camera_body :: "'c probe \<Rightarrow> 'c pipeline \<Rightarrow> (string + string \<times> 'c) \<times> 'c pipeline" where
  "camera_body r p =
     (if pl_dev p = unknownDevice then (Inl ''Device is not set'', p)
      else
        let p = (if pl_isOpen p then close_camera p else p);
            cam = (case pl_source p of None \<Rightarrow> new_capture (pl_dev p) | Some c \<Rightarrow> c)
        in case camera_open r cam of
             (None, cam) \<Rightarrow> (Inl ''Cannot open camera'', p\<lparr>pl_source := Some cam\<rparr>)
           | (Some config, cam) \<Rightarrow>
               (Inr config, p\<lparr>pl_source := Some cam, pl_decoder := Some (started_decoder (decoder_found r) (pl_fresh p)),
                              pl_fresh := Suc (pl_fresh p), pl_isOpen := True\<rparr>))"

definition microphone_body :: "'c probe \<Rightarrow> 'c pipeline \<Rightarrow> ((string + string \<times> 'c) \<times> 'c pipeline) option" where
  "microphone_body r p =
     (if pl_dev p = unknownDevice then Some (Inl ''Device is not set'', p)
      else
        let p = (if pl_isOpen p then close_microphone p else p)
        in case microphone_open r (new_capture (pl_dev p)) of
             None \<Rightarrow> None
           | Some (None, mic) \<Rightarrow> Some (Inl ''Cannot open microphone'', p)
           | Some (Some config, mic) \<Rightarrow>
               Some (Inr config, p\<lparr>pl_source := Some mic, pl_decoder := Some (started_decoder (decoder_found r) (pl_fresh p)),
                                   pl_fresh := Suc (pl_fresh p), pl_isOpen := True\<rparr>))"

text \<open>The worker clears the opening future on every way out.\<close>

definition camera_work :: "'c probe \<Rightarrow> nat \<Rightarrow> 'c pipeline \<Rightarrow> 'c pipeline" where
  "camera_work r n p =
     (case camera_body r p of
        (res, p) \<Rightarrow> p\<lparr>pl_results := (pl_results p)(n \<mapsto> res), pl_opening := None\<rparr>)"

definition microphone_work :: "'c probe \<Rightarrow> nat \<Rightarrow> 'c pipeline \<Rightarrow> 'c pipeline option" where
  "microphone_work r n p =
     map_option (\<lambda>(res, p). p\<lparr>pl_results := (pl_results p)(n \<mapsto> res), pl_opening := None\<rparr>) (microphone_body r p)"

section \<open>The test camera\<close>

definition TestDeviceName :: string where
  "TestDeviceName = ''Test''"

definition test_availableDevices :: "string list \<Rightarrow> string list" where
  "test_availableDevices cameras = TestDeviceName # cameras"

text \<open>\<open>t\<close> is the test frame pipe. With the test device nothing is started.\<close>

definition test_frameOutput :: "nat \<Rightarrow> 'c pipeline \<Rightarrow> nat option option" where
  "test_frameOutput t p = (if pl_dev p = TestDeviceName then Some (Some t) else frameOutput p)"

definition test_open :: "'c pipeline \<Rightarrow> (nat option \<times> 'c pipeline)" where
  "test_open p = (if pl_dev p = TestDeviceName then (None, p\<lparr>pl_isOpen := True\<rparr>) else spawn_open p)"

definition test_close :: "'c pipeline \<Rightarrow> 'c pipeline" where
  "test_close p = (if pl_dev p = TestDeviceName then p\<lparr>pl_isOpen := False\<rparr> else close_camera p)"

section \<open>A source in use\<close>

datatype 'c source_op = SetDevice string | Spawn | Assign nat | Work "'c probe" nat | CloseSource

fun source_do :: "bool \<Rightarrow> 'c source_op \<Rightarrow> 'c pipeline \<Rightarrow> 'c pipeline option" where
  "source_do mic (SetDevice dev) p = Some (setCurrentDevice dev p)"
| "source_do mic Spawn p = Some (snd (spawn_open p))"
| "source_do mic (Assign n) p = Some (assign_open n p)"
| "source_do mic (Work r n) p = (if mic then microphone_work r n p else Some (camera_work r n p))"
| "source_do mic CloseSource p = Some (if mic then close_microphone p else close_camera p)"

fun source_run :: "bool \<Rightarrow> 'c source_op list \<Rightarrow> 'c pipeline \<Rightarrow> 'c pipeline option" where
  "source_run mic [] p = Some p"
| "source_run mic (op # ops) p = (case source_do mic op p of None \<Rightarrow> None | Some p \<Rightarrow> source_run mic ops p)"

text \<open>Open means: the device captures, and the decoder runs if it has been initialized; closed means that neither does.\<close>

definition pipeline_ok :: "'c pipeline \<Rightarrow> bool" where
  "pipeline_ok p \<longleftrightarrow>
     (pl_isOpen p \<longleftrightarrow> (\<exists>c. pl_source p = Some c \<and> cd_active c)) \<and>
     (if pl_isOpen p then \<exists>out. pl_decoder p = Some (out, out \<noteq> None) else \<forall>out. pl_decoder p \<noteq> Some (out, True)) \<and>
     (\<forall>c. pl_source p = Some c \<longrightarrow> cd_thread c = cd_active c \<and> cd_ctx c = cd_active c)"

lemma pipeline_ok_close: "pipeline_ok (close_camera p)" "pipeline_ok (close_microphone p)"
  by (auto simp: pipeline_ok_def close_camera_def close_microphone_def camera_close_def microphone_close_def)

lemma close_flags [simp]:
  "\<not> pl_isOpen (close_camera p)" "\<not> pl_isOpen (close_microphone p)"
  "pl_fresh (close_camera p) = pl_fresh p" "pl_fresh (close_microphone p) = pl_fresh p"
  "pl_dev (close_camera p) = pl_dev p" "pl_dev (close_microphone p) = pl_dev p"
  "pl_source (close_camera p) = map_option camera_close (pl_source p)"
  by (simp_all add: close_camera_def close_microphone_def)

lemma pipeline_ok_stamp [simp]:
  "pipeline_ok (p\<lparr>pl_results := x\<rparr>) = pipeline_ok p" "pipeline_ok (p\<lparr>pl_opening := y\<rparr>) = pipeline_ok p"
  "pipeline_ok (p\<lparr>pl_next := n\<rparr>) = pipeline_ok p"
  by (simp_all add: pipeline_ok_def)

lemma camera_open_cases:
  assumes "\<not> cd_active c" and "\<not> cd_thread c" and "\<not> cd_ctx c" and "camera_open r c = (conf, c')"
  shows "cd_active c' = (conf \<noteq> None)" "cd_thread c' = (conf \<noteq> None)" "cd_ctx c' = (conf \<noteq> None)"
  using assms by (auto simp: camera_open_def split: probe.splits option.splits)

lemma microphone_open_new:
  "\<exists>conf mic. microphone_open r (new_capture dev) = Some (conf, mic) \<and>
     (conf \<noteq> None \<longrightarrow> cd_active mic \<and> cd_thread mic \<and> cd_ctx mic)"
proof (cases r)
  case (Streams ss)
  then show ?thesis by (cases "find_stream ss") (simp_all add: microphone_open_def new_capture_def)
qed (simp_all add: microphone_open_def)

lemma pipeline_ok_opened:
  "cd_active c \<and> cd_thread c \<and> cd_ctx c \<Longrightarrow>
     pipeline_ok (p\<lparr>pl_source := Some c, pl_decoder := Some (started_decoder b i), pl_fresh := j, pl_isOpen := True\<rparr>)"
  by (simp add: pipeline_ok_def started_decoder_def)

lemma pipeline_ok_camera_body:
  assumes "pipeline_ok p" and "camera_body r p = (res, p')"
  shows "pipeline_ok p'"
proof (cases "pl_dev p = unknownDevice")
  case True
  with assms show ?thesis by (simp add: camera_body_def)
next
  case False
  define q where "q = (if pl_isOpen p then close_camera p else p)"
  define cam where "cam = (case pl_source q of None \<Rightarrow> new_capture (pl_dev q) | Some c \<Rightarrow> c)"
  have q: "pipeline_ok q" "\<not> pl_isOpen q" using assms(1) pipeline_ok_close(1) by (auto simp: q_def)
  then have c: "\<not> cd_active cam" "\<not> cd_thread cam" "\<not> cd_ctx cam"
    by (auto simp: pipeline_ok_def new_capture_def cam_def split: option.split)
  obtain conf cam' where o: "camera_open r cam = (conf, cam')" by (cases "camera_open r cam")
  note co = camera_open_cases [OF c o]
  have b: "camera_body r p = (case camera_open r cam of
        (None, cam) \<Rightarrow> (Inl ''Cannot open camera'', q\<lparr>pl_source := Some cam\<rparr>)
      | (Some config, cam) \<Rightarrow> (Inr config, q\<lparr>pl_source := Some cam, pl_decoder := Some (started_decoder (decoder_found r) (pl_fresh q)),
          pl_fresh := Suc (pl_fresh q), pl_isOpen := True\<rparr>))"
    using False by (simp only: camera_body_def Let_def q_def [symmetric] cam_def [symmetric] if_False)
  show ?thesis
  proof (cases conf)
    case None
    with b o assms(2) have "p' = q\<lparr>pl_source := Some cam'\<rparr>" by simp
    with q co None show ?thesis by (auto simp: pipeline_ok_def)
  next
    case (Some config)
    with b o assms(2) have "p' = q\<lparr>pl_source := Some cam', pl_decoder := Some (started_decoder (decoder_found r) (pl_fresh q)),
        pl_fresh := Suc (pl_fresh q), pl_isOpen := True\<rparr>" by simp
    with co Some show ?thesis by (simp add: pipeline_ok_opened)
  qed
qed

lemma microphone_body_total:
  assumes "pipeline_ok p"
  shows "\<exists>res p'. microphone_body r p = Some (res, p') \<and> pipeline_ok p'"
proof (cases "pl_dev p = unknownDevice")
  case True
  with assms show ?thesis by (simp add: microphone_body_def)
next
  case False
  define q where "q = (if pl_isOpen p then close_microphone p else p)"
  have q: "pipeline_ok q" using assms by (simp add: q_def pipeline_ok_close)
  obtain conf mic where o: "microphone_open r (new_capture (pl_dev q)) = Some (conf, mic)"
    "conf \<noteq> None \<longrightarrow> cd_active mic \<and> cd_thread mic \<and> cd_ctx mic" using microphone_open_new by blast
  with False q show ?thesis
    by (cases conf) (simp_all add: microphone_body_def Let_def q_def [symmetric] pipeline_ok_opened)
qed

lemma source_do_ok:
  assumes "pipeline_ok p"
  shows "\<exists>p'. source_do mic op p = Some p' \<and> pipeline_ok p'"
proof (cases op)
  case (Work r n)
  obtain cres cp where c: "camera_body r p = (cres, cp)" by (cases "camera_body r p")
  obtain mres mp where m: "microphone_body r p = Some (mres, mp)" "pipeline_ok mp"
    using microphone_body_total [OF assms] by blast
  from pipeline_ok_camera_body [OF assms c] c m Work show ?thesis
    by (simp add: camera_work_def microphone_work_def)
next
  case Spawn
  with assms show ?thesis by (auto simp: spawn_open_def pipeline_ok_def split: option.split)
next
  case CloseSource
  then show ?thesis by (simp add: pipeline_ok_close)
qed (use assms in \<open>auto simp: setCurrentDevice_def assign_open_def pipeline_ok_def\<close>)

lemma source_run_ok:
  "source_run mic ops (new_pipeline a) = Some p \<Longrightarrow> pipeline_ok p"
proof -
  have "pipeline_ok q \<Longrightarrow> source_run mic ops q = Some p \<Longrightarrow> pipeline_ok p" for q
  proof (induction ops arbitrary: q)
    case (Cons op ops)
    from source_do_ok [OF Cons.prems(1), of mic op] Cons.prems(2) Cons.IH show ?case by auto
  qed simp
  moreover have "pipeline_ok (new_pipeline a)" by (simp add: pipeline_ok_def new_pipeline_def)
  ultimately show "source_run mic ops (new_pipeline a) = Some p \<Longrightarrow> pipeline_ok p" by blast
qed

lemma source_run_total: "pipeline_ok q \<Longrightarrow> \<exists>p. source_run mic ops q = Some p"
proof (induction ops arbitrary: q)
  case (Cons op ops)
  from source_do_ok [OF Cons.prems, of mic op] Cons.IH show ?case by auto
qed simp

lemma undecoded_source:
  "\<exists>some_ops p. source_run mic some_ops (new_pipeline a :: nat pipeline) = Some p \<and> pl_isOpen p \<and> frameOutput p = Some None"
proof -
  define ops :: "nat source_op list" where "ops = [SetDevice ''a'', Work (Streams [(True, 5)] False) 0]"
  have "case source_run mic ops (new_pipeline a) of None \<Rightarrow> False | Some p \<Rightarrow> pl_isOpen p \<and> frameOutput p = Some None"
    by (cases mic) (simp_all add: ops_def setCurrentDevice_def new_pipeline_def unknownDevice_def camera_work_def camera_body_def
        microphone_work_def microphone_body_def microphone_open_def camera_open_def new_capture_def decoder_found_def
        started_decoder_def frameOutput_def)
  then show ?thesis by (auto split: option.splits)
qed



lemma camera_body_opens:
  assumes "pipeline_ok p" and "pl_dev p \<noteq> unknownDevice" and "find_stream ss = Some par"
  shows "\<exists>p'. camera_body (Streams ss b) p =
      (Inr ((case pl_source p of None \<Rightarrow> pl_dev p | Some c \<Rightarrow> cd_device c), par), p') \<and>
    pl_isOpen p' \<and> pl_decoder p' = Some (started_decoder b (pl_fresh p))"
proof -
  define q where "q = (if pl_isOpen p then close_camera p else p)"
  have q: "pipeline_ok q" "\<not> pl_isOpen q" "pl_fresh q = pl_fresh p" "pl_dev q = pl_dev p"
    using assms(1) by (simp_all add: q_def pipeline_ok_close)
  define cam where "cam = (case pl_source q of None \<Rightarrow> new_capture (pl_dev q) | Some c \<Rightarrow> c)"
  have "\<not> cd_active cam" using q(1,2) by (auto simp: cam_def pipeline_ok_def new_capture_def split: option.split)
  moreover have "cd_device cam = (case pl_source p of None \<Rightarrow> pl_dev p | Some c \<Rightarrow> cd_device c)"
    by (simp add: cam_def q_def new_capture_def camera_close_def split: option.split)
  ultimately show ?thesis
    using assms(2,3) q(3) by (simp add: camera_body_def Let_def q_def [symmetric] cam_def [symmetric] camera_open_def
        decoder_found_def)
qed

lemma microphone_body_opens:
  assumes "pl_dev p \<noteq> unknownDevice" and "find_stream ss = Some par"
  shows "\<exists>p'. microphone_body (Streams ss b) p = Some (Inr (pl_dev p, par), p') \<and>
    pl_isOpen p' \<and> pl_decoder p' = Some (started_decoder b (pl_fresh p))"
  using assms by (simp add: microphone_body_def Let_def microphone_open_def new_capture_def decoder_found_def)

text \<open>
  Opening a source whose device has a stream of its type ends with the source open, on a new frame pipe if there is a decoder and on none
  otherwise, the opening over and its future filled with the first such stream. The microphone opens the device chosen now; the camera
  pipeline keeps its first camera, so after another device was chosen it opens the old one.
\<close>

theorem opening_a_source:
  assumes "source_run mic ops (new_pipeline a) = Some p" and "pl_opening p = None"
    and "pl_dev p \<noteq> unknownDevice" and "find_stream ss = Some par"
  shows "\<exists>n p1 p2. spawn_open p = (Some n, p1) \<and> value_open (assign_open n p1) = Some n \<and>
    source_do mic (Work (Streams ss b) n) (assign_open n p1) = Some p2 \<and>
    pl_results p2 n =
      Some (Inr (if mic then pl_dev p else case pl_source p of None \<Rightarrow> pl_dev p | Some c \<Rightarrow> cd_device c, par)) \<and>
    pl_isOpen p2 \<and> pl_opening p2 = None \<and> frameOutput p2 = Some (if b then Some (pl_fresh p) else None)"
proof -
  have ok: "pipeline_ok p" by (rule source_run_ok [OF assms(1)])
  let ?p1 = "p\<lparr>pl_next := Suc (pl_next p)\<rparr>" and ?n = "pl_next p"
  have s: "spawn_open p = (Some ?n, ?p1)" using assms(2) by (simp add: spawn_open_def)
  let ?q = "assign_open ?n ?p1"
  have ok': "pipeline_ok ?q" using ok by (simp add: assign_open_def)
  have f: "pl_dev ?q = pl_dev p" "pl_source ?q = pl_source p" "pl_fresh ?q = pl_fresh p" "value_open ?q = Some ?n"
    by (simp_all add: assign_open_def value_open_def)
  from camera_body_opens [OF ok' _ assms(4), of b, unfolded f(1-3), OF assms(3)]
    microphone_body_opens [of ?q, OF _ assms(4), of b, unfolded f(1-3), OF assms(3)]
  obtain cp mp where
    "camera_body (Streams ss b) ?q = (Inr ((case pl_source p of None \<Rightarrow> pl_dev p | Some c \<Rightarrow> cd_device c), par), cp)"
    "pl_isOpen cp" "pl_decoder cp = Some (started_decoder b (pl_fresh p))"
    "microphone_body (Streams ss b) ?q = Some (Inr (pl_dev p, par), mp)"
    "pl_isOpen mp" "pl_decoder mp = Some (started_decoder b (pl_fresh p))" by auto
  then show ?thesis
    using s f(4) by (auto simp: camera_work_def microphone_work_def frameOutput_def started_decoder_def)
qed

theorem opening_a_source_witness:
  "\<exists>n p1 p2. spawn_open (setCurrentDevice ''b'' (camera_work (Streams [(True, 5 :: nat)] True) 0
        (setCurrentDevice ''a'' (new_pipeline 3)))) = (Some n, p1) \<and> value_open (assign_open n p1) = Some n \<and>
    source_do False (Work (Streams [(False, 8), (True, 9)] True) n) (assign_open n p1) = Some p2 \<and>
    pl_results p2 n = Some (Inr (''a'', 9)) \<and> pl_isOpen p2 \<and> pl_opening p2 = None \<and> frameOutput p2 = Some (Some 4)"
  using opening_a_source [of False "[SetDevice ''a'', Work (Streams [(True, 5 :: nat)] True) 0, SetDevice ''b'']" 3
      "setCurrentDevice ''b'' (camera_work (Streams [(True, 5)] True) 0 (setCurrentDevice ''a'' (new_pipeline 3)))"
      "[(False, 8), (True, 9)]" 9 True]
  by (simp add: setCurrentDevice_def new_pipeline_def unknownDevice_def camera_work_def camera_body_def
      camera_open_def new_capture_def)

text \<open>
  The race of \<open>open\<close>: if the worker ends before the caller stores its future, the stored future is never cleared. From then on,
  whatever device is chosen and however often the source is closed, no opening starts a worker and no
  future is filled any more.
\<close>

theorem early_worker_blocks_opening:
  assumes "spawn_open p = (Some n, p1)" and "source_do mic (Work r n) p1 = Some p2"
    and "source_run mic ops (assign_open n p2) = Some p3" and "\<forall>op \<in> set ops. \<forall>r m. op \<noteq> Work r m"
  shows "fst (spawn_open p3) = None \<and> pl_results p3 = pl_results p2"
proof -
  have "pl_opening q' \<noteq> None \<and> pl_results q' = pl_results q"
    if "source_run mic ops q = Some q'" "pl_opening q \<noteq> None" "\<forall>op \<in> set ops. \<forall>r m. op \<noteq> Work r m" for q q' :: "'a pipeline"
    using that
  proof (induction ops arbitrary: q)
    case (Cons op ops)
    have "\<exists>t. source_do mic op q = Some t \<and> pl_opening t \<noteq> None \<and> pl_results t = pl_results q"
      using Cons.prems(2,3)
      by (cases op) (auto simp: setCurrentDevice_def spawn_open_def assign_open_def close_camera_def close_microphone_def)
    then obtain t where "source_do mic op q = Some t" "pl_opening t \<noteq> None" "pl_results t = pl_results q" by blast
    with Cons.IH [of t] Cons.prems(1,3) show ?case by simp
  qed simp
  from this [OF assms(3) _ assms(4)] show ?thesis by (auto simp: assign_open_def spawn_open_def split: option.split)
qed

theorem early_worker_blocks_opening_witness:
  "fst (spawn_open (close_camera (assign_open 0 (camera_work InputFails 0 (snd (spawn_open (new_pipeline 3 :: nat pipeline))))))) =
     None \<and>
   pl_results (close_camera (assign_open 0 (camera_work InputFails 0 (snd (spawn_open (new_pipeline 3 :: nat pipeline)))))) =
     pl_results (camera_work InputFails 0 (snd (spawn_open (new_pipeline 3 :: nat pipeline))))"
  by (rule early_worker_blocks_opening [of "new_pipeline 3" 0 _ False InputFails _ "[CloseSource]"])
    (simp_all add: spawn_open_def new_pipeline_def)

text \<open>Choosing the test device and closing leaves the real camera capturing.\<close>

lemma test_close_leaves_camera:
  assumes "source_run False ops (new_pipeline a) = Some p" and "pl_isOpen p"
  shows "\<exists>c. pl_source (test_close (setCurrentDevice TestDeviceName p)) = Some c \<and> cd_active c \<and>
    \<not> pl_isOpen (test_close (setCurrentDevice TestDeviceName p))"
  using source_run_ok [OF assms(1)] assms(2) by (auto simp: pipeline_ok_def test_close_def setCurrentDevice_def)

end
