(* ===== verification/SinkConnector.thy ===== *)
theory SinkConnector
  imports DataPipe
begin

text \<open>
  \<open>Media::Video::SinkConnector\<close> (\<open>lib/media/media.h\<close>, \<open>lib/media/media.cpp\<close>):
  the listener that shows the frames of a pipe on a \<open>QVideoSink\<close>. It keeps two buffers:
  the one on screen and the one the next frame goes into, and gives the slot of a frame back
  only when the frame after it is on screen. Buffers, pipes and sinks are shared objects, so
  they are addresses (\<open>nat\<close>); the heap maps a \<open>QtVideoBuffer\<close> to the frame it wraps.
\<close>

section \<open>State\<close>

record frame_data =
  buf :: nat
  pipeIndex :: "64 word"
  qframe :: "nat option"

record ('f, 'c) connector =
  current :: frame_data
  prev :: frame_data
  listenerIndex :: int
  sink :: "nat option"
  input :: "nat option"
  pipes :: "nat \<Rightarrow> ('f, 'c) pipe"
  shown :: "nat \<Rightarrow> nat option"
  buffers :: "nat \<Rightarrow> 'f option"
  next_buffer :: nat
  listenerFreeIndex :: int

datatype sink_error = PipeError pipe_error | NullSink | NullInput

definition empty_frame :: frame_data where
  "empty_frame = \<lparr>buf = 0, pipeIndex = - 1, qframe = None\<rparr>"

text \<open>The two \<open>new QtVideoBuffer()\<close> shared by the constructor and \<open>drain\<close>.\<close>

definition fresh_buffers :: "('f, 'c) connector \<Rightarrow> ('f, 'c) connector" where
  "fresh_buffers w =
     w\<lparr>current := empty_frame\<lparr>buf := next_buffer w\<rparr>,
       prev := empty_frame\<lparr>buf := Suc (next_buffer w)\<rparr>,
       buffers := (buffers w)(next_buffer w := None, Suc (next_buffer w) := None),
       next_buffer := next_buffer w + 2\<rparr>"

definition new_connector :: "(nat \<Rightarrow> ('f, 'c) pipe) \<Rightarrow> ('f, 'c) connector" where
  "new_connector ps =
     fresh_buffers \<lparr>current = empty_frame, prev = empty_frame, listenerIndex = - 1, sink = None,
       input = None, pipes = ps, shown = (\<lambda>_. None), buffers = (\<lambda>_. None), next_buffer = 0,
       listenerFreeIndex = 0\<rparr>"

section \<open>Operations\<close>

definition drain :: "('f, 'c) connector \<Rightarrow> sink_error + ('f, 'c) connector" where
  "drain w =
     (case sink w of
        None \<Rightarrow> Inl NullSink
      | Some s \<Rightarrow> Inr (fresh_buffers (w\<lparr>shown := (shown w)(s := None)\<rparr>)))"

definition close_connector :: "('f, 'c) connector \<Rightarrow> sink_error + ('f, 'c) connector" where
  "close_connector w =
     drain (case input w of
        Some a \<Rightarrow>
          (if listenerIndex w \<ge> 0
           then w\<lparr>pipes := (pipes w)(a := removeListener (listenerIndex w) (pipes w a)), input := None\<rparr>
           else w)
      | None \<Rightarrow> w)"

text \<open>\<open>me\<close> is the lambda that \<open>establish\<close> registers; its body is \<open>on_frame\<close>.\<close>

definition establish :: "'c \<Rightarrow> ('f, 'c) connector \<Rightarrow> sink_error + ('f, 'c) connector" where
  "establish me w =
     (case input w of
        None \<Rightarrow> Inl NullInput
      | Some a \<Rightarrow>
          (case onDataChanged me (listenerFreeIndex w) (pipes w a) of
             Inl e \<Rightarrow> Inl (PipeError e)
           | Inr (idx, n, p) \<Rightarrow>
               Inr (w\<lparr>listenerIndex := idx, listenerFreeIndex := n, pipes := (pipes w)(a := p)\<rparr>)))"

definition on_frame :: "'f \<Rightarrow> nat \<Rightarrow> ('f, 'c) connector \<Rightarrow> sink_error + ('f, 'c) connector" where
  "on_frame frame index w =
     (let b = buf (current w);
          cur = (current w)\<lparr>pipeIndex := of_nat index,
                  qframe := (case qframe (current w) of None \<Rightarrow> Some b | Some q \<Rightarrow> Some q)\<rparr>;
          w = w\<lparr>buffers := (buffers w)(b := Some frame)\<rparr>
      in case sink w of
           None \<Rightarrow> Inl NullSink
         | Some s \<Rightarrow>
             (let w = w\<lparr>shown := (shown w)(s := qframe cur)\<rparr>
              in if pipeIndex (prev w) \<noteq> - 1
                 then (case input w of
                         None \<Rightarrow> Inl NullInput
                       | Some a \<Rightarrow>
                           (case unmapReading (unat (pipeIndex (prev w))) (pipes w a) of
                              Inl e \<Rightarrow> Inl (PipeError e)
                            | Inr p \<Rightarrow> Inr (w\<lparr>pipes := (pipes w)(a := p), current := prev w, prev := cur\<rparr>)))
                 else Inr (w\<lparr>current := prev w, prev := cur\<rparr>)))"

definition connect_pipe ::
    "'c \<Rightarrow> nat option \<Rightarrow> ('f, 'c) connector \<Rightarrow> sink_error + ('f, 'c) connector" where
  "connect_pipe me fr w =
     (if input w = fr then Inr w
      else case (if input w \<noteq> None \<and> sink w \<noteq> None then close_connector w else Inr w) of
             Inl e \<Rightarrow> Inl e
           | Inr w \<Rightarrow>
               (let w = w\<lparr>input := fr\<rparr>
                in if input w \<noteq> None \<and> sink w \<noteq> None then establish me w else Inr w))"

definition connect_sink ::
    "'c \<Rightarrow> nat option \<Rightarrow> ('f, 'c) connector \<Rightarrow> sink_error + ('f, 'c) connector" where
  "connect_sink me s w =
     (if s = sink w then Inr w
      else case (if input w \<noteq> None \<and> sink w \<noteq> None then close_connector w else Inr w) of
             Inl e \<Rightarrow> Inl e
           | Inr w \<Rightarrow>
               (let w = w\<lparr>sink := s\<rparr>
                in if input w \<noteq> None \<and> sink w \<noteq> None then establish me w else Inr w))"

section \<open>Double buffering\<close>

definition shown_frame :: "('f, 'c) connector \<Rightarrow> 'f option" where
  "shown_frame w =
     (case sink w of None \<Rightarrow> None
      | Some s \<Rightarrow> (case shown w s of None \<Rightarrow> None | Some b \<Rightarrow> buffers w b))"

definition frame_ok :: "frame_data \<Rightarrow> bool" where
  "frame_ok d \<longleftrightarrow> qframe d = None \<or> qframe d = Some (buf d)"

definition connected :: "nat \<Rightarrow> nat \<Rightarrow> ('f, 'c) connector \<Rightarrow> bool" where
  "connected a s w \<longleftrightarrow> input w = Some a \<and> sink w = Some s \<and> buf (current w) \<noteq> buf (prev w) \<and>
     frame_ok (current w) \<and> frame_ok (prev w)"

text \<open>The slot whose frame is on screen, which has not been given back yet.\<close>

definition held :: "('f, 'c) connector \<Rightarrow> nat list" where
  "held w = (if pipeIndex (prev w) = - 1 then [] else [unat (pipeIndex (prev w))])"

lemma on_frame_connected:
  assumes "connected a s w" and "index < 2 ^ 64 - 1"
  shows "on_frame frame index w =
     (case fold_err unmapReading (held w) (pipes w a) of
        Inl e \<Rightarrow> Inl (PipeError e)
      | Inr p \<Rightarrow> Inr (w\<lparr>buffers := (buffers w)(buf (current w) := Some frame),
          shown := (shown w)(s := Some (buf (current w))), pipes := (pipes w)(a := p),
          current := prev w,
          prev := (current w)\<lparr>pipeIndex := of_nat index, qframe := Some (buf (current w))\<rparr>\<rparr>))"
proof -
  have q: "(case qframe (current w) of None \<Rightarrow> Some (buf (current w)) | Some q \<Rightarrow> Some q) =
      Some (buf (current w))"
    using assms(1) by (auto simp: connected_def frame_ok_def split: option.splits)
  show ?thesis
    using assms(1) by (simp add: on_frame_def Let_def q held_def connected_def split: sum.split)
qed

lemma of_nat_not_minus_one: "index < 2 ^ 64 - 1 \<Longrightarrow> (of_nat index :: 64 word) \<noteq> - 1"
proof
  assume i: "index < 2 ^ 64 - 1" and "(of_nat index :: 64 word) = - 1"
  then have "unat (of_nat index :: 64 word) = unat (- 1 :: 64 word)" by simp
  with i show False by (simp add: unat_of_nat unsigned_minus_1_eq_mask mask_eq_exp_minus_1)
qed

lemma on_frame_result:
  assumes "connected a s w" and "index < 2 ^ 64 - 1" and "on_frame frame index w = Inr w'"
  shows "connected a s w'" and "shown_frame w' = Some frame" and "held w' = [index]"
    and "fold_err unmapReading (held w) (pipes w a) = Inr (pipes w' a)"
    and "shown w' s \<noteq> Some (buf (current w'))"
proof -
  from assms(3) obtain p where f: "fold_err unmapReading (held w) (pipes w a) = Inr p"
    and w': "w' = w\<lparr>buffers := (buffers w)(buf (current w) := Some frame),
          shown := (shown w)(s := Some (buf (current w))), pipes := (pipes w)(a := p),
          current := prev w,
          prev := (current w)\<lparr>pipeIndex := of_nat index, qframe := Some (buf (current w))\<rparr>\<rparr>"
    unfolding on_frame_connected [OF assms(1,2)] by (auto split: sum.splits)
  show "connected a s w'" "shown_frame w' = Some frame"
    "fold_err unmapReading (held w) (pipes w a) = Inr (pipes w' a)"
    "shown w' s \<noteq> Some (buf (current w'))"
    using assms(1) f unfolding w' connected_def shown_frame_def frame_ok_def by auto
  show "held w' = [index]"
    using assms(2) of_nat_not_minus_one [OF assms(2)] unfolding w' held_def
    by (simp add: unat_of_nat)
qed

text \<open>A run of notifications, one frame and slot index after the other.\<close>

definition show_frames ::
    "('f \<times> nat) list \<Rightarrow> ('f, 'c) connector \<Rightarrow> sink_error + ('f, 'c) connector" where
  "show_frames = fold_err (\<lambda>(frame, index) w. on_frame frame index w)"

lemma show_frames_Nil [simp]: "show_frames [] w = Inr w"
  by (simp add: show_frames_def)

lemma show_frames_Cons [simp]:
  "show_frames ((f, i) # fs) w = (case on_frame f i w of Inl e \<Rightarrow> Inl e | Inr w \<Rightarrow> show_frames fs w)"
  by (simp add: show_frames_def split: sum.split)

text \<open>
  The slots given back during a run are the ones of the frames that are no longer on screen:
  all but the last one, in order, preceded by the one on screen before.
\<close>

lemma show_frames_releases:
  assumes "connected a s w" and "\<forall>(f, i) \<in> set fs. i < 2 ^ 64 - 1" and "fs \<noteq> []"
    and "fold_err unmapReading (held w @ map snd (butlast fs)) (pipes w a) = Inr p"
  shows "\<exists>w'. show_frames fs w = Inr w' \<and> connected a s w' \<and> pipes w' a = p \<and>
           held w' = [snd (last fs)] \<and> shown_frame w' = Some (fst (last fs)) \<and>
           shown w' s \<noteq> Some (buf (current w'))"
  using assms
proof (induction fs arbitrary: w)
  case (Cons fi fs)
  obtain f i where fi: "fi = (f, i)" by (cases fi)
  with Cons.prems(2) have i: "i < 2 ^ 64 - 1" by simp
  from Cons.prems(4) obtain p1 where p1: "fold_err unmapReading (held w) (pipes w a) = Inr p1"
    by (auto simp: fold_err_append split: sum.splits)
  then obtain w1 where w1: "on_frame f i w = Inr w1"
    unfolding on_frame_connected [OF Cons.prems(1) i] by simp
  note r = on_frame_result [OF Cons.prems(1) i w1]
  have p1': "pipes w1 a = p1" using r(4) p1 by simp
  show ?case
  proof (cases "fs = []")
    case True
    with Cons.prems(4) p1 p1' r w1 fi show ?thesis by simp
  next
    case False
    have "fold_err unmapReading (held w1 @ map snd (butlast fs)) (pipes w1 a) = Inr p"
      using Cons.prems(4) False p1 by (simp add: fi r(3) p1' fold_err_append)
    moreover have "\<forall>(f, i) \<in> set fs. i < 2 ^ 64 - 1" using Cons.prems(2) by simp
    ultimately have "\<exists>w'. show_frames fs w1 = Inr w' \<and> connected a s w' \<and> pipes w' a = p \<and>
           held w' = [snd (last fs)] \<and> shown_frame w' = Some (fst (last fs)) \<and>
           shown w' s \<noteq> Some (buf (current w'))"
      using Cons.IH [OF r(1)] False by blast
    with False w1 fi show ?thesis by simp
  qed
qed simp


text \<open>
  C34: What is on screen is always a frame the pipe may not overwrite yet: after a run of
  notifications for which the pipe waits for the readings, the connector shows the last frame,
  from a buffer other than the one the next frame goes into, has given back exactly the slots of the
  frames before it, and still owes the reading of the slot it shows.
\<close>

theorem connector_shows_only_held_frames:
  assumes "connected a s w" and "held w = []" and "fs \<noteq> []"
    and "\<forall>(f, i) \<in> set fs. i < 2 ^ 64 - 1"
    and "\<And>i. count_list (map snd fs) i \<le> owed_readings (pipes w a) i"
  shows "\<exists>w'. show_frames fs w = Inr w' \<and> shown_frame w' = Some (fst (last fs)) \<and>
           shown w' s \<noteq> Some (buf (current w')) \<and>
           (\<forall>i. owed_readings (pipes w' a) i =
              owed_readings (pipes w a) i - count_list (map snd (butlast fs)) i) \<and>
           0 < owed_readings (pipes w' a) (snd (last fs))"
proof -
  have split: "count_list (map snd fs) i =
      count_list (map snd (butlast fs)) i + (if snd (last fs) = i then 1 else 0)" for i
    using assms(3) by (cases fs rule: rev_cases) simp_all
  have le: "count_list (map snd (butlast fs)) i \<le> owed_readings (pipes w a) i" for i
    using assms(5) [of i] split [of i] by simp
  from dpool.release_list [OF le] obtain p where p:
    "fold_err unmapReading (map snd (butlast fs)) (pipes w a) = Inr p"
    "\<forall>i. owed_readings p i = owed_readings (pipes w a) i - count_list (map snd (butlast fs)) i"
    by blast
  have "fold_err unmapReading (held w @ map snd (butlast fs)) (pipes w a) = Inr p"
    using p(1) assms(2) by simp
  from show_frames_releases [OF assms(1,4,3) this] obtain w' where w':
    "show_frames fs w = Inr w'" "pipes w' a = p" "shown_frame w' = Some (fst (last fs))"
    "shown w' s \<noteq> Some (buf (current w'))" by blast
  have "0 < owed_readings p (snd (last fs))"
    using p(2) assms(5) [of "snd (last fs)"] split [of "snd (last fs)"] by simp
  with w' p(2) show ?thesis by blast
qed

definition example_pipe :: "(nat, nat) pipe" where
  "example_pipe = (new_pipe 3 id)\<lparr>subpipes :=
     [\<lparr>isFree = False, ptr = 0, readings = 1\<rparr>, \<lparr>isFree = False, ptr = 1, readings = 2\<rparr>,
      \<lparr>isFree = True, ptr = 2, readings = 0\<rparr>]\<rparr>"

definition example_connector :: "(nat, nat) connector" where
  "example_connector =
     (new_connector (\<lambda>_. example_pipe))\<lparr>input := Some 7, sink := Some 4, listenerIndex := 1\<rparr>"

definition example_frames :: "(nat \<times> nat) list" where
  "example_frames = [(10, 0), (11, 1)]"

lemma connected_example: "connected 7 4 example_connector"
  by (simp add: connected_def example_connector_def new_connector_def fresh_buffers_def
      empty_frame_def frame_ok_def)

theorem connector_shows_only_held_frames_witness:
  "\<exists>w'. show_frames example_frames example_connector = Inr w' \<and>
     shown_frame w' = Some (fst (last example_frames)) \<and>
     shown w' 4 \<noteq> Some (buf (current w')) \<and>
     (\<forall>i. owed_readings (pipes w' 7) i = owed_readings (pipes example_connector 7) i -
        count_list (map snd (butlast example_frames)) i) \<and>
     0 < owed_readings (pipes w' 7) (snd (last example_frames))"
  by (rule connector_shows_only_held_frames [OF connected_example])
    (simp_all add: held_def example_connector_def new_connector_def fresh_buffers_def
      empty_frame_def owed_readings_def example_pipe_def example_frames_def)

text \<open>
  Closing the connector does not give back the slot that is on screen: the listener is
  queued for removal and both slot numbers are forgotten, while the pipe still waits for the
  reading.
\<close>

theorem close_leaks_shown_slot:
  assumes "input w = Some a" and "sink w = Some s" and "0 \<le> listenerIndex w" and "held w = [i]"
  shows "\<exists>w'. close_connector w = Inr w' \<and> input w' = None \<and> held w' = [] \<and>
           pipes w' a = removeListener (listenerIndex w) (pipes w a) \<and>
           owed_readings (pipes w' a) i = owed_readings (pipes w a) i"
  using assms
  by (simp add: close_connector_def drain_def fresh_buffers_def held_def empty_frame_def
      removeListener_def owed_readings_def)

theorem close_leaks_shown_slot_witness:
  "\<exists>w'. close_connector (example_connector\<lparr>prev := \<lparr>buf = 1, pipeIndex = 1, qframe = Some 1\<rparr>\<rparr>) = Inr w' \<and>
     input w' = None \<and> held w' = [] \<and>
     pipes w' 7 = removeListener (listenerIndex (example_connector\<lparr>prev := \<lparr>buf = 1, pipeIndex = 1, qframe = Some 1\<rparr>\<rparr>))
       (pipes (example_connector\<lparr>prev := \<lparr>buf = 1, pipeIndex = 1, qframe = Some 1\<rparr>\<rparr>) 7) \<and>
     owed_readings (pipes w' 7) 1 =
       owed_readings (pipes (example_connector\<lparr>prev := \<lparr>buf = 1, pipeIndex = 1, qframe = Some 1\<rparr>\<rparr>) 7) 1"
  by (rule close_leaks_shown_slot [where s = 4])
    (simp_all add: held_def example_connector_def new_connector_def fresh_buffers_def empty_frame_def)

text \<open>A connector destroyed before it got a sink calls \<open>setVideoFrame\<close> on a null pointer.\<close>

lemma close_without_sink: "close_connector (new_connector ps) = Inl NullSink"
  by (simp add: close_connector_def drain_def new_connector_def fresh_buffers_def)

end
