(* ===== verification/Codec.thy ===== *)
theory Codec
  imports Capture
begin

text \<open>
  The workers between two pipes: \<open>Media::Video::AbstractEncoder\<close> and
  \<open>Media::Audio::AbstractEncoder\<close> (\<open>lib/media/encoder.cpp\<close>), \<open>Media::AbstractDecoder\<close>
  (\<open>lib/media/decoder.cpp\<close>) and \<open>Media::RtpPacketizer\<close> (\<open>lib/media/rtppacketizer.cpp\<close>).
  Each is notified by an input pipe, owes that pipe a reading, and writes to an output
  pipe. What FFmpeg answers is an argument: the code of \<open>avcodec_send_frame\<close>, how many packets
  are ready before \<open>avcodec_receive_packet\<close> fails, and so on. What the listeners of the output
  do between two writes is the argument \<open>env\<close>, as for the capture threads.
\<close>

section \<open>Reading a packet from memory\<close>

text \<open>
  \<open>ReadingOpaque\<close>; \<open>size\<close> is the length of \<open>data\<close>. The comparison of the remaining
  \<open>size_t\<close> with the \<open>int\<close> argument converts the latter.
\<close>

record reading =
  ro_data :: "8 word list"
  ro_totalWritten :: nat

datatype read_result = Eof | Bytes "8 word list"

definition h264_read :: "int \<Rightarrow> reading \<Rightarrow> read_result \<times> reading" where
  "h264_read sz ro =
     (if ro_totalWritten ro = length (ro_data ro) then (Eof, ro)
      else if to_u64 sz \<le> int (length (ro_data ro)) - int (ro_totalWritten ro)
      then (Bytes (take (nat (to_u64 sz)) (drop (ro_totalWritten ro) (ro_data ro))),
            ro\<lparr>ro_totalWritten := ro_totalWritten ro + nat (to_u64 sz)\<rparr>)
      else (Bytes (drop (ro_totalWritten ro) (ro_data ro)), ro\<lparr>ro_totalWritten := length (ro_data ro)\<rparr>))"

definition opus_read :: "int \<Rightarrow> reading \<Rightarrow> read_result \<times> reading" where
  "opus_read sz ro =
     (if ro_totalWritten ro = length (ro_data ro) then (Eof, ro)
      else if to_u64 sz \<le> int (length (ro_data ro)) - int (ro_totalWritten ro)
      then (Bytes (take (nat (to_u64 sz)) (drop (ro_totalWritten ro) (ro_data ro))),
            ro\<lparr>ro_totalWritten := ro_totalWritten ro + nat (to_u64 sz)\<rparr>)
      else (Bytes (drop (ro_totalWritten ro) (ro_data ro)), ro\<lparr>ro_totalWritten := length (ro_data ro)\<rparr>))"

fun read_all :: "int list \<Rightarrow> reading \<Rightarrow> 8 word list \<times> reading" where
  "read_all [] ro = ([], ro)"
| "read_all (n # ns) ro =
     (case h264_read n ro of
        (Eof, ro) \<Rightarrow> ([], ro)
      | (Bytes bs, ro) \<Rightarrow> (let (cs, ro) = read_all ns ro in (bs @ cs, ro)))"

lemma h264_read_chunk:
  assumes "0 < n" and "n < 2 ^ 31" and "ro_totalWritten ro < length (ro_data ro)"
  shows "h264_read n ro =
    (Bytes (take (nat n) (drop (ro_totalWritten ro) (ro_data ro))),
     ro\<lparr>ro_totalWritten := min (length (ro_data ro)) (ro_totalWritten ro + nat n)\<rparr>)"
  using assms by (auto simp: h264_read_def min_def)

lemma read_all_prefix:
  assumes "\<forall>n \<in> set ns. 0 < n \<and> n < 2 ^ 31" and "ro_totalWritten ro \<le> length (ro_data ro)"
  shows "read_all ns ro =
    (take (nat (sum_list ns)) (drop (ro_totalWritten ro) (ro_data ro)),
     ro\<lparr>ro_totalWritten := min (length (ro_data ro)) (ro_totalWritten ro + nat (sum_list ns))\<rparr>)"
  using assms
proof (induction ns arbitrary: ro)
  case (Cons n ns)
  from Cons.prems have n: "0 < n" "n < 2 ^ 31" by simp_all
  have s: "0 \<le> sum_list ns" using Cons.prems(1) by (intro sum_list_nonneg) fastforce
  show ?case
  proof (cases "ro_totalWritten ro = length (ro_data ro)")
    case True
    then show ?thesis by (simp add: h264_read_def)
  next
    case False
    let ?t = "ro_totalWritten ro" and ?d = "ro_data ro"
    let ?ro = "ro\<lparr>ro_totalWritten := min (length ?d) (?t + nat n)\<rparr>"
    have IH: "read_all ns ?ro =
      (take (nat (sum_list ns)) (drop (ro_totalWritten ?ro) (ro_data ?ro)),
       ?ro\<lparr>ro_totalWritten := min (length (ro_data ?ro)) (ro_totalWritten ?ro + nat (sum_list ns))\<rparr>)"
      by (rule Cons.IH) (use Cons.prems(1) in auto)
    have nn: "nat (n + sum_list ns) = nat n + nat (sum_list ns)" using n s by simp
    show ?thesis
    proof (cases "?t + nat n \<le> length ?d")
      case True
      with False Cons.prems(2) IH h264_read_chunk [OF n, of ro] show ?thesis
        by (simp add: nn take_add min_def add.assoc add.commute)
    next
      case over: False
      with False Cons.prems(2) IH h264_read_chunk [OF n, of ro] show ?thesis
        by (simp add: nn min_def)
    qed
  qed
qed simp

section \<open>Encoders\<close>

text \<open>
  The frame pipes of the client are numbered. \<open>en_cdc\<close> and \<open>en_ctx\<close> say whether the codec
  and its context are there, \<open>en_swr\<close> whether the resampler of the audio encoder is.
\<close>

record ('a, 'h) encoder =
  en_cdc :: bool
  en_ctx :: bool
  en_swr :: bool
  en_started :: bool
  en_input :: "nat option"
  en_listener :: "int option"
  en_pts :: "64 word"
  en_dts :: "64 word"
  en_out :: "('a, 'h) pipe"

datatype codec_error = PipeError pipe_error | NullCodec | NullInput | NullResampler

datatype drained = Drained | Overflow

text \<open>\<open>found\<close> says whether FFmpeg has the codec and could allocate its context.\<close>

definition new_encoder :: "bool \<Rightarrow> ('a, 'h) pipe \<Rightarrow> ('a, 'h) encoder" where
  "new_encoder found p =
     \<lparr>en_cdc = found, en_ctx = found, en_swr = False, en_started = False, en_input = None, en_listener = None,
      en_pts = 0, en_dts = 0, en_out = p\<rparr>"

text \<open>
  \<open>start\<close>. The listener of an earlier input is not removed, its number is overwritten. \<open>opens\<close>:
  whether FFmpeg's steps succeed; \<open>converts\<close>: whether a resampler is made.
  The choice of the format and the steps before are with the set-up of the codecs.
\<close>

definition video_start ::
    "'h \<Rightarrow> bool \<Rightarrow> nat \<Rightarrow> int \<Rightarrow> (nat \<Rightarrow> ('a, 'h) pipe) \<Rightarrow> ('a, 'h) encoder \<Rightarrow>
       codec_error + bool \<times> int \<times> (nat \<Rightarrow> ('a, 'h) pipe) \<times> ('a, 'h) encoder" where
  "video_start h opens a idx fs e =
     (if \<not> en_cdc e \<or> \<not> en_ctx e then Inl NullCodec
      else if \<not> opens then Inr (False, idx, fs, e)
      else (case onDataChanged h idx (fs a) of
              Inl x \<Rightarrow> Inl (PipeError x)
            | Inr (k, idx, p) \<Rightarrow>
                Inr (True, idx, fs(a := p), e\<lparr>en_input := Some a, en_started := True, en_listener := Some k\<rparr>)))"

definition audio_start ::
    "'h \<Rightarrow> bool \<Rightarrow> bool \<Rightarrow> nat \<Rightarrow> int \<Rightarrow> (nat \<Rightarrow> ('a, 'h) pipe) \<Rightarrow> ('a, 'h) encoder \<Rightarrow>
       codec_error + bool \<times> int \<times> (nat \<Rightarrow> ('a, 'h) pipe) \<times> ('a, 'h) encoder" where
  "audio_start h converts opens a idx fs e =
     (if \<not> en_cdc e \<or> \<not> en_ctx e then Inl NullCodec
      else
        let e = e\<lparr>en_swr := en_swr e \<or> converts\<rparr> in
        if \<not> opens then Inr (False, idx, fs, e)
        else (case onDataChanged h idx (fs a) of
                Inl x \<Rightarrow> Inl (PipeError x)
              | Inr (k, idx, p) \<Rightarrow>
                  Inr (True, idx, fs(a := p), e\<lparr>en_input := Some a, en_started := True, en_listener := Some k\<rparr>)))"

definition video_close ::
    "(nat \<Rightarrow> ('a, 'h) pipe) \<Rightarrow> ('a, 'h) encoder \<Rightarrow> (nat \<Rightarrow> ('a, 'h) pipe) \<times> ('a, 'h) encoder" where
  "video_close fs e =
     (case (en_input e, en_listener e) of
        (Some a, Some k) \<Rightarrow>
          (fs(a := removeListener k (fs a)), e\<lparr>en_listener := None, en_ctx := False, en_started := False\<rparr>)
      | _ \<Rightarrow> (fs, e\<lparr>en_ctx := False, en_started := False\<rparr>))"

definition audio_close ::
    "(nat \<Rightarrow> ('a, 'h) pipe) \<Rightarrow> ('a, 'h) encoder \<Rightarrow> (nat \<Rightarrow> ('a, 'h) pipe) \<times> ('a, 'h) encoder" where
  "audio_close fs e =
     (case (en_input e, en_listener e) of
        (Some a, Some k) \<Rightarrow>
          (fs(a := removeListener k (fs a)),
           e\<lparr>en_listener := None, en_input := None, en_ctx := False, en_started := False\<rparr>)
      | _ \<Rightarrow> (fs, e\<lparr>en_ctx := False, en_started := False\<rparr>))"

text \<open>
  The loop over \<open>avcodec_receive_packet\<close> when \<open>n\<close> packets are ready before it fails. It gives
  the time stamps of the packets it publishes.
\<close>

fun receive_packets ::
    "((int, 'h) omap \<Rightarrow> ('a, 'h) pipe \<Rightarrow> ('a, 'h) pipe) \<Rightarrow> nat \<Rightarrow> ('a, 'h) encoder \<Rightarrow>
       codec_error + drained \<times> 64 word list \<times> ('a, 'h) encoder" where
  "receive_packets env 0 e =
     (case tryHoldForWriting (en_out e) of
        Inl x \<Rightarrow> Inl (PipeError x)
      | Inr (None, p) \<Rightarrow> Inr (Overflow, [], e\<lparr>en_out := p\<rparr>)
      | Inr (Some (packet, subpipe), p) \<Rightarrow>
          (case unmapWriting subpipe False p of
             Inl x \<Rightarrow> Inl (PipeError x)
           | Inr (ns, p) \<Rightarrow> Inr (Drained, [], e\<lparr>en_out := p\<rparr>)))"
| "receive_packets env (Suc n) e =
     (case tryHoldForWriting (en_out e) of
        Inl x \<Rightarrow> Inl (PipeError x)
      | Inr (None, p) \<Rightarrow> Inr (Overflow, [], e\<lparr>en_out := p\<rparr>)
      | Inr (Some (packet, subpipe), p) \<Rightarrow>
          (case unmapWriting subpipe True p of
             Inl x \<Rightarrow> Inl (PipeError x)
           | Inr (ns, p) \<Rightarrow>
               (case receive_packets env n
                       (e\<lparr>en_pts := en_pts e + 1, en_dts := en_dts e + 1, en_out := env ns p\<rparr>) of
                  Inl x \<Rightarrow> Inl x
                | Inr (r, ts, e') \<Rightarrow> Inr (r, (en_pts e + 1) # ts, e'))))"

text \<open>The listener of the video encoder. The reading is given back to the current input.\<close>

definition encode_video ::
    "((int, 'h) omap \<Rightarrow> ('a, 'h) pipe \<Rightarrow> ('a, 'h) pipe) \<Rightarrow> int \<Rightarrow> nat \<Rightarrow> nat \<Rightarrow>
       (nat \<Rightarrow> ('a, 'h) pipe) \<Rightarrow> ('a, 'h) encoder \<Rightarrow>
       codec_error + 64 word list \<times> (nat \<Rightarrow> ('a, 'h) pipe) \<times> ('a, 'h) encoder" where
  "encode_video env response n index fs e =
     (if \<not> en_ctx e then Inr ([], fs, e)
      else (case en_input e of
              None \<Rightarrow> Inl NullInput
            | Some a \<Rightarrow>
                (case unmapReading index (fs a) of
                   Inl x \<Rightarrow> Inl (PipeError x)
                 | Inr p \<Rightarrow>
                     (let fs = fs(a := p) in
                      if response < 0 then Inr ([], fs, e)
                      else (case receive_packets env n e of
                              Inl x \<Rightarrow> Inl x
                            | Inr (r, ts, e) \<Rightarrow> Inr (ts, fs, e))))))"

text \<open>
  The listener of the audio encoder cuts a frame of \<open>N\<close> samples into chunks of
  \<open>F = frame_size\<close>. \<open>ff k\<close> is what FFmpeg answers in round \<open>k\<close>: the code of
  \<open>avcodec_send_frame\<close>, the packets ready then, and the code of \<open>swr_convert\<close>. The loop may run
  forever (\<open>None\<close>): it does when \<open>F\<close> is 0. The result says how it ended, how many chunks were
  sent and the time stamps published.
\<close>

datatype chunk_end = Complete | OutputFull | ConvertFailed

partial_function (option) encode_chunks ::
    "((int, 'h) omap \<Rightarrow> ('a, 'h) pipe \<Rightarrow> ('a, 'h) pipe) \<Rightarrow> (nat \<Rightarrow> int \<times> nat \<times> int) \<Rightarrow> int \<Rightarrow> int \<Rightarrow> nat \<Rightarrow>
       int \<Rightarrow> int \<Rightarrow> 64 word list \<Rightarrow> ('a, 'h) encoder \<Rightarrow>
       (codec_error + chunk_end \<times> nat \<times> 64 word list \<times> ('a, 'h) encoder) option" where
  "encode_chunks env ff F N k samplesEncoded convertSamples out e =
     (if N \<le> samplesEncoded then Some (Inr (Complete, k, out, e))
      else
        (case ff k of (response, n, swr) \<Rightarrow>
           (case (if response < 0 then Inr (Drained, [], e) else receive_packets env n e) of
              Inl x \<Rightarrow> Some (Inl x)
            | Inr (Overflow, ts, e) \<Rightarrow> Some (Inr (OutputFull, Suc k, out @ ts, e))
            | Inr (Drained, ts, e) \<Rightarrow>
                (if swr < 0 then Some (Inr (ConvertFailed, Suc k, out @ ts, e))
                 else encode_chunks env ff F N (Suc k) (samplesEncoded + convertSamples)
                        (min F (N - (samplesEncoded + convertSamples))) (out @ ts) e))))"

text \<open>After a failed conversion the reading is given back a second time.\<close>

definition encode_audio ::
    "((int, 'h) omap \<Rightarrow> ('a, 'h) pipe \<Rightarrow> ('a, 'h) pipe) \<Rightarrow> (nat \<Rightarrow> int \<times> nat \<times> int) \<Rightarrow> int \<Rightarrow> int \<Rightarrow> nat \<Rightarrow>
       ('a, 'h) pipe \<Rightarrow> ('a, 'h) encoder \<Rightarrow>
       (codec_error + chunk_end \<times> nat \<times> 64 word list \<times> ('a, 'h) pipe \<times> ('a, 'h) encoder) option" where
  "encode_audio env ff F N index inp e =
     (if \<not> en_ctx e then Some (Inr (Complete, 0, [], inp, e))
      else if \<not> en_swr e then Some (Inl NullCodec)
      else (case unmapReading index inp of
              Inl x \<Rightarrow> Some (Inl (PipeError x))
            | Inr p \<Rightarrow>
                (case encode_chunks env ff F N 0 F 0 [] e of
                   None \<Rightarrow> None
                 | Some (Inl x) \<Rightarrow> Some (Inl x)
                 | Some (Inr (ConvertFailed, k, ts, e)) \<Rightarrow>
                     (case unmapReading index p of
                        Inl x \<Rightarrow> Some (Inl (PipeError x))
                      | Inr p \<Rightarrow> Some (Inr (ConvertFailed, k, ts, p, e)))
                 | Some (Inr (how, k, ts, e)) \<Rightarrow> Some (Inr (how, k, ts, p, e)))))"

section \<open>The discipline of the encoders\<close>

definition keeps_balance :: "('n \<Rightarrow> ('a, 'c) pipe \<Rightarrow> ('a, 'c) pipe) \<Rightarrow> bool" where
  "keeps_balance env \<longleftrightarrow> (\<forall>ns q. balanced q \<longrightarrow> balanced (env ns q))"

lemma receive_packets_disciplined:
  assumes "balanced (en_out e)" and "keeps_balance env"
  shows "\<exists>r ts e'. receive_packets env n e = Inr (r, ts, e') \<and> balanced (en_out e') \<and> length ts \<le> n \<and>
    (r = Drained \<longrightarrow> length ts = n) \<and>
    ts = map (\<lambda>k. en_pts e + of_nat (Suc k)) [0..<length ts] \<and>
    e' = e\<lparr>en_pts := en_pts e + of_nat (length ts), en_dts := en_dts e + of_nat (length ts), en_out := en_out e'\<rparr>"
  using assms(1)
proof (induction n arbitrary: e)
  case 0
  show ?case
  proof (cases "sem (en_out e) = 0")
    case True
    with 0 show ?thesis by (simp add: tryHold_empty)
  next
    case False
    with 0 obtain d i q where h: "tryHoldForWriting (en_out e) = Inr (Some (d, i), q)" "balanced q"
      "i < length (subpipes (en_out e))" "length (subpipes q) = length (subpipes (en_out e))"
      "\<not> isFree (subpipes q ! i)"
      by (meson hold_then_unmap gr0I)
    obtain ns r where u: "unmapWriting i False q = Inr (ns, r)"
      using h(3,4) by (metis unmapWriting_in_range)
    from unmapWriting_taken(1) [OF h(2) _ h(5) u] h(1,3,4) u show ?thesis by simp
  qed
next
  case (Suc n)
  show ?case
  proof (cases "sem (en_out e) = 0")
    case True
    with Suc.prems show ?thesis by (simp add: tryHold_empty)
  next
    case False
    with Suc.prems obtain d i q where h: "tryHoldForWriting (en_out e) = Inr (Some (d, i), q)" "balanced q"
      "i < length (subpipes (en_out e))" "length (subpipes q) = length (subpipes (en_out e))"
      "\<not> isFree (subpipes q ! i)"
      by (meson hold_then_unmap gr0I)
    obtain ns r where u: "unmapWriting i True q = Inr (ns, r)"
      using h(3,4) by (metis unmapWriting_in_range)
    let ?e = "e\<lparr>en_pts := en_pts e + 1, en_dts := en_dts e + 1, en_out := env ns r\<rparr>"
    have "balanced (en_out ?e)"
      using unmapWriting_taken(1) [OF h(2) _ h(5) u] h(3,4) assms(2) by (simp add: keeps_balance_def)
    from Suc.IH [OF this] obtain m ts e' where ih: "receive_packets env n ?e = Inr (m, ts, e')"
      "balanced (en_out e')" "length ts \<le> n" "m = Drained \<longrightarrow> length ts = n"
      "ts = map (\<lambda>k. en_pts ?e + of_nat (Suc k)) [0..<length ts]"
      "e' = ?e\<lparr>en_pts := en_pts ?e + of_nat (length ts), en_dts := en_dts ?e + of_nat (length ts), en_out := en_out e'\<rparr>"
      by blast
    have "ts = map (\<lambda>k. en_pts e + of_nat (Suc k)) (map Suc [0..<length ts])"
      unfolding map_map comp_def by (subst ih(5)) (simp add: ac_simps)
    then have ts: "(en_pts e + 1) # ts = map (\<lambda>k. en_pts e + of_nat (Suc k)) [0..<length ((en_pts e + 1) # ts)]"
      by (simp only: list.size map_Suc_upt upt_conv_Cons list.map) (simp add: upt_rec map_Suc_upt)
    have e': "e' = e\<lparr>en_pts := en_pts e + of_nat (length ((en_pts e + 1) # ts)),
        en_dts := en_dts e + of_nat (length ((en_pts e + 1) # ts)), en_out := en_out e'\<rparr>"
      by (subst ih(6)) (simp add: ac_simps)
    have "receive_packets env (Suc n) e = Inr (m, (en_pts e + 1) # ts, e')"
      using h(1) u ih(1) by simp
    with ts e' ih(2-4) show ?thesis by auto
  qed
qed


definition example_encoder :: "(nat, nat) encoder" where
  "example_encoder = (new_encoder True (new_pipe 2 id))\<lparr>en_input := Some 7, en_swr := True\<rparr>"

definition example_input :: "(nat, nat) pipe" where
  "example_input =
     (new_pipe 3 id)\<lparr>subpipes := map (\<lambda>i. \<lparr>isFree = False, ptr = i, readings = 1\<rparr>) [0..<3], sem := 0\<rparr>"

lemma example_facts:
  "balanced (en_out example_encoder)" "en_ctx example_encoder" "en_swr example_encoder"
  "en_input example_encoder = Some 7" "keeps_balance (\<lambda>ns q. q)"
  "owed_readings example_input i = (if i < 3 then 1 else 0)"
  by (simp_all add: example_encoder_def new_encoder_def balanced_def taken_def new_pipe_def keeps_balance_def
      owed_readings_def example_input_def)


lemma div_round_up:
  assumes "0 < (F :: int)"
  shows "(x + F - 1) div F = 1 + (x - 1) div F"
proof -
  have "x + F - 1 = (x - 1) + F" by simp
  then show ?thesis using assms by (simp only: div_add_self2)
qed

lemma encode_chunks_rounds:
  assumes "0 < F" and "keeps_balance env" and "balanced (en_out e)" and "enc \<le> N" and "conv = min F (N - enc)"
  shows "\<exists>how m ts e'. encode_chunks env ff F N k enc conv out e = Some (Inr (how, m, ts, e')) \<and>
    balanced (en_out e') \<and> (how = Complete \<longrightarrow> int m = int k + (N - enc + F - 1) div F)"
  using assms(3-5)
proof (induction "nat (N - enc)" arbitrary: enc conv k out e rule: less_induct)
  case less
  show ?case
  proof (cases "N \<le> enc")
    case True
    with less.prems assms(1) show ?thesis by (subst encode_chunks.simps) simp
  next
    case False
    obtain response n swr where ff: "ff k = (response, n, swr)" by (cases "ff k")
    obtain r ts e' where rp: "(if response < 0 then Inr (Drained, [], e) else receive_packets env n e) =
        Inr (r, ts, e')" "balanced (en_out e')"
      using receive_packets_disciplined [OF less.prems(1) assms(2), of n] less.prems(1)
      by (cases "response < 0") auto
    show ?thesis
    proof (cases "r = Overflow \<or> swr < 0")
      case True
      with False rp ff show ?thesis by (subst encode_chunks.simps) (auto split: drained.split)
    next
      case c: False
      then have r: "r = Drained" "\<not> swr < 0" by (auto intro: drained.exhaust)
      let ?enc = "enc + conv"
      have pos: "0 < conv" "?enc \<le> N" using False less.prems(3) assms(1) by auto
      then have "nat (N - ?enc) < nat (N - enc)" using False by simp
      from less.hyps [OF this rp(2) pos(2) refl, of "Suc k" "out @ ts"] obtain how m us e'' where
        ih: "encode_chunks env ff F N (Suc k) ?enc (min F (N - ?enc)) (out @ ts) e' = Some (Inr (how, m, us, e''))"
        "balanced (en_out e'')" "how = Complete \<longrightarrow> int m = int (Suc k) + (N - ?enc + F - 1) div F"
        by blast
      have "(N - enc + F - 1) div F = 1 + (N - ?enc + F - 1) div F"
      proof (cases "N - enc \<le> F")
        case True
        with False less.prems(3) have "N - ?enc = 0" "0 \<le> N - enc - 1" "N - enc - 1 < F" by simp_all
        then show ?thesis using assms(1) by (simp add: div_round_up)
      next
        case gt: False
        with less.prems(3) have "N - ?enc + F - 1 = N - enc - 1" by simp
        then show ?thesis using assms(1) by (simp add: div_round_up)
      qed
      with ih False rp ff r show ?thesis by (subst encode_chunks.simps) simp
    qed
  qed
qed

lemma unmapReading_in_range:
  "i < length (subpipes p) \<Longrightarrow> \<exists>q. unmapReading i p = Inr q \<and> length (subpipes q) = length (subpipes p)"
  by (auto simp: unmapReading_def Let_def sem_release_def)

text \<open>A codec without a frame size makes no progress.\<close>

lemma empty_chunks_never_end:
  assumes "encode_chunks env ff F N k enc conv out e = Some res"
  shows "F = 0 \<longrightarrow> enc = 0 \<longrightarrow> conv = 0 \<longrightarrow> 0 < N \<longrightarrow> (\<forall>y. res \<noteq> Inr (Complete, y))"
proof (rule encode_chunks.raw_induct [where P = "\<lambda>env ff F N k enc conv out e res.
    F = 0 \<longrightarrow> enc = 0 \<longrightarrow> conv = 0 \<longrightarrow> 0 < N \<longrightarrow> (\<forall>y. res \<noteq> Inr (Complete, y))", OF _ assms], goal_cases)
  case (1 rec env ff F N k enc conv out e res)
  then show ?case by (fastforce split: prod.splits sum.splits drained.splits if_splits)
qed

lemma audio_frame_sent:
  assumes "en_ctx e" and "en_swr e" and "0 < owed_readings inp index"
    and "balanced (en_out e)" and "keeps_balance env" and "0 < F \<or> N \<le> F"
  shows "\<exists>how k ts inp' e'. encode_audio env ff F N index inp e = Some (Inr (how, k, ts, inp', e')) \<and>
    balanced (en_out e') \<and> (how = Complete \<longrightarrow> int k = (if N \<le> F then 0 else (N + F - 1) div F)) \<and>
    (how \<noteq> ConvertFailed \<longrightarrow> owed_readings inp' = (owed_readings inp)(index := owed_readings inp index - 1))"
proof -
  obtain q where q: "unmapReading index inp = Inr q"
    "owed_readings q = (owed_readings inp)(index := owed_readings inp index - 1)"
    using dpool.release_owed [OF assms(3)] by blast
  have "index < length (subpipes inp)" using assms(3) by (auto simp: owed_readings_def split: if_splits)
  with unmapReading_in_range [of index inp] q(1) have "index < length (subpipes q)" by auto
  then obtain q' where q': "unmapReading index q = Inr q'" using unmapReading_in_range by blast
  have "\<exists>how k ts e'. encode_chunks env ff F N 0 F 0 [] e = Some (Inr (how, k, ts, e')) \<and> balanced (en_out e') \<and>
      (how = Complete \<longrightarrow> int k = (if N \<le> F then 0 else (N + F - 1) div F))"
  proof (cases "N \<le> F")
    case True
    with assms(4) show ?thesis by (subst encode_chunks.simps) simp
  next
    case False
    with assms(6) have F: "0 < F" by simp
    obtain response n swr where ff: "ff 0 = (response, n, swr)" by (cases "ff 0")
    obtain r ts e' where rp: "(if response < 0 then Inr (Drained, [], e) else receive_packets env n e) =
        Inr (r, ts, e')" "balanced (en_out e')"
      using receive_packets_disciplined [OF assms(4,5), of n] assms(4) by (cases "response < 0") auto
    show ?thesis
    proof (cases "r = Overflow \<or> swr < 0")
      case True
      with False rp ff show ?thesis by (subst encode_chunks.simps) (auto split: drained.split)
    next
      case c: False
      then have r: "r = Drained" "\<not> swr < 0" by (auto intro: drained.exhaust)
      from encode_chunks_rounds [OF F assms(5) rp(2) _ refl, of F N ff 1 ts] False obtain how m us e'' where
        ih: "encode_chunks env ff F N 1 F (min F (N - F)) ts e' = Some (Inr (how, m, us, e''))"
        "balanced (en_out e'')" "how = Complete \<longrightarrow> int m = 1 + (N - F + F - 1) div F"
        by auto
      have "(N + F - 1) div F = 1 + (N - 1) div F" using F by (rule div_round_up)
      with ih False rp ff r F show ?thesis by (subst encode_chunks.simps) simp
    qed
  qed
  then obtain how k ts e' where c: "encode_chunks env ff F N 0 F 0 [] e = Some (Inr (how, k, ts, e'))"
    "balanced (en_out e')" "how = Complete \<longrightarrow> int k = (if N \<le> F then 0 else (N + F - 1) div F)"
    by blast
  with q q' assms(1,2) show ?thesis by (cases how) (simp_all add: encode_audio_def)
qed

text \<open>
  C25: The listener of the audio encoder for a frame that is still to be read: without a context it returns and the reading is not
  given back; without a resampler it goes through a null pointer; with a codec that has no frame size and a frame with samples it never runs
  to its end, so it runs forever unless a full output or a failed conversion ends it. Otherwise it returns, whatever FFmpeg answers and
  the readers of its output do. When it runs to the end, with room in the output and no failed conversion, it has sent
  \<open>N / F\<close> chunks, rounded up, which covers all \<open>N\<close> samples; but a frame that is not longer than one chunk is dropped: none is sent.
  Unless a conversion fails, the reading is given back exactly once.
\<close>

theorem audio_frame_in_chunks:
  assumes "0 < owed_readings inp index" and "balanced (en_out e)" and "keeps_balance env" and "0 \<le> F"
  shows "if \<not> en_ctx e then encode_audio env ff F N index inp e = Some (Inr (Complete, 0, [], inp, e))
    else if \<not> en_swr e then encode_audio env ff F N index inp e = Some (Inl NullCodec)
    else if F = 0 \<and> 0 < N
      then \<forall>k ts inp' e'. encode_audio env ff F N index inp e \<noteq> Some (Inr (Complete, k, ts, inp', e'))
    else \<exists>how k ts inp' e'. encode_audio env ff F N index inp e = Some (Inr (how, k, ts, inp', e')) \<and>
      balanced (en_out e') \<and> (how = Complete \<longrightarrow> int k = (if N \<le> F then 0 else (N + F - 1) div F)) \<and>
      (how \<noteq> ConvertFailed \<longrightarrow> owed_readings inp' = (owed_readings inp)(index := owed_readings inp index - 1))"
proof (cases "en_ctx e \<and> en_swr e")
  case False
  then show ?thesis by (auto simp: encode_audio_def)
next
  case True
  have "encode_audio env ff F N index inp e \<noteq> Some (Inr (Complete, k, ts, inp', e'))" if "F = 0" "0 < N" for k ts inp' e'
    using True that empty_chunks_never_end [of env ff F N 0 F 0 "[]" e]
    by (fastforce simp: encode_audio_def split: sum.splits option.splits prod.splits chunk_end.splits)
  with True audio_frame_sent [OF _ _ assms(1-3), of F N ff] assms(4) show ?thesis by auto
qed

theorem audio_frame_in_chunks_witness:
  "\<exists>how k ts inp' e'. encode_audio (\<lambda>ns q. q) (\<lambda>_. (0, 1, 0)) 480 1024 2 example_input example_encoder =
      Some (Inr (how, k, ts, inp', e')) \<and>
    balanced (en_out e') \<and> (how = Complete \<longrightarrow> int k = (if (1024::int) \<le> 480 then 0 else (1024 + 480 - 1) div 480)) \<and>
    (how \<noteq> ConvertFailed \<longrightarrow>
       owed_readings inp' = (owed_readings example_input)(2 := owed_readings example_input 2 - 1))"
proof -
  have o: "0 < owed_readings example_input 2" and b: "balanced (en_out example_encoder)"
    and k: "keeps_balance (\<lambda>ns q. q)" and c: "en_ctx example_encoder" "en_swr example_encoder"
    by (simp_all add: example_facts)
  from audio_frame_in_chunks [OF o b k, of 480 "\<lambda>_. (0, 1, 0)" 1024] c show ?thesis by simp
qed

section \<open>Decoders\<close>

text \<open>
  \<open>dc_ready\<close>: codec, context and output are set. \<open>dc_holding\<close> is the \<open>QStack\<close> of slots
  whose readings are still owed, bottom first; \<open>dc_out\<close> is the number of the output pipe.
\<close>

record decoder =
  dc_ready :: bool
  dc_input :: bool
  dc_listener :: "int option"
  dc_holding :: "nat list"
  dc_out :: nat

definition new_decoder :: "bool \<Rightarrow> nat \<Rightarrow> decoder" where
  "new_decoder found a =
     \<lparr>dc_ready = found, dc_input = False, dc_listener = None, dc_holding = [], dc_out = a\<rparr>"

definition decoder_start ::
    "'h \<Rightarrow> int \<Rightarrow> ('a, 'h) pipe \<Rightarrow> decoder \<Rightarrow> pipe_error + bool \<times> int \<times> ('a, 'h) pipe \<times> decoder" where
  "decoder_start h idx inp d =
     (if \<not> dc_ready d then Inr (False, idx, inp, d)
      else (case onDataChanged h idx inp of
              Inl x \<Rightarrow> Inl x
            | Inr (k, idx, inp) \<Rightarrow> Inr (True, idx, inp, d\<lparr>dc_input := True, dc_listener := Some k\<rparr>)))"

definition decoder_stop :: "('a, 'h) pipe \<Rightarrow> decoder \<Rightarrow> ('a, 'h) pipe \<times> decoder" where
  "decoder_stop inp d =
     (case dc_listener d of
        Some k \<Rightarrow> (if dc_input d then (removeListener k inp, d\<lparr>dc_input := False\<rparr>) else (inp, d))
      | None \<Rightarrow> (inp, d))"

text \<open>The loop over \<open>_holdingIndex\<close> releases the bottom of the stack and pops its top.\<close>

function release_held :: "nat list \<Rightarrow> ('a, 'h) pipe \<Rightarrow> pipe_error + ('a, 'h) pipe" where
  "release_held [] inp = Inr inp"
| "release_held (i # is) inp =
     (case unmapReading i inp of
        Inl x \<Rightarrow> Inl x
      | Inr inp \<Rightarrow> release_held (butlast (i # is)) inp)"
  by pat_completeness auto

termination by (relation "measure (\<lambda>(is, inp). length is)") auto

text \<open>
  The loop over \<open>avcodec_receive_frame\<close> when \<open>n\<close> frames are ready; \<open>again\<close>: the error
  that ends it is \<open>EAGAIN\<close> or \<open>AVERROR_EOF\<close>.
\<close>

fun decode_frames ::
    "((int, 'k) omap \<Rightarrow> ('b, 'k) pipe \<Rightarrow> ('b, 'k) pipe) \<Rightarrow> nat \<Rightarrow> bool \<Rightarrow> nat \<Rightarrow> nat list \<Rightarrow>
       ('a, 'h) pipe \<Rightarrow> ('b, 'k) pipe \<Rightarrow> pipe_error + nat list \<times> ('a, 'h) pipe \<times> ('b, 'k) pipe" where
  "decode_frames env 0 again index holding inp out =
     (case tryHoldForWriting out of
        Inl x \<Rightarrow> Inl x
      | Inr (None, out) \<Rightarrow> Inr (holding, inp, out)
      | Inr (Some (frame, subpipe), out) \<Rightarrow>
          (case unmapWriting subpipe False out of
             Inl x \<Rightarrow> Inl x
           | Inr (ns, out) \<Rightarrow> Inr (if again then holding @ [index] else holding, inp, out)))"
| "decode_frames env (Suc n) again index holding inp out =
     (case tryHoldForWriting out of
        Inl x \<Rightarrow> Inl x
      | Inr (None, out) \<Rightarrow> Inr (holding, inp, out)
      | Inr (Some (frame, subpipe), out) \<Rightarrow>
          (case unmapWriting subpipe True out of
             Inl x \<Rightarrow> Inl x
           | Inr (ns, out) \<Rightarrow>
               (case release_held holding inp of
                  Inl x \<Rightarrow> Inl x
                | Inr inp \<Rightarrow> decode_frames env n again index [] inp (env ns out))))"

definition decode_packet ::
    "((int, 'k) omap \<Rightarrow> ('b, 'k) pipe \<Rightarrow> ('b, 'k) pipe) \<Rightarrow> int \<Rightarrow> nat \<Rightarrow> bool \<Rightarrow> nat \<Rightarrow> nat list \<Rightarrow>
       ('a, 'h) pipe \<Rightarrow> ('b, 'k) pipe \<Rightarrow> pipe_error + nat list \<times> ('a, 'h) pipe \<times> ('b, 'k) pipe" where
  "decode_packet env response n again index holding inp out =
     (if response < 0
      then map_sum id (\<lambda>inp. (holding, inp, out)) (unmapReading index inp)
      else decode_frames env n again index holding inp out)"

text \<open>A run of packets: the slot of each and the frames it completes.\<close>

fun decode_run ::
    "((int, 'k) omap \<Rightarrow> ('b, 'k) pipe \<Rightarrow> ('b, 'k) pipe) \<Rightarrow> (nat \<times> nat) list \<Rightarrow> nat list \<Rightarrow>
       ('a, 'h) pipe \<Rightarrow> ('b, 'k) pipe \<Rightarrow> pipe_error + nat list \<times> ('a, 'h) pipe \<times> ('b, 'k) pipe" where
  "decode_run env [] holding inp out = Inr (holding, inp, out)"
| "decode_run env ((index, n) # ps) holding inp out =
     (case decode_packet env 0 n True index holding inp out of
        Inl x \<Rightarrow> Inl x
      | Inr (holding, inp, out) \<Rightarrow> decode_run env ps holding inp out)"

text \<open>Readers that always leave a slot free.\<close>

definition keeps_room :: "('n \<Rightarrow> ('a, 'c) pipe \<Rightarrow> ('a, 'c) pipe) \<Rightarrow> bool" where
  "keeps_room env \<longleftrightarrow> (\<forall>ns q. balanced q \<longrightarrow> balanced (env ns q) \<and> 0 < sem (env ns q))"

definition roomy :: "('a, 'c) pipe \<Rightarrow> bool" where
  "roomy p \<longleftrightarrow> balanced p \<and> 0 < sem p"

lemma release_held_replicate: "release_held is inp = fold_err unmapReading (replicate (length is) (hd is)) inp"
proof (induction "is" inp rule: release_held.induct)
  case (2 i js inp)
  then show ?case by (cases js rule: rev_cases) (auto split: sum.split)
qed simp

lemma decode_write:
  assumes "roomy out"
  obtains d i q ns r where "tryHoldForWriting out = Inr (Some (d, i), q)" "unmapWriting i b q = Inr (ns, r)"
    "balanced r" "\<not> b \<Longrightarrow> roomy r"
proof -
  from assms obtain d i q where h: "tryHoldForWriting out = Inr (Some (d, i), q)" "balanced q"
      "i < length (subpipes out)" "length (subpipes q) = length (subpipes out)" "\<not> isFree (subpipes q ! i)"
    unfolding roomy_def by (meson hold_then_unmap)
  obtain ns r where u: "unmapWriting i b q = Inr (ns, r)" using h(3,4) by (metis unmapWriting_in_range)
  show ?thesis
    using that [OF h(1) u] unmapWriting_taken [OF h(2) _ h(5) u] h(3,4) by (simp add: roomy_def)
qed

lemma decode_frames_again:
  assumes "roomy out" and "keeps_room env"
  shows "\<exists>out'. decode_frames env n True index [] inp out = Inr ([index], inp, out') \<and> roomy out'"
  using assms(1)
proof (induction n arbitrary: out)
  case 0
  then show ?case by (rule decode_write [of out False]) simp
next
  case (Suc n)
  obtain d i q ns r where w: "tryHoldForWriting out = Inr (Some (d, i), q)" "unmapWriting i True q = Inr (ns, r)"
    "balanced r" by (rule decode_write [OF Suc.prems])
  then have "roomy (env ns r)" using assms(2) by (simp add: roomy_def keeps_room_def)
  from Suc.IH [OF this] w show ?case by auto
qed

lemma decode_packet_step:
  assumes "roomy out" and "keeps_room env" and "release_held holding inp = Inr inp'"
  shows "\<exists>out'. decode_packet env 0 (Suc n) True index holding inp out = Inr ([index], inp', out') \<and> roomy out'"
proof -
  obtain d i q ns r where w: "tryHoldForWriting out = Inr (Some (d, i), q)" "unmapWriting i True q = Inr (ns, r)"
    "balanced r" by (rule decode_write [OF assms(1)])
  then have "roomy (env ns r)" using assms(2) by (simp add: roomy_def keeps_room_def)
  from decode_frames_again [OF this assms(2), of n index inp'] w assms(3) show ?thesis
    by (auto simp: decode_packet_def)
qed

lemma decode_run_one_behind:
  assumes "keeps_room env" and "ps \<noteq> []" and "\<forall>(i, n) \<in> set ps. 0 < n" and "roomy out" and "length holding \<le> 1"
    and "fold_err unmapReading (holding @ map fst (butlast ps)) inp = Inr inp'"
  shows "\<exists>out'. decode_run env ps holding inp out = Inr ([fst (last ps)], inp', out')"
  using assms(2-6)
proof (induction ps arbitrary: holding inp out)
  case (Cons p ps)
  obtain i m where p: "p = (i, Suc m)" using Cons.prems(2) by (cases p) (auto simp: gr0_conv_Suc)
  have h: "release_held holding inp = fold_err unmapReading holding inp"
    using Cons.prems(4) by (cases holding) (simp_all add: release_held_replicate)
  from Cons.prems(5) obtain q where q: "fold_err unmapReading holding inp = Inr q"
    "fold_err unmapReading (map fst (butlast (p # ps))) q = Inr inp'"
    by (auto simp: fold_err_append split: sum.splits)
  from decode_packet_step [OF Cons.prems(3) assms(1), of holding inp q m i] h q(1) obtain out' where
    s: "decode_packet env 0 (Suc m) True i holding inp out = Inr ([i], q, out')" "roomy out'" by auto
  show ?case
  proof (cases "ps = []")
    case True
    with s q p show ?thesis by simp
  next
    case False
    with q(2) p have "fold_err unmapReading ([i] @ map fst (butlast ps)) q = Inr inp'" by simp
    from Cons.IH [OF False _ s(2) _ this] Cons.prems(2) s(1) p False show ?thesis by auto
  qed
qed simp

text \<open>
  A decoder whose every packet completes a frame is one packet behind: after a run of
  packets it has given back exactly the readings of all but the last, each once, and holds the slot of the last.
\<close>

theorem decoder_one_behind:
  assumes "keeps_room env" and "roomy out" and "ps \<noteq> []" and "\<forall>(i, n) \<in> set ps. 0 < n"
    and "\<And>i. count_list (map fst ps) i \<le> owed_readings inp i"
  shows "\<exists>inp' out'. decode_run env ps [] inp out = Inr ([fst (last ps)], inp', out') \<and>
    (\<forall>i. owed_readings inp' i = owed_readings inp i - count_list (map fst (butlast ps)) i)"
proof -
  have "count_list (map fst (butlast ps)) i \<le> count_list (map fst ps) i" for i
    using assms(3) by (cases ps rule: rev_cases) simp_all
  with assms(5) have "count_list (map fst (butlast ps)) i \<le> owed_readings inp i" for i
    by (meson le_trans)
  from dpool.release_list [OF this] obtain inp' where
    r: "fold_err unmapReading (map fst (butlast ps)) inp = Inr inp'"
    "\<forall>i. owed_readings inp' i = owed_readings inp i - count_list (map fst (butlast ps)) i" by blast
  from r(1) have "fold_err unmapReading ([] @ map fst (butlast ps)) inp = Inr inp'" by simp
  from decode_run_one_behind [OF assms(1,3,4,2) _ this] r(2) show ?thesis by auto
qed

theorem decoder_one_behind_witness:
  "\<exists>inp' out'. decode_run (\<lambda>ns q. new_pipe 2 id) [(0, 1), (2, 1)] [] example_input (new_pipe 2 id :: (nat, nat) pipe) =
      Inr ([fst (last [(0, 1 :: nat), (2, 1)])], inp', out') \<and>
    (\<forall>i. owed_readings inp' i = owed_readings example_input i - count_list (map fst (butlast [(0, 1 :: nat), (2, 1)])) i)"
  by (rule decoder_one_behind)
    (auto simp: example_facts keeps_room_def roomy_def balanced_def taken_def new_pipe_def)

lemma unmapReading_free:
  "slot_free p i \<Longrightarrow>
     \<exists>q. unmapReading i p = Inr q \<and> owed_readings q = owed_readings p \<and> slot_free q i"
  by (auto simp: slot_free_def unmapReading_def Let_def owed_readings_def fun_eq_iff nth_list_update)

text \<open>
  Two packets that complete no frame are released wrongly: when the third completes one, the slot of the
  first is given back twice and the slot of the second never, while both are forgotten.
\<close>

theorem decoder_forgets_second_held:
  assumes "keeps_room env" and "roomy out" and "a \<noteq> b" and "owed_readings inp a = 1"
  shows "\<exists>inp' out'. decode_run env [(a, 0), (b, 0), (c, Suc n)] [] inp out = Inr ([c], inp', out') \<and>
    owed_readings inp' = (owed_readings inp)(a := 0)"
proof -
  obtain q where q: "unmapReading a inp = Inr q" "owed_readings q = (owed_readings inp)(a := 0)" "slot_free q a"
    using unmapReading_owed [of inp a] assms(4) by auto
  obtain r where r: "unmapReading a q = Inr r" "owed_readings r = owed_readings q"
    using unmapReading_free [OF q(3)] by blast
  have rel: "release_held [a, b] inp = Inr r"
    using q(1) r(1) by (simp add: release_held_replicate numeral_2_eq_2)
  obtain d1 i1 q1 n1 o1 where w1: "tryHoldForWriting out = Inr (Some (d1, i1), q1)"
    "unmapWriting i1 False q1 = Inr (n1, o1)" "roomy o1" using decode_write [OF assms(2), of False] by metis
  obtain d2 i2 q2 n2 o2 where w2: "tryHoldForWriting o1 = Inr (Some (d2, i2), q2)"
    "unmapWriting i2 False q2 = Inr (n2, o2)" "roomy o2" using decode_write [OF w1(3), of False] by metis
  from decode_packet_step [OF w2(3) assms(1) rel, of n c] obtain o3 where
    s: "decode_packet env 0 (Suc n) True c [a, b] inp o2 = Inr ([c], r, o3)" by blast
  have s1: "decode_packet env 0 0 True a [] inp out = Inr ([a], inp, o1)"
    and s2: "decode_packet env 0 0 True b [a] inp o1 = Inr ([a, b], inp, o2)"
    using w1 w2 by (simp_all add: decode_packet_def)
  show ?thesis by (simp add: s1 s2 s r(2) q(2) del: decode_frames.simps)
qed

theorem decoder_forgets_second_held_witness:
  "\<exists>inp' out'. decode_run (\<lambda>ns q. new_pipe 2 id) [(0, 0), (1, 0), (2, Suc 0)] [] example_input
      (new_pipe 2 id :: (nat, nat) pipe) = Inr ([2], inp', out') \<and>
    owed_readings inp' = (owed_readings example_input)(0 := 0)"
  by (rule decoder_forgets_second_held)
    (auto simp: example_facts keeps_room_def roomy_def balanced_def taken_def new_pipe_def)

section \<open>The RTP packetizer\<close>

text \<open>\<open>pk_ctx\<close>: the constructor could build the output context.\<close>

record ('a, 'h) packetizer =
  pk_ctx :: bool
  pk_started :: bool
  pk_input :: bool
  pk_listener :: "int option"
  pk_output :: "('a, 'h) pipe"

definition new_packetizer :: "bool \<Rightarrow> ('a, 'h) pipe \<Rightarrow> ('a, 'h) packetizer" where
  "new_packetizer ok p =
     \<lparr>pk_ctx = ok, pk_started = False, pk_input = False, pk_listener = None, pk_output = p\<rparr>"

text \<open>\<open>header\<close>: \<open>avformat_write_header\<close> succeeds; without a context it is undefined.\<close>

definition packetizer_start ::
    "'k \<Rightarrow> bool \<Rightarrow> int \<Rightarrow> ('b, 'k) pipe \<Rightarrow> ('a, 'h) packetizer \<Rightarrow>
       codec_error + bool \<times> int \<times> ('b, 'k) pipe \<times> ('a, 'h) packetizer" where
  "packetizer_start h header idx inp k =
     (if \<not> pk_ctx k then Inl NullCodec
      else if \<not> header then Inr (False, idx, inp, k)
      else (case onDataChanged h idx inp of
              Inl x \<Rightarrow> Inl (PipeError x)
            | Inr (l, idx, inp) \<Rightarrow>
                Inr (True, idx, inp, k\<lparr>pk_input := True, pk_started := True, pk_listener := Some l\<rparr>)))"

definition packetizer_stop :: "('b, 'k) pipe \<Rightarrow> ('a, 'h) packetizer \<Rightarrow> ('b, 'k) pipe \<times> ('a, 'h) packetizer" where
  "packetizer_stop inp k =
     (case pk_listener k of
        Some l \<Rightarrow> (if pk_input k then removeListener l inp else inp, k\<lparr>pk_started := False\<rparr>)
      | None \<Rightarrow> (inp, k\<lparr>pk_started := False\<rparr>))"

text \<open>\<open>write_packaged\<close>: what FFmpeg calls for every RTP packet it has built.\<close>

definition write_packaged ::
    "((int, 'h) omap \<Rightarrow> ('a, 'h) pipe \<Rightarrow> ('a, 'h) pipe) \<Rightarrow> ('a, 'h) pipe \<Rightarrow> pipe_error + ('a, 'h) pipe" where
  "write_packaged env out =
     (case tryHoldForWriting out of
        Inl x \<Rightarrow> Inl x
      | Inr (None, out) \<Rightarrow> Inr out
      | Inr (Some (raw, subpipe), out) \<Rightarrow>
          (case unmapWriting subpipe True out of
             Inl x \<Rightarrow> Inl x
           | Inr (ns, out) \<Rightarrow> Inr (env ns out)))"

text \<open>The listener of the packetizer, for a packet that FFmpeg turns into \<open>n\<close> RTP packets.\<close>

definition packetize ::
    "((int, 'h) omap \<Rightarrow> ('a, 'h) pipe \<Rightarrow> ('a, 'h) pipe) \<Rightarrow> nat \<Rightarrow> nat \<Rightarrow> ('b, 'k) pipe \<Rightarrow> ('a, 'h) packetizer \<Rightarrow>
       pipe_error + ('b, 'k) pipe \<times> ('a, 'h) packetizer" where
  "packetize env n index inp k =
     (case fold_err (\<lambda>_. write_packaged env) [0..<n] (pk_output k) of
        Inl x \<Rightarrow> Inl x
      | Inr out \<Rightarrow> map_sum id (\<lambda>inp. (inp, k\<lparr>pk_output := out\<rparr>)) (unmapReading index inp))"

lemma write_packaged_balanced:
  assumes "balanced p" and "keeps_balance env"
  shows "\<exists>q. write_packaged env p = Inr q \<and> balanced q"
proof (cases "sem p = 0")
  case True
  with assms show ?thesis by (simp add: write_packaged_def tryHold_empty)
next
  case False
  with assms(1) have "roomy p" by (simp add: roomy_def)
  then obtain d i q ns r where "tryHoldForWriting p = Inr (Some (d, i), q)" "unmapWriting i True q = Inr (ns, r)"
    "balanced r" by (rule decode_write)
  with assms(2) show ?thesis by (simp add: write_packaged_def keeps_balance_def)
qed

lemma packetize_disciplined:
  assumes "balanced (pk_output k)" and "keeps_balance env" and "0 < owed_readings inp index"
  shows "\<exists>inp' k'. packetize env n index inp k = Inr (inp', k') \<and> balanced (pk_output k') \<and>
    owed_readings inp' = (owed_readings inp)(index := owed_readings inp index - 1)"
proof -
  have "\<exists>q. fold_err (\<lambda>_. write_packaged env) xs p = Inr q \<and> balanced q" if "balanced p" for xs :: "nat list" and p
    using that by (induction xs arbitrary: p) (use write_packaged_balanced [OF _ assms(2)] in fastforce)+
  with assms(1) obtain q where "fold_err (\<lambda>_. write_packaged env) [0..<n] (pk_output k) = Inr q" "balanced q"
    by blast
  with dpool.release_owed [OF assms(3)] show ?thesis by (auto simp: packetize_def)
qed

end
