(* ===== verification/AudioOutput.thy ===== *)
theory AudioOutput
  imports Codec
begin

text \<open>
  \<open>Media::Audio::Output\<close> (\<open>lib/media/audiooutput.cpp\<close>): the listener of a frame pipe that plays the frames on a
  device. The frame pipes of the client are numbered; the devices of \<open>QMediaDevices\<close>, what a device supports and the
  state of the \<open>QAudioSink\<close> are arguments.
\<close>

section \<open>State and operations\<close>

text \<open>
  \<open>ao_sink\<close> and \<open>ao_io\<close> say whether the pointers are set; \<open>ao_played\<close> lists the slots of the frames written to
  the device.
\<close>

record audio_output =
  ao_device :: "string option"
  ao_sink :: bool
  ao_io :: bool
  ao_input :: "nat option"
  ao_listener :: "int option"
  ao_started :: bool
  ao_played :: "nat list"

definition new_output :: audio_output where
  "new_output = \<lparr>ao_device = None, ao_sink = False, ao_io = False, ao_input = None, ao_listener = None,
     ao_started = False, ao_played = []\<rparr>"

fun findDevice :: "string list \<Rightarrow> string \<Rightarrow> string option" where
  "findDevice [] dev = None"
| "findDevice (d # ds) dev = (if d = dev then Some d else findDevice ds dev)"

definition close_output ::
    "(nat \<Rightarrow> ('a, 'h) pipe) \<Rightarrow> audio_output \<Rightarrow> (nat \<Rightarrow> ('a, 'h) pipe) \<times> audio_output" where
  "close_output fs out =
     (if ao_started out
      then (let (fs, out) = (case (ao_listener out, ao_input out) of
              (Some k, Some a) \<Rightarrow> (fs(a := removeListener k (fs a)), out\<lparr>ao_input := None, ao_listener := None\<rparr>)
            | _ \<Rightarrow> (fs, out))
            in (fs, out\<lparr>ao_io := False, ao_sink := False, ao_started := False\<rparr>))
      else (fs, out))"

definition start_output ::
    "'h \<Rightarrow> string list \<Rightarrow> string \<Rightarrow> nat \<Rightarrow> int \<Rightarrow> (nat \<Rightarrow> ('a, 'h) pipe) \<Rightarrow> audio_output \<Rightarrow>
       pipe_error + bool \<times> int \<times> (nat \<Rightarrow> ('a, 'h) pipe) \<times> audio_output" where
  "start_output h devices devName a idx fs out =
     (let (fs, out) = (if ao_started out then close_output fs out else (fs, out)) in
      case findDevice devices devName of
        None \<Rightarrow> Inr (False, idx, fs, out)
      | Some device \<Rightarrow>
          (case onDataChanged h idx (fs a) of
             Inl x \<Rightarrow> Inl x
           | Inr (k, idx, p) \<Rightarrow>
               Inr (True, idx, fs(a := p),
                    out\<lparr>ao_device := Some device, ao_input := Some a, ao_listener := Some k, ao_started := True\<rparr>)))"

text \<open>
  The listener. \<open>supported\<close>: the device plays the format of the frame; \<open>active\<close>: the sink is in
  \<open>ActiveState\<close>; \<open>opens\<close>: \<open>sink->start()\<close> gives a device to write to. \<open>None\<close> is a null pointer.
\<close>

definition play_frame ::
    "bool \<Rightarrow> bool \<Rightarrow> bool \<Rightarrow> nat \<Rightarrow> (nat \<Rightarrow> ('a, 'h) pipe) \<Rightarrow> audio_output \<Rightarrow>
       (pipe_error + (nat \<Rightarrow> ('a, 'h) pipe) \<times> audio_output) option" where
  "play_frame supported active opens index fs out =
     (case ao_input out of
        None \<Rightarrow> None
      | Some a \<Rightarrow>
          (if \<not> ao_sink out \<and> \<not> supported
           then Some (map_sum id (\<lambda>p. (fs(a := p), out)) (unmapReading index (fs a)))
           else
             let out = out\<lparr>ao_sink := True\<rparr>;
                 out = (if \<not> active then out\<lparr>ao_io := opens\<rparr> else out)
             in if \<not> ao_io out then None
                else Some (map_sum id (\<lambda>p. (fs(a := p), out\<lparr>ao_played := ao_played out @ [index]\<rparr>))
                       (unmapReading index (fs a)))))"

section \<open>Properties\<close>

lemma findDevice_some: "findDevice ds d = (if d \<in> set ds then Some d else None)"
  by (induction ds) auto

text \<open>
  C27: A playing output pays for every frame: it gives the reading of each frame back exactly once, whether the frame could be
  played or not, touches no other pipe, and plays it exactly if the device supports the format or is already playing. But if there is
  nothing to write to when a frame is to be played, since the sink does not open or is active without a device, it goes through a null
  pointer.
\<close>

theorem output_pays_every_frame:
  assumes "ao_input out = Some a" and "0 < owed_readings (fs a) index"
  shows "if (ao_sink out \<or> supported) \<and> \<not> (if active then ao_io out else opens)
    then play_frame supported active opens index fs out = None
    else \<exists>fs' out'. play_frame supported active opens index fs out = Some (Inr (fs', out')) \<and>
      owed_readings (fs' a) = (owed_readings (fs a))(index := owed_readings (fs a) index - 1) \<and>
      (\<forall>b. b \<noteq> a \<longrightarrow> fs' b = fs b) \<and> ao_input out' = Some a \<and>
      ao_played out' = ao_played out @ (if ao_sink out \<or> supported then [index] else [])"
proof -
  obtain q where q: "unmapReading index (fs a) = Inr q"
    "owed_readings q = (owed_readings (fs a))(index := owed_readings (fs a) index - 1)"
    using dpool.release_owed [OF assms(2)] by blast
  with assms show ?thesis by (auto simp: play_frame_def Let_def)
qed

definition playing :: audio_output where
  "playing = new_output\<lparr>ao_device := Some ''phones'', ao_input := Some 7, ao_listener := Some 1, ao_started := True\<rparr>"

theorem output_pays_every_frame_witness:
  "(\<exists>fs' out'. play_frame True False True 2 (\<lambda>_. example_input) playing = Some (Inr (fs', out')) \<and>
    owed_readings (fs' 7) = (owed_readings example_input)(2 := owed_readings example_input 2 - 1) \<and>
    (\<forall>b. b \<noteq> 7 \<longrightarrow> fs' b = example_input) \<and> ao_input out' = Some 7 \<and> ao_played out' = ao_played playing @ [2]) \<and>
    play_frame True False False 2 (\<lambda>_. example_input) playing = None"
proof -
  have p: "ao_input playing = Some 7" "0 < owed_readings ((\<lambda>_. example_input) (7 :: nat)) 2"
    by (simp_all add: playing_def example_facts)
  from output_pays_every_frame [where fs = "\<lambda>_. example_input", OF p, of True False True]
    output_pays_every_frame [where fs = "\<lambda>_. example_input", OF p, of True False False]
  show ?thesis by simp
qed

text \<open>
  Starting an output that is playing moves it: afterwards its old number is registered with no pipe it was on, a new
  one is registered with the new pipe. An unknown device leaves it closed, with nothing
  registered.
\<close>

theorem restart_moves_output:
  assumes "ao_started out" and "ao_listener out = Some k" and "ao_input out = Some a" and "a \<noteq> b" and "idx + 1 < 2 ^ 31"
    and "idx + 1 \<notin> set (removeListenerQueue (fs b))"
  shows "\<exists>i fs' out'. start_output h devices devName b idx fs out = Inr (devName \<in> set devices, i, fs', out') \<and>
    k \<notin> fst ` set (listeners (drain_queues (fs' a))) \<and> ao_started out' = (devName \<in> set devices) \<and>
    (if devName \<in> set devices
     then ao_input out' = Some b \<and> ao_listener out' = Some (idx + 1) \<and>
       idx + 1 \<in> fst ` set (listeners (drain_queues (fs' b)))
     else ao_input out' = None \<and> ao_listener out' = None \<and> fs' b = fs b)"
proof -
  let ?fs = "fs(a := removeListener k (fs a))"
  let ?out = "out\<lparr>ao_input := None, ao_listener := None, ao_io := False, ao_sink := False, ao_started := False\<rparr>"
  have c: "close_output fs out = (?fs, ?out)" using assms(1-3) by (simp add: close_output_def)
  have gone: "k \<notin> fst ` set (listeners (drain_queues (?fs a)))" by (simp add: keys_drain removeListener_def)
  obtain p where p: "onDataChanged h idx (fs b) = Inr (idx + 1, idx + 1, p)"
    "idx + 1 \<in> fst ` set (listeners (drain_queues p))"
    using assms(5,6) by (simp add: onDataChanged_def keys_drain)
  show ?thesis
    using c gone p assms(1,4) by (simp add: start_output_def findDevice_some)
qed

theorem restart_moves_output_witness:
  "\<exists>i fs' out'. start_output () [''phones''] ''phones'' 8 1 (\<lambda>_. new_pipe 2 id) playing =
      Inr (''phones'' \<in> set [''phones''], i, fs', out') \<and>
    (1 :: int) \<notin> fst ` set (listeners (drain_queues (fs' 7))) \<and> ao_started out' = (''phones'' \<in> set [''phones'']) \<and>
    (if ''phones'' \<in> set [''phones'']
     then ao_input out' = Some 8 \<and> ao_listener out' = Some (1 + 1) \<and>
       1 + 1 \<in> fst ` set (listeners (drain_queues (fs' 8)))
     else ao_input out' = None \<and> ao_listener out' = None \<and> fs' 8 = (\<lambda>_. new_pipe 2 id) 8)"
  by (rule restart_moves_output) (simp_all add: playing_def new_pipe_def)

end
