(* ===== verification/Formats.thy ===== *)
theory Formats
  imports Prelude
begin

text \<open>
  The tables between the formats of FFmpeg and Qt: \<open>Media::Video::toQtPixel\<close> (\<open>lib/media/media.cpp\<close>),
  \<open>Media::Video::toAVPixel\<close> and the two of \<open>Media::Audio\<close> (\<open>lib/media/media.h\<close>). An FFmpeg pixel format that
  no table names is \<open>AV_PIX_FMT_OTHER\<close> with its number; what \<open>av_pix_fmt_desc_get\<close> says of it, whether it is RGB and
  how deep its first component is, is an argument.
\<close>

section \<open>Pixel formats\<close>

datatype av_pixel =
  AV_PIX_FMT_OTHER nat | AV_PIX_FMT_NONE | AV_PIX_FMT_ARGB | AV_PIX_FMT_0RGB | AV_PIX_FMT_BGRA
  | AV_PIX_FMT_BGR0 | AV_PIX_FMT_ABGR | AV_PIX_FMT_0BGR | AV_PIX_FMT_RGBA | AV_PIX_FMT_RGB0
  | AV_PIX_FMT_YUVJ422P | AV_PIX_FMT_YUV422P | AV_PIX_FMT_YUV420P | AV_PIX_FMT_YUV420P10
  | AV_PIX_FMT_UYVY422 | AV_PIX_FMT_YUYV422 | AV_PIX_FMT_NV12 | AV_PIX_FMT_NV21
  | AV_PIX_FMT_GRAY8 | AV_PIX_FMT_GRAY16 | AV_PIX_FMT_P010 | AV_PIX_FMT_P016
  | AV_PIX_FMT_MEDIACODEC

datatype qt_pixel =
  Format_Invalid | Format_AYUV | Format_AYUV_Premultiplied | Format_YV12 | Format_IMC1
  | Format_IMC2 | Format_IMC3 | Format_IMC4 | Format_Jpeg | Format_ARGB8888
  | Format_ARGB8888_Premultiplied | Format_XRGB8888 | Format_BGRA8888
  | Format_BGRA8888_Premultiplied | Format_BGRX8888 | Format_ABGR8888 | Format_XBGR8888
  | Format_RGBA8888 | Format_RGBX8888 | Format_YUV422P | Format_YUV420P | Format_YUV420P10
  | Format_UYVY | Format_YUYV | Format_NV12 | Format_NV21 | Format_Y8 | Format_Y16 | Format_P010
  | Format_P016 | Format_SamplerExternalOES

text \<open>The negative format is \<open>AV_PIX_FMT_NONE\<close>, which the first test catches.\<close>

fun toQtPixel :: "(nat \<Rightarrow> bool \<times> nat) \<Rightarrow> av_pixel \<Rightarrow> qt_pixel" where
  "toQtPixel desc AV_PIX_FMT_NONE = Format_Invalid"
| "toQtPixel desc AV_PIX_FMT_ARGB = Format_ARGB8888"
| "toQtPixel desc AV_PIX_FMT_0RGB = Format_XRGB8888"
| "toQtPixel desc AV_PIX_FMT_BGRA = Format_BGRA8888"
| "toQtPixel desc AV_PIX_FMT_BGR0 = Format_BGRX8888"
| "toQtPixel desc AV_PIX_FMT_ABGR = Format_ABGR8888"
| "toQtPixel desc AV_PIX_FMT_0BGR = Format_XBGR8888"
| "toQtPixel desc AV_PIX_FMT_RGBA = Format_RGBA8888"
| "toQtPixel desc AV_PIX_FMT_RGB0 = Format_RGBX8888"
| "toQtPixel desc AV_PIX_FMT_YUVJ422P = Format_YUV422P"
| "toQtPixel desc AV_PIX_FMT_YUV422P = Format_YUV422P"
| "toQtPixel desc AV_PIX_FMT_YUV420P = Format_YUV420P"
| "toQtPixel desc AV_PIX_FMT_YUV420P10 = Format_YUV420P10"
| "toQtPixel desc AV_PIX_FMT_UYVY422 = Format_UYVY"
| "toQtPixel desc AV_PIX_FMT_YUYV422 = Format_YUYV"
| "toQtPixel desc AV_PIX_FMT_NV12 = Format_NV12"
| "toQtPixel desc AV_PIX_FMT_NV21 = Format_NV21"
| "toQtPixel desc AV_PIX_FMT_GRAY8 = Format_Y8"
| "toQtPixel desc AV_PIX_FMT_GRAY16 = Format_Y16"
| "toQtPixel desc AV_PIX_FMT_P010 = Format_P010"
| "toQtPixel desc AV_PIX_FMT_P016 = Format_P016"
| "toQtPixel desc AV_PIX_FMT_MEDIACODEC = Format_SamplerExternalOES"
| "toQtPixel desc (AV_PIX_FMT_OTHER n) =
     (if fst (desc n) then Format_RGBA8888 else if 8 < snd (desc n) then Format_P016 else Format_YUV420P)"

fun toAVPixel :: "qt_pixel \<Rightarrow> av_pixel" where
  "toAVPixel Format_Invalid = AV_PIX_FMT_NONE"
| "toAVPixel Format_AYUV = AV_PIX_FMT_NONE"
| "toAVPixel Format_AYUV_Premultiplied = AV_PIX_FMT_NONE"
| "toAVPixel Format_YV12 = AV_PIX_FMT_NONE"
| "toAVPixel Format_IMC1 = AV_PIX_FMT_NONE"
| "toAVPixel Format_IMC2 = AV_PIX_FMT_NONE"
| "toAVPixel Format_IMC3 = AV_PIX_FMT_NONE"
| "toAVPixel Format_IMC4 = AV_PIX_FMT_NONE"
| "toAVPixel Format_Jpeg = AV_PIX_FMT_BGRA"
| "toAVPixel Format_ARGB8888 = AV_PIX_FMT_ARGB"
| "toAVPixel Format_ARGB8888_Premultiplied = AV_PIX_FMT_0RGB"
| "toAVPixel Format_XRGB8888 = AV_PIX_FMT_0RGB"
| "toAVPixel Format_BGRA8888 = AV_PIX_FMT_BGRA"
| "toAVPixel Format_BGRA8888_Premultiplied = AV_PIX_FMT_BGR0"
| "toAVPixel Format_BGRX8888 = AV_PIX_FMT_BGR0"
| "toAVPixel Format_ABGR8888 = AV_PIX_FMT_ABGR"
| "toAVPixel Format_XBGR8888 = AV_PIX_FMT_0BGR"
| "toAVPixel Format_RGBA8888 = AV_PIX_FMT_RGBA"
| "toAVPixel Format_RGBX8888 = AV_PIX_FMT_RGB0"
| "toAVPixel Format_YUV422P = AV_PIX_FMT_YUV422P"
| "toAVPixel Format_YUV420P = AV_PIX_FMT_YUV420P"
| "toAVPixel Format_YUV420P10 = AV_PIX_FMT_YUV420P10"
| "toAVPixel Format_UYVY = AV_PIX_FMT_UYVY422"
| "toAVPixel Format_YUYV = AV_PIX_FMT_YUYV422"
| "toAVPixel Format_NV12 = AV_PIX_FMT_NV12"
| "toAVPixel Format_NV21 = AV_PIX_FMT_NV21"
| "toAVPixel Format_Y8 = AV_PIX_FMT_GRAY8"
| "toAVPixel Format_Y16 = AV_PIX_FMT_GRAY16"
| "toAVPixel Format_P010 = AV_PIX_FMT_P010"
| "toAVPixel Format_P016 = AV_PIX_FMT_P016"
| "toAVPixel Format_SamplerExternalOES = AV_PIX_FMT_MEDIACODEC"

section \<open>Sample formats\<close>

datatype av_sample =
  AV_SAMPLE_FMT_NONE | AV_SAMPLE_FMT_U8 | AV_SAMPLE_FMT_U8P | AV_SAMPLE_FMT_S16 | AV_SAMPLE_FMT_S16P
  | AV_SAMPLE_FMT_S32 | AV_SAMPLE_FMT_S32P | AV_SAMPLE_FMT_FLT | AV_SAMPLE_FMT_FLTP | AV_SAMPLE_FMT_DBL
  | AV_SAMPLE_FMT_DBLP | AV_SAMPLE_FMT_S64 | AV_SAMPLE_FMT_S64P

datatype qt_sample = UnknownSample | UInt8 | Int16 | Int32 | FloatSample

fun toQtFormat :: "av_sample \<Rightarrow> qt_sample" where
  "toQtFormat AV_SAMPLE_FMT_NONE = UnknownSample"
| "toQtFormat AV_SAMPLE_FMT_U8 = UInt8"
| "toQtFormat AV_SAMPLE_FMT_U8P = UInt8"
| "toQtFormat AV_SAMPLE_FMT_S16 = Int16"
| "toQtFormat AV_SAMPLE_FMT_S16P = Int16"
| "toQtFormat AV_SAMPLE_FMT_S32 = Int32"
| "toQtFormat AV_SAMPLE_FMT_S32P = Int32"
| "toQtFormat AV_SAMPLE_FMT_FLT = FloatSample"
| "toQtFormat AV_SAMPLE_FMT_FLTP = FloatSample"
| "toQtFormat AV_SAMPLE_FMT_DBL = FloatSample"
| "toQtFormat AV_SAMPLE_FMT_DBLP = FloatSample"
| "toQtFormat AV_SAMPLE_FMT_S64 = FloatSample"
| "toQtFormat AV_SAMPLE_FMT_S64P = FloatSample"

fun toAVFormat :: "qt_sample \<Rightarrow> av_sample" where
  "toAVFormat UInt8 = AV_SAMPLE_FMT_U8"
| "toAVFormat Int16 = AV_SAMPLE_FMT_S16"
| "toAVFormat Int32 = AV_SAMPLE_FMT_S32"
| "toAVFormat FloatSample = AV_SAMPLE_FMT_FLT"
| "toAVFormat UnknownSample = AV_SAMPLE_FMT_NONE"

text \<open>Bytes of one sample, as both libraries document them; 0 for no format.\<close>

fun av_bytes :: "av_sample \<Rightarrow> nat" where
  "av_bytes AV_SAMPLE_FMT_NONE = 0"
| "av_bytes AV_SAMPLE_FMT_U8 = 1"
| "av_bytes AV_SAMPLE_FMT_U8P = 1"
| "av_bytes AV_SAMPLE_FMT_S16 = 2"
| "av_bytes AV_SAMPLE_FMT_S16P = 2"
| "av_bytes AV_SAMPLE_FMT_S32 = 4"
| "av_bytes AV_SAMPLE_FMT_S32P = 4"
| "av_bytes AV_SAMPLE_FMT_FLT = 4"
| "av_bytes AV_SAMPLE_FMT_FLTP = 4"
| "av_bytes AV_SAMPLE_FMT_DBL = 8"
| "av_bytes AV_SAMPLE_FMT_DBLP = 8"
| "av_bytes AV_SAMPLE_FMT_S64 = 8"
| "av_bytes AV_SAMPLE_FMT_S64P = 8"

fun qt_bytes :: "qt_sample \<Rightarrow> nat" where
  "qt_bytes UnknownSample = 0"
| "qt_bytes UInt8 = 1"
| "qt_bytes Int16 = 2"
| "qt_bytes Int32 = 4"
| "qt_bytes FloatSample = 4"

section \<open>Round trips\<close>

definition no_av_pixel :: "qt_pixel list" where
  "no_av_pixel = [Format_AYUV, Format_AYUV_Premultiplied, Format_YV12, Format_IMC1, Format_IMC2, Format_IMC3,
     Format_IMC4, Format_Jpeg, Format_ARGB8888_Premultiplied, Format_BGRA8888_Premultiplied]"

definition no_qt_pixel :: "av_pixel \<Rightarrow> bool" where
  "no_qt_pixel p = (case p of AV_PIX_FMT_YUVJ422P \<Rightarrow> True | AV_PIX_FMT_OTHER n \<Rightarrow> True | _ \<Rightarrow> False)"

text \<open>
  The pixel tables invert each other except where they cannot: a Qt format comes back from FFmpeg unless it has no
  counterpart or shares one (Jpeg and the premultiplied formats), and an FFmpeg format comes back from Qt
  unless no table names it or it is the full-range twin of \<open>YUV422P\<close>.
\<close>

theorem pixel_tables_invert:
  "(toQtPixel desc (toAVPixel q) = q \<longleftrightarrow> q \<notin> set no_av_pixel) \<and>
   (toAVPixel (toQtPixel desc p) = p \<longleftrightarrow> \<not> no_qt_pixel p)"
proof
  show "toQtPixel desc (toAVPixel q) = q \<longleftrightarrow> q \<notin> set no_av_pixel"
    by (cases q) (simp_all add: no_av_pixel_def)
  show "toAVPixel (toQtPixel desc p) = p \<longleftrightarrow> \<not> no_qt_pixel p"
    by (cases p) (simp_all add: no_qt_pixel_def)
qed

text \<open>
  Every Qt sample format comes back from FFmpeg, and the size of a sample survives the way to Qt exactly for the formats of
  at most 32 bits: doubles and 64-bit integers are announced to the sink as floats of half their size.
\<close>

theorem sample_tables_invert:
  "toQtFormat (toAVFormat q) = q \<and> av_bytes (toAVFormat q) = qt_bytes q \<and>
   (qt_bytes (toQtFormat s) = av_bytes s \<longleftrightarrow>
      s \<notin> {AV_SAMPLE_FMT_DBL, AV_SAMPLE_FMT_DBLP, AV_SAMPLE_FMT_S64, AV_SAMPLE_FMT_S64P})"
  by (cases q; cases s) simp_all

end
