(* ===== verification/CodecSetup.thy ===== *)
theory CodecSetup
  imports Codec Formats
begin

text \<open>
  How encoders and decoders are set up over FFmpeg (\<open>lib/media/encoder.cpp\<close>, \<open>lib/media/decoder.cpp\<close>): the choice
  of a format that the codec has, the resampler, and the constructors. What FFmpeg finds, allocates and
  opens is an argument.
\<close>

section \<open>Formats of an encoder\<close>

text \<open>The arrays of an \<open>AVCodec\<close>, each up to and with its end mark.\<close>

record codec =
  cc_sample_fmts :: "av_sample list"
  cc_pix_fmts :: "av_pixel list"
  cc_samplerates :: "int list"

text \<open>The loop over an array with the end mark \<open>stop\<close>; \<open>None\<close> is a read behind the array.\<close>

fun scan_formats :: "'x \<Rightarrow> 'x \<Rightarrow> 'x list \<Rightarrow> bool option" where
  "scan_formats stop x [] = None"
| "scan_formats stop x (p # ps) = (if p = stop then Some False else if p = x then Some True else scan_formats stop x ps)"

definition checkSampleFormat :: "codec option \<Rightarrow> av_sample \<Rightarrow> bool option" where
  "checkSampleFormat cdc fmt =
     (case cdc of None \<Rightarrow> Some False | Some c \<Rightarrow> scan_formats AV_SAMPLE_FMT_NONE fmt (cc_sample_fmts c))"

definition checkSampleRate :: "codec option \<Rightarrow> int \<Rightarrow> bool option" where
  "checkSampleRate cdc rate =
     (case cdc of None \<Rightarrow> Some False | Some c \<Rightarrow> scan_formats 0 rate (cc_samplerates c))"

definition checkPixelFormat :: "codec option \<Rightarrow> av_pixel \<Rightarrow> bool option" where
  "checkPixelFormat cdc check =
     (case cdc of None \<Rightarrow> None | Some c \<Rightarrow> scan_formats AV_PIX_FMT_NONE check (cc_pix_fmts c))"

definition first_format :: "'x list \<Rightarrow> 'x option" where
  "first_format xs = (case xs of [] \<Rightarrow> None | x # _ \<Rightarrow> Some x)"

definition required_pixel :: "codec option \<Rightarrow> av_pixel \<Rightarrow> av_pixel option" where
  "required_pixel cdc fmt =
     (case checkPixelFormat cdc fmt of
        None \<Rightarrow> None
      | Some True \<Rightarrow> Some fmt
      | Some False \<Rightarrow> Option.bind cdc (\<lambda>c. first_format (cc_pix_fmts c)))"

record audio_par =
  au_format :: av_sample
  au_rate :: int
  au_channels :: nat

text \<open>What an audio encoder encodes: always mono at 24000 samples a second.\<close>

definition required_audio :: "codec option \<Rightarrow> audio_par \<Rightarrow> audio_par option" where
  "required_audio cdc par =
     (case checkSampleFormat cdc (au_format par) of
        None \<Rightarrow> None
      | Some True \<Rightarrow> Some \<lparr>au_format = au_format par, au_rate = 24000, au_channels = 1\<rparr>
      | Some False \<Rightarrow>
          Option.bind cdc (\<lambda>c. map_option (\<lambda>f. \<lparr>au_format = f, au_rate = 24000, au_channels = 1\<rparr>)
            (first_format (cc_sample_fmts c))))"

definition audio_converts :: "audio_par \<Rightarrow> audio_par \<Rightarrow> bool" where
  "audio_converts req par \<longleftrightarrow> au_format par \<noteq> au_format req \<or> au_rate par \<noteq> au_rate req"

section \<open>Starting an encoder\<close>

text \<open>\<open>start\<close> of a video encoder, from the choice of the format; the last component: a scaler is made.\<close>

definition video_encoder_start ::
    "codec \<Rightarrow> av_pixel \<Rightarrow> 'h \<Rightarrow> bool \<Rightarrow> nat \<Rightarrow> int \<Rightarrow> (nat \<Rightarrow> ('a, 'h) pipe) \<Rightarrow> ('a, 'h) encoder \<Rightarrow>
       codec_error + (bool \<times> int \<times> (nat \<Rightarrow> ('a, 'h) pipe) \<times> ('a, 'h) encoder) \<times> bool" where
  "video_encoder_start c fmt h opens a idx fs e =
     (case required_pixel (if en_cdc e then Some c else None) fmt of
        None \<Rightarrow> Inl NullCodec
      | Some req \<Rightarrow> map_sum id (\<lambda>r. (r, opens \<and> req \<noteq> fmt)) (video_start h opens a idx fs e))"

text \<open>
  \<open>start\<close> of an audio encoder. The result of \<open>swr_alloc_set_opts2\<close> is not kept, so without memory for the
  resampler \<open>swr_init\<close> is called on a null pointer. \<open>chunk\<close>: the buffer for a chunk could be allocated.
\<close>

definition audio_encoder_start ::
    "codec \<Rightarrow> audio_par \<Rightarrow> bool \<Rightarrow> bool \<Rightarrow> bool \<Rightarrow> 'h \<Rightarrow> bool \<Rightarrow> bool \<Rightarrow> nat \<Rightarrow> int \<Rightarrow> (nat \<Rightarrow> ('a, 'h) pipe) \<Rightarrow> ('a, 'h) encoder \<Rightarrow>
       codec_error + bool \<times> int \<times> (nat \<Rightarrow> ('a, 'h) pipe) \<times> ('a, 'h) encoder" where
  "audio_encoder_start c par fifo swr inits h opens chunk a idx fs e =
     (case required_audio (if en_cdc e then Some c else None) par of
        None \<Rightarrow> Inl NullCodec
      | Some req \<Rightarrow>
          (if audio_converts req par
           then if \<not> fifo then Inr (False, idx, fs, e)
                else if \<not> swr then Inl NullResampler
                else if \<not> inits then Inr (False, idx, fs, e)
                else audio_start h True (opens \<and> chunk) a idx fs e
           else audio_start h False (opens \<and> chunk) a idx fs e))"

section \<open>Constructing a codec\<close>

text \<open>The options an encoder is given; FFmpeg takes or ignores them when it is opened.\<close>

record encoder_options =
  eo_opts :: "(string \<times> string) list"
  eo_time_base :: "(int \<times> int) option"
  eo_bit_rate :: "int option"

definition h264_encoder :: "bool \<Rightarrow> bool \<Rightarrow> ('a, 'h) pipe \<Rightarrow> encoder_options option \<times> ('a, 'h) encoder" where
  "h264_encoder found alloc p =
     (if \<not> found then (None, new_encoder False p)
      else if \<not> alloc then (None, new_encoder False p)
      else (Some \<lparr>eo_opts = [(''profile'', ''high422''), (''preset'', ''ultrafast''), (''tune'', ''zerolatency'')],
                  eo_time_base = Some (1, 30), eo_bit_rate = None\<rparr>, new_encoder True p))"

definition aac_encoder :: "bool \<Rightarrow> bool \<Rightarrow> ('a, 'h) pipe \<Rightarrow> encoder_options option \<times> ('a, 'h) encoder" where
  "aac_encoder found alloc p =
     (if \<not> found then (None, new_encoder False p)
      else if \<not> alloc then (None, new_encoder False p)
      else (Some \<lparr>eo_opts = [], eo_time_base = Some (1, 30), eo_bit_rate = Some (20 * 1000 * 1000)\<rparr>, new_encoder True p))"

definition opus_encoder :: "bool \<Rightarrow> bool \<Rightarrow> ('a, 'h) pipe \<Rightarrow> encoder_options option \<times> ('a, 'h) encoder" where
  "opus_encoder found alloc p =
     (if \<not> found then (None, new_encoder False p)
      else if \<not> alloc then (None, new_encoder False p)
      else (Some \<lparr>eo_opts = [(''application'', ''voip'')], eo_time_base = None, eo_bit_rate = None\<rparr>, new_encoder True p))"

text \<open>
  A decoder: the context as far as the code sets or reads it. The last line of every constructor moves the context
  into the call of \<open>initialize\<close> and reads it for another argument of the same call; which comes first is for the compiler
  to choose, and the move leaves a null pointer.
\<close>

record video_context =
  vx_width :: int
  vx_height :: int
  vx_format :: av_pixel

datatype arg_order = MoveFirst | ReadFirst

text \<open>\<open>None\<close>: the null pointer; \<open>Some None\<close>: not initialized; else the shape of the frames of the output.\<close>

definition initialize_decoder :: "arg_order \<Rightarrow> 'x \<Rightarrow> 'x option option" where
  "initialize_decoder order cx = (case order of MoveFirst \<Rightarrow> None | ReadFirst \<Rightarrow> Some (Some cx))"

definition video_decoder ::
    "arg_order \<Rightarrow> (nat \<Rightarrow> bool) \<Rightarrow> bool \<Rightarrow> (video_context \<Rightarrow> video_context option) \<Rightarrow> nat \<times> video_context \<Rightarrow>
       video_context option option" where
  "video_decoder order finds alloc open2 src =
     (if \<not> finds (fst src) then Some None
      else if \<not> alloc then Some None
      else case open2 \<lparr>vx_width = vx_width (snd src), vx_height = vx_height (snd src), vx_format = vx_format (snd src)\<rparr> of
             None \<Rightarrow> Some None
           | Some cx \<Rightarrow> initialize_decoder order cx)"

definition audio_decoder ::
    "arg_order \<Rightarrow> (nat \<Rightarrow> bool) \<Rightarrow> bool \<Rightarrow> (audio_par \<Rightarrow> audio_par option) \<Rightarrow> nat \<times> audio_par \<Rightarrow> audio_par option option" where
  "audio_decoder order finds alloc open2 src =
     (if \<not> finds (fst src) then Some None
      else if \<not> alloc then Some None
      else case open2 (snd src) of None \<Rightarrow> Some None | Some cx \<Rightarrow> initialize_decoder order cx)"

text \<open>The decoders of the received streams; \<open>cx\<close> is the context as it is allocated.\<close>

definition opus_decoder ::
    "arg_order \<Rightarrow> bool \<Rightarrow> bool \<Rightarrow> (audio_par \<Rightarrow> audio_par option) \<Rightarrow> audio_par \<Rightarrow> audio_par option option" where
  "opus_decoder order found alloc open2 cx =
     (if \<not> found then Some None
      else if \<not> alloc then Some None
      else case open2 (cx\<lparr>au_channels := 1\<rparr>) of None \<Rightarrow> Some None | Some cx \<Rightarrow> initialize_decoder order cx)"

definition h264_decoder ::
    "arg_order \<Rightarrow> bool \<Rightarrow> bool \<Rightarrow> (video_context \<Rightarrow> video_context option) \<Rightarrow> video_context \<Rightarrow> video_context option option" where
  "h264_decoder order found alloc open2 cx =
     (if \<not> found then Some None
      else if \<not> alloc then Some None
      else case open2 cx of None \<Rightarrow> Some None | Some cx \<Rightarrow> initialize_decoder order cx)"

section \<open>Properties\<close>

lemma scan_formats_ended:
  "stop \<notin> set xs \<Longrightarrow> scan_formats stop x (xs @ stop # ys) = Some (x \<in> set xs)"
  by (induction xs) auto

lemma first_format_append [simp]: "xs \<noteq> [] \<Longrightarrow> first_format (xs @ ys) = Some (hd xs)"
  by (cases xs) (simp_all add: first_format_def)

text \<open>
  The format an encoder asks for is always one the codec has, and the one of the source if the codec has
  it; a scaler is made exactly if it has not. Audio is mono at 24 kHz, and a resampler is made exactly if the
  sample format or the rate differs: the channels are not looked at.
\<close>

theorem required_formats_supported:
  assumes "cc_pix_fmts c = ps @ [AV_PIX_FMT_NONE]" and "AV_PIX_FMT_NONE \<notin> set ps" and "ps \<noteq> []"
    and "cc_sample_fmts c = ss @ [AV_SAMPLE_FMT_NONE]" and "AV_SAMPLE_FMT_NONE \<notin> set ss" and "ss \<noteq> []"
  shows "(\<exists>req. required_pixel (Some c) fmt = Some req \<and> req \<in> set ps \<and> (req = fmt \<longleftrightarrow> fmt \<in> set ps)) \<and>
    (\<exists>req. required_audio (Some c) par = Some req \<and> au_format req \<in> set ss \<and> au_rate req = 24000 \<and> au_channels req = 1 \<and>
      (audio_converts req par \<longleftrightarrow> au_format par \<notin> set ss \<or> au_rate par \<noteq> 24000))"
proof -
  have "checkPixelFormat (Some c) fmt = Some (fmt \<in> set ps)"
    using assms(1,2) by (simp add: checkPixelFormat_def scan_formats_ended)
  moreover have "checkSampleFormat (Some c) (au_format par) = Some (au_format par \<in> set ss)"
    using assms(4,5) by (simp add: checkSampleFormat_def scan_formats_ended)
  moreover have "hd ps \<in> set ps" "hd ss \<in> set ss" using assms(3,6) by simp_all
  ultimately show ?thesis
    using assms by (cases "fmt \<in> set ps"; cases "au_format par \<in> set ss")
      (auto simp: required_pixel_def required_audio_def audio_converts_def)
qed

theorem required_formats_supported_witness:
  "\<exists>req. required_audio (Some \<lparr>cc_sample_fmts = [AV_SAMPLE_FMT_FLTP, AV_SAMPLE_FMT_NONE],
      cc_pix_fmts = [AV_PIX_FMT_YUV420P, AV_PIX_FMT_NONE], cc_samplerates = [0]\<rparr>)
      \<lparr>au_format = AV_SAMPLE_FMT_FLTP, au_rate = 24000, au_channels = 2\<rparr> = Some req \<and>
    \<not> audio_converts req \<lparr>au_format = AV_SAMPLE_FMT_FLTP, au_rate = 24000, au_channels = 2\<rparr>"
  using required_formats_supported [of "\<lparr>cc_sample_fmts = [AV_SAMPLE_FMT_FLTP, AV_SAMPLE_FMT_NONE],
      cc_pix_fmts = [AV_PIX_FMT_YUV420P, AV_PIX_FMT_NONE], cc_samplerates = [0]\<rparr>" "[AV_PIX_FMT_YUV420P]"
      "[AV_SAMPLE_FMT_FLTP]" AV_PIX_FMT_NV12 "\<lparr>au_format = AV_SAMPLE_FMT_FLTP, au_rate = 24000, au_channels = 2\<rparr>"]
  by auto

lemma copied_context: "\<lparr>vx_width = vx_width x, vx_height = vx_height x, vx_format = vx_format x\<rparr> = x" for x :: video_context
  by simp

text \<open>
  A decoder for a source is ready exactly if FFmpeg has its codec and could allocate and open it, and then its frames
  have the shape FFmpeg opened; one that is not ready refuses to start and registers nothing. That holds if
  the compiler reads the context before it moves it; otherwise every constructor that gets that far ends in a null pointer.
\<close>

theorem decoder_ready_or_refuses:
  "(\<exists>r. video_decoder ReadFirst finds alloc open2 src = Some r \<and>
      (r \<noteq> None \<longleftrightarrow> finds (fst src) \<and> alloc \<and> open2 (snd src) \<noteq> None) \<and> (r \<noteq> None \<longrightarrow> r = open2 (snd src)) \<and>
      (r = None \<longrightarrow> decoder_start h idx inp (new_decoder (r \<noteq> None) a) = Inr (False, idx, inp, new_decoder False a)))
   \<and> (video_decoder MoveFirst finds alloc open2 src = None \<longleftrightarrow> finds (fst src) \<and> alloc \<and> open2 (snd src) \<noteq> None)"
  by (auto simp: video_decoder_def initialize_decoder_def decoder_start_def new_decoder_def copied_context
      split: option.split)

text \<open>An audio encoder that cannot be prepared keeps its state.\<close>

lemma audio_start_refused:
  assumes "required_audio (Some c) par = Some req" and "audio_converts req par" and "en_cdc e" and "\<not> fifo \<or> swr \<and> \<not> inits"
  shows "audio_encoder_start c par fifo swr inits h opens chunk a idx fs e = Inr (False, idx, fs, e)"
  using assms by (auto simp: audio_encoder_start_def)

end
