(* ===== verification/Demuxer.thy ===== *)
theory Demuxer
  imports Codec
begin

text \<open>
  \<open>Media::Video::H264Demuxer\<close> and \<open>Media::Audio::OpusDemuxer\<close> (\<open>lib/media/decoder.cpp\<close>): a datagram of
  a raw pipe is read by FFmpeg through \<open>h264_read\<close> or \<open>opus_read\<close> until it is used up, and the
  packet goes to the output pipe. \<open>ff k\<close> is what \<open>av_read_frame\<close> does in round \<open>k\<close>: the code it returns and
  the lengths it asks for. The loop may run forever, and \<open>holdForWriting\<close> may block: both are \<open>None\<close>.
\<close>

datatype demux_end = Demuxed | ReadFailed

fun consume :: "(int \<Rightarrow> reading \<Rightarrow> read_result \<times> reading) \<Rightarrow> int list \<Rightarrow> reading \<Rightarrow> reading" where
  "consume rd [] ro = ro"
| "consume rd (n # ns) ro = consume rd ns (snd (rd n ro))"

partial_function (option) demux_loop ::
    "(int \<Rightarrow> reading \<Rightarrow> read_result \<times> reading) \<Rightarrow> (nat \<Rightarrow> int \<times> int list) \<Rightarrow> nat \<Rightarrow> nat \<Rightarrow> reading \<Rightarrow>
       ('a, 'h) pipe \<Rightarrow> (pipe_error + demux_end \<times> nat \<times> ('a, 'h) pipe) option" where
  "demux_loop rd ff index k ro inp =
     (case ff k of (ret, ns) \<Rightarrow>
        (let ro = consume rd ns ro in
         case unmapReading index inp of
           Inl x \<Rightarrow> Some (Inl x)
         | Inr inp \<Rightarrow>
             (if ret < 0 then Some (Inr (ReadFailed, Suc k, inp))
              else if ro_totalWritten ro \<noteq> length (ro_data ro) then demux_loop rd ff index (Suc k) ro inp
              else Some (Inr (Demuxed, Suc k, inp)))))"

definition demux ::
    "(int \<Rightarrow> reading \<Rightarrow> read_result \<times> reading) \<Rightarrow> (nat \<Rightarrow> int \<times> int list) \<Rightarrow> 8 word list \<Rightarrow> nat \<Rightarrow>
       ('a, 'h) pipe \<Rightarrow> ('b, 'k) pipe \<Rightarrow> (pipe_error + demux_end \<times> nat \<times> ('a, 'h) pipe \<times> ('b, 'k) pipe) option" where
  "demux rd ff raw index inp out =
     (case holdForWriting out of
        None \<Rightarrow> None
      | Some (Inl x) \<Rightarrow> Some (Inl x)
      | Some (Inr ((packet, subpipe), out)) \<Rightarrow>
          (case demux_loop rd ff index 0 \<lparr>ro_data = raw, ro_totalWritten = 0\<rparr> inp of
             None \<Rightarrow> None
           | Some (Inl x) \<Rightarrow> Some (Inl x)
           | Some (Inr (how, k, inp)) \<Rightarrow>
               (case unmapWriting subpipe (how = Demuxed) out of
                  Inl x \<Rightarrow> Some (Inl x)
                | Inr (ns, out) \<Rightarrow> Some (Inr (how, k, inp, out)))))"

definition h264_demux ::
    "(nat \<Rightarrow> int \<times> int list) \<Rightarrow> 8 word list \<Rightarrow> nat \<Rightarrow> ('a, 'h) pipe \<Rightarrow> ('b, 'k) pipe \<Rightarrow>
       (pipe_error + demux_end \<times> nat \<times> ('a, 'h) pipe \<times> ('b, 'k) pipe) option" where
  "h264_demux = demux h264_read"

definition opus_demux ::
    "(nat \<Rightarrow> int \<times> int list) \<Rightarrow> 8 word list \<Rightarrow> nat \<Rightarrow> ('a, 'h) pipe \<Rightarrow> ('b, 'k) pipe \<Rightarrow>
       (pipe_error + demux_end \<times> nat \<times> ('a, 'h) pipe \<times> ('b, 'k) pipe) option" where
  "opus_demux = demux opus_read"

lemma readers_agree: "opus_read = h264_read"
  by (intro ext) (simp add: opus_read_def h264_read_def)

section \<open>Progress\<close>

text \<open>
  What FFmpeg asks for in one round, if it asks at all: a number of bytes in the width of an \<open>int\<close>. A round that finds a packet
  in the buffer of FFmpeg asks for none.
\<close>

definition asks :: "int list \<Rightarrow> bool" where
  "asks ns \<longleftrightarrow> (\<forall>n \<in> set ns. 0 < n \<and> n < 2 ^ 31)"

text \<open>The bytes asked for before round \<open>k\<close>; a round ends the loop when it fails or the datagram has been used up.\<close>

primrec asked :: "(nat \<Rightarrow> int \<times> int list) \<Rightarrow> nat \<Rightarrow> nat" where
  "asked ff 0 = 0"
| "asked ff (Suc k) = asked ff k + nat (sum_list (snd (ff k)))"

definition round_ends :: "(nat \<Rightarrow> int \<times> int list) \<Rightarrow> 8 word list \<Rightarrow> nat \<Rightarrow> bool" where
  "round_ends ff raw k \<longleftrightarrow> fst (ff k) < 0 \<or> length raw \<le> asked ff (Suc k)"

lemma consume_total:
  assumes "\<forall>n \<in> set ns. 0 < n \<and> n < 2 ^ 31" and "ro_totalWritten ro \<le> length (ro_data ro)"
  shows "consume h264_read ns ro =
    ro\<lparr>ro_totalWritten := min (length (ro_data ro)) (ro_totalWritten ro + nat (sum_list ns))\<rparr>"
  using assms
proof (induction ns arbitrary: ro)
  case (Cons n ns)
  then have n: "0 < n" "n < 2 ^ 31" by simp_all
  have s: "0 \<le> sum_list ns" using Cons.prems(1) by (intro sum_list_nonneg) fastforce
  show ?case
  proof (cases "ro_totalWritten ro = length (ro_data ro)")
    case True
    then have "snd (h264_read n ro) = ro" by (simp add: h264_read_def)
    with Cons.IH [of ro] Cons.prems True show ?thesis by simp
  next
    case False
    with Cons.prems(2) have r: "snd (h264_read n ro) =
        ro\<lparr>ro_totalWritten := min (length (ro_data ro)) (ro_totalWritten ro + nat n)\<rparr>"
      by (simp add: h264_read_chunk [OF n])
    have "nat (n + sum_list ns) = nat n + nat (sum_list ns)" using n s by simp
    with Cons.IH [of "snd (h264_read n ro)"] Cons.prems(1) r show ?thesis by (simp add: min_def)
  qed
qed simp

text \<open>The reading at the start of round \<open>k\<close>.\<close>

abbreviation before_round :: "(nat \<Rightarrow> int \<times> int list) \<Rightarrow> 8 word list \<Rightarrow> nat \<Rightarrow> reading" where
  "before_round ff raw k \<equiv> \<lparr>ro_data = raw, ro_totalWritten = min (length raw) (asked ff k)\<rparr>"

lemma consume_round: "asks (snd (ff k)) \<Longrightarrow> consume h264_read (snd (ff k)) (before_round ff raw k) = before_round ff raw (Suc k)"
  by (subst consume_total) (auto simp: asks_def)

text \<open>A reading is given back, or the slot is free already and nothing happens.\<close>

lemma unmapReading_paid:
  assumes "0 < owed_readings p i \<or> slot_free p i"
  shows "\<exists>q. unmapReading i p = Inr q \<and> owed_readings q = (owed_readings p)(i := owed_readings p i - 1) \<and>
    (0 < owed_readings q i \<or> slot_free q i)"
proof (cases "0 < owed_readings p i")
  case True
  then show ?thesis using unmapReading_owed [OF True] by (auto split: if_splits)
next
  case False
  with assms have "slot_free p i" by simp
  then obtain q where "unmapReading i p = Inr q" "owed_readings q = owed_readings p" "slot_free q i"
    using unmapReading_free by blast
  with False show ?thesis by (auto simp: fun_eq_iff)
qed

text \<open>One round of the loop.\<close>

lemma demux_round:
  assumes "asks (snd (ff k))" and "unmapReading index inp = Inr q"
  shows "demux_loop h264_read ff index k (before_round ff raw k) inp =
    (if round_ends ff raw k then Some (Inr (if fst (ff k) < 0 then ReadFailed else Demuxed, Suc k, q))
     else demux_loop h264_read ff index (Suc k) (before_round ff raw (Suc k)) q)"
proof -
  obtain ret ns where ff: "ff k = (ret, ns)" by (cases "ff k")
  show ?thesis
    using consume_round [of ff k raw, OF assms(1)] assms(2)
    by (subst demux_loop.simps) (auto simp: ff Let_def round_ends_def min_def)
qed

lemma demux_loop_ends:
  assumes "\<And>k. asks (snd (ff k))" and "0 < owed_readings inp index \<or> slot_free inp index"
    and "\<forall>j < m. \<not> round_ends ff raw (k + j)" and "round_ends ff raw (k + m)"
  shows "\<exists>inp'. demux_loop h264_read ff index k (before_round ff raw k) inp =
      Some (Inr (if fst (ff (k + m)) < 0 then ReadFailed else Demuxed, Suc (k + m), inp')) \<and>
    owed_readings inp' = (owed_readings inp)(index := owed_readings inp index - Suc m)"
  using assms(2-4)
proof (induction m arbitrary: k inp)
  case 0
  obtain q where q: "unmapReading index inp = Inr q"
    "owed_readings q = (owed_readings inp)(index := owed_readings inp index - 1)" using unmapReading_paid [OF 0(1)] by blast
  from demux_round [of ff k, OF assms(1) q(1), of raw] 0(3) q(2) show ?case by (simp add: fun_upd_def)
next
  case (Suc m)
  obtain q where q: "unmapReading index inp = Inr q"
    "owed_readings q = (owed_readings inp)(index := owed_readings inp index - 1)"
    "0 < owed_readings q index \<or> slot_free q index" using unmapReading_paid [OF Suc.prems(1)] by blast
  have "\<not> round_ends ff raw k" "\<forall>j < m. \<not> round_ends ff raw (Suc k + j)" "round_ends ff raw (Suc k + m)"
    using Suc.prems(2,3) by (auto simp: less_Suc_eq_0_disj)
  with Suc.IH [OF q(3), of "Suc k"] demux_round [of ff k, OF assms(1) q(1), of raw] q(2) show ?case by (auto simp: fun_eq_iff)
qed

lemma demux_loop_never:
  assumes "\<And>k. asks (snd (ff k))" and "0 < owed_readings inp index \<or> slot_free inp index" and "\<forall>j. \<not> round_ends ff raw j"
  shows "demux_loop h264_read ff index k (before_round ff raw k) inp = None"
proof -
  have "rd = h264_read \<longrightarrow> f = ff \<longrightarrow> ro = before_round ff raw k \<longrightarrow> 0 < owed_readings p i \<or> slot_free p i \<longrightarrow> False"
    if "demux_loop rd f i k ro p = Some res" for rd f i k ro p res
  proof (rule demux_loop.raw_induct [where P = "\<lambda>rd f i k ro p res. rd = h264_read \<longrightarrow> f = ff \<longrightarrow>
      ro = before_round ff raw k \<longrightarrow> 0 < owed_readings p i \<or> slot_free p i \<longrightarrow> False", OF _ that], goal_cases)
    case (1 loop rd f i k ro p res)
    show ?case
    proof (intro impI)
      assume h: "rd = h264_read" "f = ff" "ro = before_round ff raw k" "0 < owed_readings p i \<or> slot_free p i"
      obtain q where q: "unmapReading i p = Inr q" "0 < owed_readings q i \<or> slot_free q i"
        using unmapReading_paid [OF h(4)] by blast
      obtain ret ns where f: "ff k = (ret, ns)" by (cases "ff k")
      have c: "consume h264_read ns (before_round ff raw k) = before_round ff raw (Suc k)"
        using consume_round [of ff k raw, OF assms(1)] by (simp only: f snd_conv)
      have e: "\<not> ret < 0" "min (length raw) (asked ff (Suc k)) \<noteq> length raw"
        using assms(3) f unfolding round_ends_def by (metis fst_conv, metis min.cobounded2)
      have "loop rd f i (Suc k) (before_round ff raw (Suc k)) q = Some res"
        using 1(2) [unfolded h(1-3) f prod.case Let_def c q(1) sum.case if_not_P [OF e(1)] reading.simps if_P [OF e(2)]]
        unfolding h(1,2) .
      from 1(1) [OF this] h q(2) show False by simp
    qed
  qed
  with assms(2) show ?thesis by (metis not_None_eq)
qed

lemma asked_one_each: "(\<And>k. asks (snd (ff k))) \<Longrightarrow> \<forall>k. snd (ff k) \<noteq> [] \<Longrightarrow> m \<le> asked ff m"
proof (induction m)
  case (Suc m)
  obtain n ns where ns: "snd (ff m) = n # ns" using Suc.prems(2) by (meson neq_Nil_conv)
  have n: "0 < n" and p: "\<forall>x \<in> set ns. 0 < x" using Suc.prems(1) [of m] by (auto simp: ns asks_def)
  have "0 \<le> sum_list ns" using p by (intro sum_list_nonneg) fastforce
  with n have "1 \<le> nat (sum_list (snd (ff m)))" by (simp add: ns)
  with Suc.IH [OF Suc.prems] show ?case by simp
qed simp

text \<open>
  C26: The listener of a demuxer, for a datagram that is still to be read, blocks when the output has no free slot. Otherwise
  it returns exactly if some round of FFmpeg fails or uses up the datagram, and then after the first such round; it runs
  forever if none does. If FFmpeg asks for something in every round, this is after at most one round per byte. It publishes a packet
  exactly if that round has not failed and leaves the output balanced. But it gives back one reading per round, not one per datagram: a
  datagram that takes two rounds also uses up the reading another listener still owes.
\<close>

theorem demuxer_returns:
  assumes "rd \<in> {h264_read, opus_read}" and "\<And>k. asks (snd (ff k))" and "0 < owed_readings inp index" and "balanced out"
  shows "if sem out = 0 \<or> (\<forall>j. \<not> round_ends ff raw j) then demux rd ff raw index inp out = None
    else \<exists>m how inp' out'. m = (LEAST j. round_ends ff raw j) \<and>
      demux rd ff raw index inp out = Some (Inr (how, Suc m, inp', out')) \<and> balanced out' \<and>
      ((\<forall>k. snd (ff k) \<noteq> []) \<longrightarrow> Suc m \<le> max 1 (length raw)) \<and> (how = Demuxed \<longleftrightarrow> 0 \<le> fst (ff m)) \<and>
      owed_readings inp' = (owed_readings inp)(index := owed_readings inp index - Suc m)"
proof (cases "sem out = 0")
  case True
  then show ?thesis by (simp add: demux_def holdForWriting_def sem_acquire_def)
next
  case sem: False
  have rd: "rd = h264_read" using assms(1) readers_agree by auto
  obtain d i q where h: "tryHoldForWriting out = Inr (Some (d, i), q)" "balanced q"
      "i < length (subpipes out)" "length (subpipes q) = length (subpipes out)" "\<not> isFree (subpipes q ! i)"
    using hold_then_unmap [OF assms(4)] sem by (metis neq0_conv)
  then have hold: "holdForWriting out = Some (Inr ((d, i), q))"
    by (auto simp: tryHoldForWriting_def holdForWriting_def split: option.splits sum.splits)
  have start: "\<lparr>ro_data = raw, ro_totalWritten = 0\<rparr> = before_round ff raw 0" by simp
  show ?thesis
  proof (cases "\<forall>j. \<not> round_ends ff raw j")
    case True
    then have "demux_loop h264_read ff index 0 (before_round ff raw 0) inp = None"
      using demux_loop_never [of ff inp index raw 0] assms(2,3) by blast
    with hold True show ?thesis by (simp only: demux_def rd start) simp
  next
    case False
    define m where "m = (LEAST j. round_ends ff raw j)"
    have "\<exists>j. round_ends ff raw j" using False by blast
    then have m: "round_ends ff raw m" unfolding m_def by (rule LeastI_ex)
    have less: "\<forall>j < m. \<not> round_ends ff raw j" unfolding m_def by (blast dest: not_less_Least)
    have "0 < owed_readings inp index \<or> slot_free inp index" using assms(3) by simp
    from demux_loop_ends [of ff inp index m raw 0, OF assms(2) this] m less obtain inp' where
      l: "demux_loop h264_read ff index 0 (before_round ff raw 0) inp =
        Some (Inr (if fst (ff m) < 0 then ReadFailed else Demuxed, Suc m, inp'))"
      "owed_readings inp' = (owed_readings inp)(index := owed_readings inp index - Suc m)" by auto
    let ?how = "if fst (ff m) < 0 then ReadFailed else Demuxed"
    obtain ns r where u: "unmapWriting i (?how = Demuxed) q = Inr (ns, r)"
      using h(3,4) by (metis unmapWriting_in_range)
    have b: "balanced r" using unmapWriting_taken(1) [OF h(2) _ h(5) u] h(3,4) by simp
    have "Suc m \<le> max 1 (length raw)" if e: "\<forall>k. snd (ff k) \<noteq> []"
    proof (cases m)
      case (Suc j)
      then have "asked ff m < length raw" using less by (auto simp: round_ends_def)
      with asked_one_each [of ff m, OF assms(2) e] show ?thesis by simp
    qed simp
    moreover have "demux h264_read ff raw index inp out = Some (Inr (?how, Suc m, inp', r))"
      using hold l(1) u unfolding demux_def start by simp
    moreover have "(?how = Demuxed) = (0 \<le> fst (ff m))" by simp
    moreover have c: "\<not> (sem out = 0 \<or> (\<forall>j. \<not> round_ends ff raw j))" using sem False by blast
    ultimately show ?thesis using b l(2) unfolding if_not_P [OF c] rd m_def [symmetric] by blast
  qed
qed

theorem demuxer_returns_witness:
  "\<exists>inp' out'. demux h264_read (\<lambda>k. (0, if k = 0 then [2] else [25000])) [1, 2, 3] 1 example_input (new_pipe 2 id :: (nat, nat) pipe) =
      Some (Inr (Demuxed, 2, inp', out')) \<and> balanced out' \<and>
    owed_readings inp' = (owed_readings example_input)(1 := owed_readings example_input 1 - 2) \<and>
    demux h264_read (\<lambda>k. (0, [])) [1, 2, 3] 1 example_input (new_pipe 2 id :: (nat, nat) pipe) = None"
proof -
  let ?f = "\<lambda>k. (0 :: int, if k = 0 then [2] else [25000 :: int])" and ?g = "\<lambda>k :: nat. (0 :: int, [] :: int list)"
  let ?out = "new_pipe 2 id :: (nat, nat) pipe"
  have e: "\<not> round_ends ?f [1, 2, 3] 0" "round_ends ?f [1, 2, 3] 1" by (simp_all add: round_ends_def)
  then have l: "(LEAST j. round_ends ?f [1, 2, 3] j) = 1"
    by (intro Least_equality) (auto simp: Suc_le_eq intro: gr0I)
  have a: "asks (snd (?f k))" "asks (snd (?g k))" for k by (simp_all add: asks_def)
  have z: "asked ?g k = 0" for k by (induction k) simp_all
  have n: "\<not> round_ends ?g [1, 2, 3] j" for j by (simp add: round_ends_def z)
  have o: "0 < owed_readings example_input 1" "balanced ?out" "sem ?out \<noteq> 0"
    by (simp_all add: example_facts balanced_def taken_def new_pipe_def)
  have c: "\<not> (sem ?out = 0 \<or> (\<forall>j. \<not> round_ends ?f [1, 2, 3] j))" using e(2) o(3) by blast
  from demuxer_returns [of h264_read ?f example_input 1 ?out "[1, 2, 3]", OF _ a(1) o(1,2), unfolded if_not_P [OF c] l] o(3)
    demuxer_returns [of h264_read ?g example_input 1 ?out "[1, 2, 3]", OF _ a(2) o(1,2)] n
  show ?thesis by (auto simp: numeral_2_eq_2)
qed

section \<open>Construction\<close>

text \<open>
  What a demuxer holds of FFmpeg: its context, whether that reads through the demuxer, and how many allocations nobody points to.
\<close>

record demuxer_parts =
  dx_ctx :: bool
  dx_reads :: bool
  dx_lost :: nat

text \<open>
  The answers of FFmpeg: context, buffer and I/O context allocated, and the code of \<open>avformat_open_input\<close>, which frees
  the context and resets the pointer when it fails, but not the I/O context and the buffer in it.
\<close>

definition demuxer_made :: "bool \<Rightarrow> bool \<Rightarrow> bool \<Rightarrow> int \<Rightarrow> demuxer_parts" where
  "demuxer_made ctx buffer avio ret =
     (if \<not> ctx then \<lparr>dx_ctx = False, dx_reads = False, dx_lost = 0\<rparr>
      else if \<not> buffer then \<lparr>dx_ctx = True, dx_reads = False, dx_lost = 0\<rparr>
      else if \<not> avio then \<lparr>dx_ctx = True, dx_reads = False, dx_lost = 1\<rparr>
      else if ret < 0 then \<lparr>dx_ctx = False, dx_reads = False, dx_lost = 2\<rparr>
      else \<lparr>dx_ctx = True, dx_reads = True, dx_lost = 0\<rparr>)"

definition h264_demuxer_made :: "bool \<Rightarrow> bool \<Rightarrow> bool \<Rightarrow> int \<Rightarrow> demuxer_parts" where
  "h264_demuxer_made = demuxer_made"

definition opus_demuxer_made :: "bool \<Rightarrow> bool \<Rightarrow> bool \<Rightarrow> int \<Rightarrow> demuxer_parts" where
  "opus_demuxer_made = demuxer_made"

text \<open>Nothing remembers that the constructor failed: \<open>start\<close> registers the reader of a demuxer without a context, too.\<close>

lemma demuxer_made_cases:
  "dx_reads (demuxer_made ctx buffer avio ret) \<longleftrightarrow> ctx \<and> buffer \<and> avio \<and> 0 \<le> ret"
  "0 < dx_lost (demuxer_made ctx buffer avio ret) \<longleftrightarrow> ctx \<and> buffer \<and> (\<not> avio \<or> ret < 0)"
  "dx_ctx (demuxer_made ctx buffer avio ret) \<longleftrightarrow> ctx \<and> (buffer \<and> avio \<longrightarrow> 0 \<le> ret)"
  by (simp_all add: demuxer_made_def)

end
