(* ===== verification/DataPipeSystem.thy ===== *)
theory DataPipeSystem
  imports DataPipe
begin

text \<open>
  A data pipe used by any number of writer and reader threads. The lock makes each locked
  region one step; \<open>sem.acquire()\<close> comes before the lock, so a writer that has passed it
  and not yet reached \<open>getFree\<close> holds a ticket. The ghost \<open>phases\<close> records, per slot,
  what the threads still owe: the steps let a thread call \<open>unmapWriting\<close> only for the slot
  it holds and \<open>unmapReading\<close> once per notification, which is the protocol of the class.
\<close>

datatype phase = Free | Writing | Reading nat

record ('a, 'c) dpsys =
  dp :: "('a, 'c) pipe"
  tickets :: nat
  phases :: "phase list"
  freeIdx :: int

definition dp_init :: "nat \<Rightarrow> (nat \<Rightarrow> 'a) \<Rightarrow> ('a, 'c) dpsys" where
  "dp_init n mk = \<lparr>dp = new_pipe n mk, tickets = 0, phases = replicate n Free, freeIdx = 0\<rparr>"

inductive dp_step :: "('a, 'c) dpsys \<Rightarrow> ('a, 'c) dpsys \<Rightarrow> bool" where
  acquire: "sem_acquire (dp s) = Some p \<Longrightarrow>
     dp_step s (s\<lparr>dp := p, tickets := Suc (tickets s)\<rparr>)"
| take: "0 < tickets s \<Longrightarrow> getFree (dp s) = Inr ((d, i), p) \<Longrightarrow>
     dp_step s (s\<lparr>dp := p, tickets := tickets s - 1, phases := (phases s)[i := Writing]\<rparr>)"
| publish: "i < length (phases s) \<Longrightarrow> phases s ! i = Writing \<Longrightarrow>
     unmapWriting i b (dp s) = Inr (ns, p) \<Longrightarrow>
     dp_step s (s\<lparr>dp := p,
       phases := (phases s)[i := if ns = [] then Free else Reading (length ns)]\<rparr>)"
| read_done: "i < length (phases s) \<Longrightarrow> phases s ! i = Reading (Suc n) \<Longrightarrow>
     unmapReading i (dp s) = Inr p \<Longrightarrow>
     dp_step s (s\<lparr>dp := p, phases := (phases s)[i := if n = 0 then Free else Reading n]\<rparr>)"
| subscribe: "onDataChanged c (freeIdx s) (dp s) = Inr (k, idx, p) \<Longrightarrow>
     dp_step s (s\<lparr>dp := p, freeIdx := idx\<rparr>)"
| unsubscribe: "dp_step s (s\<lparr>dp := removeListener k (dp s)\<rparr>)"
| other_pipe: "onDataChanged c (freeIdx s) (q :: ('a, 'c) pipe) = Inr (k, idx, q') \<Longrightarrow>
     dp_step s (s\<lparr>freeIdx := idx\<rparr>)"

inductive dp_reachable :: "nat \<Rightarrow> (nat \<Rightarrow> 'a) \<Rightarrow> ('a, 'c) dpsys \<Rightarrow> bool" for n mk where
  start: "dp_reachable n mk (dp_init n mk)"
| step: "dp_reachable n mk s \<Longrightarrow> dp_step s t \<Longrightarrow> dp_reachable n mk t"

section \<open>The invariant\<close>

text \<open>What the code's two fields of a slot say about what is owed for it.\<close>

fun slot_ok :: "'a subpipe \<Rightarrow> phase \<Rightarrow> bool" where
  "slot_ok s Free \<longleftrightarrow> isFree s"
| "slot_ok s Writing \<longleftrightarrow> \<not> isFree s"
| "slot_ok s (Reading n) \<longleftrightarrow> \<not> isFree s \<and> 0 < n \<and> unat (readings s) = n"

definition registry_ok :: "int \<Rightarrow> ('a, 'c) pipe \<Rightarrow> bool" where
  "registry_ok idx p \<longleftrightarrow> omap_ok (listeners p) \<and> 0 \<le> idx \<and> idx < 2 ^ 31 \<and>
     fst ` set (listeners p) \<subseteq> {1..idx} \<and> snd ` set (addListenerQueue p) \<subseteq> {1..idx}"

definition dp_inv :: "('a, 'c) dpsys \<Rightarrow> bool" where
  "dp_inv s \<longleftrightarrow> list_all2 slot_ok (subpipes (dp s)) (phases s) \<and>
     sem (dp s) + tickets s = count_list (phases s) Free \<and>
     registry_ok (freeIdx s) (dp s)"

lemma registry_ok_drain: "registry_ok idx p \<Longrightarrow> registry_ok idx (drain_queues p)"
  using keys_drain [of p] listeners_ok_drain [of p] by (auto simp: registry_ok_def)

lemma registry_ok_frame [simp]:
  "registry_ok idx (p\<lparr>subpipes := x\<rparr>) = registry_ok idx p"
  "registry_ok idx (p\<lparr>sem := m\<rparr>) = registry_ok idx p"
  "registry_ok idx (p\<lparr>removeListenerQueue := q\<rparr>) = registry_ok idx p"
  by (simp_all add: registry_ok_def)

lemma registry_ok_subscribe:
  assumes "onDataChanged c idx p = Inr (k, idx', q)"
  shows "registry_ok idx p \<Longrightarrow> registry_ok idx' q" "registry_ok idx r \<Longrightarrow> registry_ok idx' r"
    "subpipes q = subpipes p" "sem q = sem p"
proof -
  from assms have e: "idx' = idx + 1" "idx' < 2 ^ 31"
    "q = p\<lparr>addListenerQueue := addListenerQueue p @ [(c, idx + 1)]\<rparr>"
    by (auto simp: onDataChanged_def split: if_splits)
  have up: "A \<subseteq> {1..idx} \<Longrightarrow> A \<subseteq> {1..idx + 1}" for A by auto
  show "registry_ok idx r \<Longrightarrow> registry_ok idx' r"
    using e(1,2) by (simp add: registry_ok_def up)
  show "registry_ok idx p \<Longrightarrow> registry_ok idx' q"
    using e by (simp add: registry_ok_def up)
  show "subpipes q = subpipes p" "sem q = sem p" using e by simp_all
qed

text \<open>The number of listeners fits the \<open>size_t\<close> counter, because their keys are \<open>int\<close>s.\<close>

lemma registry_length:
  assumes "registry_ok idx p"
  shows "unat (of_nat (length (listeners p)) :: 64 word) = length (listeners p)"
proof -
  have "length (listeners p) \<le> nat idx"
    using assms by (auto simp: registry_ok_def intro: omap_length_bound)
  also have "nat idx < 2 ^ 31"
    using assms by (simp add: registry_ok_def nat_less_iff)
  finally show ?thesis by (simp add: unat_of_nat)
qed

lemma dp_inv_init: "dp_inv (dp_init n mk)"
  by (auto simp: dp_inv_def dp_init_def new_pipe_def registry_ok_def list_all2_conv_all_nth
      count_list_replicate)

section \<open>Every step keeps the invariant\<close>

lemma dp_inv_acquire:
  "dp_inv s \<Longrightarrow> sem_acquire (dp s) = Some p \<Longrightarrow> dp_inv (s\<lparr>dp := p, tickets := Suc (tickets s)\<rparr>)"
  by (auto simp: dp_inv_def sem_acquire_def split: if_splits)

text \<open>The slot that \<open>getFree\<close> hands out was free, so nobody owed anything for it.\<close>

lemma getFree_slot:
  assumes "list_all2 slot_ok (subpipes p) phs" and "getFree p = Inr ((d, i), q)"
  shows "i < length phs \<and> phs ! i = Free \<and> subpipes q = (subpipes p)[i := (subpipes p ! i)\<lparr>isFree := False\<rparr>]
    \<and> sem q = sem p"
proof -
  from assms(2) have ff: "first_free (subpipes p) = Some i"
    by (auto simp: getFree_def split: option.splits)
  from first_free_SomeD [OF ff] assms(1) have "i < length phs" and "slot_ok (subpipes p ! i) (phs ! i)"
    and "isFree (subpipes p ! i)"
    by (auto simp: list_all2_conv_all_nth)
  then have "phs ! i = Free" by (cases "phs ! i") auto
  with \<open>i < length phs\<close> assms(2) ff show ?thesis by (auto simp: getFree_def)
qed

lemma getFree_registry: "getFree p = Inr (r, q) \<Longrightarrow> registry_ok idx q = registry_ok idx p"
  by (auto simp: getFree_def split: option.splits)

lemma dp_inv_take:
  assumes inv: "dp_inv s" and t: "0 < tickets s" and g: "getFree (dp s) = Inr ((d, i), p)"
  shows "dp_inv (s\<lparr>dp := p, tickets := tickets s - 1, phases := (phases s)[i := Writing]\<rparr>)"
proof -
  from inv have l: "list_all2 slot_ok (subpipes (dp s)) (phases s)" by (simp add: dp_inv_def)
  note slot = getFree_slot [OF l g]
  then have "0 < count_list (phases s) Free" by (auto intro: count_list_pos)
  with inv t slot l show ?thesis
    by (auto simp: dp_inv_def count_list_update getFree_registry [OF g] intro!: list_all2_update_cong)
qed

text \<open>\<open>unmapWriting\<close> on a slot being written: the slot's new phase.\<close>

lemma unmapWriting_slot:
  assumes "registry_ok idx p" and "i < length (subpipes p)" and "\<not> isFree (subpipes p ! i)"
    and "unmapWriting i b p = Inr (ns, q)"
  shows "\<exists>s'. subpipes q = (subpipes p)[i := s'] \<and> slot_ok s' (if ns = [] then Free else Reading (length ns))
    \<and> sem q = sem p + (if ns = [] then 1 else 0) \<and> registry_ok idx q"
proof (cases "\<not> b \<or> length (listeners (drain_queues p)) = 0")
  case True
  with assms registry_ok_drain [OF assms(1)] show ?thesis
    by (intro exI [of _ "(subpipes p ! i)\<lparr>isFree := True\<rparr>"])
      (auto simp: unmapWriting_def Let_def sem_release_def)
next
  case False
  have "unat (of_nat (length (listeners (drain_queues p))) :: 64 word) = length (listeners (drain_queues p))"
    by (rule registry_length [OF registry_ok_drain [OF assms(1)]])
  with False assms registry_ok_drain [OF assms(1)] show ?thesis
    by (intro exI [of _ "(subpipes p ! i)\<lparr>readings := of_nat (length (listeners (drain_queues p)))\<rparr>"])
      (auto simp: unmapWriting_def Let_def)
qed

lemma dp_inv_publish:
  assumes inv: "dp_inv s" and i: "i < length (phases s)" and w: "phases s ! i = Writing"
    and u: "unmapWriting i b (dp s) = Inr (ns, p)"
  shows "dp_inv (s\<lparr>dp := p, phases := (phases s)[i := if ns = [] then Free else Reading (length ns)]\<rparr>)"
proof -
  from inv have l: "list_all2 slot_ok (subpipes (dp s)) (phases s)"
    and r: "registry_ok (freeIdx s) (dp s)" by (simp_all add: dp_inv_def)
  from l i w have "i < length (subpipes (dp s))" and "\<not> isFree (subpipes (dp s) ! i)"
    by (auto simp: list_all2_conv_all_nth)
  from unmapWriting_slot [OF r this u] obtain s' where
    "subpipes p = (subpipes (dp s))[i := s']"
    "slot_ok s' (if ns = [] then Free else Reading (length ns))"
    "sem p = sem (dp s) + (if ns = [] then 1 else 0)" "registry_ok (freeIdx s) p" by blast
  with inv l i w show ?thesis
    by (auto simp: dp_inv_def count_list_update intro!: list_all2_update_cong)
qed

lemma unmapReading_slot:
  assumes "i < length (subpipes p)" and "slot_ok (subpipes p ! i) (Reading (Suc n))"
    and "unmapReading i p = Inr q"
  shows "\<exists>s'. subpipes q = (subpipes p)[i := s'] \<and> slot_ok s' (if n = 0 then Free else Reading n)
    \<and> sem q = sem p + (if n = 0 then 1 else 0)
    \<and> (registry_ok idx q = registry_ok idx p)"
proof -
  let ?r = "readings (subpipes p ! i)"
  from assms(2) have "unat ?r = Suc n" and nf: "\<not> isFree (subpipes p ! i)" by auto
  then have un: "unat (?r - 1) = n" by (metis diff_Suc_1 unat_minus_one unat_eq_zero nat.distinct(1))
  then have "?r - 1 = 0 \<longleftrightarrow> n = 0" by (metis unat_eq_zero)
  with assms(1,3) un nf show ?thesis
    by (intro exI [of _ "if n = 0 then (subpipes p ! i)\<lparr>readings := ?r - 1, isFree := True\<rparr>
          else (subpipes p ! i)\<lparr>readings := ?r - 1\<rparr>"])
      (auto simp: unmapReading_def Let_def sem_release_def split: if_splits)
qed

lemma dp_inv_read_done:
  assumes inv: "dp_inv s" and i: "i < length (phases s)" and w: "phases s ! i = Reading (Suc n)"
    and u: "unmapReading i (dp s) = Inr p"
  shows "dp_inv (s\<lparr>dp := p, phases := (phases s)[i := if n = 0 then Free else Reading n]\<rparr>)"
proof -
  from inv have l: "list_all2 slot_ok (subpipes (dp s)) (phases s)" by (simp add: dp_inv_def)
  from l i w have "i < length (subpipes (dp s))" and "slot_ok (subpipes (dp s) ! i) (Reading (Suc n))"
    by (metis list_all2_lengthD, metis list_all2_nthD2)
  from unmapReading_slot [OF this u] obtain s' where
    "subpipes p = (subpipes (dp s))[i := s']" "slot_ok s' (if n = 0 then Free else Reading n)"
    "sem p = sem (dp s) + (if n = 0 then 1 else 0)"
    "registry_ok (freeIdx s) p = registry_ok (freeIdx s) (dp s)" by blast
  with inv l i w show ?thesis
    by (auto simp: dp_inv_def count_list_update intro!: list_all2_update_cong)
qed

lemma dp_inv_subscribe:
  "dp_inv s \<Longrightarrow> onDataChanged c (freeIdx s) (dp s) = Inr (k, idx, p) \<Longrightarrow>
     dp_inv (s\<lparr>dp := p, freeIdx := idx\<rparr>)"
  by (simp add: dp_inv_def registry_ok_subscribe)

lemma dp_step_inv: "dp_step s t \<Longrightarrow> dp_inv s \<Longrightarrow> dp_inv t"
proof (induction rule: dp_step.induct)
  case (unsubscribe s k)
  then show ?case by (simp add: dp_inv_def removeListener_def)
next
  case (other_pipe c s q k idx q')
  then show ?case by (simp add: dp_inv_def registry_ok_subscribe(2))
next
  case (take s d i p)
  show ?case by (rule dp_inv_take [OF take.prems take.hyps])
qed (simp_all add: dp_inv_acquire dp_inv_publish dp_inv_read_done dp_inv_subscribe)

lemma dp_reachable_inv: "dp_reachable n mk s \<Longrightarrow> dp_inv s"
  by (induction rule: dp_reachable.induct) (auto simp: dp_inv_init intro: dp_step_inv)

lemma dp_step_length: "dp_step s t \<Longrightarrow> length (phases t) = length (phases s)"
  by (induction rule: dp_step.induct) simp_all

lemma dp_reachable_length: "dp_reachable n mk s \<Longrightarrow> length (phases s) = n"
  by (induction rule: dp_reachable.induct) (auto simp: dp_init_def dp_step_length)

lemma slots_not_free:
  "list_all2 slot_ok ss phs \<Longrightarrow>
     length (filter (\<lambda>x. \<not> isFree x) ss) + count_list phs Free = length phs"
proof (induction ss phs rule: list_all2_induct)
  case (Cons x xs y ys)
  then show ?case by (cases y) auto
qed simp

section \<open>What the invariant gives\<close>

text \<open>
  C1: in every state the threads can reach, a thread that has passed the semaphore finds a
  free slot, so the exception marked "should never happen" in \<open>getFree\<close> is never thrown; the
  slot it gets is owed to no writer and no reader.
\<close>

theorem getFree_never_throws:
  assumes "dp_reachable n mk s" and "0 < tickets s"
  shows "\<exists>d i p. getFree (dp s) = Inr ((d, i), p) \<and> i < n \<and> phases s ! i = Free"
proof -
  from dp_reachable_inv [OF assms(1)]
  have l: "list_all2 slot_ok (subpipes (dp s)) (phases s)"
    and c: "0 < count_list (phases s) Free" using assms(2) by (simp_all add: dp_inv_def)
  from count_list_posD [OF c] obtain j where j: "j < length (phases s)" "phases s ! j = Free"
    by blast
  from list_all2_nthD2 [OF l j(1)] j have "isFree (subpipes (dp s) ! j)" by simp
  moreover have "j < length (subpipes (dp s))" using j(1) list_all2_lengthD [OF l] by simp
  ultimately have "first_free (subpipes (dp s)) \<noteq> None"
    using nth_mem by (auto simp only: first_free_None)
  then obtain i where i: "first_free (subpipes (dp s)) = Some i" by blast
  then obtain d p where g: "getFree (dp s) = Inr ((d, i), p)" by (simp add: getFree_def)
  from getFree_slot [OF l g] g dp_reachable_length [OF assms(1)] show ?thesis by blast
qed

text \<open>
  C2: no slot is lost and none is counted twice: the semaphore, the tickets of the threads
  between \<open>acquire\<close> and \<open>getFree\<close> and the slots in use always add up to the size of the pipe.
\<close>

theorem slots_conserved:
  assumes "dp_reachable n mk s"
  shows "sem (dp s) + tickets s + length (filter (\<lambda>x. \<not> isFree x) (subpipes (dp s))) = n"
proof -
  from dp_reachable_inv [OF assms]
  have "list_all2 slot_ok (subpipes (dp s)) (phases s)"
    and "sem (dp s) + tickets s = count_list (phases s) Free" by (simp_all add: dp_inv_def)
  with slots_not_free [OF this(1)] dp_reachable_length [OF assms] show ?thesis by simp
qed

lemma reachable_ticket:
  "dp_reachable 2 id
     ((dp_init 2 id)\<lparr>dp := (new_pipe 2 id :: (nat, nat) pipe)\<lparr>sem := 1\<rparr>, tickets := Suc 0\<rparr>)"
proof -
  have "sem_acquire (dp (dp_init 2 id)) = Some ((new_pipe 2 id :: (nat, nat) pipe)\<lparr>sem := 1\<rparr>)"
    by (simp add: dp_init_def sem_acquire_def new_pipe_def)
  from dp_reachable.step [OF dp_reachable.start dp_step.acquire [OF this]]
  show ?thesis by (simp add: dp_init_def)
qed

theorem getFree_never_throws_witness:
  "\<exists>d i p. getFree ((new_pipe 2 id :: (nat, nat) pipe)\<lparr>sem := 1\<rparr>) = Inr ((d, i), p) \<and> i < 2"
  using getFree_never_throws [OF reachable_ticket] by (auto simp: dp_init_def)

theorem slots_conserved_witness:
  "1 + 1 + length (filter (\<lambda>x. \<not> isFree x) (subpipes (new_pipe 2 id :: (nat, nat) pipe))) = 2"
  using slots_conserved [OF reachable_ticket] by (simp add: dp_init_def)

text \<open>
  a slot published to \<open>k\<close> listeners stays taken through the first \<open>k - 1\<close> calls of
  \<open>unmapReading\<close> and becomes free, with one release of the semaphore, at the \<open>k\<close>-th.
\<close>

theorem published_slot_freed:
  assumes "registry_ok idx p" and "i < length (subpipes p)" and "\<not> isFree (subpipes p ! i)"
    and "unmapWriting i True p = Inr (ns, q)" and "ns \<noteq> []" and "k \<le> length ns"
  shows "\<exists>r. fold_err unmapReading (replicate k i) q = Inr r \<and> (slot_free r i \<longleftrightarrow> k = length ns) \<and>
           sem r = sem q + (if k = length ns then 1 else 0)"
proof -
  from unmapWriting_slot [OF assms(1-4)] assms(2,5) have "owed_readings q i = length ns"
    and "\<not> slot_free q i" by (auto simp: owed_readings_def slot_free_def)
  with dpool.last_release_frees [of q i k] assms(5,6) show ?thesis by simp
qed

definition two_readers :: "(nat, string) pipe" where
  "two_readers = (new_pipe 2 id)\<lparr>sem := 1, addListenerQueue := [(''enc'', 1), (''sink'', 2)],
     subpipes := [\<lparr>isFree = False, ptr = 0, readings = 0\<rparr>, \<lparr>isFree = True, ptr = 1, readings = 0\<rparr>]\<rparr>"

lemma two_readers_publish:
  "unmapWriting 0 True two_readers = Inr ([(1, ''enc''), (2, ''sink'')],
     (drain_queues two_readers)\<lparr>subpipes := (subpipes two_readers)
        [0 := (subpipes two_readers ! 0)\<lparr>readings := 2\<rparr>]\<rparr>)"
  by (simp add: unmapWriting_def two_readers_def new_pipe_def drain_queues_def
      omap_emplace_all_def omap_erase_all_def)

theorem published_slot_freed_witness:
  "\<exists>r. fold_err unmapReading [0, 0] ((drain_queues two_readers)\<lparr>subpipes := (subpipes two_readers)
        [0 := (subpipes two_readers ! 0)\<lparr>readings := 2\<rparr>]\<rparr>) = Inr r \<and> slot_free r 0 \<and> sem r = 2"
proof -
  have "registry_ok 2 two_readers" "0 < length (subpipes two_readers)"
    "\<not> isFree (subpipes two_readers ! 0)"
    by (auto simp: two_readers_def new_pipe_def registry_ok_def)
  from published_slot_freed [OF this two_readers_publish, of 2] show ?thesis
    by (simp add: two_readers_def new_pipe_def numeral_2_eq_2)
qed

text \<open>
  a publication reaches exactly the listeners that are registered when it takes the lock:
  those registered before or queued, less those whose removal is queued, in the order of
  their registration numbers.
\<close>

theorem publication_reaches_registered:
  assumes "omap_ok (listeners p)" and "unmapWriting i True p = Inr (ns, q)"
  shows "fst ` set ns =
           (fst ` set (listeners p) \<union> snd ` set (addListenerQueue p)) - set (removeListenerQueue p)
         \<and> sorted_wrt (<) (map fst ns) \<and> listeners q = ns"
proof -
  from assms(2) have "ns = listeners (drain_queues p)" and "listeners q = ns"
    by (auto simp: unmapWriting_def Let_def sem_release_def split: if_splits)
  with keys_drain [of p] listeners_ok_drain [OF assms(1)] show ?thesis
    by (simp add: omap_ok_def)
qed

theorem publication_reaches_registered_witness:
  "{1, 2} = snd ` set (addListenerQueue two_readers) \<and> removeListenerQueue two_readers = []"
  using publication_reaches_registered [OF _ two_readers_publish]
  by (auto simp: two_readers_def new_pipe_def)

end
