(* ===== verification/IdLookup.thy ===== *)
theory IdLookup
  imports Prelude
begin

text \<open>
  What the controllers rely on when they go through \<open>idToIndex\<close>: a row is returned exactly for
  the element that carries the id. The consequences are proved once, for any container that keeps
  the law; every list model of the client is an instance.
\<close>

definition fetch :: "('m \<Rightarrow> int \<Rightarrow> int option) \<Rightarrow> ('m \<Rightarrow> 't list) \<Rightarrow> 'm \<Rightarrow> int \<Rightarrow> 't option" where
  "fetch lookup items m k = map_option (\<lambda>r. items m ! nat r) (lookup m k)"

locale id_lookup =
  fixes lookup :: "'m \<Rightarrow> int \<Rightarrow> int option"
    and items :: "'m \<Rightarrow> 't list"
    and ident :: "'t \<Rightarrow> int"
    and ok :: "'m \<Rightarrow> bool"
  assumes lookup_iff:
    "ok m \<Longrightarrow> lookup m k = Some r \<longleftrightarrow> 0 \<le> r \<and> r < int (length (items m)) \<and> ident (items m ! nat r) = k"
begin

lemma lookup_nth:
  assumes "ok m" and "j < length (items m)"
  shows "lookup m (ident (items m ! j)) = Some (int j)"
  using assms lookup_iff [OF assms(1), of "ident (items m ! j)" "int j"] by simp

lemma ids_inj:
  assumes "ok m" and "i < length (items m)" and "j < length (items m)"
    and "ident (items m ! i) = ident (items m ! j)"
  shows "i = j"
proof -
  have "Some (int i) = lookup m (ident (items m ! i))" by (rule lookup_nth [OF assms(1,2), symmetric])
  also have "\<dots> = Some (int j)" unfolding assms(4) by (rule lookup_nth [OF assms(1,3)])
  finally show ?thesis by simp
qed

lemma distinct_ids:
  assumes "ok m"
  shows "distinct (map ident (items m))"
  unfolding distinct_conv_nth using ids_inj [OF assms] by (metis length_map nth_map)

lemma lookup_None:
  assumes "ok m"
  shows "lookup m k = None \<longleftrightarrow> k \<notin> ident ` set (items m)"
proof
  assume n: "lookup m k = None"
  show "k \<notin> ident ` set (items m)"
  proof
    assume "k \<in> ident ` set (items m)"
    then obtain j where "j < length (items m)" "ident (items m ! j) = k"
      by (auto simp: in_set_conv_nth)
    with lookup_nth [OF assms] n show False by fastforce
  qed
next
  assume k: "k \<notin> ident ` set (items m)"
  show "lookup m k = None"
  proof (rule ccontr)
    assume "lookup m k \<noteq> None"
    then obtain r where "lookup m k = Some r" by auto
    then have "nat r < length (items m)" "ident (items m ! nat r) = k"
      using lookup_iff [OF assms] by auto
    with k show False using nth_mem by blast
  qed
qed

text \<open>Writing back to the row that the lookup returned replaces the element with that id, and no other.\<close>

lemma update_set:
  assumes "ok m" and "lookup m k = Some r"
  shows "set ((items m)[nat r := y]) = insert y {x \<in> set (items m). ident x \<noteq> k}"
proof -
  from assms have r: "nat r < length (items m)" "ident (items m ! nat r) = k"
    using lookup_iff [OF assms(1)] by auto
  have d: "ident (items m ! i) \<noteq> k" if "i < length (items m)" "i \<noteq> nat r" for i
    using lookup_nth [OF assms(1) that(1)] that(2) assms(2) by auto
  show ?thesis
  proof (rule set_eqI, rule iffI)
    fix x
    assume "x \<in> set ((items m)[nat r := y])"
    then obtain i where "i < length (items m)" "x = (items m)[nat r := y] ! i"
      by (auto simp: in_set_conv_nth)
    then show "x \<in> insert y {x \<in> set (items m). ident x \<noteq> k}"
      using d [of i] by (cases "i = nat r") simp_all
  next
    fix x
    assume "x \<in> insert y {x \<in> set (items m). ident x \<noteq> k}"
    then consider "x = y" | i where "i < length (items m)" "x = items m ! i" "ident x \<noteq> k"
      by (auto simp: in_set_conv_nth)
    then show "x \<in> set ((items m)[nat r := y])"
    proof cases
      case 1
      with r(1) show ?thesis by (simp add: set_update_memI)
    next
      case 2
      with r(2) have "i \<noteq> nat r" by auto
      with 2 show ?thesis by (metis length_list_update nth_list_update_neq nth_mem)
    qed
  qed
qed

lemma fetch_iff:
  assumes "ok m"
  shows "fetch lookup items m k = Some x \<longleftrightarrow> x \<in> set (items m) \<and> ident x = k"
proof
  assume "fetch lookup items m k = Some x"
  then obtain r where "lookup m k = Some r" "x = items m ! nat r" by (auto simp: fetch_def)
  with lookup_iff [OF assms] show "x \<in> set (items m) \<and> ident x = k" by auto
next
  assume x: "x \<in> set (items m) \<and> ident x = k"
  then obtain j where "j < length (items m)" "items m ! j = x" by (auto simp: in_set_conv_nth)
  with lookup_nth [OF assms] x show "fetch lookup items m k = Some x" by (auto simp: fetch_def)
qed

text \<open>The write through a lookup, as a map update; the order of the elements stays.\<close>

lemma fetch_update:
  assumes "ok m" and "ok m'" and "lookup m k = Some r" and "items m' = (items m)[nat r := y]" and "ident y = k"
  shows "fetch lookup items m' = (fetch lookup items m)(k \<mapsto> y)"
    and "map ident (items m') = map ident (items m)"
proof -
  note u = update_set [OF assms(1,3), of y]
  have "fetch lookup items m' j = Some x \<longleftrightarrow> ((fetch lookup items m)(k \<mapsto> y)) j = Some x" for j x
    using assms(4,5) by (auto simp: fetch_iff [OF assms(2)] fetch_iff [OF assms(1)] u)
  then show "fetch lookup items m' = (fetch lookup items m)(k \<mapsto> y)"
    by (intro ext) (metis not_None_eq)
  have "ident (items m ! nat r) = ident y" using assms lookup_iff by auto
  then show "map ident (items m') = map ident (items m)"
    by (simp add: assms(4) map_update) (metis list_update_id map_update)
qed

end

end
