(* ===== verification/IdentifyingModel.thy ===== *)
theory IdentifyingModel
  imports IdLookup
begin

text \<open>
  \<open>IdentifyingModel<T>\<close> (\<open>lib/core/models/identifyingmodel.h\<close>): the list model that every
  view and controller of the client shares. It keeps the rows in \<open>_data\<close> and, beside them,
  \<open>_index\<close>, a map from the id of an element to its row. The first part translates the
  operations, the second states what the index promises (\<open>im_wf\<close>) and which operations keep it,
  the last says what goes wrong in the ones that do not.

  A \<open>QModelIndex\<close> is its row, \<open>None\<close> when invalid. Rows and counts are \<open>int\<close>s as in
  the code. The virtual methods of the subclass are a table; \<open>vt_edit\<close> is \<open>None\<close> where
  the method returns \<open>false\<close>, \<open>vt_read\<close> is \<open>None\<close> where it ends without a
  \<open>return\<close>. The lock is the recursive mutex around every method, so an operation is one step.
\<close>

section \<open>State\<close>

record ('t, 'v) vtable =
  vt_edit :: "'t \<Rightarrow> 'v \<Rightarrow> int \<Rightarrow> int \<Rightarrow> 't option"
  vt_read :: "'t \<Rightarrow> int \<Rightarrow> int \<Rightarrow> 'v option"
  vt_create :: 't
  vt_moved :: "'t \<Rightarrow> 't"
  vt_toInt :: "'v \<Rightarrow> int"
  vt_canInt :: "'v \<Rightarrow> bool"
  vt_isValid :: "'v \<Rightarrow> bool"
  vt_invalid :: 'v

datatype im_signal = ModelReset | RowsInserted int int | RowsRemoved int int | DataChanged "int option"

record 't im =
  im_data :: "'t list"
  im_index :: "int \<Rightarrow> int option"
  im_signals :: "im_signal list"

definition IDRole :: int where
  "IDRole = 0"

definition empty_im :: "'t im" where
  "empty_im = \<lparr>im_data = [], im_index = Map.empty, im_signals = []\<rparr>"

text \<open>\<open>read(x, row, IDRole()).toInt()\<close>; no subclass lets \<open>read\<close> fall through for the id.\<close>

definition id_of :: "('t, 'v) vtable \<Rightarrow> 't \<Rightarrow> int \<Rightarrow> int" where
  "id_of V x row = (case vt_read V x row IDRole of Some v \<Rightarrow> vt_toInt V v | None \<Rightarrow> 0)"

text \<open>\<open>_index[k] += n\<close>, which creates a missing entry with 0 first.\<close>

definition index_add :: "int \<Rightarrow> int \<Rightarrow> (int \<Rightarrow> int option) \<Rightarrow> int \<Rightarrow> int option" where
  "index_add k n ix = ix(k \<mapsto> (case ix k of Some r \<Rightarrow> r | None \<Rightarrow> 0) + n)"

definition in_rows :: "int \<Rightarrow> 't im \<Rightarrow> bool" where
  "in_rows row m \<longleftrightarrow> 0 \<le> row \<and> row < int (length (im_data m))"

definition emit :: "im_signal \<Rightarrow> 't im \<Rightarrow> 't im" where
  "emit s m = m\<lparr>im_signals := im_signals m @ [s]\<rparr>"

section \<open>Operations\<close>

definition rowCount :: "'t im \<Rightarrow> int" where
  "rowCount m = int (length (im_data m))"

text \<open>\<open>QAbstractListModel::index(row)\<close>.\<close>

definition model_index :: "int \<Rightarrow> 't im \<Rightarrow> int option" where
  "model_index row m = (if in_rows row m then Some row else None)"

definition data_role :: "('t, 'v) vtable \<Rightarrow> int option \<Rightarrow> int \<Rightarrow> 't im \<Rightarrow> 'v option" where
  "data_role V index role m =
     (case index of
        None \<Rightarrow> Some (vt_invalid V)
      | Some row \<Rightarrow>
          (if in_rows row m then vt_read V (im_data m ! nat row) row role else Some (vt_invalid V)))"

definition data_at :: "int option \<Rightarrow> 't im \<Rightarrow> 't option" where
  "data_at index m =
     (case index of
        None \<Rightarrow> None
      | Some row \<Rightarrow> (if in_rows row m then Some (im_data m ! nat row) else None))"

definition reset_im :: "'t im \<Rightarrow> 't im" where
  "reset_im m = emit ModelReset (m\<lparr>im_data := [], im_index := Map.empty\<rparr>)"

definition idToIndex :: "int \<Rightarrow> 't im \<Rightarrow> int option" where
  "idToIndex k m = (case im_index m k of None \<Rightarrow> None | Some row \<Rightarrow> model_index row m)"

definition setData_role ::
    "('t, 'v) vtable \<Rightarrow> int option \<Rightarrow> 'v \<Rightarrow> int \<Rightarrow> 't im \<Rightarrow> bool \<times> 't im" where
  "setData_role V index value role m =
     (case index of
        None \<Rightarrow> (False, m)
      | Some row \<Rightarrow>
          (if \<not> vt_isValid V value \<or> \<not> in_rows row m then (False, m)
           else
             let x = im_data m ! nat row; lastID = id_of V x row in
             if role = IDRole \<and> vt_canInt V value \<and> lastID \<noteq> vt_toInt V value
             then (case vt_edit V x value row role of
                     None \<Rightarrow> (False, m)
                   | Some y \<Rightarrow>
                       (True, m\<lparr>im_data := (im_data m)[nat row := y],
                                im_index := (im_index m)(vt_toInt V value \<mapsto> row, lastID := None)\<rparr>))
             else (case vt_edit V x value row role of
                     None \<Rightarrow> (False, m)
                   | Some y \<Rightarrow>
                       (True, emit (DataChanged (Some row)) (m\<lparr>im_data := (im_data m)[nat row := y]\<rparr>)))))"

definition setData_value :: "('t, 'v) vtable \<Rightarrow> int option \<Rightarrow> 't \<Rightarrow> 't im \<Rightarrow> bool \<times> 't im" where
  "setData_value V index val m =
     (case index of
        None \<Rightarrow> (False, m)
      | Some row \<Rightarrow>
          (if \<not> in_rows row m then (False, m)
           else
             let newID = id_of V val row;
                 oldID = id_of V (im_data m ! nat row) row;
                 ix = (if oldID \<noteq> newID
                       then (im_index m)(newID \<mapsto> row, oldID := None) else im_index m)
             in (True, emit (DataChanged (Some row))
                   (m\<lparr>im_data := (im_data m)[nat row := val], im_index := ix\<rparr>))))"

text \<open>
  \<open>setData(int id, \<dots>)\<close> reads and edits \<open>_data[id]\<close>: the id is used as a row. Outside of
  the deque that is undefined behaviour (\<open>None\<close>). After an edit of the id role the entry of
  \<open>id\<close> has been erased, and the last \<open>_index[id]\<close> creates it again with row 0.
\<close>

definition setData_id ::
    "('t, 'v) vtable \<Rightarrow> int \<Rightarrow> 'v \<Rightarrow> int \<Rightarrow> 't im \<Rightarrow> (bool \<times> 't im) option" where
  "setData_id V k value role m =
     (case im_index m k of
        None \<Rightarrow> Some (False, m)
      | Some row \<Rightarrow>
          (if \<not> in_rows k m then None
           else case vt_edit V (im_data m ! nat k) value row role of
             None \<Rightarrow> Some (False, m)
           | Some y \<Rightarrow>
               (let m = m\<lparr>im_data := (im_data m)[nat k := y]\<rparr>;
                    ix = (if role = IDRole \<and> vt_canInt V value \<and> k \<noteq> vt_toInt V value
                          then (im_index m)(vt_toInt V value \<mapsto> row, k := None) else im_index m);
                    m = m\<lparr>im_index := index_add k 0 ix\<rparr>
                in Some (True, emit (DataChanged (model_index (the (im_index m k)) m)) m))))"

text \<open>
  \<open>insertRange\<close>. \<open>remove_if\<close> moves the elements whose id is already known to the front and
  returns the rest of the range: as many elements as are new, but from the end of the range, where
  a known element that was moved to the front has left its moved-from shell.
\<close>

definition remove_if_tail :: "('t \<Rightarrow> 't) \<Rightarrow> ('t \<Rightarrow> bool) \<Rightarrow> 't list \<Rightarrow> 't list" where
  "remove_if_tail moved known xs =
     map (\<lambda>x. if known x then moved x else x) (drop (length (filter known xs)) xs)"

fun index_insert_rows :: "('t, 'v) vtable \<Rightarrow> int \<Rightarrow> 't list \<Rightarrow> (int \<Rightarrow> int option) \<Rightarrow> int \<Rightarrow> int option" where
  "index_insert_rows V i [] ix = ix"
| "index_insert_rows V i (x # xs) ix =
     index_insert_rows V (i + 1) xs
       (if ix (id_of V x i) = None then ix(id_of V x i \<mapsto> i) else ix)"

definition insertRange :: "('t, 'v) vtable \<Rightarrow> int \<Rightarrow> 't list \<Rightarrow> 't im \<Rightarrow> bool \<times> 't im" where
  "insertRange V row xs m =
     (let ys = remove_if_tail (vt_moved V) (\<lambda>x. im_index m (id_of V x 0) \<noteq> None) xs;
          distance = int (length ys) - 1
      in if row > int (length (im_data m)) \<or> row < 0 \<or> distance < 0 then (False, m)
         else (True, emit (RowsInserted row (row + distance))
                (m\<lparr>im_data := take (nat row) (im_data m) @ ys @ drop (nat row) (im_data m),
                   im_index := index_insert_rows V row ys (im_index m)\<rparr>)))"

text \<open>The loops that move the entries of the rows behind an insertion or a removal.\<close>

fun index_shift :: "('t, 'v) vtable \<Rightarrow> (nat \<Rightarrow> int) \<Rightarrow> nat \<Rightarrow> int \<Rightarrow> 't list \<Rightarrow> (int \<Rightarrow> int option) \<Rightarrow> int \<Rightarrow> int option" where
  "index_shift V at i n [] ix = ix"
| "index_shift V at i n (x # xs) ix = index_shift V at (Suc i) n xs (index_add (id_of V x (at i)) n ix)"

fun index_set_rows :: "('t, 'v) vtable \<Rightarrow> (int \<Rightarrow> int) \<Rightarrow> int \<Rightarrow> 't list \<Rightarrow> (int \<Rightarrow> int option) \<Rightarrow> int \<Rightarrow> int option" where
  "index_set_rows V at i [] ix = ix"
| "index_set_rows V at i (x # xs) ix = index_set_rows V at (i + 1) xs (ix(id_of V x (at i) \<mapsto> i))"

definition insertRows :: "('t, 'v) vtable \<Rightarrow> int \<Rightarrow> int \<Rightarrow> 't im \<Rightarrow> bool \<times> 't im" where
  "insertRows V row count m =
     (if row < 0 \<or> row > int (length (im_data m)) \<or> count \<le> 0 then (False, m)
      else
        let ix = (if row + count < int (length (im_data m))
                  then index_shift V (\<lambda>_. 0) 0 count (drop (nat row) (im_data m)) (im_index m)
                  else im_index m);
            ys = take (nat row) (im_data m) @ replicate (nat count) (vt_create V) @ drop (nat row) (im_data m)
        in (True, emit (RowsInserted row (row + count - 1))
              (m\<lparr>im_data := ys,
                 im_index := index_set_rows V (\<lambda>i. i) row (drop (nat row) (take (nat count) ys)) ix\<rparr>)))"

definition insertDataList :: "('t, 'v) vtable \<Rightarrow> int \<Rightarrow> 't list \<Rightarrow> 't im \<Rightarrow> bool \<times> 't im" where
  "insertDataList V row xs m =
     (if row < 0 \<or> row > int (length (im_data m)) \<or> length xs = 0 then (False, m)
      else
        let ix = (if row < int (length (im_data m))
                  then index_shift V (\<lambda>_. 0) 0 (int (length xs)) (drop (nat row) (im_data m)) (im_index m)
                  else im_index m)
        in (True, emit (RowsInserted row (row + int (length xs) - 1))
              (m\<lparr>im_data := take (nat row) (im_data m) @ xs @ drop (nat row) (im_data m),
                 im_index := index_set_rows V (\<lambda>_. 0) row xs ix\<rparr>)))"

definition insertData :: "('t, 'v) vtable \<Rightarrow> int \<Rightarrow> 't \<Rightarrow> 't im \<Rightarrow> bool \<times> 't im" where
  "insertData V row x m = insertDataList V row [x] m"

definition removeRows :: "('t, 'v) vtable \<Rightarrow> int \<Rightarrow> int \<Rightarrow> 't im \<Rightarrow> bool \<times> 't im" where
  "removeRows V row count m =
     (if row < 0 \<or> row + count > int (length (im_data m)) \<or> row + count < 0 \<or> count \<le> 0 then (False, m)
      else
        let rest = drop (nat row + nat count) (im_data m) in
        (True, emit (RowsRemoved row (row + count - 1))
           (m\<lparr>im_data := take (nat row) (im_data m) @ rest,
              im_index := index_shift V int (nat row) (- count) rest
                ((im_index m)(id_of V (im_data m ! nat row) row := None))\<rparr>)))"


section \<open>What the index promises\<close>

definition key :: "('t, 'v) vtable \<Rightarrow> 't \<Rightarrow> int" where
  "key V x = id_of V x 0"

definition keys :: "('t, 'v) vtable \<Rightarrow> 't im \<Rightarrow> int list" where
  "keys V m = map (key V) (im_data m)"

text \<open>No subclass looks at the row when it reads the id.\<close>

definition uniform :: "('t, 'v) vtable \<Rightarrow> bool" where
  "uniform V \<longleftrightarrow> (\<forall>x row. id_of V x row = key V x)"

fun rows_from :: "int \<Rightarrow> int list \<Rightarrow> int \<Rightarrow> int option" where
  "rows_from i [] k = None"
| "rows_from i (k' # ks) k = (if k = k' then Some i else rows_from (i + 1) ks k)"

definition im_wf :: "('t, 'v) vtable \<Rightarrow> 't im \<Rightarrow> bool" where
  "im_wf V m \<longleftrightarrow> distinct (keys V m) \<and> im_index m = rows_from 0 (keys V m)"

lemma rows_from_None: "rows_from i ks k = None \<longleftrightarrow> k \<notin> set ks"
  by (induction ks arbitrary: i) auto

lemma rows_from_notin [simp]: "k \<notin> set ks \<Longrightarrow> rows_from i ks k = None"
  by (simp add: rows_from_None)

lemma rows_from_append:
  "rows_from i (xs @ ys) k =
     (case rows_from i xs k of Some r \<Rightarrow> Some r | None \<Rightarrow> rows_from (i + int (length xs)) ys k)"
proof (induction xs arbitrary: i)
  case (Cons x xs)
  have "i + 1 + int (length xs) = i + int (length (x # xs))" by simp
  with Cons [of "i + 1"] show ?case
    by (cases "rows_from (i + 1) xs k") (simp_all add: add.assoc)
qed simp

lemma rows_from_shift: "rows_from (i + n) ks k = map_option (\<lambda>r. r + n) (rows_from i ks k)"
proof (induction ks arbitrary: i)
  case (Cons a ks)
  have "rows_from (i + n + 1) ks k = rows_from (i + 1 + n) ks k" by (simp add: algebra_simps)
  with Cons show ?case by simp
qed simp

lemma rows_from_bounds:
  "rows_from i ks k = Some r \<Longrightarrow>
     i \<le> r \<and> r < i + int (length ks) \<and> ks ! nat (r - i) = k"
proof (induction ks arbitrary: i)
  case (Cons a ks)
  show ?case
  proof (cases "k = a")
    case False
    with Cons.prems Cons.IH [of "i + 1"] have r: "i + 1 \<le> r" "r < i + 1 + int (length ks)"
      "ks ! nat (r - (i + 1)) = k" by auto
    then have "nat (r - i) = Suc (nat (r - (i + 1)))" by simp
    with r show ?thesis by simp
  qed (use Cons.prems in auto)
qed simp

lemma rows_from_nth:
  "distinct ks \<Longrightarrow> j < length ks \<Longrightarrow> rows_from i ks (ks ! j) = Some (i + int j)"
proof (induction ks arbitrary: i j)
  case (Cons a ks)
  then show ?case by (cases j) auto
qed simp

lemma im_wf_lookup:
  assumes "im_wf V m"
  shows "im_index m k = Some r \<longleftrightarrow> in_rows r m \<and> key V (im_data m ! nat r) = k"
proof
  assume "im_index m k = Some r"
  with assms have "rows_from 0 (keys V m) k = Some r" by (simp add: im_wf_def)
  from rows_from_bounds [OF this] show "in_rows r m \<and> key V (im_data m ! nat r) = k"
    by (auto simp: in_rows_def keys_def)
next
  assume r: "in_rows r m \<and> key V (im_data m ! nat r) = k"
  then have "nat r < length (keys V m)" "keys V m ! nat r = k" "0 \<le> r"
    by (auto simp: in_rows_def keys_def)
  with assms rows_from_nth [of "keys V m" "nat r" 0] show "im_index m k = Some r"
    by (auto simp: im_wf_def)
qed

lemma idToIndex_index: "im_wf V m \<Longrightarrow> idToIndex k m = im_index m k"
  using im_wf_lookup [of V m k]
  by (cases "im_index m k") (auto simp: idToIndex_def model_index_def)

lemma idToIndex_wf:
  "im_wf V m \<Longrightarrow> idToIndex k m = Some r \<longleftrightarrow> in_rows r m \<and> key V (im_data m ! nat r) = k"
  by (simp add: idToIndex_index im_wf_lookup)

lemma index_None_wf: "im_wf V m \<Longrightarrow> im_index m k = None \<longleftrightarrow> k \<notin> set (keys V m)"
  by (simp add: im_wf_def rows_from_None)

lemma idToIndex_None_wf: "im_wf V m \<Longrightarrow> idToIndex k m = None \<longleftrightarrow> k \<notin> set (keys V m)"
  by (simp add: idToIndex_index index_None_wf)

lemma im_wf_empty [simp]: "im_wf V empty_im"
  by (auto simp: im_wf_def keys_def empty_im_def)

lemma im_wf_emit [simp]: "im_wf V (emit s m) = im_wf V m"
  by (simp add: im_wf_def keys_def emit_def)

lemma emit_frame [simp]:
  "im_data (emit s m) = im_data m" "im_index (emit s m) = im_index m" "keys V (emit s m) = keys V m"
  by (simp_all add: emit_def keys_def)

section \<open>Loops over the index\<close>

lemma index_set_rows_eq:
  assumes "uniform V" and "distinct (map (key V) xs)"
  shows "index_set_rows V at i xs ix k =
     (case rows_from i (map (key V) xs) k of Some r \<Rightarrow> Some r | None \<Rightarrow> ix k)"
  using assms(2)
proof (induction xs arbitrary: i ix)
  case (Cons x xs)
  have "id_of V x (at i) = key V x" using assms(1) by (simp add: uniform_def)
  with Cons show ?case by (auto split: option.splits)
qed simp

lemma index_shift_eq:
  assumes "uniform V" and "distinct (map (key V) xs)"
  shows "index_shift V at i n xs ix k =
     (if k \<in> key V ` set xs then Some ((case ix k of Some r \<Rightarrow> r | None \<Rightarrow> 0) + n) else ix k)"
  using assms(2)
proof (induction xs arbitrary: i ix)
  case (Cons x xs)
  have "id_of V x (at i) = key V x" using assms(1) by (simp add: uniform_def)
  with Cons show ?case by (auto simp: index_add_def)
qed simp

lemma index_insert_rows_eq:
  assumes "uniform V" and "distinct (map (key V) xs)"
  shows "index_insert_rows V i xs ix k =
     (case ix k of Some r \<Rightarrow> Some r | None \<Rightarrow> rows_from i (map (key V) xs) k)"
  using assms(2)
proof (induction xs arbitrary: i ix)
  case Nil
  show ?case by (simp split: option.split)
next
  case (Cons x xs)
  have "id_of V x i = key V x" using assms(1) by (simp add: uniform_def)
  with Cons show ?case by (auto split: option.splits)
qed

lemma rows_from_insert_middle:
  "rows_from 0 (xs @ ys @ zs) k =
     (case rows_from 0 xs k of Some r \<Rightarrow> Some r
      | None \<Rightarrow> (case rows_from (int (length xs)) ys k of Some r \<Rightarrow> Some r
         | None \<Rightarrow> map_option (\<lambda>r. r + int (length ys)) (rows_from (int (length xs)) zs k)))"
  by (cases "rows_from 0 xs k"; cases "rows_from (int (length xs)) ys k")
    (simp_all add: rows_from_append rows_from_shift)

section \<open>Insertion\<close>

lemma keys_insert_middle:
  "im_data m' = take r (im_data m) @ xs @ drop r (im_data m) \<Longrightarrow>
     keys V m' = take r (keys V m) @ map (key V) xs @ drop r (keys V m)"
  by (simp add: keys_def take_map drop_map)

lemma insertDataList_ok:
  assumes u: "uniform V" and wf: "im_wf V m" and row: "0 \<le> row" "row \<le> rowCount m" and ne: "xs \<noteq> []"
    and new: "distinct (map (key V) xs)" "key V ` set xs \<inter> set (keys V m) = {}"
  shows "\<exists>m'. insertDataList V row xs m = (True, m') \<and> im_wf V m' \<and>
           im_data m' = take (nat row) (im_data m) @ xs @ drop (nat row) (im_data m)"
proof -
  define zs where "zs = drop (nat row) (keys V m)"
  define ys where "ys = take (nat row) (keys V m)"
  have k: "keys V m = ys @ zs" and ly: "int (length ys) = row"
    using row by (simp_all add: ys_def zs_def rowCount_def keys_def)
  have zs: "map (key V) (drop (nat row) (im_data m)) = zs"
    by (simp add: zs_def keys_def drop_map)
  then have zset: "key V ` set (drop (nat row) (im_data m)) = set zs" by (metis image_set)
  have dis: "distinct (keys V m)" and ix: "im_index m = rows_from 0 (ys @ zs)"
    using wf k by (simp_all add: im_wf_def)
  have dz: "distinct zs" and dyz: "set ys \<inter> set zs = {}" using dis k by simp_all
  define ix1 where "ix1 = (if row < int (length (im_data m))
      then index_shift V (\<lambda>_. 0) 0 (int (length xs)) (drop (nat row) (im_data m)) (im_index m)
      else im_index m)"
  have ix1: "ix1 k = (if k \<in> set zs then Some ((case im_index m k of Some r \<Rightarrow> r | None \<Rightarrow> 0) + int (length xs))
      else im_index m k)" for k
  proof (cases "row < int (length (im_data m))")
    case True
    then show ?thesis
      using index_shift_eq [OF u, of "drop (nat row) (im_data m)"] zs dz by (simp add: ix1_def zset)
  next
    case False
    then have "zs = []" using row by (simp add: zs_def keys_def rowCount_def)
    with False show ?thesis by (simp add: ix1_def)
  qed
  define m' where "m' = emit (RowsInserted row (row + int (length xs) - 1))
      (m\<lparr>im_data := take (nat row) (im_data m) @ xs @ drop (nat row) (im_data m),
         im_index := index_set_rows V (\<lambda>_. 0) row xs ix1\<rparr>)"
  have run: "insertDataList V row xs m = (True, m')"
    using row ne by (simp add: insertDataList_def Let_def m'_def ix1_def rowCount_def)
  have d: "im_data m' = take (nat row) (im_data m) @ xs @ drop (nat row) (im_data m)"
    by (simp add: m'_def)
  have km: "keys V m' = ys @ map (key V) xs @ zs"
    by (simp add: keys_insert_middle [OF d] ys_def zs_def)
  have "im_index m' k = rows_from 0 (keys V m') k" for k
  proof -
    have e: "im_index m' k = (case rows_from row (map (key V) xs) k of Some r \<Rightarrow> Some r | None \<Rightarrow> ix1 k)"
      by (simp add: m'_def index_set_rows_eq [OF u new(1)])
    show ?thesis
    proof (cases "k \<in> key V ` set xs")
      case True
      with new(2) k have "k \<notin> set ys" by auto
      then have y: "rows_from 0 ys k = None" by simp
      from True obtain r where "rows_from row (map (key V) xs) k = Some r"
        by (metis rows_from_None image_set not_None_eq)
      with y ly show ?thesis by (simp add: km rows_from_insert_middle e)
    next
      case False
      then have n: "rows_from row (map (key V) xs) k = None" by simp
      show ?thesis
      proof (cases "k \<in> set zs")
        case True
        with dyz have y: "rows_from 0 ys k = None" by (intro rows_from_notin) blast
        from True obtain r where "rows_from row zs k = Some r"
          by (metis rows_from_None not_None_eq)
        with y n True show ?thesis
          by (simp add: km rows_from_insert_middle e ly ix1 ix rows_from_append rows_from_shift)
      next
        case nz: False
        then have "rows_from row zs k = None" by simp
        with nz n show ?thesis
          by (simp add: km rows_from_insert_middle e ly ix1 ix rows_from_append split: option.split)
      qed
    qed
  qed
  moreover have "distinct (keys V m')" using dis new k by (auto simp: km)
  ultimately have "im_wf V m'" by (auto simp: im_wf_def)
  with run d show ?thesis by blast
qed


section \<open>Removal and replacement\<close>

lemma keys_split:
  assumes "in_rows row m"
  shows "keys V m = take (nat row) (keys V m) @ key V (im_data m ! nat row) # drop (Suc (nat row)) (keys V m)"
proof -
  have "nat row < length (keys V m)" using assms by (simp add: in_rows_def keys_def nat_less_iff)
  from id_take_nth_drop [OF this] this show ?thesis by (simp add: keys_def)
qed

lemma removeRow_ok:
  assumes u: "uniform V" and wf: "im_wf V m" and row: "in_rows row m"
  shows "\<exists>m'. removeRows V row 1 m = (True, m') \<and> im_wf V m' \<and>
           im_data m' = take (nat row) (im_data m) @ drop (Suc (nat row)) (im_data m)"
proof -
  define ys zs k0 where "ys = take (nat row) (keys V m)" and "zs = drop (Suc (nat row)) (keys V m)"
    and "k0 = key V (im_data m ! nat row)"
  have k: "keys V m = ys @ k0 # zs"
    using keys_split [OF row] by (simp add: ys_def zs_def k0_def)
  have ly: "int (length ys) = row" using row by (auto simp: ys_def in_rows_def keys_def)
  define rest where "rest = drop (Suc (nat row)) (im_data m)"
  have rest: "map (key V) rest = zs" by (simp add: rest_def zs_def keys_def drop_map)
  then have rset: "key V ` set rest = set zs" by (metis image_set)
  have dis: "distinct (ys @ k0 # zs)" and ix: "im_index m = rows_from 0 (ys @ k0 # zs)"
    using wf k by (simp_all add: im_wf_def)
  define m' where "m' = emit (RowsRemoved row row)
      (m\<lparr>im_data := take (nat row) (im_data m) @ rest,
         im_index := index_shift V int (nat row) (- 1) rest ((im_index m)(k0 := None))\<rparr>)"
  have run: "removeRows V row 1 m = (True, m')"
  proof -
    have "id_of V (im_data m ! nat row) row = k0" using u by (simp add: k0_def uniform_def)
    with row show ?thesis by (simp add: removeRows_def Let_def in_rows_def m'_def rest_def)
  qed
  have d: "im_data m' = take (nat row) (im_data m) @ drop (Suc (nat row)) (im_data m)"
    by (simp add: m'_def rest_def)
  then have km: "keys V m' = ys @ zs" by (simp add: keys_def ys_def zs_def take_map drop_map)
  have "im_index m' k = rows_from 0 (ys @ zs) k" for k
  proof -
    have e: "im_index m' k = (if k \<in> set zs
        then Some ((case ((im_index m)(k0 := None)) k of Some r \<Rightarrow> r | None \<Rightarrow> 0) - 1)
        else ((im_index m)(k0 := None)) k)"
      using dis rest by (simp add: m'_def index_shift_eq [OF u] rset)
    show ?thesis
    proof (cases "k \<in> set zs")
      case True
      with dis have "k \<noteq> k0" "rows_from 0 ys k = None" by (auto intro!: rows_from_notin)
      moreover obtain r where "rows_from row zs k = Some r"
        using True by (metis rows_from_None not_None_eq)
      ultimately show ?thesis
        using True by (simp add: e ix rows_from_append ly rows_from_shift)
    next
      case False
      then show ?thesis using dis e
        by (cases "k = k0"; cases "rows_from 0 ys k") (auto simp: ix rows_from_append)
    qed
  qed
  with dis have "im_wf V m'" by (auto simp: im_wf_def km)
  with run d show ?thesis by blast
qed

lemma index_replace:
  assumes "distinct (ys @ k0 # zs)" and "k1 \<notin> set (ys @ zs)" and "k0 \<noteq> k1"
  shows "(rows_from 0 (ys @ k0 # zs))(k1 \<mapsto> int (length ys), k0 := None) = rows_from 0 (ys @ k1 # zs)"
proof
  fix k
  show "((rows_from 0 (ys @ k0 # zs))(k1 \<mapsto> int (length ys), k0 := None)) k = rows_from 0 (ys @ k1 # zs) k"
    using assms by (cases "rows_from 0 ys k") (auto simp: rows_from_append)
qed

text \<open>Overwriting a row and moving its index entry, as both \<open>setData\<close> overloads do.\<close>

lemma replace_row_ok:
  assumes wf: "im_wf V m" and row: "in_rows row m" and k1: "key V y \<notin> set (keys V m) - {key V (im_data m ! nat row)}"
    and ix: "im_index m' = (if key V (im_data m ! nat row) \<noteq> key V y
        then (im_index m)(key V y \<mapsto> row, key V (im_data m ! nat row) := None) else im_index m)"
    and d: "im_data m' = (im_data m)[nat row := y]"
  shows "im_wf V m'"
proof -
  define ys zs k0 where "ys = take (nat row) (keys V m)" and "zs = drop (Suc (nat row)) (keys V m)"
    and "k0 = key V (im_data m ! nat row)"
  have k: "keys V m = ys @ k0 # zs"
    using keys_split [OF row] by (simp add: ys_def zs_def k0_def)
  have ly: "int (length ys) = row" using row by (auto simp: ys_def in_rows_def keys_def)
  have km: "keys V m' = ys @ key V y # zs"
  proof -
    have "keys V m' = (keys V m)[nat row := key V y]" by (simp add: keys_def d map_update)
    then show ?thesis using row
      by (simp add: ys_def zs_def upd_conv_take_nth_drop in_rows_def keys_def nat_less_iff)
  qed
  have dis: "distinct (ys @ k0 # zs)" and ixm: "im_index m = rows_from 0 (ys @ k0 # zs)"
    using wf k by (simp_all add: im_wf_def)
  have new: "key V y \<notin> set (ys @ zs)" using k1 dis k by (auto simp: k0_def)
  have "im_index m' = rows_from 0 (keys V m')"
    using index_replace [OF dis new] ly by (cases "k0 = key V y") (simp_all add: ix ixm km k0_def)
  moreover have "distinct (keys V m')" using dis new by (simp add: km)
  ultimately show ?thesis by (simp add: im_wf_def)
qed

lemma setData_value_ok:
  assumes u: "uniform V" and wf: "im_wf V m" and row: "in_rows row m"
    and k: "key V y \<notin> set (keys V m) - {key V (im_data m ! nat row)}"
  shows "\<exists>m'. setData_value V (Some row) y m = (True, m') \<and> im_wf V m' \<and>
           im_data m' = (im_data m)[nat row := y] \<and>
           im_signals m' = im_signals m @ [DataChanged (Some row)]"
proof -
  have i: "id_of V x r = key V x" for x r using u by (simp add: uniform_def)
  show ?thesis
    using replace_row_ok [OF wf row k, of "snd (setData_value V (Some row) y m)"] row
    by (auto simp: setData_value_def Let_def i emit_def)
qed

text \<open>
  A write through a role: the row keeps its id, or gets the fresh id written to it.
\<close>

lemma setData_role_ok:
  assumes u: "uniform V" and wf: "im_wf V m" and row: "in_rows row m"
    and v: "vt_isValid V v" and e: "vt_edit V (im_data m ! nat row) v row role = Some y"
    and k: "key V y = (if role = IDRole \<and> vt_canInt V v then vt_toInt V v else key V (im_data m ! nat row))"
    and f: "key V y \<notin> set (keys V m) - {key V (im_data m ! nat row)}"
  shows "\<exists>m'. setData_role V (Some row) v role m = (True, m') \<and> im_wf V m' \<and>
           im_data m' = (im_data m)[nat row := y]"
proof -
  have i: "id_of V x r = key V x" for x r using u by (simp add: uniform_def)
  show ?thesis
    using replace_row_ok [OF wf row f, of "snd (setData_role V (Some row) v role m)"] row v e k
    by (auto simp: setData_role_def Let_def i emit_def)
qed

lemma setData_role_False:
  "setData_role V index v role m = (False, m') \<Longrightarrow> m' = m"
  by (auto simp: setData_role_def Let_def split: option.splits if_splits)


section \<open>The model as a finite map\<close>

text \<open>What a client sees: the element an id leads to.\<close>

definition lookup_im :: "'t im \<Rightarrow> int \<Rightarrow> 't option" where
  "lookup_im m k = data_at (idToIndex k m) m"

definition entries :: "('t, 'v) vtable \<Rightarrow> 't list \<Rightarrow> int \<Rightarrow> 't option" where
  "entries V xs = map_of (map (\<lambda>x. (key V x, x)) xs)"

lemma entries_append: "entries V (xs @ ys) = entries V ys ++ entries V xs"
  by (simp add: entries_def)

lemma entries_Cons: "entries V (x # xs) = (entries V xs)(key V x \<mapsto> x)"
  by (simp add: entries_def)

lemma dom_entries: "dom (entries V xs) = key V ` set xs"
  by (simp add: entries_def dom_map_of_conv_image_fst image_image)

lemma entries_notin: "k \<notin> key V ` set xs \<Longrightarrow> entries V xs k = None"
  using dom_entries [of V xs] by (metis domIff)

lemma in_rows_nth: "in_rows r m \<Longrightarrow> im_data m ! nat r \<in> set (im_data m)"
  by (auto simp: in_rows_def nat_less_iff intro!: nth_mem)

lemma lookup_entries:
  assumes "im_wf V m"
  shows "lookup_im m = entries V (im_data m)"
proof
  fix k
  have d: "distinct (map fst (map (\<lambda>x. (key V x, x)) (im_data m)))"
    using assms by (simp add: im_wf_def keys_def comp_def)
  show "lookup_im m k = entries V (im_data m) k"
  proof (cases "idToIndex k m")
    case None
    then have "k \<notin> key V ` set (im_data m)"
      using idToIndex_None_wf [OF assms, of k] by (simp add: keys_def)
    then show ?thesis by (simp add: lookup_im_def None data_at_def entries_notin)
  next
    case (Some r)
    then have r: "in_rows r m" "key V (im_data m ! nat r) = k"
      using idToIndex_wf [OF assms] by auto
    then have "im_data m ! nat r \<in> set (im_data m)" by (intro in_rows_nth)
    then have "entries V (im_data m) k = Some (im_data m ! nat r)"
      unfolding entries_def by (intro map_of_is_SomeI [OF d]) (use r(2) in force)
    with r(1) show ?thesis by (simp add: lookup_im_def Some data_at_def)
  qed
qed

lemma entries_drop_row:
  assumes "im_wf V m" and "in_rows row m"
  shows "entries V (take (nat row) (im_data m) @ drop (Suc (nat row)) (im_data m)) =
           (entries V (im_data m))(key V (im_data m ! nat row) := None)"
    and "key V (im_data m ! nat row) \<notin> key V ` set (take (nat row) (im_data m))"
proof -
  have n: "nat row < length (im_data m)" using assms(2) by (simp add: in_rows_def nat_less_iff)
  define ys x zs where "ys = take (nat row) (im_data m)" and "x = im_data m ! nat row"
    and "zs = drop (Suc (nat row)) (im_data m)"
  have e: "im_data m = ys @ x # zs" using id_take_nth_drop [OF n] by (simp add: ys_def x_def zs_def)
  have d: "key V x \<notin> key V ` set ys" "key V x \<notin> key V ` set zs"
    using assms(1) by (auto simp: im_wf_def keys_def e)
  have "entries V (ys @ zs) = (entries V (ys @ x # zs))(key V x := None)"
    using d by (auto simp: entries_append entries_Cons map_add_def fun_eq_iff entries_notin split: option.split)
  then show "entries V (take (nat row) (im_data m) @ drop (Suc (nat row)) (im_data m)) =
           (entries V (im_data m))(key V (im_data m ! nat row) := None)"
    unfolding ys_def x_def zs_def using id_take_nth_drop [OF n] by simp
  show "key V (im_data m ! nat row) \<notin> key V ` set (take (nat row) (im_data m))"
    using d(1) by (simp add: ys_def x_def)
qed

lemma entries_update_row:
  assumes "im_wf V m" and "in_rows row m"
    and "key V y \<notin> set (keys V m) - {key V (im_data m ! nat row)}"
  shows "entries V ((im_data m)[nat row := y]) =
           ((entries V (im_data m))(key V (im_data m ! nat row) := None))(key V y \<mapsto> y)"
proof -
  have n: "nat row < length (im_data m)" using assms(2) by (simp add: in_rows_def nat_less_iff)
  define ys x zs where "ys = take (nat row) (im_data m)" and "x = im_data m ! nat row"
    and "zs = drop (Suc (nat row)) (im_data m)"
  have e: "im_data m = ys @ x # zs" using id_take_nth_drop [OF n] by (simp add: ys_def x_def zs_def)
  have "key V y = key V x \<or> key V y \<notin> set (keys V m)" using assms(3) by (auto simp: x_def)
  moreover have "set (keys V m) = insert (key V x) (key V ` set ys \<union> key V ` set zs)"
    "key V x \<notin> key V ` set ys"
    using assms(1) by (auto simp: im_wf_def keys_def e)
  ultimately have "key V y \<notin> key V ` set ys" by auto
  then have "entries V (ys @ y # zs) = (entries V (ys @ zs))(key V y \<mapsto> y)"
    by (auto simp: entries_append entries_Cons map_add_def fun_eq_iff entries_notin split: option.split)
  moreover have "(im_data m)[nat row := y] = ys @ y # zs"
    using n by (simp add: ys_def zs_def upd_conv_take_nth_drop)
  ultimately show ?thesis
    using entries_drop_row(1) [OF assms(1,2)] by (simp add: ys_def zs_def)
qed

text \<open>The instance used to show that the hypotheses of the properties can be met.\<close>

definition pair_vt :: "(int \<times> nat, int) vtable" where
  "pair_vt = \<lparr>vt_edit = (\<lambda>x v row role. if role = IDRole then Some (v, snd x) else Some (fst x, nat v)),
     vt_read = (\<lambda>x row role. Some (if role = IDRole then fst x else int (snd x))), vt_create = (0, 0),
     vt_moved = id, vt_toInt = id, vt_canInt = (\<lambda>_. True), vt_isValid = (\<lambda>_. True), vt_invalid = 0\<rparr>"

definition pair_im :: "(int \<times> nat) im" where
  "pair_im = \<lparr>im_data = [(5, 50), (6, 60)], im_index = [5 \<mapsto> 0, 6 \<mapsto> 1], im_signals = []\<rparr>"

lemma pair_uniform: "uniform pair_vt"
  by (simp add: uniform_def key_def id_of_def pair_vt_def)

lemma pair_key [simp]: "key pair_vt x = fst x"
  by (simp add: key_def id_of_def pair_vt_def)

lemma pair_wf: "im_wf pair_vt pair_im"
  by (auto simp: im_wf_def keys_def pair_im_def fun_eq_iff)

text \<open>
  C6: \<open>insertDataList\<close> refines the extension of a finite map: on a well-formed model,
  at any row, inserting elements with new ids succeeds, keeps the index exact, and makes precisely
  the new ids lead to the new elements while every old id still leads to its element.
\<close>

theorem insertDataList_refines:
  assumes "uniform V" and "im_wf V m" and "0 \<le> row" and "row \<le> rowCount m" and "xs \<noteq> []"
    and "distinct (map (key V) xs)" and "key V ` set xs \<inter> set (keys V m) = {}"
  shows "\<exists>m'. insertDataList V row xs m = (True, m') \<and> im_wf V m' \<and>
           lookup_im m' = lookup_im m ++ entries V xs"
proof -
  from insertDataList_ok [OF assms] obtain m' where m': "insertDataList V row xs m = (True, m')"
    "im_wf V m'" "im_data m' = take (nat row) (im_data m) @ xs @ drop (nat row) (im_data m)" by blast
  let ?T = "take (nat row) (im_data m)" and ?D = "drop (nat row) (im_data m)"
  have "dom (entries V xs) \<inter> dom (entries V ?T) = {}"
    using assms(7) set_take_subset [of "nat row" "im_data m"] by (auto simp: dom_entries keys_def)
  then have c: "entries V xs ++ entries V ?T = entries V ?T ++ entries V xs" by (rule map_add_comm)
  have "entries V (im_data m') = entries V ?D ++ (entries V xs ++ entries V ?T)"
    by (simp add: m'(3) entries_append)
  also have "\<dots> = entries V (?T @ ?D) ++ entries V xs"
    by (simp only: c entries_append map_add_assoc)
  finally have "entries V (im_data m') = entries V (im_data m) ++ entries V xs" by simp
  with m' lookup_entries [OF m'(2)] lookup_entries [OF assms(2)] show ?thesis by simp
qed

theorem insertDataList_refines_witness:
  "\<exists>m'. insertDataList pair_vt 1 [(7, 70), (4, 40)] pair_im = (True, m') \<and> im_wf pair_vt m' \<and>
     lookup_im m' = lookup_im pair_im ++ entries pair_vt [(7, 70), (4, 40)]"
  by (rule insertDataList_refines [OF pair_uniform pair_wf])
    (simp_all add: pair_im_def rowCount_def keys_def)

text \<open>
  \<open>removeRows(row, 1)\<close> refines the removal of a key.
\<close>

theorem removeRow_refines:
  assumes "uniform V" and "im_wf V m" and "in_rows row m"
  shows "\<exists>m'. removeRows V row 1 m = (True, m') \<and> im_wf V m' \<and>
           lookup_im m' = (lookup_im m)(key V (im_data m ! nat row) := None)"
  using removeRow_ok [OF assms] entries_drop_row(1) [OF assms(2,3)]
  by (metis assms(2) lookup_entries)

theorem removeRow_refines_witness:
  "\<exists>m'. removeRows pair_vt 0 1 pair_im = (True, m') \<and> im_wf pair_vt m' \<and>
     lookup_im m' = (lookup_im pair_im)(key pair_vt (im_data pair_im ! nat 0) := None)"
  by (rule removeRow_refines [OF pair_uniform pair_wf]) (simp add: in_rows_def pair_im_def)

text \<open>
  \<open>setData(index, T)\<close> refines the replacement of an entry, also when the new
  value has another id, and notifies the views of that row.
\<close>

theorem setData_value_refines:
  assumes "uniform V" and "im_wf V m" and "in_rows row m"
    and "key V y \<notin> set (keys V m) - {key V (im_data m ! nat row)}"
  shows "\<exists>m'. setData_value V (Some row) y m = (True, m') \<and> im_wf V m' \<and>
           lookup_im m' = (lookup_im m)(key V (im_data m ! nat row) := None, key V y \<mapsto> y) \<and>
           im_signals m' = im_signals m @ [DataChanged (Some row)]"
  using setData_value_ok [OF assms] entries_update_row [OF assms(2-4)]
  by (metis assms(2) lookup_entries)

theorem setData_value_refines_witness:
  "\<exists>m'. setData_value pair_vt (Some 1) (9, 90) pair_im = (True, m') \<and> im_wf pair_vt m' \<and>
     lookup_im m' = (lookup_im pair_im)(key pair_vt (im_data pair_im ! nat 1) := None,
       key pair_vt (9, 90) \<mapsto> (9, 90)) \<and>
     im_signals m' = im_signals pair_im @ [DataChanged (Some 1)]"
  by (rule setData_value_refines [OF pair_uniform pair_wf])
    (simp_all add: in_rows_def pair_im_def keys_def)

section \<open>Stale indexes\<close>

lemma remove_if_tail_new:
  "\<forall>x \<in> set xs. \<not> known x \<Longrightarrow> remove_if_tail moved known xs = xs"
  by (simp add: remove_if_tail_def filter_empty_conv map_idI)

lemma insertRange_new:
  assumes u: "uniform V" and wf: "im_wf V m" and row: "0 \<le> row" "row \<le> rowCount m" and ne: "xs \<noteq> []"
    and new: "key V ` set xs \<inter> set (keys V m) = {}"
  shows "insertRange V row xs m = (True, emit (RowsInserted row (row + int (length xs) - 1))
           (m\<lparr>im_data := take (nat row) (im_data m) @ xs @ drop (nat row) (im_data m),
              im_index := index_insert_rows V row xs (im_index m)\<rparr>))"
proof -
  have "im_index m (id_of V x 0) = None" if "x \<in> set xs" for x
    using new that index_None_wf [OF wf] by (auto simp: key_def)
  then have "remove_if_tail (vt_moved V) (\<lambda>x. im_index m (id_of V x 0) \<noteq> None) xs = xs"
    by (simp add: remove_if_tail_new)
  with row ne show ?thesis
    by (simp add: insertRange_def rowCount_def Let_def algebra_simps Suc_le_eq del: not_None_eq)
qed

text \<open>
  \<open>insertRange\<close> is right when it appends: elements with new ids go to the end
  of a well-formed model and the index stays exact.
\<close>

theorem insertRange_append:
  assumes u: "uniform V" and wf: "im_wf V m" and "xs \<noteq> []"
    and new: "distinct (map (key V) xs)" "key V ` set xs \<inter> set (keys V m) = {}"
  shows "\<exists>m'. insertRange V (rowCount m) xs m = (True, m') \<and> im_wf V m' \<and>
           im_data m' = im_data m @ xs \<and> lookup_im m' = lookup_im m ++ entries V xs"
proof -
  let ?m = "emit (RowsInserted (rowCount m) (rowCount m + int (length xs) - 1))
     (m\<lparr>im_data := im_data m @ xs, im_index := index_insert_rows V (rowCount m) xs (im_index m)\<rparr>)"
  have run: "insertRange V (rowCount m) xs m = (True, ?m)"
    using insertRange_new [OF u wf _ _ assms(3) new(2), of "rowCount m"] by (simp add: rowCount_def)
  have "im_index ?m k = rows_from 0 (keys V ?m) k" for k
    using wf by (cases "rows_from 0 (keys V m) k") (simp_all add: index_insert_rows_eq [OF u new(1)] im_wf_def keys_def rows_from_append rowCount_def)
  with wf new have ok: "im_wf V ?m" by (auto simp: im_wf_def keys_def)
  have "entries V (im_data m @ xs) = entries V (im_data m) ++ entries V xs"
    unfolding entries_append using new(2)
    by (intro map_add_comm) (auto simp: dom_entries keys_def)
  with run ok lookup_entries [OF ok] lookup_entries [OF wf] show ?thesis by simp
qed

theorem insertRange_append_witness:
  "\<exists>m'. insertRange pair_vt (rowCount pair_im) [(7, 70)] pair_im = (True, m') \<and> im_wf pair_vt m' \<and>
     im_data m' = im_data pair_im @ [(7, 70)] \<and> lookup_im m' = lookup_im pair_im ++ entries pair_vt [(7, 70)]"
  by (rule insertRange_append [OF pair_uniform pair_wf]) (simp_all add: pair_im_def keys_def)

text \<open>
  In front of other rows \<open>insertRange\<close> leaves the index stale: the rows behind
  the insertion have moved by the number of inserted elements, but their ids still lead to their
  old rows, which other elements occupy.
\<close>

theorem insertRange_stale:
  assumes u: "uniform V" and wf: "im_wf V m" and "0 \<le> row" "row < rowCount m" and "xs \<noteq> []"
    and new: "distinct (map (key V) xs)" "key V ` set xs \<inter> set (keys V m) = {}"
  shows "\<exists>m'. insertRange V row xs m = (True, m') \<and>
           (\<forall>j < rowCount m - row. let x = im_data m ! nat (row + j) in
              0 \<le> j \<longrightarrow> im_data m' ! nat (row + int (length xs) + j) = x \<and>
                         idToIndex (key V x) m' = Some (row + j) \<and>
                         lookup_im m' (key V x) \<noteq> Some x)"
proof -
  let ?m = "emit (RowsInserted row (row + int (length xs) - 1))
     (m\<lparr>im_data := take (nat row) (im_data m) @ xs @ drop (nat row) (im_data m),
        im_index := index_insert_rows V row xs (im_index m)\<rparr>)"
  have run: "insertRange V row xs m = (True, ?m)"
    using insertRange_new [OF u wf _ _ assms(5) new(2), of row] assms(3,4) by simp
  have "im_data ?m ! nat (row + int (length xs) + j) = im_data m ! nat (row + j) \<and>
        idToIndex (key V (im_data m ! nat (row + j))) ?m = Some (row + j) \<and>
        lookup_im ?m (key V (im_data m ! nat (row + j))) \<noteq> Some (im_data m ! nat (row + j))"
    if j: "0 \<le> j" "j < rowCount m - row" for j
  proof -
    let ?x = "im_data m ! nat (row + j)"
    have r: "in_rows (row + j) m" using j assms(3) by (simp add: in_rows_def rowCount_def)
    have ix: "im_index m (key V ?x) = Some (row + j)" using im_wf_lookup [OF wf] r by simp
    have l: "length (take (nat row) (im_data m)) = nat row" using assms(4) by (simp add: rowCount_def)
    have "nat (row + int (length xs) + j) = nat row + (length xs + nat j)" "nat (row + j) = nat row + nat j"
      using j assms(3) by simp_all
    then have d: "im_data ?m ! nat (row + int (length xs) + j) = ?x"
      using l assms(3,4) j by (simp add: nth_append rowCount_def)
    have id: "idToIndex (key V ?x) ?m = Some (row + j)"
    proof -
      have "int (length (im_data ?m)) = int (length (im_data m)) + int (length xs)"
        using assms(4) by (simp add: rowCount_def)
      with r have "in_rows (row + j) ?m" unfolding in_rows_def by linarith
      then show ?thesis
        by (simp add: idToIndex_def index_insert_rows_eq [OF u new(1)] ix model_index_def)
    qed
    have "(take (nat row) (im_data m) @ xs @ drop (nat row) (im_data m)) ! (nat row + nat j) \<noteq> ?x"
    proof (cases "nat j < length xs")
      case True
      then have "xs ! nat j \<in> set xs" by simp
      moreover have "?x \<in> set (im_data m)" using r by (rule in_rows_nth)
      ultimately have "xs ! nat j \<noteq> ?x" using new(2) by (auto simp: keys_def)
      with True l show ?thesis by (simp add: nth_append)
    next
      case False
      let ?i = "nat row + (nat j - length xs)"
      have i: "?i < length (im_data m)" "nat row + nat j < length (im_data m)" "?i \<noteq> nat row + nat j"
      proof -
        have "0 < length xs" using assms(5) by simp
        with False show "?i \<noteq> nat row + nat j" by linarith
        show "nat row + nat j < length (im_data m)" using r j assms(3) by (auto simp: in_rows_def)
        then show "?i < length (im_data m)" by linarith
      qed
      have "distinct (map (key V) (im_data m))" using wf by (simp add: im_wf_def keys_def)
      then have "im_data m ! ?i \<noteq> im_data m ! (nat row + nat j)"
        using i by (metis distinct_conv_nth length_map nth_map)
      with False l i \<open>nat (row + j) = nat row + nat j\<close> show ?thesis by (simp add: nth_append)
    qed
    then have "lookup_im ?m (key V ?x) \<noteq> Some ?x"
      using id r \<open>nat (row + j) = nat row + nat j\<close>
      by (simp add: lookup_im_def data_at_def in_rows_def)
    with d id show ?thesis by simp
  qed
  with run show ?thesis unfolding Let_def by blast
qed

theorem insertRange_stale_witness:
  "\<exists>m'. insertRange pair_vt 0 [(7, 70)] pair_im = (True, m') \<and>
     (\<forall>j < rowCount pair_im - 0. let x = im_data pair_im ! nat (0 + j) in
        0 \<le> j \<longrightarrow> im_data m' ! nat (0 + int (length [(7::int, 70::nat)]) + j) = x \<and>
                   idToIndex (key pair_vt x) m' = Some (0 + j) \<and>
                   lookup_im m' (key pair_vt x) \<noteq> Some x)"
  by (rule insertRange_stale [OF pair_uniform pair_wf]) (simp_all add: pair_im_def rowCount_def keys_def)


text \<open>
  \<open>insertRow(0)\<close>, the call the controllers make, shifts the entries only when more than one row
  is there. Otherwise it does what \<open>insertDataList\<close> does with one default element.
\<close>

lemma insertRow_front:
  "rowCount m \<noteq> 1 \<Longrightarrow> insertRows V 0 1 m = insertDataList V 0 [vt_create V] m"
  by (cases "im_data m"; cases "tl (im_data m)")
    (auto simp: insertRows_def insertDataList_def rowCount_def Let_def)

lemma insertRow_front_ok:
  assumes "uniform V" and "im_wf V m" and "rowCount m \<noteq> 1" and "key V (vt_create V) \<notin> set (keys V m)"
  shows "\<exists>m'. insertRows V 0 1 m = (True, m') \<and> im_wf V m' \<and> im_data m' = vt_create V # im_data m"
  using insertDataList_ok [OF assms(1,2), of 0 "[vt_create V]"] assms(3,4)
  by (simp add: insertRow_front rowCount_def)

text \<open>
  With exactly one row, \<open>insertRow(0)\<close> does not shift it: the old element is in
  row 1 afterwards, while its id still leads to row 0, where the new element is.
\<close>

theorem insertRow_single_stale:
  assumes "uniform V" and "im_wf V m" and "im_data m = [x]" and "key V (vt_create V) \<noteq> key V x"
  shows "\<exists>m'. insertRows V 0 1 m = (True, m') \<and> im_data m' = [vt_create V, x] \<and>
           idToIndex (key V x) m' = Some 0 \<and> lookup_im m' (key V x) = Some (vt_create V) \<and>
           \<not> im_wf V m'"
proof -
  have i: "id_of V y r = key V y" for y r using assms(1) by (simp add: uniform_def)
  obtain m' where m': "insertRows V 0 1 m = (True, m')" "im_data m' = [vt_create V, x]"
    "im_index m' = (im_index m)(key V (vt_create V) \<mapsto> 0)"
    using assms(3) by (simp add: insertRows_def Let_def i)
  have ix: "im_index m (key V x) = Some 0"
    using assms(2,3) by (simp add: im_wf_def keys_def)
  have id: "idToIndex (key V x) m' = Some 0"
    using m' ix assms(4) by (simp add: idToIndex_def model_index_def in_rows_def)
  then have l: "lookup_im m' (key V x) = Some (vt_create V)"
    using m' by (simp add: lookup_im_def data_at_def in_rows_def)
  have "\<not> im_wf V m'"
    using idToIndex_wf [of V m' "key V x" 0] id m' assms(4) by auto
  with m' id l show ?thesis by blast
qed

theorem insertRow_single_stale_witness:
  "\<exists>m'. insertRows pair_vt 0 1 \<lparr>im_data = [(5, 50)], im_index = [5 \<mapsto> 0], im_signals = []\<rparr> = (True, m') \<and>
     im_data m' = [vt_create pair_vt, (5, 50)] \<and> idToIndex (key pair_vt (5, 50)) m' = Some 0 \<and>
     lookup_im m' (key pair_vt (5, 50)) = Some (vt_create pair_vt) \<and> \<not> im_wf pair_vt m'"
  by (rule insertRow_single_stale [OF pair_uniform])
    (auto simp: im_wf_def keys_def pair_vt_def fun_eq_iff key_def id_of_def IDRole_def)

text \<open>
  \<open>setData(int id, \<dots>)\<close> takes the id for a row: it edits another element, or runs off the deque.
\<close>

lemma setData_id_edits_row_id:
  assumes "im_index m k = Some row" and "in_rows k m" and "role \<noteq> IDRole"
    and "vt_edit V (im_data m ! nat k) v row role = Some y"
  shows "\<exists>m'. setData_id V k v role m = Some (True, m') \<and> im_data m' = (im_data m)[nat k := y]"
  using assms by (simp add: setData_id_def Let_def)

lemma setData_id_out_of_range:
  "im_index m k = Some row \<Longrightarrow> \<not> in_rows k m \<Longrightarrow> setData_id V k v role m = None"
  by (simp add: setData_id_def)


section \<open>The interface of the controllers\<close>

text \<open>A subclass whose \<open>read\<close> does not look at the row is a container with lookup by id.\<close>

locale identifying_model =
  fixes V :: "('t, 'v) vtable"
  assumes row_independent: "uniform V"

sublocale identifying_model \<subseteq> id_lookup "\<lambda>m k. idToIndex k m" im_data "key V" "im_wf V"
  by unfold_locales (simp add: idToIndex_wf in_rows_def)


lemma lookup_im_fetch:
  assumes "im_wf V m"
  shows "lookup_im m = fetch (\<lambda>m k. idToIndex k m) im_data m"
proof
  fix k
  show "lookup_im m k = fetch (\<lambda>m k. idToIndex k m) im_data m k"
    using idToIndex_wf [OF assms, of k]
    by (cases "idToIndex k m") (auto simp: lookup_im_def fetch_def data_at_def)
qed

end
