(* ===== verification/Qt.thy ===== *)
theory Qt
  imports Prelude
begin

text \<open>
  The two libraries the data structures go through. A \<open>QVariant\<close> and a \<open>nlohmann::json\<close>
  value are data; the conversions between their kinds belong to the libraries and are parameters:
  \<open>qt\<close> for \<open>QVariant\<close> and \<open>QDateTime\<close>, \<open>jlib\<close> for \<open>json::get\<close>. Theorems
  that need them assume only the conversion of a value to its own kind (\<open>qt_ok\<close>,
  \<open>jlib_ok\<close>), which both libraries document. Text of every string class is a \<open>string\<close>;
  a \<open>QDateTime\<close> is the milliseconds since the epoch, \<open>None\<close> when invalid.
\<close>

type_synonym datetime = "int option"

section \<open>QVariant\<close>

datatype qvariant =
    QInvalid
  | QInt int
  | QUInt int
  | QBool bool
  | QString string
  | QBytes string
  | QTime datetime
  | QHash "(string \<times> qvariant) list"

record qt =
  q_can_int :: "qvariant \<Rightarrow> bool"
  q_can_uint :: "qvariant \<Rightarrow> bool"
  q_can_bool :: "qvariant \<Rightarrow> bool"
  q_can_string :: "qvariant \<Rightarrow> bool"
  q_can_bytes :: "qvariant \<Rightarrow> bool"
  q_can_time :: "qvariant \<Rightarrow> bool"
  q_can_hash :: "qvariant \<Rightarrow> bool"
  q_int :: "qvariant \<Rightarrow> int"
  q_uint :: "qvariant \<Rightarrow> int"
  q_bool :: "qvariant \<Rightarrow> bool"
  q_string :: "qvariant \<Rightarrow> string"
  q_bytes :: "qvariant \<Rightarrow> string"
  q_time :: "qvariant \<Rightarrow> datetime"
  q_hash :: "qvariant \<Rightarrow> (string \<times> qvariant) list"
  q_iso :: "string \<Rightarrow> datetime"
  q_time_text :: "datetime \<Rightarrow> string"

definition qt_ok :: "qt \<Rightarrow> bool" where
  "qt_ok Q \<longleftrightarrow>
     (\<forall>n. q_can_int Q (QInt n) \<and> q_int Q (QInt n) = n) \<and> (\<forall>n. q_can_uint Q (QUInt n) \<and> q_uint Q (QUInt n) = n) \<and>
     (\<forall>b. q_can_bool Q (QBool b) \<and> q_bool Q (QBool b) = b) \<and>
     (\<forall>s. q_can_string Q (QString s) \<and> q_string Q (QString s) = s) \<and>
     (\<forall>s. q_can_bytes Q (QBytes s) \<and> q_bytes Q (QBytes s) = s) \<and>
     (\<forall>t. q_can_time Q (QTime t) \<and> q_time Q (QTime t) = t) \<and>
     (\<forall>h. q_can_hash Q (QHash h) \<and> q_hash Q (QHash h) = h) \<and>
     q_int Q QInvalid = 0 \<and> q_uint Q QInvalid = 0 \<and> q_string Q QInvalid = [] \<and>
     q_bytes Q QInvalid = [] \<and> q_time Q QInvalid = None"

lemma qt_okD [simp]:
  assumes "qt_ok Q"
  shows "q_can_int Q (QInt n)" "q_int Q (QInt n) = n" "q_can_uint Q (QUInt n)" "q_uint Q (QUInt n) = n"
    "q_can_bool Q (QBool b)" "q_bool Q (QBool b) = b" "q_can_string Q (QString s)" "q_string Q (QString s) = s"
    "q_can_bytes Q (QBytes s)" "q_bytes Q (QBytes s) = s" "q_can_time Q (QTime t)" "q_time Q (QTime t) = t"
    "q_can_hash Q (QHash h)" "q_hash Q (QHash h) = h" "q_int Q QInvalid = 0" "q_uint Q QInvalid = 0"
    "q_string Q QInvalid = []" "q_bytes Q QInvalid = []" "q_time Q QInvalid = None"
  using assms by (simp_all add: qt_ok_def)

text \<open>
  The conversions between kinds that the controllers use: numbers that fit, and text between
  \<open>QByteArray\<close> and \<open>QString\<close>.
\<close>

definition qt_conv :: "qt \<Rightarrow> bool" where
  "qt_conv Q \<longleftrightarrow> qt_ok Q \<and>
     (\<forall>n. 0 \<le> n \<longrightarrow> n < 2 ^ 31 \<longrightarrow> q_can_int Q (QUInt n) \<and> q_int Q (QUInt n) = n) \<and>
     (\<forall>n. q_can_uint Q (QInt n)) \<and>
     (\<forall>s. q_can_string Q (QBytes s) \<and> q_string Q (QBytes s) = s) \<and>
     (\<forall>s. q_can_bytes Q (QString s) \<and> q_bytes Q (QString s) = s)"

lemma qt_conv_ok [simp]: "qt_conv Q \<Longrightarrow> qt_ok Q"
  by (simp add: qt_conv_def)

lemma qt_convD [simp]:
  assumes "qt_conv Q"
  shows "0 \<le> n \<Longrightarrow> n < 2 ^ 31 \<Longrightarrow> q_can_int Q (QUInt n)" "0 \<le> n \<Longrightarrow> n < 2 ^ 31 \<Longrightarrow> q_int Q (QUInt n) = n"
    "q_can_uint Q (QInt n)" "q_can_string Q (QBytes s)" "q_string Q (QBytes s) = s"
    "q_can_bytes Q (QString s)" "q_bytes Q (QString s) = s"
  using assms by (simp_all add: qt_conv_def)

text \<open>A library with these conversions only: it shows that the hypotheses can hold.\<close>

definition plain_qt :: qt where
  "plain_qt =
     \<lparr>q_can_int = (\<lambda>v. case v of QInt _ \<Rightarrow> True | QUInt _ \<Rightarrow> True | _ \<Rightarrow> False),
      q_can_uint = (\<lambda>v. case v of QUInt _ \<Rightarrow> True | QInt _ \<Rightarrow> True | _ \<Rightarrow> False),
      q_can_bool = (\<lambda>v. case v of QBool _ \<Rightarrow> True | _ \<Rightarrow> False),
      q_can_string = (\<lambda>v. case v of QString _ \<Rightarrow> True | QBytes _ \<Rightarrow> True | _ \<Rightarrow> False),
      q_can_bytes = (\<lambda>v. case v of QBytes _ \<Rightarrow> True | QString _ \<Rightarrow> True | _ \<Rightarrow> False),
      q_can_time = (\<lambda>v. case v of QTime _ \<Rightarrow> True | _ \<Rightarrow> False),
      q_can_hash = (\<lambda>v. case v of QHash _ \<Rightarrow> True | _ \<Rightarrow> False),
      q_int = (\<lambda>v. case v of QInt n \<Rightarrow> n | QUInt n \<Rightarrow> n | _ \<Rightarrow> 0),
      q_uint = (\<lambda>v. case v of QUInt n \<Rightarrow> n | QInt n \<Rightarrow> to_u32 n | _ \<Rightarrow> 0),
      q_bool = (\<lambda>v. case v of QBool b \<Rightarrow> b | _ \<Rightarrow> False),
      q_string = (\<lambda>v. case v of QString s \<Rightarrow> s | QBytes s \<Rightarrow> s | _ \<Rightarrow> []),
      q_bytes = (\<lambda>v. case v of QBytes s \<Rightarrow> s | QString s \<Rightarrow> s | _ \<Rightarrow> []),
      q_time = (\<lambda>v. case v of QTime t \<Rightarrow> t | _ \<Rightarrow> None),
      q_hash = (\<lambda>v. case v of QHash h \<Rightarrow> h | _ \<Rightarrow> []),
      q_iso = (\<lambda>_. None),
      q_time_text = (\<lambda>_. [])\<rparr>"

lemma plain_qt_ok: "qt_ok plain_qt"
  by (simp add: qt_ok_def plain_qt_def del: qt_okD qt_convD)

lemma plain_qt_conv: "qt_conv plain_qt"
  unfolding qt_conv_def by (simp add: plain_qt_ok del: qt_okD qt_convD) (simp add: plain_qt_def)

text \<open>\<open>QVariantHash\<close>: \<open>take\<close> of a missing key is an invalid variant.\<close>

type_synonym qhash = "(string \<times> qvariant) list"

definition take_key :: "string \<Rightarrow> qhash \<Rightarrow> qvariant" where
  "take_key k h = (case map_of h k of Some v \<Rightarrow> v | None \<Rightarrow> QInvalid)"

definition has_key :: "string \<Rightarrow> (string \<times> 'v) list \<Rightarrow> bool" where
  "has_key k h \<longleftrightarrow> map_of h k \<noteq> None"

section \<open>JSON\<close>

datatype json =
    JNull
  | JBool bool
  | JInt int
  | JString string
  | JArray "json list"
  | JObject "(string \<times> json) list"
  | JOther nat

record jlib =
  get_int :: "json \<Rightarrow> int option"
  get_string :: "json \<Rightarrow> string option"
  get_bool :: "json \<Rightarrow> bool option"

definition jlib_ok :: "jlib \<Rightarrow> bool" where
  "jlib_ok J \<longleftrightarrow>
     (\<forall>n. is_i32 n \<longrightarrow> get_int J (JInt n) = Some n) \<and> (\<forall>s. get_string J (JString s) = Some s) \<and>
     (\<forall>b. get_bool J (JBool b) = Some b) \<and>
     get_int J JNull = None \<and> (\<forall>s. get_int J (JString s) = None) \<and>
     get_string J JNull = None \<and> (\<forall>n. get_string J (JInt n) = None)"

lemma jlib_okD [simp]:
  assumes "jlib_ok J"
  shows "is_i32 n \<Longrightarrow> get_int J (JInt n) = Some n" "get_string J (JString s) = Some s"
    "get_bool J (JBool b) = Some b" "get_int J JNull = None" "get_int J (JString s) = None"
    "get_string J JNull = None" "get_string J (JInt n) = None"
  using assms by (simp_all add: jlib_ok_def)

definition plain_jlib :: jlib where
  "plain_jlib =
     \<lparr>get_int = (\<lambda>j. case j of JInt n \<Rightarrow> Some n | _ \<Rightarrow> None),
      get_string = (\<lambda>j. case j of JString s \<Rightarrow> Some s | _ \<Rightarrow> None),
      get_bool = (\<lambda>j. case j of JBool b \<Rightarrow> Some b | _ \<Rightarrow> None)\<rparr>"

lemma plain_jlib_ok: "jlib_ok plain_jlib"
  by (simp add: jlib_ok_def plain_jlib_def)

text \<open>
  Access to the members: \<open>contains\<close> is false on anything but an object, \<open>value\<close> throws there.
\<close>

definition json_contains :: "string \<Rightarrow> json \<Rightarrow> bool" where
  "json_contains k j \<longleftrightarrow> (case j of JObject kvs \<Rightarrow> has_key k kvs | _ \<Rightarrow> False)"

definition json_at :: "string \<Rightarrow> json \<Rightarrow> json option" where
  "json_at k j = (case j of JObject kvs \<Rightarrow> map_of kvs k | _ \<Rightarrow> None)"

definition json_value :: "(json \<Rightarrow> 'x option) \<Rightarrow> string \<Rightarrow> 'x \<Rightarrow> json \<Rightarrow> 'x option" where
  "json_value get k d j =
     (case j of
        JObject kvs \<Rightarrow> (case map_of kvs k of None \<Rightarrow> Some d | Some v \<Rightarrow> get v)
      | _ \<Rightarrow> None)"

text \<open>
  The shapes of the parsers' statements, each a step of a \<open>try_block\<close>: a member with a default, a
  member read when present, and a member read when present and not null.
\<close>

definition value_step :: "(json \<Rightarrow> 'x option) \<Rightarrow> string \<Rightarrow> 'x \<Rightarrow> json \<Rightarrow> ('x \<Rightarrow> 'd \<Rightarrow> 'd) \<Rightarrow> 'd \<Rightarrow> 'd option" where
  "value_step get k v j f d = map_option (\<lambda>x. f x d) (json_value get k v j)"

definition member_step :: "(json \<Rightarrow> 'x option) \<Rightarrow> string \<Rightarrow> json \<Rightarrow> ('x \<Rightarrow> 'd \<Rightarrow> 'd) \<Rightarrow> 'd \<Rightarrow> 'd option" where
  "member_step get k j f d =
     (if json_contains k j
      then (case json_at k j of None \<Rightarrow> None | Some v \<Rightarrow> map_option (\<lambda>x. f x d) (get v))
      else Some d)"

definition nullable_step :: "(json \<Rightarrow> 'x option) \<Rightarrow> string \<Rightarrow> json \<Rightarrow> ('x \<Rightarrow> 'd \<Rightarrow> 'd) \<Rightarrow> 'd \<Rightarrow> 'd option" where
  "nullable_step get k j f d =
     (if json_contains k j
      then (case json_at k j of
              None \<Rightarrow> None
            | Some JNull \<Rightarrow> Some d
            | Some v \<Rightarrow> map_option (\<lambda>x. f x d) (get v))
      else Some d)"

text \<open>What such a member holds: \<open>None\<close> for a missing one.\<close>

definition member :: "(json \<Rightarrow> 'x option) \<Rightarrow> string \<Rightarrow> json \<Rightarrow> 'x option" where
  "member get k j = (case json_at k j of None \<Rightarrow> None | Some v \<Rightarrow> get v)"

definition typed :: "(json \<Rightarrow> 'x option) \<Rightarrow> string \<Rightarrow> json \<Rightarrow> bool" where
  "typed get k j \<longleftrightarrow> (\<forall>v. json_at k j = Some v \<longrightarrow> get v \<noteq> None)"

definition typed_or_null :: "(json \<Rightarrow> 'x option) \<Rightarrow> string \<Rightarrow> json \<Rightarrow> bool" where
  "typed_or_null get k j \<longleftrightarrow> (\<forall>v. json_at k j = Some v \<longrightarrow> v \<noteq> JNull \<longrightarrow> get v \<noteq> None)"

definition is_object :: "json \<Rightarrow> bool" where
  "is_object j \<longleftrightarrow> (case j of JObject _ \<Rightarrow> True | _ \<Rightarrow> False)"

definition set_opt :: "('x \<Rightarrow> 'd \<Rightarrow> 'd) \<Rightarrow> 'x option \<Rightarrow> 'd \<Rightarrow> 'd" where
  "set_opt f v d = (case v of None \<Rightarrow> d | Some x \<Rightarrow> f x d)"

definition or_default :: "'x \<Rightarrow> 'x option \<Rightarrow> 'x" where
  "or_default d v = (case v of None \<Rightarrow> d | Some x \<Rightarrow> x)"

lemma json_contains_at: "json_contains k j \<longleftrightarrow> json_at k j \<noteq> None"
  by (simp add: json_contains_def json_at_def has_key_def split: json.split)

lemma value_step_typed:
  assumes "is_object j" and "typed get k j"
  shows "value_step get k v j f d = Some (f (or_default v (member get k j)) d)"
  using assms
  by (auto simp: or_default_def value_step_def json_value_def typed_def member_def is_object_def json_at_def
      split: json.splits option.splits)

lemma member_step_typed:
  "typed get k j \<Longrightarrow> member_step get k j f d = Some (set_opt f (member get k j) d)"
  by (auto simp: member_step_def json_contains_at typed_def member_def set_opt_def split: option.splits)

lemma nullable_step_typed:
  assumes "typed_or_null get k j" and "get JNull = None"
  shows "nullable_step get k j f d = Some (set_opt f (member get k j) d)"
  using assms
  by (auto simp: nullable_step_def json_contains_at typed_or_null_def member_def set_opt_def
      split: option.splits json.splits)

lemma value_step_not_object: "\<not> is_object j \<Longrightarrow> value_step get k v j f d = None"
  by (simp add: value_step_def json_value_def is_object_def split: json.splits)

lemma member_step_untyped:
  "json_at k j = Some v \<Longrightarrow> get v = None \<Longrightarrow> member_step get k j f d = None"
  by (simp add: member_step_def json_contains_at)

end
