(* ===== verification/ChatData.thy ===== *)
theory ChatData
  imports Qt
begin

text \<open>
  The data structures of the client and their two encodings (\<open>lib/core/data.h\<close>,
  \<open>lib/core/data.cpp\<close>): \<open>QVariantHash\<close> for QML and JSON for the server. A
  \<open>from_json\<close> fills an object that the caller made, and a parse error leaves it half filled: the
  \<open>try\<close> blocks are kept as sequences of steps.
\<close>

section \<open>Structures\<close>

definition invalidID :: int where
  "invalidID = 0"

definition invalidIndex :: int where
  "invalidIndex = - 1"

record group_data =
  g_id :: int
  g_name :: string
  g_tag :: string

definition new_group :: group_data where
  "new_group = \<lparr>g_id = invalidID, g_name = [], g_tag = []\<rparr>"

text \<open>
  \<open>lastSender\<close> has no initializer, but every object is value-initialised (\<open>T()\<close>, the
  elements of a vector, the result of \<open>json::get\<close>), which zeroes it.
\<close>

record group_ext =
  x_id :: int
  x_messageCount :: int
  x_foreignReadings :: int
  x_localReadings :: int
  x_lastSender :: int
  x_lastMessageTime :: datetime
  x_lastBody :: string
  x_name :: string
  x_tag :: string

definition new_group_ext :: group_ext where
  "new_group_ext =
     \<lparr>x_id = invalidID, x_messageCount = 0, x_foreignReadings = 0, x_localReadings = 0,
      x_lastSender = 0, x_lastMessageTime = None, x_lastBody = [], x_name = [], x_tag = []\<rparr>"

record direct_data =
  d_id :: int
  d_userID :: int

definition Offline :: int where
  "Offline = 0"

definition Online :: int where
  "Online = 1"

record user_data =
  u_status :: int
  u_name :: string
  u_tag :: string
  u_id :: int

definition new_user :: user_data where
  "new_user = \<lparr>u_status = Offline, u_name = [], u_tag = [], u_id = invalidID\<rparr>"

record message_data =
  m_id :: int
  m_userID :: int
  m_roomID :: int
  m_time :: datetime
  m_body :: string
  m_messageIndex :: int

definition new_message :: message_data where
  "new_message =
     \<lparr>m_id = invalidID, m_userID = invalidID, m_roomID = invalidID, m_time = None, m_body = [],
      m_messageIndex = 0\<rparr>"

record participate_data =
  p_userID :: int
  p_roomID :: int
  p_hasAudio :: bool
  p_hasVideo :: bool

definition new_participate :: participate_data where
  "new_participate = \<lparr>p_userID = invalidID, p_roomID = invalidID, p_hasAudio = False, p_hasVideo = False\<rparr>"

section \<open>QVariantHash\<close>

text \<open>\<open>QMetaEnum\<close> for \<open>User::Status\<close>: the keys are the enumerators, \<open>- 1\<close> for an unknown key.\<close>

definition status_key :: "int \<Rightarrow> string" where
  "status_key s = (if s = Offline then ''Offline'' else if s = Online then ''Online'' else [])"

definition status_value :: "string \<Rightarrow> int" where
  "status_value k = (if k = ''Offline'' then Offline else if k = ''Online'' then Online else - 1)"

definition group_ext_fromHash :: "qt \<Rightarrow> qhash \<Rightarrow> group_ext \<Rightarrow> group_ext" where
  "group_ext_fromHash Q other d =
     d\<lparr>x_id := q_int Q (take_key ''id'' other),
       x_name := q_string Q (take_key ''name'' other),
       x_tag := q_string Q (take_key ''tag'' other),
       x_messageCount := q_int Q (take_key ''messageCount'' other)\<rparr>"

definition group_ext_toHash :: "group_ext \<Rightarrow> qhash" where
  "group_ext_toHash d =
     [(''id'', QInt (x_id d)), (''messageCount'', QInt (x_messageCount d))] @
     (if x_name d \<noteq> [] then [(''name'', QString (x_name d))] else []) @
     (if x_tag d \<noteq> [] then [(''tag'', QString (x_tag d))] else [])"

definition group_fromHash :: "qt \<Rightarrow> qhash \<Rightarrow> group_data \<Rightarrow> group_data" where
  "group_fromHash Q other d =
     d\<lparr>g_id := q_int Q (take_key ''id'' other),
       g_name := q_string Q (take_key ''name'' other),
       g_tag := q_string Q (take_key ''tag'' other)\<rparr>"

definition group_toHash :: "group_data \<Rightarrow> qhash" where
  "group_toHash d =
     [(''id'', QInt (g_id d))] @
     (if g_name d \<noteq> [] then [(''name'', QString (g_name d))] else []) @
     (if g_tag d \<noteq> [] then [(''tag'', QString (g_tag d))] else [])"

definition user_fromHash :: "qt \<Rightarrow> qhash \<Rightarrow> user_data \<Rightarrow> user_data" where
  "user_fromHash Q other d =
     (let d = (if has_key ''id'' other then d\<lparr>u_id := q_int Q (take_key ''id'' other)\<rparr> else d);
          d = (if has_key ''status'' other
               then d\<lparr>u_status := status_value (q_string Q (take_key ''status'' other))\<rparr> else d);
          d = (if has_key ''name'' other then d\<lparr>u_name := q_string Q (take_key ''name'' other)\<rparr> else d)
      in if has_key ''tag'' other then d\<lparr>u_tag := q_string Q (take_key ''tag'' other)\<rparr> else d)"

definition user_toHash :: "user_data \<Rightarrow> qhash" where
  "user_toHash d =
     [(''id'', QInt (u_id d)), (''name'', QString (u_name d)),
      (''status'', QString (status_key (u_status d))), (''tag'', QString (u_tag d))]"

definition message_toHash :: "message_data \<Rightarrow> qhash" where
  "message_toHash d =
     [(''id'', QInt (m_id d)), (''userID'', QInt (m_userID d)), (''time'', QTime (m_time d)),
      (''body'', QBytes (m_body d)), (''messageIndex'', QUInt (m_messageIndex d))]"

definition message_fromHash :: "qt \<Rightarrow> qhash \<Rightarrow> message_data \<Rightarrow> message_data" where
  "message_fromHash Q other d =
     d\<lparr>m_id := q_int Q (take_key ''id'' other),
       m_userID := q_int Q (take_key ''userID'' other),
       m_roomID := q_int Q (take_key ''roomID'' other),
       m_time := q_time Q (take_key ''time'' other),
       m_body := q_bytes Q (take_key ''body'' other),
       m_messageIndex := q_uint Q (take_key ''messageIndex'' other)\<rparr>"

definition message_isValid :: "message_data \<Rightarrow> bool" where
  "message_isValid d \<longleftrightarrow> m_id d = invalidID"

text \<open>The methods the code defines with an empty body.\<close>

definition participate_toHash :: "participate_data \<Rightarrow> qhash" where
  "participate_toHash d = []"

definition participate_fromHash :: "qhash \<Rightarrow> participate_data \<Rightarrow> participate_data" where
  "participate_fromHash h d = d"

definition direct_fromHash :: "qhash \<Rightarrow> direct_data \<Rightarrow> direct_data" where
  "direct_fromHash h d = d"

definition direct_toHash :: "direct_data \<Rightarrow> qhash" where
  "direct_toHash d = []"

section \<open>JSON\<close>

text \<open>
  \<open>to_json\<close> initialises the value with \<open>{ "data", { \<dots> } }\<close>: a string and an object, which is
  an array of two elements, not an object with a member \<open>data\<close>.
\<close>

definition group_to_json :: "group_data \<Rightarrow> json" where
  "group_to_json p =
     JArray [JString ''data'',
       JObject [(''id'', JInt (g_id p)), (''name'', JString (g_name p)), (''tag'', JString (g_tag p))]]"

definition group_ext_to_json :: "group_ext \<Rightarrow> json" where
  "group_ext_to_json p =
     JArray [JString ''data'',
       JObject [(''id'', JInt (x_id p)), (''name'', JString (x_name p)), (''tag'', JString (x_tag p)),
         (''messageCount'', JInt (x_messageCount p))]]"

definition user_to_json :: "user_data \<Rightarrow> json" where
  "user_to_json p =
     JArray [JString ''data'',
       JObject [(''id'', JInt (u_id p)), (''name'', JString (u_name p)), (''tag'', JString (u_tag p)),
         (''status'', JInt (u_status p))]]"

definition message_to_json :: "qt \<Rightarrow> message_data \<Rightarrow> json" where
  "message_to_json Q p =
     JArray [JString ''data'',
       JObject [(''id'', JInt (m_id p)), (''userID'', JInt (m_userID p)), (''roomID'', JInt (m_roomID p)),
         (''time'', JString (q_time_text Q (m_time p))), (''body'', JString (m_body p)),
         (''messageIndex'', JInt (m_messageIndex p))]]"

definition group_from_json :: "jlib \<Rightarrow> json \<Rightarrow> group_data \<Rightarrow> group_data" where
  "group_from_json J j p =
     try_block
       [value_step (get_int J) ''id'' invalidID j (\<lambda>x p. p\<lparr>g_id := x\<rparr>),
        member_step (get_string J) ''name'' j (\<lambda>x p. p\<lparr>g_name := x\<rparr>),
        member_step (get_string J) ''tag'' j (\<lambda>x p. p\<lparr>g_tag := x\<rparr>)] p"

definition group_ext_from_json :: "qt \<Rightarrow> jlib \<Rightarrow> json \<Rightarrow> group_ext \<Rightarrow> group_ext" where
  "group_ext_from_json Q J j p =
     try_block
       [value_step (get_int J) ''id'' invalidID j (\<lambda>x p. p\<lparr>x_id := x\<rparr>),
        nullable_step (get_int J) ''messageCount'' j (\<lambda>x p. p\<lparr>x_messageCount := x\<rparr>),
        member_step (get_string J) ''name'' j (\<lambda>x p. p\<lparr>x_name := x\<rparr>),
        member_step (get_string J) ''tag'' j (\<lambda>x p. p\<lparr>x_tag := x\<rparr>),
        nullable_step (get_int J) ''foreignReadings'' j (\<lambda>x p. p\<lparr>x_foreignReadings := x\<rparr>),
        nullable_step (get_int J) ''localReadings'' j (\<lambda>x p. p\<lparr>x_localReadings := x\<rparr>),
        nullable_step (get_int J) ''lastSender'' j (\<lambda>x p. p\<lparr>x_lastSender := x\<rparr>),
        nullable_step (get_string J) ''lastMessageTime'' j (\<lambda>x p. p\<lparr>x_lastMessageTime := q_iso Q x\<rparr>),
        nullable_step (get_string J) ''lastBody'' j (\<lambda>x p. p\<lparr>x_lastBody := x\<rparr>)] p"

definition user_from_json :: "jlib \<Rightarrow> json \<Rightarrow> user_data \<Rightarrow> user_data" where
  "user_from_json J j p =
     try_block
       [value_step (get_int J) ''id'' invalidID j (\<lambda>x p. p\<lparr>u_id := x\<rparr>),
        member_step (get_string J) ''name'' j (\<lambda>x p. p\<lparr>u_name := x\<rparr>),
        member_step (get_string J) ''tag'' j (\<lambda>x p. p\<lparr>u_tag := x\<rparr>),
        member_step (get_string J) ''status'' j
          (\<lambda>x p. p\<lparr>u_status := (if x = ''online'' then Online else Offline)\<rparr>)] p"

text \<open>\<open>messageIndex\<close> is a \<open>uint32_t\<close>: the default \<open>- 1\<close> becomes \<open>2 ^ 32 - 1\<close>.\<close>

definition message_from_json :: "qt \<Rightarrow> jlib \<Rightarrow> json \<Rightarrow> message_data \<Rightarrow> message_data" where
  "message_from_json Q J j p =
     try_block
       [value_step (get_int J) ''id'' invalidID j (\<lambda>x p. p\<lparr>m_id := x\<rparr>),
        value_step (get_int J) ''userID'' invalidID j (\<lambda>x p. p\<lparr>m_userID := x\<rparr>),
        value_step (get_int J) ''roomID'' invalidID j (\<lambda>x p. p\<lparr>m_roomID := x\<rparr>),
        value_step (get_int J) ''messageIndex'' invalidIndex j (\<lambda>x p. p\<lparr>m_messageIndex := to_u32 x\<rparr>),
        member_step (get_string J) ''body'' j (\<lambda>x p. p\<lparr>m_body := x\<rparr>),
        member_step (get_string J) ''time'' j (\<lambda>x p. p\<lparr>m_time := q_iso Q x\<rparr>)] p"

definition participate_from_json :: "jlib \<Rightarrow> json \<Rightarrow> participate_data \<Rightarrow> participate_data" where
  "participate_from_json J j p =
     try_block
       [value_step (get_int J) ''participate'' invalidID j (\<lambda>x p. p\<lparr>p_userID := x\<rparr>),
        value_step (get_int J) ''roomID'' invalidID j (\<lambda>x p. p\<lparr>p_roomID := x\<rparr>),
        value_step (get_bool J) ''audio'' False j (\<lambda>x p. p\<lparr>p_hasAudio := x\<rparr>),
        value_step (get_bool J) ''video'' False j (\<lambda>x p. p\<lparr>p_hasVideo := x\<rparr>)] p"

section \<open>Properties\<close>

text \<open>The fields a complete parse sets, from the members of the object.\<close>

lemma set_opt_room:
  "set_opt (\<lambda>x p. p\<lparr>x_messageCount := x\<rparr>) v d = d\<lparr>x_messageCount := or_default (x_messageCount d) v\<rparr>"
  "set_opt (\<lambda>x p. p\<lparr>x_foreignReadings := x\<rparr>) v d = d\<lparr>x_foreignReadings := or_default (x_foreignReadings d) v\<rparr>"
  "set_opt (\<lambda>x p. p\<lparr>x_localReadings := x\<rparr>) v d = d\<lparr>x_localReadings := or_default (x_localReadings d) v\<rparr>"
  "set_opt (\<lambda>x p. p\<lparr>x_lastSender := x\<rparr>) v d = d\<lparr>x_lastSender := or_default (x_lastSender d) v\<rparr>"
  "set_opt (\<lambda>x p. p\<lparr>x_lastMessageTime := q_iso Q x\<rparr>) w d =
     d\<lparr>x_lastMessageTime := (case w of None \<Rightarrow> x_lastMessageTime d | Some t \<Rightarrow> q_iso Q t)\<rparr>"
  "set_opt (\<lambda>x p. p\<lparr>x_lastBody := x\<rparr>) w d = d\<lparr>x_lastBody := or_default (x_lastBody d) w\<rparr>"
  "set_opt (\<lambda>x p. p\<lparr>x_name := x\<rparr>) w d = d\<lparr>x_name := or_default (x_name d) w\<rparr>"
  "set_opt (\<lambda>x p. p\<lparr>x_tag := x\<rparr>) w d = d\<lparr>x_tag := or_default (x_tag d) w\<rparr>"
  for d :: group_ext
  by (cases v; cases w; simp add: set_opt_def or_default_def)+

definition room_typed :: "jlib \<Rightarrow> json \<Rightarrow> bool" where
  "room_typed J j \<longleftrightarrow> is_object j \<and> typed (get_int J) ''id'' j \<and>
     (\<forall>k \<in> {''messageCount'', ''foreignReadings'', ''localReadings'', ''lastSender''}.
        typed_or_null (get_int J) k j) \<and>
     (\<forall>k \<in> {''name'', ''tag''}. typed (get_string J) k j) \<and>
     (\<forall>k \<in> {''lastMessageTime'', ''lastBody''}. typed_or_null (get_string J) k j)"

text \<open>
  Parsing a room whose members have the right types sets every field to its member;
  a field whose member is missing or null keeps its value, only the id falls back to the invalid id.
\<close>

theorem room_parse_complete:
  assumes "jlib_ok J" and "room_typed J j"
  shows "group_ext_from_json Q J j p =
     \<lparr>x_id = or_default invalidID (member (get_int J) ''id'' j),
      x_messageCount = or_default (x_messageCount p) (member (get_int J) ''messageCount'' j),
      x_foreignReadings = or_default (x_foreignReadings p) (member (get_int J) ''foreignReadings'' j),
      x_localReadings = or_default (x_localReadings p) (member (get_int J) ''localReadings'' j),
      x_lastSender = or_default (x_lastSender p) (member (get_int J) ''lastSender'' j),
      x_lastMessageTime = (case member (get_string J) ''lastMessageTime'' j of
         None \<Rightarrow> x_lastMessageTime p | Some t \<Rightarrow> q_iso Q t),
      x_lastBody = or_default (x_lastBody p) (member (get_string J) ''lastBody'' j),
      x_name = or_default (x_name p) (member (get_string J) ''name'' j),
      x_tag = or_default (x_tag p) (member (get_string J) ''tag'' j)\<rparr>"
proof -
  have n: "get_int J JNull = None" "get_string J JNull = None" using assms(1) by simp_all
  show ?thesis
    using assms(2) unfolding group_ext_from_json_def room_typed_def
    by (cases p) (simp add: value_step_typed member_step_typed nullable_step_typed n set_opt_room
        cong: option.case_cong)
qed

definition room_example :: json where
  "room_example = JObject [(''id'', JInt 7), (''name'', JString ''ops''), (''messageCount'', JNull),
     (''localReadings'', JInt 3)]"

theorem room_parse_complete_witness:
  "group_ext_from_json plain_qt plain_jlib room_example new_group_ext =
     \<lparr>x_id = 7, x_messageCount = 0, x_foreignReadings = 0, x_localReadings = 3, x_lastSender = 0,
      x_lastMessageTime = None, x_lastBody = [], x_name = ''ops'', x_tag = []\<rparr>"
  using room_parse_complete [OF plain_jlib_ok, of room_example plain_qt "new_group_ext"]
  by (simp add: room_typed_def room_example_def typed_def typed_or_null_def is_object_def json_at_def
      member_def or_default_def new_group_ext_def plain_jlib_def)

text \<open>
  A message whose text is not a string is accepted half filled: the parser swallows the
  exception, the ids are set and the message is delivered with the text and time it had before.
\<close>

theorem message_parse_partial:
  assumes "jlib_ok J" and "is_object j" and "\<forall>k \<in> {''id'', ''userID'', ''roomID'', ''messageIndex''}. typed (get_int J) k j"
    and "json_at ''body'' j = Some v" and "get_string J v = None"
  shows "message_from_json Q J j p =
     p\<lparr>m_id := or_default invalidID (member (get_int J) ''id'' j),
       m_userID := or_default invalidID (member (get_int J) ''userID'' j),
       m_roomID := or_default invalidID (member (get_int J) ''roomID'' j),
       m_messageIndex := to_u32 (or_default invalidIndex (member (get_int J) ''messageIndex'' j))\<rparr>"
proof -
  have "member_step (get_string J) ''body'' j f d = None" for f and d :: message_data
    using assms(4,5) by (simp add: member_step_untyped [where get = "get_string J"])
  with assms(2-3) show ?thesis
    by (simp add: message_from_json_def value_step_typed)
qed

theorem message_parse_partial_witness:
  "message_from_json plain_qt plain_jlib
     (JObject [(''id'', JInt 4), (''roomID'', JInt 2), (''body'', JNull), (''time'', JString ''t'')]) new_message =
     new_message\<lparr>m_id := 4, m_userID := 0, m_roomID := 2, m_messageIndex := 4294967295\<rparr>"
  using message_parse_partial [OF plain_jlib_ok, of
      "JObject [(''id'', JInt 4), (''roomID'', JInt 2), (''body'', JNull), (''time'', JString ''t'')]"
      JNull plain_qt new_message]
  by (simp add: typed_def is_object_def json_at_def member_def or_default_def plain_jlib_def
      invalidID_def invalidIndex_def to_u32_def)

text \<open>
  No structure survives its own JSON encoding: \<open>to_json\<close> writes an array, and
  \<open>from_json\<close> of an array changes nothing.
\<close>

theorem json_encoding_is_not_read_back:
  "group_from_json J (group_to_json g) g' = g' \<and>
   group_ext_from_json Q J (group_ext_to_json x) x' = x' \<and>
   user_from_json J (user_to_json u) u' = u' \<and>
   message_from_json Q J (message_to_json Q m) m' = m'"
  by (simp add: group_from_json_def group_ext_from_json_def user_from_json_def message_from_json_def
      group_to_json_def group_ext_to_json_def user_to_json_def message_to_json_def
      value_step_not_object is_object_def)

text \<open>
  C36: The QML encoding is read back into any object: group headers and users with a known
  status return unchanged from \<open>toHash\<close> and \<open>fromHash\<close>; a room returns with id, name, tag and message counter, the
  read counters and the last message stay those of the object it is read into; a message returns without its
  room, which \<open>toHash\<close> does not write.
\<close>

theorem hash_roundtrip:
  assumes "qt_ok Q" and "u_status u \<in> {Offline, Online}"
  shows "group_fromHash Q (group_toHash g) g' = g \<and>
     group_ext_fromHash Q (group_ext_toHash x) x' =
       x'\<lparr>x_id := x_id x, x_name := x_name x, x_tag := x_tag x, x_messageCount := x_messageCount x\<rparr> \<and>
     user_fromHash Q (user_toHash u) u' = u \<and>
     message_fromHash Q (message_toHash m) m' = m\<lparr>m_roomID := 0\<rparr>"
proof (intro conjI)
  show "group_fromHash Q (group_toHash g) g' = g"
    using assms(1) by (simp add: group_fromHash_def group_toHash_def take_key_def)
  show "group_ext_fromHash Q (group_ext_toHash x) x' =
      x'\<lparr>x_id := x_id x, x_name := x_name x, x_tag := x_tag x, x_messageCount := x_messageCount x\<rparr>"
    using assms(1) by (simp add: group_ext_fromHash_def group_ext_toHash_def take_key_def)
  have "status_value (status_key (u_status u)) = u_status u"
    using assms(2) by (auto simp: status_value_def status_key_def Offline_def Online_def)
  then show "user_fromHash Q (user_toHash u) u' = u"
    using assms(1) by (simp add: user_fromHash_def user_toHash_def take_key_def has_key_def Let_def)
  show "message_fromHash Q (message_toHash m) m' = m\<lparr>m_roomID := 0\<rparr>"
    using assms(1) by (simp add: message_fromHash_def message_toHash_def take_key_def)
qed

theorem hash_roundtrip_witness:
  "group_fromHash plain_qt (group_toHash \<lparr>g_id = 3, g_name = ''a'', g_tag = []\<rparr>) new_group =
     \<lparr>g_id = 3, g_name = ''a'', g_tag = []\<rparr> \<and>
   group_ext_fromHash plain_qt (group_ext_toHash (new_group_ext\<lparr>x_messageCount := 7\<rparr>)) new_group_ext =
     new_group_ext\<lparr>x_messageCount := 7\<rparr> \<and>
   user_fromHash plain_qt (user_toHash (new_user\<lparr>u_name := ''u''\<rparr>)) new_user = new_user\<lparr>u_name := ''u''\<rparr> \<and>
   message_fromHash plain_qt (message_toHash (new_message\<lparr>m_roomID := 8\<rparr>)) new_message =
     (new_message\<lparr>m_roomID := 8\<rparr>)\<lparr>m_roomID := 0\<rparr>"
proof -
  have u: "u_status (new_user\<lparr>u_name := ''u''\<rparr>) \<in> {Offline, Online}" by (simp add: new_user_def)
  show ?thesis
    using hash_roundtrip [OF plain_qt_ok u, of "\<lparr>g_id = 3, g_name = ''a'', g_tag = []\<rparr>" new_group
        "new_group_ext\<lparr>x_messageCount := 7\<rparr>" new_group_ext new_user "new_message\<lparr>m_roomID := 8\<rparr>" new_message]
    by (simp add: new_group_ext_def)
qed

end
