(* ===== verification/Models.thy ===== *)
theory Models
  imports IdentifyingModel ChatData
begin

text \<open>
  The three list models that are instances of \<open>IdentifyingModel\<close>: rooms
  (\<open>groupmodel.cpp\<close>), messages (\<open>messagemodel.cpp\<close>) and call participants
  (\<open>participatemodel.cpp\<close>). Each is the pair of virtual methods \<open>edit\<close> and
  \<open>read\<close> with its role numbers. What a moved-from element looks like is the argument \<open>mv\<close>.
\<close>

section \<open>Group::Model\<close>

definition NameRole :: int where "NameRole = 1"
definition TagRole :: int where "TagRole = 2"
definition HashRole :: int where "HashRole = 3"
definition HasCallRole :: int where "HasCallRole = 4"
definition MessageCountRole :: int where "MessageCountRole = 5"
definition ForeignReadings :: int where "ForeignReadings = 6"
definition LocalReadings :: int where "LocalReadings = 7"
definition LastMessageBody :: int where "LastMessageBody = 8"
definition LastMessageSender :: int where "LastMessageSender = 9"
definition LastMessageTime :: int where "LastMessageTime = 10"

named_theorems role_defs "the role numbers"

lemmas [role_defs] = IDRole_def NameRole_def TagRole_def HashRole_def HasCallRole_def
  MessageCountRole_def ForeignReadings_def LocalReadings_def LastMessageBody_def
  LastMessageSender_def LastMessageTime_def

definition group_roles :: "(int \<times> string) list" where
  "group_roles =
     [(IDRole, ''id''), (NameRole, ''name''), (HashRole, ''hash''), (TagRole, ''tag''),
      (MessageCountRole, ''messageCount''), (ForeignReadings, ''foreignReadings''),
      (LocalReadings, ''localReadings''), (LastMessageBody, ''lastMessageBody''),
      (LastMessageTime, ''lastMessageTime''), (LastMessageSender, ''lastMessageSender'')]"

text \<open>For a role without a case the function ends without a \<open>return\<close>.\<close>

definition group_read :: "group_ext \<Rightarrow> int \<Rightarrow> int \<Rightarrow> qvariant option" where
  "group_read d row role =
     (if role = IDRole then Some (QInt (x_id d))
      else if role = NameRole then Some (QString (x_name d))
      else if role = HashRole then Some (QHash (group_ext_toHash d))
      else if role = TagRole then Some (QString (x_tag d))
      else if role = MessageCountRole then Some (QInt (x_messageCount d))
      else if role = LocalReadings then Some (QInt (x_localReadings d))
      else if role = ForeignReadings then Some (QInt (x_foreignReadings d))
      else if role = LastMessageBody then Some (QString (x_lastBody d))
      else if role = LastMessageTime then Some (QTime (x_lastMessageTime d))
      else if role = LastMessageSender then Some (QInt (x_lastSender d))
      else None)"

definition group_edit :: "qt \<Rightarrow> group_ext \<Rightarrow> qvariant \<Rightarrow> int \<Rightarrow> int \<Rightarrow> group_ext option" where
  "group_edit Q d v row role =
     (if role = IDRole
      then (if q_can_int Q v \<and> q_int Q v \<noteq> x_id d then Some (d\<lparr>x_id := q_int Q v\<rparr>) else None)
      else if role = NameRole
      then (if q_can_string Q v then Some (d\<lparr>x_name := q_string Q v\<rparr>) else None)
      else if role = TagRole
      then (if q_can_string Q v then Some (d\<lparr>x_tag := q_string Q v\<rparr>) else None)
      else if role = HashRole
      then (if q_can_hash Q v then Some (group_ext_fromHash Q (q_hash Q v) d) else None)
      else if role = MessageCountRole
      then (if q_can_int Q v then Some (d\<lparr>x_messageCount := q_int Q v\<rparr>) else None)
      else if role = ForeignReadings
      then (if q_can_int Q v then Some (d\<lparr>x_foreignReadings := q_int Q v\<rparr>) else None)
      else if role = LocalReadings
      then (if q_can_int Q v then Some (d\<lparr>x_localReadings := q_int Q v\<rparr>) else None)
      else if role = LastMessageBody
      then (if q_can_string Q v then Some (d\<lparr>x_lastBody := q_string Q v\<rparr>) else None)
      else if role = LastMessageTime
      then (if q_can_time Q v then Some (d\<lparr>x_lastMessageTime := q_time Q v\<rparr>) else None)
      else if role = LastMessageSender
      then (if q_can_int Q v then Some (d\<lparr>x_lastSender := q_int Q v\<rparr>) else None)
      else None)"

definition group_vt :: "qt \<Rightarrow> (group_ext \<Rightarrow> group_ext) \<Rightarrow> (group_ext, qvariant) vtable" where
  "group_vt Q mv =
     \<lparr>vt_edit = group_edit Q, vt_read = group_read, vt_create = new_group_ext, vt_moved = mv,
      vt_toInt = q_int Q, vt_canInt = q_can_int Q, vt_isValid = (\<lambda>v. v \<noteq> QInvalid), vt_invalid = QInvalid\<rparr>"

section \<open>Message::Model\<close>

definition UserIdRole :: int where "UserIdRole = 1"
definition BodyRole :: int where "BodyRole = 2"
definition TimeRole :: int where "TimeRole = 3"
definition MessageIndexRole :: int where "MessageIndexRole = 4"
definition MessageHashRole :: int where "MessageHashRole = 5"

lemmas [role_defs] = UserIdRole_def BodyRole_def TimeRole_def MessageIndexRole_def MessageHashRole_def

definition message_read :: "message_data \<Rightarrow> int \<Rightarrow> int \<Rightarrow> qvariant option" where
  "message_read d row role =
     (if role = IDRole then Some (QInt (m_id d))
      else if role = UserIdRole then Some (QInt (m_userID d))
      else if role = BodyRole then Some (QBytes (m_body d))
      else if role = TimeRole then Some (QTime (m_time d))
      else if role = MessageIndexRole then Some (QUInt (m_messageIndex d))
      else if role = MessageHashRole then Some (QHash (message_toHash d))
      else None)"

text \<open>No case has a \<open>break\<close>: a value of the wrong kind is tried on the roles that follow.\<close>

definition message_edit :: "qt \<Rightarrow> message_data \<Rightarrow> qvariant \<Rightarrow> int \<Rightarrow> int \<Rightarrow> message_data option" where
  "message_edit Q d v row role =
     (let hash_case = (if q_can_hash Q v then Some (message_fromHash Q (q_hash Q v) d) else None);
          index_case = (if q_can_uint Q v then Some (d\<lparr>m_messageIndex := q_uint Q v\<rparr>) else hash_case);
          time_case = (if q_can_time Q v then Some (d\<lparr>m_time := q_time Q v\<rparr>) else index_case);
          body_case = (if q_can_bytes Q v then Some (d\<lparr>m_body := q_bytes Q v\<rparr>) else time_case);
          user_case = (if q_can_int Q v then Some (d\<lparr>m_userID := q_int Q v\<rparr>) else body_case);
          id_case = (if q_can_int Q v then Some (d\<lparr>m_id := q_int Q v\<rparr>) else user_case)
      in if role = IDRole then id_case
         else if role = UserIdRole then user_case
         else if role = BodyRole then body_case
         else if role = TimeRole then time_case
         else if role = MessageIndexRole then index_case
         else if role = MessageHashRole then hash_case
         else None)"

definition message_vt :: "qt \<Rightarrow> (message_data \<Rightarrow> message_data) \<Rightarrow> (message_data, qvariant) vtable" where
  "message_vt Q mv =
     \<lparr>vt_edit = message_edit Q, vt_read = message_read, vt_create = new_message, vt_moved = mv,
      vt_toInt = q_int Q, vt_canInt = q_can_int Q, vt_isValid = (\<lambda>v. v \<noteq> QInvalid), vt_invalid = QInvalid\<rparr>"

section \<open>Participate::Model\<close>

definition HasVideo :: int where "HasVideo = 1"
definition HasAudio :: int where "HasAudio = 2"

lemmas [role_defs] = HasVideo_def HasAudio_def

definition participate_read :: "participate_data \<Rightarrow> int \<Rightarrow> int \<Rightarrow> qvariant option" where
  "participate_read par row role =
     (if role = IDRole then Some (QInt (p_userID par))
      else if role = HasVideo then Some (QBool (p_hasVideo par))
      else if role = HasAudio then Some (QBool (p_hasAudio par))
      else Some QInvalid)"

definition participate_edit :: "qt \<Rightarrow> participate_data \<Rightarrow> qvariant \<Rightarrow> int \<Rightarrow> int \<Rightarrow> participate_data option" where
  "participate_edit Q par v row role =
     (let audio_case = (if q_can_bool Q v \<and> q_bool Q v \<noteq> p_hasAudio par
                        then Some (par\<lparr>p_hasAudio := q_bool Q v\<rparr>) else None);
          video_case = (if q_can_bool Q v \<and> q_bool Q v \<noteq> p_hasVideo par
                        then Some (par\<lparr>p_hasVideo := q_bool Q v\<rparr>) else audio_case);
          user_case = (if q_can_int Q v \<and> q_int Q v \<noteq> p_userID par
                       then Some (par\<lparr>p_userID := q_int Q v\<rparr>) else video_case)
      in if role = IDRole then user_case
         else if role = HasVideo then video_case
         else if role = HasAudio then audio_case
         else None)"

definition participate_vt ::
    "qt \<Rightarrow> (participate_data \<Rightarrow> participate_data) \<Rightarrow> (participate_data, qvariant) vtable" where
  "participate_vt Q mv =
     \<lparr>vt_edit = participate_edit Q, vt_read = participate_read, vt_create = new_participate, vt_moved = mv,
      vt_toInt = q_int Q, vt_canInt = q_can_int Q, vt_isValid = (\<lambda>v. v \<noteq> QInvalid), vt_invalid = QInvalid\<rparr>"

section \<open>The models as containers with lookup by id\<close>

lemma group_uniform: "uniform (group_vt Q mv)"
  by (simp add: uniform_def key_def id_of_def group_vt_def group_read_def)

lemma message_uniform: "uniform (message_vt Q mv)"
  by (simp add: uniform_def key_def id_of_def message_vt_def message_read_def)

lemma participate_uniform: "uniform (participate_vt Q mv)"
  by (simp add: uniform_def key_def id_of_def participate_vt_def participate_read_def)

interpretation rooms: identifying_model "group_vt Q mv" for Q mv
  by unfold_locales (rule group_uniform)

interpretation messages: identifying_model "message_vt Q mv" for Q mv
  by unfold_locales (rule message_uniform)

interpretation participants: identifying_model "participate_vt Q mv" for Q mv
  by unfold_locales (rule participate_uniform)

lemma model_keys [simp]:
  assumes "qt_ok Q"
  shows "key (group_vt Q mv) g = x_id g" "key (message_vt Q mm) m = m_id m"
    "key (participate_vt Q mp) p = p_userID p"
  using assms by (simp_all add: key_def id_of_def group_vt_def group_read_def message_vt_def
      message_read_def participate_vt_def participate_read_def)

lemma vt_fields [simp]:
  "vt_edit (group_vt Q mv) = group_edit Q" "vt_read (group_vt Q mv) = group_read"
  "vt_create (group_vt Q mv) = new_group_ext" "vt_canInt (group_vt Q mv) = q_can_int Q"
  "vt_toInt (group_vt Q mv) = q_int Q" "vt_isValid (group_vt Q mv) v \<longleftrightarrow> v \<noteq> QInvalid"
  "vt_edit (message_vt Q mm) = message_edit Q" "vt_read (message_vt Q mm) = message_read"
  "vt_create (message_vt Q mm) = new_message" "vt_canInt (message_vt Q mm) = q_can_int Q"
  "vt_toInt (message_vt Q mm) = q_int Q" "vt_isValid (message_vt Q mm) v \<longleftrightarrow> v \<noteq> QInvalid"
  "vt_edit (participate_vt Q mp) = participate_edit Q" "vt_read (participate_vt Q mp) = participate_read"
  "vt_create (participate_vt Q mp) = new_participate" "vt_canInt (participate_vt Q mp) = q_can_int Q"
  "vt_toInt (participate_vt Q mp) = q_int Q" "vt_isValid (participate_vt Q mp) v \<longleftrightarrow> v \<noteq> QInvalid"
  by (simp_all add: group_vt_def message_vt_def participate_vt_def)

section \<open>What is written is read\<close>

definition room_value_roles :: "(int \<times> qvariant) set" where
  "room_value_roles =
     {(r, QString s) |r s. r \<in> {NameRole, TagRole, LastMessageBody}} \<union>
     {(r, QInt n) |r n. r \<in> {MessageCountRole, ForeignReadings, LocalReadings, LastMessageSender}} \<union>
     {(LastMessageTime, QTime t) |t. True}"

text \<open>
  In the room model a value of the role's own kind that is written is accepted, read
  back unchanged, keeps the id of the room and every other value role.
\<close>

theorem room_edit_read:
  assumes "qt_ok Q" and "(role, v) \<in> room_value_roles"
  shows "\<exists>e. group_edit Q d v row role = Some e \<and> group_read e row' role = Some v \<and> x_id e = x_id d \<and>
           (\<forall>r. r \<noteq> role \<longrightarrow> r \<noteq> HashRole \<longrightarrow> group_read e row' r = group_read d row' r)"
proof -
  have roles: "role \<in> {NameRole, TagRole, LastMessageBody} \<and> (\<exists>s. v = QString s) \<or>
      role \<in> {MessageCountRole, ForeignReadings, LocalReadings, LastMessageSender} \<and> (\<exists>n. v = QInt n) \<or>
      role = LastMessageTime \<and> (\<exists>t. v = QTime t)"
    using assms(2) unfolding room_value_roles_def by blast
  then consider s where "role = NameRole" "v = QString s" | s where "role = TagRole" "v = QString s"
    | s where "role = LastMessageBody" "v = QString s" | n where "role = MessageCountRole" "v = QInt n"
    | n where "role = ForeignReadings" "v = QInt n" | n where "role = LocalReadings" "v = QInt n"
    | n where "role = LastMessageSender" "v = QInt n" | t where "role = LastMessageTime" "v = QTime t"
    by blast
  then show ?thesis
    by cases (simp_all add: assms(1) group_edit_def group_read_def role_defs)
qed

theorem room_edit_read_witness:
  "\<exists>e. group_edit plain_qt new_group_ext (QInt 5) 0 MessageCountRole = Some e \<and>
     group_read e 0 MessageCountRole = Some (QInt 5) \<and> x_id e = x_id new_group_ext \<and>
     (\<forall>r. r \<noteq> MessageCountRole \<longrightarrow> r \<noteq> HashRole \<longrightarrow> group_read e 0 r = group_read new_group_ext 0 r)"
  by (rule room_edit_read [OF plain_qt_ok]) (simp add: room_value_roles_def)

lemma named_roles_readable: "\<forall>(r, n) \<in> set group_roles. group_read d row r \<noteq> None"
  by (simp add: group_roles_def group_read_def role_defs)

lemma hasCall_unreadable: "group_read d row HasCallRole = None"
  by (simp add: group_read_def role_defs)

text \<open>
  In the participant model an \<open>edit\<close> of the video role with the value it already has
  falls through to the audio role and writes the value there: turning a camera off that is off mutes
  the microphone.
\<close>

theorem participant_edit_falls_through:
  assumes "qt_ok Q" and "p_hasVideo par = b" and "p_hasAudio par = (\<not> b)"
  shows "participate_edit Q par (QBool b) row HasVideo = Some (par\<lparr>p_hasAudio := b\<rparr>)"
  using assms by (simp add: participate_edit_def role_defs)

theorem participant_edit_falls_through_witness:
  "participate_edit plain_qt (new_participate\<lparr>p_hasAudio := True\<rparr>) (QBool False) 0 HasVideo =
     Some ((new_participate\<lparr>p_hasAudio := True\<rparr>)\<lparr>p_hasAudio := False\<rparr>)"
  by (rule participant_edit_falls_through [OF plain_qt_ok]) (simp_all add: new_participate_def)

end
