(* ===== verification/Api.thy ===== *)
theory Api
  imports ChatData
begin

text \<open>
  The calls the client makes on the server and the ones it answers (\<open>lib/network/api/*.cpp\<close>).
  An \<open>exec\<close> is the method name, the arguments and the priority that it hands to
  \<open>NetworkCoordinator::serverMethod\<close>, and, beside it, the function that turns the answer into
  the result of the future. A \<open>handle\<close> is the function from the arguments of a call of the server
  to what the registered handler is given; where it may decide not to call it, the result is an option.
\<close>

datatype priority = AuthorizedCall | DirectCall

record call =
  call_method :: string
  call_args :: json
  call_priority :: priority

definition serverCall :: "string \<Rightarrow> json \<Rightarrow> call" where
  "serverCall m args = \<lparr>call_method = m, call_args = args, call_priority = AuthorizedCall\<rparr>"

definition directCall :: "string \<Rightarrow> json \<Rightarrow> call" where
  "directCall m args = \<lparr>call_method = m, call_args = args, call_priority = DirectCall\<rparr>"

text \<open>
  \<open>json args; args.emplace(\<dots>)\<close>: the value is null until the first member is added. Iterating over
  a value visits the elements of an array or the members of an object; a null has none and a scalar
  is its own single element. \<open>operator[]\<close> makes a null member where there is none.
\<close>

definition emplaced :: "(string \<times> json) list \<Rightarrow> json" where
  "emplaced kvs = (if kvs = [] then JNull else JObject kvs)"

definition opt_member :: "string \<Rightarrow> ('x \<Rightarrow> json) \<Rightarrow> 'x option \<Rightarrow> (string \<times> json) list" where
  "opt_member k f v = (case v of None \<Rightarrow> [] | Some x \<Rightarrow> [(k, f x)])"

definition json_elements :: "json \<Rightarrow> json list" where
  "json_elements j =
     (case j of JNull \<Rightarrow> [] | JArray xs \<Rightarrow> xs | JObject kvs \<Rightarrow> map snd kvs | _ \<Rightarrow> [j])"

definition json_index :: "string \<Rightarrow> json \<Rightarrow> json option" where
  "json_index k j =
     (case j of
        JObject kvs \<Rightarrow> Some (case map_of kvs k of None \<Rightarrow> JNull | Some v \<Rightarrow> v)
      | JNull \<Rightarrow> Some JNull
      | _ \<Rightarrow> None)"

definition index_step :: "(json \<Rightarrow> 'x option) \<Rightarrow> string \<Rightarrow> json \<Rightarrow> ('x \<Rightarrow> 'd \<Rightarrow> 'd) \<Rightarrow> 'd \<Rightarrow> 'd option" where
  "index_step get k j f d =
     (case json_index k j of None \<Rightarrow> None | Some v \<Rightarrow> map_option (\<lambda>x. f x d) (get v))"

section \<open>Group\<close>

definition Group_Create_exec :: "string \<Rightarrow> string option \<Rightarrow> call" where
  "Group_Create_exec name tag =
     serverCall ''createRoom''
       (JObject ([(''name'', JString name), (''type'', JString ''group'')] @ opt_member ''tag'' JString tag))"

text \<open>\<open>Group::ExtendedData(res)\<close>: a value-initialised object filled by the parser.\<close>

definition group_ext_of :: "qt \<Rightarrow> jlib \<Rightarrow> json \<Rightarrow> group_ext" where
  "group_ext_of Q J res = group_ext_from_json Q J res new_group_ext"

definition group_of :: "jlib \<Rightarrow> json \<Rightarrow> group_data" where
  "group_of J res = group_from_json J res new_group"

definition user_of :: "jlib \<Rightarrow> json \<Rightarrow> user_data" where
  "user_of J res = user_from_json J res new_user"

definition message_of :: "qt \<Rightarrow> jlib \<Rightarrow> json \<Rightarrow> message_data" where
  "message_of Q J res = message_from_json Q J res new_message"

definition participate_of :: "jlib \<Rightarrow> json \<Rightarrow> participate_data" where
  "participate_of J res = participate_from_json J res new_participate"

definition Group_GetAll_exec :: call where
  "Group_GetAll_exec = serverCall ''getUserRooms'' (JObject [(''type'', JString ''group'')])"

definition Group_GetAll_result :: "qt \<Rightarrow> jlib \<Rightarrow> json \<Rightarrow> group_ext list" where
  "Group_GetAll_result Q J res = map (group_ext_of Q J) (json_elements res)"

definition Group_Update_exec :: "int \<Rightarrow> string option \<Rightarrow> string option \<Rightarrow> call" where
  "Group_Update_exec roomID name tag =
     serverCall ''updateRoom''
       (emplaced (opt_member ''name'' JString name @ opt_member ''tag'' JString tag @ [(''roomID'', JInt roomID)]))"

definition Group_AddUser_exec :: "int \<Rightarrow> int \<Rightarrow> call" where
  "Group_AddUser_exec roomID userID =
     serverCall ''addUserToRoom'' (JObject [(''roomID'', JInt roomID), (''userID'', JInt userID)])"

definition Group_Delete_exec :: "int \<Rightarrow> call" where
  "Group_Delete_exec roomID = serverCall ''deleteRoom'' (JObject [(''roomID'', JInt roomID)])"

definition Group_GetHistory_exec :: "int \<Rightarrow> call" where
  "Group_GetHistory_exec roomID = serverCall ''getRoomHistory'' (JObject [(''roomID'', JInt roomID)])"

definition Group_GetHistory_result :: "qt \<Rightarrow> jlib \<Rightarrow> json \<Rightarrow> message_data list" where
  "Group_GetHistory_result Q J res = map (message_of Q J) (json_elements res)"

definition Group_GetUsers_exec :: "int \<Rightarrow> call" where
  "Group_GetUsers_exec roomID = serverCall ''getRoomUsers'' (JObject [(''roomID'', JInt roomID)])"

definition Group_GetUsers_result :: "jlib \<Rightarrow> json \<Rightarrow> user_data list" where
  "Group_GetUsers_result J res = map (user_of J) (json_elements res)"

record group_update =
  gu_name :: "string option"
  gu_tag :: "string option"
  gu_messageCount :: "int option"
  gu_foreignReadings :: "int option"
  gu_localReadings :: "int option"
  gu_id :: int

definition new_group_update :: group_update where
  "new_group_update =
     \<lparr>gu_name = None, gu_tag = None, gu_messageCount = None, gu_foreignReadings = None,
      gu_localReadings = None, gu_id = invalidID\<rparr>"

text \<open>A \<open>try\<close> block that calls the handler as its last statement: a throw before it means no call.\<close>

fun all_steps :: "('d \<Rightarrow> 'd option) list \<Rightarrow> 'd \<Rightarrow> 'd option" where
  "all_steps [] d = Some d"
| "all_steps (f # fs) d = (case f d of None \<Rightarrow> None | Some d' \<Rightarrow> all_steps fs d')"

definition Group_Update_handle :: "jlib \<Rightarrow> json \<Rightarrow> group_update option" where
  "Group_Update_handle J res =
     (if \<not> json_contains ''id'' res then None
      else all_steps
        [index_step (get_int J) ''id'' res (\<lambda>x d. d\<lparr>gu_id := x\<rparr>),
         member_step (get_string J) ''tag'' res (\<lambda>x d. d\<lparr>gu_tag := Some x\<rparr>),
         member_step (get_string J) ''name'' res (\<lambda>x d. d\<lparr>gu_name := Some x\<rparr>),
         member_step (get_int J) ''localReadings'' res (\<lambda>x d. d\<lparr>gu_localReadings := Some x\<rparr>),
         member_step (get_int J) ''foreignReadings'' res (\<lambda>x d. d\<lparr>gu_foreignReadings := Some x\<rparr>),
         member_step (get_int J) ''messageCount'' res (\<lambda>x d. d\<lparr>gu_messageCount := Some x\<rparr>)]
        new_group_update)"

definition group_update_extractTo :: "group_update \<Rightarrow> group_ext \<Rightarrow> group_ext" where
  "group_update_extractTo u data =
     (let data = (if x_id data \<noteq> gu_id u then data\<lparr>x_id := gu_id u\<rparr> else data);
          data = set_opt (\<lambda>x d. d\<lparr>x_tag := x\<rparr>) (gu_tag u) data;
          data = set_opt (\<lambda>x d. d\<lparr>x_name := x\<rparr>) (gu_name u) data;
          data = set_opt (\<lambda>x d. d\<lparr>x_foreignReadings := x\<rparr>) (gu_foreignReadings u) data;
          data = set_opt (\<lambda>x d. d\<lparr>x_localReadings := x\<rparr>) (gu_localReadings u) data
      in set_opt (\<lambda>x d. d\<lparr>x_messageCount := x\<rparr>) (gu_messageCount u) data)"

text \<open>\<open>AddUser::handle\<close> has no \<open>try\<close>: \<open>value\<close> on anything but an object throws to the caller.\<close>

definition Group_AddUser_handle :: "jlib \<Rightarrow> json \<Rightarrow> (int \<times> int) option" where
  "Group_AddUser_handle J res =
     (case json_value (get_int J) ''roomID'' invalidID res of
        None \<Rightarrow> None
      | Some room \<Rightarrow> map_option (\<lambda>user. (room, user)) (json_value (get_int J) ''userID'' invalidID res))"

section \<open>Message\<close>

definition Message_GetByIndex_exec :: "int \<Rightarrow> int \<Rightarrow> int \<Rightarrow> call" where
  "Message_GetByIndex_exec roomID startIndex endIndex =
     serverCall ''getMessagesByIndex''
       (JObject [(''from'', JInt startIndex), (''to'', JInt endIndex), (''roomID'', JInt roomID)])"

definition Message_GetByIndex_result :: "qt \<Rightarrow> jlib \<Rightarrow> json \<Rightarrow> message_data list" where
  "Message_GetByIndex_result Q J res = map (message_of Q J) (json_elements res)"

definition Message_Create_exec :: "string \<Rightarrow> int \<Rightarrow> call" where
  "Message_Create_exec body roomID =
     serverCall ''sendChatMessage'' (JObject [(''body'', JString body), (''roomID'', JInt roomID)])"

definition Message_Update_exec :: "string \<Rightarrow> call" where
  "Message_Update_exec body = serverCall ''updateMessage'' (JObject [(''body'', JString body)])"

definition Message_Delete_exec :: "int \<Rightarrow> call" where
  "Message_Delete_exec messageID = serverCall ''deleteMessage'' (JObject [(''id'', JInt messageID)])"

definition Message_MarkRead_exec :: "int \<Rightarrow> int \<Rightarrow> call" where
  "Message_MarkRead_exec roomID count =
     serverCall ''setReadMessagesCount'' (JObject [(''roomID'', JInt roomID), (''count'', JInt (to_u64 count))])"

text \<open>\<open>Find::exec\<close> makes no call: its future holds an empty list.\<close>

definition Message_Find_result :: "message_data list" where
  "Message_Find_result = []"

section \<open>User\<close>

definition User_Create_exec :: "string \<Rightarrow> string \<Rightarrow> call" where
  "User_Create_exec login password =
     directCall ''registerUser'' (JObject [(''login'', JString login), (''password'', JString password)])"

definition User_Get_exec :: "int option \<Rightarrow> call" where
  "User_Get_exec k = serverCall ''getUser'' (case k of Some n \<Rightarrow> JObject [(''id'', JInt n)] | None \<Rightarrow> JNull)"

definition User_Update_exec :: "string option \<Rightarrow> string option \<Rightarrow> call" where
  "User_Update_exec name tag =
     serverCall ''updateUser'' (emplaced (opt_member ''name'' JString name @ opt_member ''tag'' JString tag))"

record user_find =
  uf_limit :: "int option"
  uf_useRegexp :: bool
  uf_name :: "string option"
  uf_tag :: "string option"
  uf_id :: "string option"

definition new_user_find :: user_find where
  "new_user_find = \<lparr>uf_limit = None, uf_useRegexp = False, uf_name = None, uf_tag = None, uf_id = None\<rparr>"

definition User_Find_extractFromQHash :: "qt \<Rightarrow> qhash \<Rightarrow> user_find \<Rightarrow> user_find" where
  "User_Find_extractFromQHash Q h f =
     (let f = (if has_key ''name'' h then f\<lparr>uf_name := Some (q_string Q (take_key ''name'' h))\<rparr> else f);
          f = (if has_key ''tag'' h then f\<lparr>uf_tag := Some (q_string Q (take_key ''tag'' h))\<rparr> else f)
      in if has_key ''id'' h then f\<lparr>uf_id := Some (q_string Q (take_key ''id'' h))\<rparr> else f)"

definition User_Find_exec :: "user_find \<Rightarrow> call" where
  "User_Find_exec f =
     serverCall ''findUsers''
       (emplaced (opt_member ''name'' JString (uf_name f) @ opt_member ''tag'' JString (uf_tag f) @
          opt_member ''id'' JString (uf_id f) @ opt_member ''limit'' JInt (uf_limit f) @
          (if uf_useRegexp f then [(''regexp'', JBool True)] else [])))"

definition User_Find_result :: "jlib \<Rightarrow> json \<Rightarrow> user_data list" where
  "User_Find_result J res = map (user_of J) (json_elements res)"

record user_update =
  uu_name :: "string option"
  uu_tag :: "string option"
  uu_status :: "int option"
  uu_id :: int

text \<open>
  \<open>UserUpdate::id\<close> has no initializer (\<open>junk\<close>), and the handler is called after the \<open>catch\<close>.
\<close>

definition User_Update_handle :: "jlib \<Rightarrow> int \<Rightarrow> json \<Rightarrow> user_update" where
  "User_Update_handle J junk res =
     try_block
       [index_step (get_int J) ''id'' res (\<lambda>x d. d\<lparr>uu_id := x\<rparr>),
        member_step (get_string J) ''tag'' res (\<lambda>x d. d\<lparr>uu_tag := Some x\<rparr>),
        member_step (get_string J) ''name'' res (\<lambda>x d. d\<lparr>uu_name := Some x\<rparr>),
        member_step (\<lambda>v. Some (if v = JString ''online'' then Online else Offline)) ''status'' res
          (\<lambda>x d. d\<lparr>uu_status := Some x\<rparr>)]
       \<lparr>uu_name = None, uu_tag = None, uu_status = None, uu_id = junk\<rparr>"

section \<open>Session descriptions\<close>

record rtc_description =
  rd_id :: int
  rd_description :: string
  rd_type :: string

record rtc_candidate =
  rc_id :: int
  rc_candidate :: string
  rc_mid :: string

definition Description_exec :: "rtc_description \<Rightarrow> call" where
  "Description_exec d =
     directCall ''RtcDescription''
       (JObject [(''id'', JInt (rd_id d)), (''description'', JString (rd_description d)),
          (''type'', JString (rd_type d))])"

definition Description_handle :: "jlib \<Rightarrow> json \<Rightarrow> rtc_description" where
  "Description_handle J res =
     try_block
       [index_step (get_int J) ''id'' res (\<lambda>x d. d\<lparr>rd_id := x\<rparr>),
        index_step (get_string J) ''description'' res (\<lambda>x d. d\<lparr>rd_description := x\<rparr>),
        index_step (get_string J) ''type'' res (\<lambda>x d. d\<lparr>rd_type := x\<rparr>)]
       \<lparr>rd_id = invalidID, rd_description = [], rd_type = []\<rparr>"

definition Candidate_exec :: "rtc_candidate \<Rightarrow> call" where
  "Candidate_exec d =
     directCall ''RtcCandidate''
       (JObject [(''id'', JInt (rc_id d)), (''candidate'', JString (rc_candidate d)), (''mid'', JString (rc_mid d))])"

definition Candidate_handle :: "jlib \<Rightarrow> json \<Rightarrow> rtc_candidate" where
  "Candidate_handle J res =
     try_block
       [index_step (get_int J) ''id'' res (\<lambda>x d. d\<lparr>rc_id := x\<rparr>),
        index_step (get_string J) ''mid'' res (\<lambda>x d. d\<lparr>rc_mid := x\<rparr>),
        index_step (get_string J) ''candidate'' res (\<lambda>x d. d\<lparr>rc_candidate := x\<rparr>)]
       \<lparr>rc_id = invalidID, rc_candidate = [], rc_mid = []\<rparr>"

section \<open>Call\<close>

definition Call_Join_exec :: "int \<Rightarrow> string \<Rightarrow> call" where
  "Call_Join_exec roomID sdp = serverCall ''joinCall'' (JObject [(''roomID'', JInt roomID), (''sdp'', JString sdp)])"

definition Call_Get_exec :: "int \<Rightarrow> call" where
  "Call_Get_exec roomID = serverCall ''getCall'' (JObject [(''roomID'', JInt roomID)])"

definition Call_Get_result :: "jlib \<Rightarrow> json \<Rightarrow> participate_data list" where
  "Call_Get_result J res =
     (case json_index ''participants'' res of
        None \<Rightarrow> []
      | Some ps \<Rightarrow> map (participate_of J) (json_elements ps))"

definition Call_Disconnect_exec :: "int \<Rightarrow> call" where
  "Call_Disconnect_exec roomID = serverCall ''disconnectCall'' (JObject [(''roomID'', JInt roomID)])"

record media_update =
  mu_video :: bool
  mu_audio :: bool
  mu_userID :: int
  mu_roomID :: int

definition UpdateCallMedia_handle :: "jlib \<Rightarrow> json \<Rightarrow> media_update option" where
  "UpdateCallMedia_handle J res =
     all_steps
       [index_step (get_bool J) ''audio'' res (\<lambda>x d. d\<lparr>mu_audio := x\<rparr>),
        index_step (get_bool J) ''video'' res (\<lambda>x d. d\<lparr>mu_video := x\<rparr>),
        index_step (get_int J) ''roomID'' res (\<lambda>x d. d\<lparr>mu_roomID := x\<rparr>),
        index_step (get_int J) ''userID'' res (\<lambda>x d. d\<lparr>mu_userID := x\<rparr>)]
       \<lparr>mu_video = False, mu_audio = False, mu_userID = 0, mu_roomID = 0\<rparr>"

definition UpdateCallMedia_exec :: "bool option \<Rightarrow> bool option \<Rightarrow> call" where
  "UpdateCallMedia_exec audio video =
     serverCall ''updateCallMedia''
       (emplaced (opt_member ''video'' JBool video @ opt_member ''audio'' JBool audio))"

section \<open>Properties\<close>

lemma index_step_object:
  "is_object j \<Longrightarrow> index_step get k j f d =
     (case json_at k j of None \<Rightarrow> map_option (\<lambda>x. f x d) (get JNull) | Some v \<Rightarrow> map_option (\<lambda>x. f x d) (get v))"
  by (simp add: index_step_def json_index_def json_at_def is_object_def split: json.splits option.split)

lemma json_contains_object: "json_contains k j \<Longrightarrow> is_object j"
  by (simp add: json_contains_def is_object_def split: json.splits)

definition update_typed :: "jlib \<Rightarrow> json \<Rightarrow> bool" where
  "update_typed J j \<longleftrightarrow> typed (get_int J) ''id'' j \<and>
     (\<forall>k \<in> {''tag'', ''name''}. typed (get_string J) k j) \<and>
     (\<forall>k \<in> {''localReadings'', ''foreignReadings'', ''messageCount''}. typed (get_int J) k j)"

lemma all_steps_None: "f \<in> set fs \<Longrightarrow> (\<And>d. f d = None) \<Longrightarrow> all_steps fs d = None"
  by (induction fs arbitrary: d) (auto split: option.split)

lemma member_step_not_typed:
  "\<not> typed get k j \<Longrightarrow> member_step get k j f d = None"
  by (auto simp: typed_def member_step_def json_contains_at)

lemma set_opt_update:
  "set_opt (\<lambda>x d. d\<lparr>gu_tag := Some x\<rparr>) w d = (if w = None then d else d\<lparr>gu_tag := w\<rparr>)"
  "set_opt (\<lambda>x d. d\<lparr>gu_name := Some x\<rparr>) w d = (if w = None then d else d\<lparr>gu_name := w\<rparr>)"
  "set_opt (\<lambda>x d. d\<lparr>gu_localReadings := Some x\<rparr>) v d = (if v = None then d else d\<lparr>gu_localReadings := v\<rparr>)"
  "set_opt (\<lambda>x d. d\<lparr>gu_foreignReadings := Some x\<rparr>) v d = (if v = None then d else d\<lparr>gu_foreignReadings := v\<rparr>)"
  "set_opt (\<lambda>x d. d\<lparr>gu_messageCount := Some x\<rparr>) v d = (if v = None then d else d\<lparr>gu_messageCount := v\<rparr>)"
  by (cases v; cases w; simp add: set_opt_def)+

text \<open>
  C35: An update of a room is delivered to the controller if and only if it names the room
  and every member it has is of the right type, and then with exactly the members it has: a
  malformed update never reaches the model in part.
\<close>

theorem group_update_all_or_nothing:
  "Group_Update_handle J j =
     (if json_contains ''id'' j \<and> update_typed J j
      then Some \<lparr>gu_name = member (get_string J) ''name'' j, gu_tag = member (get_string J) ''tag'' j,
                 gu_messageCount = member (get_int J) ''messageCount'' j,
                 gu_foreignReadings = member (get_int J) ''foreignReadings'' j,
                 gu_localReadings = member (get_int J) ''localReadings'' j,
                 gu_id = or_default 0 (member (get_int J) ''id'' j)\<rparr>
      else None)"
proof (cases "json_contains ''id'' j \<and> update_typed J j")
  case True
  then obtain v where v: "json_at ''id'' j = Some v" by (auto simp: json_contains_at)
  with True obtain n where n: "get_int J v = Some n" by (auto simp: update_typed_def typed_def)
  have "is_object j" using True json_contains_object by blast
  with True v n show ?thesis
    by (simp add: Group_Update_handle_def index_step_object update_typed_def member_step_typed
        set_opt_update new_group_update_def member_def or_default_def)
next
  case False
  then consider "\<not> json_contains ''id'' j" | "json_contains ''id'' j" "\<not> typed (get_int J) ''id'' j"
    | "\<not> typed (get_string J) ''tag'' j" | "\<not> typed (get_string J) ''name'' j"
    | "\<not> typed (get_int J) ''localReadings'' j" | "\<not> typed (get_int J) ''foreignReadings'' j"
    | "\<not> typed (get_int J) ''messageCount'' j"
    by (auto simp: update_typed_def)
  then have "Group_Update_handle J j = None"
  proof cases
    case 2
    then obtain v where "json_at ''id'' j = Some v" "get_int J v = None" "is_object j"
      using json_contains_object by (auto simp: typed_def)
    then show ?thesis by (simp add: Group_Update_handle_def index_step_object)
  qed (simp_all add: Group_Update_handle_def all_steps_None member_step_not_typed split: option.split)
  with False show ?thesis by auto
qed

text \<open>
  An update of a user is delivered even when it names no user: the parser catches its
  own exception and calls the handler with the id the memory happened to hold.
\<close>

theorem user_update_without_id:
  assumes "jlib_ok J"
  shows "User_Update_handle J junk (JObject [(''name'', JString n)]) =
           \<lparr>uu_name = None, uu_tag = None, uu_status = None, uu_id = junk\<rparr>"
  using assms by (simp add: User_Update_handle_def index_step_def json_index_def)

theorem user_update_without_id_witness:
  "User_Update_handle plain_jlib 77 (JObject [(''name'', JString ''n'')]) =
     \<lparr>uu_name = None, uu_tag = None, uu_status = None, uu_id = 77\<rparr>"
  by (rule user_update_without_id [OF plain_jlib_ok])

text \<open>
  Session descriptions and candidates survive the wire: what \<open>exec\<close> sends as
  arguments is what \<open>handle\<close> reads.
\<close>

theorem rtc_roundtrip:
  assumes "jlib_ok J" and "is_i32 (rd_id d)" and "is_i32 (rc_id c)"
  shows "Description_handle J (call_args (Description_exec d)) = d \<and>
         Candidate_handle J (call_args (Candidate_exec c)) = c"
  using assms
  by (simp add: Description_handle_def Description_exec_def Candidate_handle_def Candidate_exec_def
      directCall_def index_step_def json_index_def)

theorem rtc_roundtrip_witness:
  "Description_handle plain_jlib (call_args (Description_exec \<lparr>rd_id = 3, rd_description = ''d'', rd_type = ''t''\<rparr>)) =
     \<lparr>rd_id = 3, rd_description = ''d'', rd_type = ''t''\<rparr> \<and>
   Candidate_handle plain_jlib (call_args (Candidate_exec \<lparr>rc_id = 4, rc_candidate = ''c'', rc_mid = ''m''\<rparr>)) =
     \<lparr>rc_id = 4, rc_candidate = ''c'', rc_mid = ''m''\<rparr>"
  by (rule rtc_roundtrip [OF plain_jlib_ok]) (simp_all add: is_i32_def)

end
