(* ===== verification/GroupController.thy ===== *)
theory GroupController
  imports Models Api
begin

text \<open>
  \<open>Group::CallerController\<close> (\<open>lib/network/controllers/groupcontroller.cpp\<close>): the rooms of
  the user, the calls of the server that change them, and the read counters, which are reported to
  the server from a queue that a single-shot timer drains. Every operation holds the lock of the model,
  so it is one step; a call to the server is a value of the result and its continuation is a step of
  its own.
\<close>

record group_ctrl =
  gc_rooms :: "group_ext im"
  gc_queue :: "int list"
  gc_timer :: bool

definition new_group_ctrl :: group_ctrl where
  "new_group_ctrl = \<lparr>gc_rooms = empty_im, gc_queue = [], gc_timer = False\<rparr>"

section \<open>Operations\<close>

text \<open>\<open>data(index, role).toInt()\<close> and the calls of \<open>setData\<close> whose result the code ignores.\<close>

definition room_int :: "qt \<Rightarrow> (group_ext \<Rightarrow> group_ext) \<Rightarrow> int option \<Rightarrow> int \<Rightarrow> group_ext im \<Rightarrow> int" where
  "room_int Q mv index role m =
     (case data_role (group_vt Q mv) index role m of Some v \<Rightarrow> q_int Q v | None \<Rightarrow> 0)"

definition room_write ::
    "qt \<Rightarrow> (group_ext \<Rightarrow> group_ext) \<Rightarrow> int option \<Rightarrow> int \<Rightarrow> qvariant \<Rightarrow> group_ext im \<Rightarrow> group_ext im" where
  "room_write Q mv index role v m = snd (setData_role (group_vt Q mv) index v role m)"

text \<open>\<open>qint32(count + messageCount)\<close>: the sum of a \<open>size_t\<close> and an \<open>int\<close> is cut to 32 bits.\<close>

definition incrementMessageCount ::
    "qt \<Rightarrow> (group_ext \<Rightarrow> group_ext) \<Rightarrow> int \<Rightarrow> int \<Rightarrow> group_ext im \<Rightarrow> bool \<times> group_ext im" where
  "incrementMessageCount Q mv roomID count m =
     (case idToIndex roomID m of
        None \<Rightarrow> (False, m)
      | Some r \<Rightarrow>
          setData_role (group_vt Q mv) (Some r)
            (QInt (to_i32 (count + room_int Q mv (Some r) MessageCountRole m))) MessageCountRole m)"

definition on_addRoom :: "qt \<Rightarrow> (group_ext \<Rightarrow> group_ext) \<Rightarrow> group_ext \<Rightarrow> group_ext im \<Rightarrow> group_ext im" where
  "on_addRoom Q mv g m =
     (let m = snd (insertRows (group_vt Q mv) 0 1 m)
      in snd (setData_value (group_vt Q mv) (model_index 0 m) g m))"

definition on_postMessage :: "qt \<Rightarrow> (group_ext \<Rightarrow> group_ext) \<Rightarrow> message_data \<Rightarrow> group_ext im \<Rightarrow> group_ext im" where
  "on_postMessage Q mv mess m =
     (case idToIndex (m_roomID mess) m of
        None \<Rightarrow> m
      | Some r \<Rightarrow>
          (let messageCount = room_int Q mv (Some r) MessageCountRole m;
               m = room_write Q mv (Some r) MessageCountRole (QInt (to_i32 (messageCount + 1))) m;
               m = room_write Q mv (Some r) LastMessageBody (QBytes (m_body mess)) m;
               m = room_write Q mv (Some r) LastMessageTime (QTime (m_time mess)) m
           in room_write Q mv (Some r) LastMessageSender (QInt (m_userID mess)) m))"

definition write_present ::
    "qt \<Rightarrow> (group_ext \<Rightarrow> group_ext) \<Rightarrow> int \<Rightarrow> int \<Rightarrow> ('x \<Rightarrow> qvariant) \<Rightarrow> 'x option \<Rightarrow> group_ext im \<Rightarrow> group_ext im" where
  "write_present Q mv r role f v m = (case v of None \<Rightarrow> m | Some x \<Rightarrow> room_write Q mv (Some r) role (f x) m)"

definition on_updateRoom :: "qt \<Rightarrow> (group_ext \<Rightarrow> group_ext) \<Rightarrow> group_update \<Rightarrow> group_ext im \<Rightarrow> group_ext im" where
  "on_updateRoom Q mv upd m =
     (case idToIndex (gu_id upd) m of
        None \<Rightarrow> m
      | Some r \<Rightarrow>
          (let m = write_present Q mv r TagRole QString (gu_tag upd) m;
               m = write_present Q mv r NameRole QString (gu_name upd) m;
               m = write_present Q mv r ForeignReadings QInt (gu_foreignReadings upd) m;
               m = write_present Q mv r LocalReadings QInt (gu_localReadings upd) m
           in write_present Q mv r MessageCountRole QInt (gu_messageCount upd) m))"

text \<open>\<open>create\<close> and the continuation of its call.\<close>

definition create_room :: "string \<Rightarrow> call" where
  "create_room name = Group_Create_exec name None"

definition create_room_done ::
    "qt \<Rightarrow> (group_ext \<Rightarrow> group_ext) \<Rightarrow> group_ext \<Rightarrow> group_ext im \<Rightarrow> (string + int) \<times> group_ext im" where
  "create_room_done Q mv res m =
     (if x_id res = 0 then (Inl ''Room id receive error'', m)
      else (Inr (x_id res), on_addRoom Q mv res m))"

definition load_rooms :: call where
  "load_rooms = Group_GetAll_exec"

definition load_rooms_done :: "qt \<Rightarrow> (group_ext \<Rightarrow> group_ext) \<Rightarrow> group_ext list \<Rightarrow> group_ext im \<Rightarrow> group_ext im" where
  "load_rooms_done Q mv rooms m = snd (insertRange (group_vt Q mv) 0 rooms m)"

definition add_user :: "int \<Rightarrow> int \<Rightarrow> call" where
  "add_user userID roomID = Group_AddUser_exec roomID userID"

definition remove_room :: "int \<Rightarrow> call" where
  "remove_room k = Group_Delete_exec k"

text \<open>\<open>update\<close> sends a default request: the data it is given is not used.\<close>

definition update_room :: "qhash \<Rightarrow> call" where
  "update_room data = Group_Update_exec 0 None None"

definition reset_rooms :: "group_ctrl \<Rightarrow> group_ctrl" where
  "reset_rooms c = c\<lparr>gc_rooms := reset_im (gc_rooms c)\<rparr>"

text \<open>The comparison of the stored \<open>int\<close> with a \<open>size_t\<close> is made on \<open>size_t\<close>.\<close>

definition setLocalReadings ::
    "qt \<Rightarrow> (group_ext \<Rightarrow> group_ext) \<Rightarrow> int \<Rightarrow> int \<Rightarrow> group_ctrl \<Rightarrow> (string + unit) \<times> group_ctrl" where
  "setLocalReadings Q mv roomID count c =
     (case idToIndex roomID (gc_rooms c) of
        None \<Rightarrow> (Inl ''Unknow roomID received'', c)
      | Some r \<Rightarrow>
          (if to_u64 (room_int Q mv (Some r) LocalReadings (gc_rooms c)) \<ge> count then (Inr (), c)
           else (Inr (), c\<lparr>gc_rooms := room_write Q mv (Some r) LocalReadings (QUInt (to_u32 count)) (gc_rooms c),
                           gc_queue := gc_queue c @ [roomID], gc_timer := True\<rparr>)))"

text \<open>The timeout of the single-shot timer: one call per queued room that is still known.\<close>

definition readings_timeout :: "qt \<Rightarrow> (group_ext \<Rightarrow> group_ext) \<Rightarrow> group_ctrl \<Rightarrow> call list \<times> group_ctrl" where
  "readings_timeout Q mv c =
     (concat (map (\<lambda>roomID.
        case idToIndex roomID (gc_rooms c) of
          None \<Rightarrow> []
        | Some r \<Rightarrow> [Message_MarkRead_exec roomID (to_u64 (room_int Q mv (Some r) LocalReadings (gc_rooms c)))])
        (gc_queue c)),
      c\<lparr>gc_queue := [], gc_timer := False\<rparr>)"

definition setLastSender :: "qt \<Rightarrow> (group_ext \<Rightarrow> group_ext) \<Rightarrow> int \<Rightarrow> int \<Rightarrow> group_ext im \<Rightarrow> group_ext im" where
  "setLastSender Q mv roomID k m =
     (case idToIndex roomID m of
        None \<Rightarrow> m | Some r \<Rightarrow> room_write Q mv (Some r) LastMessageSender (QInt k) m)"

definition setLastMessageBody :: "qt \<Rightarrow> (group_ext \<Rightarrow> group_ext) \<Rightarrow> int \<Rightarrow> string \<Rightarrow> group_ext im \<Rightarrow> group_ext im" where
  "setLastMessageBody Q mv roomID body m =
     (case idToIndex roomID m of
        None \<Rightarrow> m | Some r \<Rightarrow> room_write Q mv (Some r) LastMessageBody (QString body) m)"

definition setLastMessageTime :: "qt \<Rightarrow> (group_ext \<Rightarrow> group_ext) \<Rightarrow> int \<Rightarrow> datetime \<Rightarrow> group_ext im \<Rightarrow> group_ext im" where
  "setLastMessageTime Q mv roomID time m =
     (case idToIndex roomID m of
        None \<Rightarrow> m | Some r \<Rightarrow> room_write Q mv (Some r) LastMessageTime (QTime time) m)"

section \<open>Writing to a room\<close>

text \<open>
  The chain of writes of a handler, as a fold: each keeps the id, so the row found at the start
  is the row of the room until the end.
\<close>

definition at_room :: "qt \<Rightarrow> (group_ext \<Rightarrow> group_ext) \<Rightarrow> int \<Rightarrow> int \<Rightarrow> group_ext \<Rightarrow> group_ext im \<Rightarrow> bool" where
  "at_room Q mv k r x m \<longleftrightarrow> im_wf (group_vt Q mv) m \<and> idToIndex k m = Some r \<and> im_data m ! nat r = x"

lemma at_room_id: "qt_ok Q \<Longrightarrow> at_room Q mv k r x m \<Longrightarrow> x_id x = k"
  by (auto simp: at_room_def idToIndex_wf)

lemma room_write_data:
  assumes "qt_ok Q" and "at_room Q mv k r x m" and "role \<noteq> IDRole" and "v \<noteq> QInvalid"
    and "group_edit Q x v r role = Some y" and "x_id y = x_id x"
  shows "at_room Q mv k r y (room_write Q mv (Some r) role v m)"
    and "im_data (room_write Q mv (Some r) role v m) = (im_data m)[nat r := y]"
proof -
  let ?V = "group_vt Q mv"
  have wf: "im_wf ?V m" and i: "idToIndex k m = Some r" and x: "im_data m ! nat r = x"
    using assms(2) by (simp_all add: at_room_def)
  have r: "in_rows r m" "x_id x = k" using i x assms(1) by (auto simp: idToIndex_wf [OF wf])
  from setData_role_ok [OF group_uniform wf r(1), of v role y] assms(1,3-6) x
  obtain m' where m': "setData_role ?V (Some r) v role m = (True, m')" "im_wf ?V m'"
    "im_data m' = (im_data m)[nat r := y]"
    by (auto simp: vt_fields)
  have "in_rows r m'" "im_data m' ! nat r = y" using r(1) m'(3) by (auto simp: in_rows_def)
  then have "at_room Q mv k r y m'"
    using m'(2) r(2) assms(1,6) by (simp add: at_room_def idToIndex_wf [OF m'(2)])
  with m' show "at_room Q mv k r y (room_write Q mv (Some r) role v m)"
    "im_data (room_write Q mv (Some r) role v m) = (im_data m)[nat r := y]"
    by (simp_all add: room_write_def)
qed

lemma room_int_at:
  assumes "qt_ok Q" and "at_room Q mv k r x m"
  shows "room_int Q mv (Some r) MessageCountRole m = x_messageCount x"
    and "room_int Q mv (Some r) LocalReadings m = x_localReadings x"
proof -
  have "in_rows r m" "im_data m ! nat r = x"
    using assms(2) by (auto simp: at_room_def idToIndex_wf)
  with assms(1) show "room_int Q mv (Some r) MessageCountRole m = x_messageCount x"
    "room_int Q mv (Some r) LocalReadings m = x_localReadings x"
    by (simp_all add: room_int_def data_role_def group_read_def role_defs)
qed

text \<open>From the row back to the map: what the views see after a chain of writes.\<close>

lemma at_room_lookup:
  assumes "qt_ok Q" and "im_wf (group_vt Q mv) m" and "idToIndex k m = Some r"
    and "at_room Q mv k r y m'" and "im_data m' = (im_data m)[nat r := y]"
  shows "lookup_im m' = (lookup_im m)(k \<mapsto> y)"
    and "map x_id (im_data m') = map x_id (im_data m)"
proof -
  let ?V = "group_vt Q mv"
  have wf': "im_wf ?V m'" using assms(4) by (simp add: at_room_def)
  have y: "key ?V y = k" using at_room_id [OF assms(1,4)] assms(1) by simp
  have ids: "map (key ?V) (im_data n) = map x_id (im_data n)" for n using assms(1) by simp
  note u = rooms.fetch_update [OF assms(2) wf' assms(3,5) y]
  show "lookup_im m' = (lookup_im m)(k \<mapsto> y)"
    using u(1) by (simp add: lookup_im_fetch [OF wf'] lookup_im_fetch [OF assms(2)])
  show "map x_id (im_data m') = map x_id (im_data m)" using u(2) by (simp only: ids)
qed

lemma lookup_at_room:
  assumes "qt_ok Q" and "im_wf (group_vt Q mv) m" and "lookup_im m k = Some x"
  obtains r where "idToIndex k m = Some r" "at_room Q mv k r x m"
proof (cases "idToIndex k m")
  case None
  with assms(3) show ?thesis by (simp add: lookup_im_def data_at_def)
next
  case (Some r)
  with assms(2,3) have "at_room Q mv k r x m"
    by (auto simp: at_room_def lookup_im_def data_at_def split: if_splits)
  with Some show ?thesis by (rule that)
qed

lemma room_edits:
  assumes "qt_conv Q"
  shows "group_edit Q d (QInt n) r MessageCountRole = Some (d\<lparr>x_messageCount := n\<rparr>)"
    and "group_edit Q d (QBytes s) r LastMessageBody = Some (d\<lparr>x_lastBody := s\<rparr>)"
    and "group_edit Q d (QTime t) r LastMessageTime = Some (d\<lparr>x_lastMessageTime := t\<rparr>)"
    and "group_edit Q d (QInt n) r LastMessageSender = Some (d\<lparr>x_lastSender := n\<rparr>)"
    and "group_edit Q d (QString s) r TagRole = Some (d\<lparr>x_tag := s\<rparr>)"
    and "group_edit Q d (QString s) r NameRole = Some (d\<lparr>x_name := s\<rparr>)"
    and "group_edit Q d (QInt n) r ForeignReadings = Some (d\<lparr>x_foreignReadings := n\<rparr>)"
    and "group_edit Q d (QInt n) r LocalReadings = Some (d\<lparr>x_localReadings := n\<rparr>)"
    and "0 \<le> n \<Longrightarrow> n < 2 ^ 31 \<Longrightarrow>
      group_edit Q d (QUInt n) r LocalReadings = Some (d\<lparr>x_localReadings := n\<rparr>)"
  using assms by (simp_all add: group_edit_def role_defs)

lemma value_roles [simp]:
  "MessageCountRole \<noteq> IDRole" "LastMessageBody \<noteq> IDRole" "LastMessageTime \<noteq> IDRole"
  "LastMessageSender \<noteq> IDRole" "TagRole \<noteq> IDRole" "NameRole \<noteq> IDRole" "ForeignReadings \<noteq> IDRole"
  "LocalReadings \<noteq> IDRole"
  by (simp_all add: role_defs)


section \<open>The handlers\<close>

lemma lookup_None_index:
  "im_wf V m \<Longrightarrow> lookup_im m k = None \<longleftrightarrow> idToIndex k m = None"
  by (auto simp: lookup_im_def data_at_def idToIndex_wf split: option.splits)

definition with_message :: "message_data \<Rightarrow> group_ext \<Rightarrow> group_ext" where
  "with_message mess x =
     x\<lparr>x_messageCount := to_i32 (x_messageCount x + 1), x_lastBody := m_body mess,
       x_lastMessageTime := m_time mess, x_lastSender := m_userID mess\<rparr>"

lemma on_postMessage_at:
  assumes q: "qt_conv Q" and a: "at_room Q mv (m_roomID mess) r x m"
  shows "at_room Q mv (m_roomID mess) r (with_message mess x) (on_postMessage Q mv mess m)"
    and "im_data (on_postMessage Q mv mess m) = (im_data m)[nat r := with_message mess x]"
proof -
  note e = room_edits [OF q]
  have ok: "qt_ok Q" using q by simp
  have i: "idToIndex (m_roomID mess) m = Some r" using a by (simp add: at_room_def)
  let ?x1 = "x\<lparr>x_messageCount := to_i32 (x_messageCount x + 1)\<rparr>"
  let ?x2 = "?x1\<lparr>x_lastBody := m_body mess\<rparr>"
  let ?x3 = "?x2\<lparr>x_lastMessageTime := m_time mess\<rparr>"
  let ?x4 = "?x3\<lparr>x_lastSender := m_userID mess\<rparr>"
  note s1 = room_write_data [OF ok a value_roles(1) _ e(1) [of x "to_i32 (x_messageCount x + 1)"], simplified]
  note s2 = room_write_data [OF ok s1(1) value_roles(2) _ e(2) [of ?x1 "m_body mess"], simplified]
  note s3 = room_write_data [OF ok s2(1) value_roles(3) _ e(3) [of ?x2 "m_time mess"], simplified]
  note s4 = room_write_data [OF ok s3(1) value_roles(4) _ e(4) [of ?x3 "m_userID mess"], simplified]
  have run: "on_postMessage Q mv mess m =
      room_write Q mv (Some r) LastMessageSender (QInt (m_userID mess))
       (room_write Q mv (Some r) LastMessageTime (QTime (m_time mess))
        (room_write Q mv (Some r) LastMessageBody (QBytes (m_body mess))
         (room_write Q mv (Some r) MessageCountRole (QInt (to_i32 (x_messageCount x + 1))) m)))"
    by (simp add: on_postMessage_def i room_int_at(1) [OF ok a])
  show "at_room Q mv (m_roomID mess) r (with_message mess x) (on_postMessage Q mv mess m)"
    using s4(1) by (simp add: run with_message_def)
  show "im_data (on_postMessage Q mv mess m) = (im_data m)[nat r := with_message mess x]"
    using s1(2) s2(2) s3(2) s4(2) by (simp add: run with_message_def)
qed


definition two_rooms :: "group_ext im" where
  "two_rooms = \<lparr>im_data = [new_group_ext\<lparr>x_id := 5\<rparr>, new_group_ext\<lparr>x_id := 6\<rparr>],
     im_index = [5 \<mapsto> 0, 6 \<mapsto> 1], im_signals = []\<rparr>"

lemma two_rooms_wf: "im_wf (group_vt plain_qt id) two_rooms"
  by (auto simp: im_wf_def keys_def two_rooms_def fun_eq_iff plain_qt_ok)


lemma write_present_at:
  assumes "qt_ok Q" and "at_room Q mv k r x m" and "role \<noteq> IDRole"
    and "\<And>v. f v \<noteq> QInvalid" and "\<And>v. group_edit Q x (f v) r role = Some (u v x)" and "\<And>v. x_id (u v x) = x_id x"
  shows "at_room Q mv k r (set_opt u v x) (write_present Q mv r role f v m)"
    and "im_data (write_present Q mv r role f v m) = (im_data m)[nat r := set_opt u v x]"
proof -
  have "(im_data m)[nat r := x] = im_data m" using assms(2) by (auto simp: at_room_def)
  with room_write_data [OF assms(1-3) assms(4-6)] assms(2)
  show "at_room Q mv k r (set_opt u v x) (write_present Q mv r role f v m)"
    "im_data (write_present Q mv r role f v m) = (im_data m)[nat r := set_opt u v x]"
    by (cases v; simp add: write_present_def set_opt_def)+
qed

lemma set_opt_x_id [simp]:
  "(\<And>v. x_id (u v x) = x_id x) \<Longrightarrow> x_id (set_opt u v x) = x_id x"
  by (simp add: set_opt_def split: option.split)

lemma on_updateRoom_at:
  assumes q: "qt_conv Q" and a: "at_room Q mv (gu_id upd) r x m"
  shows "at_room Q mv (gu_id upd) r (group_update_extractTo upd x) (on_updateRoom Q mv upd m)"
    and "im_data (on_updateRoom Q mv upd m) = (im_data m)[nat r := group_update_extractTo upd x]"
proof -
  note e = room_edits [OF q]
  have ok: "qt_ok Q" using q by simp
  have i: "idToIndex (gu_id upd) m = Some r" using a by (simp add: at_room_def)
  have k: "x_id x = gu_id upd" by (rule at_room_id [OF ok a])
  note s1 = write_present_at [OF ok a value_roles(5), where f = QString and u = "\<lambda>v d. d\<lparr>x_tag := v\<rparr>"
      and v = "gu_tag upd", simplified, OF e(5)]
  note s2 = write_present_at [OF ok s1(1) value_roles(6), where f = QString and u = "\<lambda>v d. d\<lparr>x_name := v\<rparr>"
      and v = "gu_name upd", simplified, OF e(6)]
  note s3 = write_present_at [OF ok s2(1) value_roles(7), where f = QInt and u = "\<lambda>v d. d\<lparr>x_foreignReadings := v\<rparr>"
      and v = "gu_foreignReadings upd", simplified, OF e(7)]
  note s4 = write_present_at [OF ok s3(1) value_roles(8), where f = QInt and u = "\<lambda>v d. d\<lparr>x_localReadings := v\<rparr>"
      and v = "gu_localReadings upd", simplified, OF e(8)]
  note s5 = write_present_at [OF ok s4(1) value_roles(1), where f = QInt and u = "\<lambda>v d. d\<lparr>x_messageCount := v\<rparr>"
      and v = "gu_messageCount upd", simplified, OF e(1)]
  show "at_room Q mv (gu_id upd) r (group_update_extractTo upd x) (on_updateRoom Q mv upd m)"
    using s5(1) by (simp add: on_updateRoom_def i group_update_extractTo_def k)
  show "im_data (on_updateRoom Q mv upd m) = (im_data m)[nat r := group_update_extractTo upd x]"
    using s1(2) s2(2) s3(2) s4(2) s5(2) by (simp add: on_updateRoom_def i group_update_extractTo_def k)
qed


definition example_update :: group_update where
  "example_update = new_group_update\<lparr>gu_id := 5, gu_name := Some ''n'', gu_localReadings := Some 3\<rparr>"



section \<open>New rooms\<close>

lemma on_addRoom_ok:
  assumes "qt_ok Q" and "im_wf (group_vt Q mv) m" and "rowCount m \<noteq> 1" and "lookup_im m 0 = None"
    and "lookup_im m (x_id g) = None"
  shows "im_wf (group_vt Q mv) (on_addRoom Q mv g m)"
    and "im_data (on_addRoom Q mv g m) = g # im_data m"
proof -
  let ?V = "group_vt Q mv"
  have new: "0 \<notin> set (keys ?V m)" "x_id g \<notin> set (keys ?V m)"
    using assms(2,4,5) by (simp_all add: lookup_None_index [OF assms(2)] idToIndex_None_wf)
  have kn: "key ?V (vt_create ?V) = 0" using assms(1) by (simp add: new_group_ext_def invalidID_def)
  obtain m1 where m1: "insertRows ?V 0 1 m = (True, m1)" "im_wf ?V m1" "im_data m1 = vt_create ?V # im_data m"
    using insertRow_front_ok [OF group_uniform assms(2,3)] new(1) kn by auto
  have i: "model_index 0 m1 = Some 0" "in_rows 0 m1" using m1(3) by (simp_all add: model_index_def in_rows_def)
  have "key ?V g \<notin> set (keys ?V m1) - {key ?V (im_data m1 ! nat 0)}"
    using new(2) m1(3) assms(1) by (simp add: keys_def)
  from setData_value_ok [OF group_uniform m1(2) i(2) this]
  show "im_wf ?V (on_addRoom Q mv g m)" "im_data (on_addRoom Q mv g m) = g # im_data m"
    using m1 i by (auto simp: on_addRoom_def)
qed

text \<open>
  Adding a room to a model that does not hold exactly one keeps the index exact and
  makes the new room, and no other, appear in front.
\<close>

theorem addRoom_adds:
  assumes "qt_ok Q" and "im_wf (group_vt Q mv) m" and "rowCount m \<noteq> 1" and "lookup_im m 0 = None"
    and "lookup_im m (x_id g) = None"
  shows "im_wf (group_vt Q mv) (on_addRoom Q mv g m) \<and> im_data (on_addRoom Q mv g m) = g # im_data m \<and>
           lookup_im (on_addRoom Q mv g m) = (lookup_im m)(x_id g \<mapsto> g)"
proof -
  note a = on_addRoom_ok [OF assms]
  have "x_id g \<notin> key (group_vt Q mv) ` set (im_data m)"
    using assms(5) idToIndex_None_wf [OF assms(2), of "x_id g"] lookup_None_index [OF assms(2), of "x_id g"]
    by (simp add: keys_def)
  with a assms(1) show ?thesis
    by (simp add: lookup_entries [OF a(1)] lookup_entries [OF assms(2)] entries_Cons)
qed

theorem addRoom_adds_witness:
  "im_wf (group_vt plain_qt id) (on_addRoom plain_qt id (new_group_ext\<lparr>x_id := 9\<rparr>) two_rooms) \<and>
   im_data (on_addRoom plain_qt id (new_group_ext\<lparr>x_id := 9\<rparr>) two_rooms) = new_group_ext\<lparr>x_id := 9\<rparr> # im_data two_rooms \<and>
   lookup_im (on_addRoom plain_qt id (new_group_ext\<lparr>x_id := 9\<rparr>) two_rooms) =
     (lookup_im two_rooms)(x_id (new_group_ext\<lparr>x_id := 9\<rparr>) \<mapsto> new_group_ext\<lparr>x_id := 9\<rparr>)"
  by (rule addRoom_adds [OF plain_qt_ok two_rooms_wf])
    (simp_all add: two_rooms_def rowCount_def lookup_im_def idToIndex_def data_at_def)

text \<open>
  The second room breaks the first: once a room has been added to a model with one
  room, a message sent to the old room is counted and previewed on the new one.
\<close>

theorem second_room_takes_messages_of_first:
  assumes "qt_conv Q" and "im_wf (group_vt Q mv) m" and "im_data m = [x]"
    and "x_id x \<noteq> 0" and "x_id g \<noteq> 0" and "x_id g \<noteq> x_id x" and "m_roomID mess = x_id x"
  shows "im_data (on_postMessage Q mv mess (on_addRoom Q mv g m)) = [with_message mess g, x]"
proof -
  let ?V = "group_vt Q mv"
  have ok: "qt_ok Q" using assms(1) by simp
  have ix: "im_index m = [x_id x \<mapsto> 0]"
    using assms(2,3) ok by (auto simp: im_wf_def keys_def fun_eq_iff)
  have id: "id_of ?V y row = x_id y" for y row
    using ok group_uniform [of Q mv] by (simp add: uniform_def)
  define n where "n = on_addRoom Q mv g m"
  have n: "im_data n = [g, x]" "im_index n = [x_id x \<mapsto> 0, x_id g \<mapsto> 0]"
    using assms(3-6) ix
    by (auto simp: n_def on_addRoom_def insertRows_def setData_value_def model_index_def in_rows_def
        Let_def id new_group_ext_def invalidID_def fun_eq_iff)
  have wr: "im_data (room_write Q mv (Some 0) role v p) = [y', x] \<and> im_index (room_write Q mv (Some 0) role v p) = im_index n"
    if "im_data p = [y, x]" "im_index p = im_index n" "role \<noteq> IDRole" "v \<noteq> QInvalid"
      "group_edit Q y v 0 role = Some y'" for p y y' v role
    using that by (simp add: room_write_def setData_role_def in_rows_def Let_def)
  note e = room_edits [OF assms(1)]
  have c: "room_int Q mv (Some 0) MessageCountRole n = x_messageCount g"
    using n(1) ok by (simp add: room_int_def data_role_def in_rows_def group_read_def role_defs)
  have i: "idToIndex (m_roomID mess) n = Some 0"
    using n assms(6,7) by (simp add: idToIndex_def model_index_def in_rows_def)
  note w1 = wr [OF n(1) refl value_roles(1) _ e(1) [of g "to_i32 (x_messageCount g + 1)"], simplified]
  note w2 = wr [OF conjunct1 [OF w1] conjunct2 [OF w1] value_roles(2) _ e(2) [where s = "m_body mess"], simplified]
  note w3 = wr [OF conjunct1 [OF w2] conjunct2 [OF w2] value_roles(3) _ e(3) [where t = "m_time mess"], simplified]
  note w4 = wr [OF conjunct1 [OF w3] conjunct2 [OF w3] value_roles(4) _ e(4) [where n = "m_userID mess"], simplified]
  show ?thesis
    unfolding n_def [symmetric] using w4 by (simp add: on_postMessage_def i c with_message_def)
qed

theorem second_room_takes_messages_of_first_witness:
  "im_data (on_postMessage plain_qt id (new_message\<lparr>m_roomID := 5\<rparr>)
     (on_addRoom plain_qt id (new_group_ext\<lparr>x_id := 9\<rparr>)
       \<lparr>im_data = [new_group_ext\<lparr>x_id := 5\<rparr>], im_index = [5 \<mapsto> 0], im_signals = []\<rparr>)) =
     [with_message (new_message\<lparr>m_roomID := 5\<rparr>) (new_group_ext\<lparr>x_id := 9\<rparr>), new_group_ext\<lparr>x_id := 5\<rparr>]"
  by (rule second_room_takes_messages_of_first [OF plain_qt_conv])
    (auto simp: im_wf_def keys_def fun_eq_iff plain_qt_ok)

section \<open>Read counters\<close>

text \<open>The timer runs exactly while rooms are waiting to be reported.\<close>

definition readings_inv :: "group_ctrl \<Rightarrow> bool" where
  "readings_inv c \<longleftrightarrow> (gc_timer c \<longleftrightarrow> gc_queue c \<noteq> [])"

lemma readings_inv_new: "readings_inv new_group_ctrl"
  by (simp add: readings_inv_def new_group_ctrl_def)

lemma readings_inv_timeout: "readings_inv (snd (readings_timeout Q mv c))"
  by (simp add: readings_inv_def readings_timeout_def)

lemma readings_inv_set: "readings_inv c \<Longrightarrow> readings_inv (snd (setLocalReadings Q mv k n c))"
  by (simp add: readings_inv_def setLocalReadings_def split: option.split)

lemma setLocalReadings_at:
  assumes q: "qt_conv Q" and a: "at_room Q mv k r x (gc_rooms c)"
    and b: "0 \<le> x_localReadings x" "x_localReadings x < n" "n < 2 ^ 31"
  shows "at_room Q mv k r (x\<lparr>x_localReadings := n\<rparr>) (gc_rooms (snd (setLocalReadings Q mv k n c)))"
    and "im_data (gc_rooms (snd (setLocalReadings Q mv k n c))) = (im_data (gc_rooms c))[nat r := x\<lparr>x_localReadings := n\<rparr>]"
    and "gc_queue (snd (setLocalReadings Q mv k n c)) = gc_queue c @ [k]"
    and "gc_timer (snd (setLocalReadings Q mv k n c))"
proof -
  have ok: "qt_ok Q" using q by simp
  have i: "idToIndex k (gc_rooms c) = Some r" using a by (simp add: at_room_def)
  have v: "\<not> to_u64 (room_int Q mv (Some r) LocalReadings (gc_rooms c)) \<ge> n"
    using b by (simp add: room_int_at(2) [OF ok a])
  have u: "to_u32 n = n" using b by simp
  note w = room_write_data [OF ok a value_roles(8) _ room_edits(9) [OF q, of n x], simplified]
  show "at_room Q mv k r (x\<lparr>x_localReadings := n\<rparr>) (gc_rooms (snd (setLocalReadings Q mv k n c)))"
    "im_data (gc_rooms (snd (setLocalReadings Q mv k n c))) = (im_data (gc_rooms c))[nat r := x\<lparr>x_localReadings := n\<rparr>]"
    "gc_queue (snd (setLocalReadings Q mv k n c)) = gc_queue c @ [k]"
    "gc_timer (snd (setLocalReadings Q mv k n c))"
    using w b v by (simp_all add: setLocalReadings_def i u)
qed

lemma to_u64_negative: "- (2 ^ 31) \<le> n \<Longrightarrow> n < 0 \<Longrightarrow> to_u64 n = n + 2 ^ 64"
proof -
  assume "- (2 ^ 31) \<le> n" "n < 0"
  then have "(n + 2 ^ 64) mod 2 ^ 64 = n + 2 ^ 64" by (intro mod_pos_pos_trivial) auto
  then show ?thesis by (simp add: to_u64_def)
qed

lemma setLocalReadings_same:
  assumes "qt_ok Q" and "at_room Q mv k r x (gc_rooms c)" and "- (2 ^ 31) \<le> x_localReadings x"
    and "x_localReadings x < 2 ^ 31" and "n < 2 ^ 31" and "x_localReadings x < 0 \<or> n \<le> x_localReadings x"
  shows "setLocalReadings Q mv k n c = (Inr (), c)"
  using assms(2-6) room_int_at(2) [OF assms(1,2)] to_u64_negative [OF assms(3)]
  by (cases "x_localReadings x < 0") (simp_all add: setLocalReadings_def at_room_def)


definition example_ctrl :: group_ctrl where
  "example_ctrl = \<lparr>gc_rooms = two_rooms, gc_queue = [], gc_timer = False\<rparr>"

lemma example_ctrl_rooms:
  "im_wf (group_vt plain_qt id) (gc_rooms example_ctrl)"
  "lookup_im (gc_rooms example_ctrl) 5 = Some (new_group_ext\<lparr>x_id := 5\<rparr>)"
  by (simp_all add: example_ctrl_def two_rooms_wf)
    (simp add: lookup_im_def two_rooms_def idToIndex_def model_index_def in_rows_def data_at_def)


text \<open>
  No raised counter is lost: a request that raises the counter of a known room starts
  the timer, and when the timer fires next the server is told the new value; the queue is empty then.
\<close>

theorem raised_readings_are_reported:
  assumes "qt_conv Q" and "im_wf (group_vt Q mv) (gc_rooms c)" and "lookup_im (gc_rooms c) k = Some x"
    and "0 \<le> x_localReadings x" and "x_localReadings x < n" and "n < 2 ^ 31"
  shows "\<exists>c' calls c''. setLocalReadings Q mv k n c = (Inr (), c') \<and> gc_timer c' \<and>
           readings_timeout Q mv c' = (calls, c'') \<and> Message_MarkRead_exec k n \<in> set calls \<and>
           gc_queue c'' = [] \<and> readings_inv c''"
proof -
  have ok: "qt_ok Q" using assms(1) by simp
  from assms(3) obtain r where r: "idToIndex k (gc_rooms c) = Some r" "at_room Q mv k r x (gc_rooms c)"
    by (rule lookup_at_room [OF ok assms(2)])
  note s = setLocalReadings_at [OF assms(1) r(2) assms(4-6)]
  let ?c = "snd (setLocalReadings Q mv k n c)"
  have i: "idToIndex k (gc_rooms ?c) = Some r" using s(1) by (simp add: at_room_def)
  have "to_u64 (room_int Q mv (Some r) LocalReadings (gc_rooms ?c)) = n"
    using assms(4-6) by (simp add: room_int_at(2) [OF ok s(1)])
  then have "Message_MarkRead_exec k n \<in> set (fst (readings_timeout Q mv ?c))"
    by (simp add: readings_timeout_def s(3) i)
  moreover have "gc_queue (snd (readings_timeout Q mv ?c)) = []" by (simp add: readings_timeout_def)
  moreover have "fst (setLocalReadings Q mv k n c) = Inr ()" using r by (simp add: setLocalReadings_def)
  ultimately show ?thesis
    using s(4) readings_inv_timeout [of Q mv ?c]
    by (cases "setLocalReadings Q mv k n c"; cases "readings_timeout Q mv ?c") simp
qed

theorem raised_readings_are_reported_witness:
  "\<exists>c' calls c''. setLocalReadings plain_qt id 5 4 example_ctrl = (Inr (), c') \<and> gc_timer c' \<and>
     readings_timeout plain_qt id c' = (calls, c'') \<and> Message_MarkRead_exec 5 4 \<in> set calls \<and>
     gc_queue c'' = [] \<and> readings_inv c''"
  by (rule raised_readings_are_reported [OF plain_qt_conv example_ctrl_rooms])
    (simp_all add: new_group_ext_def)

end
