(* ===== verification/MessageController.thy ===== *)
theory MessageController
  imports Models Api
begin

text \<open>
  \<open>Message::CallerController\<close> (\<open>lib/network/controllers/messagecontroller.cpp\<close>): one
  message model per room, created on demand. A message that is sent is shown at once under a temporary
  negative id, and its row is replaced when the answer of the server arrives, which may be after other
  sends and incoming messages: sending and its continuation are two steps. The models are shared with
  the views and with pending continuations, so they live in a heap of addresses.
\<close>

record message_ctrl =
  mc_models :: "nat \<Rightarrow> message_data im"
  mc_history :: "int \<Rightarrow> nat option"
  mc_next :: nat
  mc_tempCounter :: int

definition new_message_ctrl :: message_ctrl where
  "new_message_ctrl =
     \<lparr>mc_models = (\<lambda>_. empty_im), mc_history = Map.empty, mc_next = 0, mc_tempCounter = 1\<rparr>"

section \<open>Operations\<close>

text \<open>\<open>new Message::Model\<close>, entered in the history.\<close>

definition add_model :: "int \<Rightarrow> message_ctrl \<Rightarrow> nat \<times> message_ctrl" where
  "add_model roomID c =
     (mc_next c, c\<lparr>mc_models := (mc_models c)(mc_next c := empty_im),
        mc_history := (mc_history c)(roomID \<mapsto> mc_next c), mc_next := Suc (mc_next c)\<rparr>)"

definition model_of :: "int \<Rightarrow> message_ctrl \<Rightarrow> nat \<times> message_ctrl" where
  "model_of roomID c = (case mc_history c roomID of None \<Rightarrow> add_model roomID c | Some a \<Rightarrow> (a, c))"

definition update_model :: "nat \<Rightarrow> (message_data im \<Rightarrow> message_data im) \<Rightarrow> message_ctrl \<Rightarrow> message_ctrl" where
  "update_model a f c = c\<lparr>mc_models := (mc_models c)(a := f (mc_models c a))\<rparr>"

definition on_message :: "qt \<Rightarrow> (message_data \<Rightarrow> message_data) \<Rightarrow> message_data \<Rightarrow> message_ctrl \<Rightarrow> message_ctrl" where
  "on_message Q mv data c =
     (if m_id data = invalidID \<or> m_roomID data = invalidID then c
      else let (a, c) = model_of (m_roomID data) c
           in update_model a (\<lambda>m. snd (insertData (message_vt Q mv) 0 data m)) c)"

definition reset_messages :: "message_ctrl \<Rightarrow> message_ctrl" where
  "reset_messages c = c\<lparr>mc_history := Map.empty\<rparr>"

definition message_write ::
    "qt \<Rightarrow> (message_data \<Rightarrow> message_data) \<Rightarrow> int option \<Rightarrow> qvariant \<Rightarrow> int \<Rightarrow> message_data im \<Rightarrow> message_data im" where
  "message_write Q mv index v role m = snd (setData_role (message_vt Q mv) index v role m)"

text \<open>
  The row of a message that is being sent: \<open>now\<close> is the clock, \<open>user\<close> the current user.
\<close>

definition show_sending ::
    "qt \<Rightarrow> (message_data \<Rightarrow> message_data) \<Rightarrow> string \<Rightarrow> int \<Rightarrow> int \<Rightarrow> datetime \<Rightarrow> message_data im \<Rightarrow> message_data im" where
  "show_sending Q mv body tempId user now m =
     (let index = model_index 0 m;
          m = message_write Q mv index (QString body) BodyRole m;
          m = message_write Q mv index (QInt tempId) IDRole m;
          m = message_write Q mv index (QInt user) UserIdRole m;
          m = message_write Q mv index (QTime now) TimeRole m
      in message_write Q mv index (QInt (- 1)) MessageIndexRole m)"

text \<open>
  \<open>create\<close>: the call, and the model and temporary id that the continuation captures. If
  \<open>insertRow\<close> fails the function ends without a \<open>return\<close> (\<open>None\<close>).
\<close>

definition create_message ::
    "qt \<Rightarrow> (message_data \<Rightarrow> message_data) \<Rightarrow> string \<Rightarrow> int \<Rightarrow> int \<Rightarrow> datetime \<Rightarrow> message_ctrl \<Rightarrow>
     (call \<times> nat \<times> int) option \<times> message_ctrl" where
  "create_message Q mv body roomID user now c =
     (let (a, c) = model_of roomID c
      in case insertRows (message_vt Q mv) 0 1 (mc_models c a) of
           (False, m) \<Rightarrow> (None, c)
         | (True, m) \<Rightarrow>
             (let n = mc_tempCounter c + 1
              in (Some (Message_Create_exec body roomID, a, - n),
                  (update_model a (\<lambda>_. show_sending Q mv body (- n) user now m) c)\<lparr>mc_tempCounter := n\<rparr>)))"

definition create_message_done ::
    "qt \<Rightarrow> (message_data \<Rightarrow> message_data) \<Rightarrow> nat \<Rightarrow> int \<Rightarrow> message_data \<Rightarrow> message_ctrl \<Rightarrow> int \<times> message_ctrl" where
  "create_message_done Q mv a tempId data c =
     (let m = mc_models c a; index = idToIndex tempId m
      in case index of
           None \<Rightarrow> (invalidID, c)
         | Some r \<Rightarrow>
             (case setData_value (message_vt Q mv) index data m of
                (True, m') \<Rightarrow> (m_id data, update_model a (\<lambda>_. m') c)
              | (False, m') \<Rightarrow> (invalidID, update_model a (\<lambda>_. m') c)))"

definition load_messages :: "int \<Rightarrow> int \<Rightarrow> int \<Rightarrow> call" where
  "load_messages roomID from to = Message_GetByIndex_exec roomID from to"

text \<open>\<open>_history[roomID]\<close> of a missing room is a null pointer, which the next line dereferences.\<close>

definition load_messages_done ::
    "qt \<Rightarrow> (message_data \<Rightarrow> message_data) \<Rightarrow> int \<Rightarrow> int \<Rightarrow> message_data list \<Rightarrow> message_ctrl \<Rightarrow> message_ctrl option" where
  "load_messages_done Q mv roomID row res c =
     (case mc_history c roomID of
        None \<Rightarrow> None
      | Some a \<Rightarrow> Some (update_model a (\<lambda>m. snd (insertRange (message_vt Q mv) row (rev res) m)) c))"

section \<open>Sending\<close>

definition sending_row :: "qt \<Rightarrow> string \<Rightarrow> int \<Rightarrow> int \<Rightarrow> datetime \<Rightarrow> message_data" where
  "sending_row Q body tempId user now =
     new_message\<lparr>m_id := tempId, m_userID := user, m_time := now, m_body := body,
       m_messageIndex := q_uint Q (QInt (- 1))\<rparr>"

lemma message_edits:
  assumes "qt_conv Q"
  shows "message_edit Q d (QString s) r BodyRole = Some (d\<lparr>m_body := s\<rparr>)"
    and "message_edit Q d (QInt n) r IDRole = Some (d\<lparr>m_id := n\<rparr>)"
    and "message_edit Q d (QInt n) r UserIdRole = Some (d\<lparr>m_userID := n\<rparr>)"
    and "message_edit Q d (QTime t) r TimeRole = Some (d\<lparr>m_time := t\<rparr>)"
    and "message_edit Q d (QInt n) r MessageIndexRole = Some (d\<lparr>m_messageIndex := q_uint Q (QInt n)\<rparr>)"
  using assms by (simp_all add: message_edit_def role_defs Let_def)

lemma message_roles [simp]:
  "BodyRole \<noteq> IDRole" "UserIdRole \<noteq> IDRole" "TimeRole \<noteq> IDRole" "MessageIndexRole \<noteq> IDRole"
  by (simp_all add: role_defs)

text \<open>The writes to the front row, on any model: they do not look at the other rows.\<close>

lemma message_write_front:
  assumes "im_data p = y # ys" and "v \<noteq> QInvalid" and "role \<noteq> IDRole" and "message_edit Q y v 0 role = Some z"
  shows "im_data (message_write Q mv (Some 0) v role p) = z # ys \<and>
         im_index (message_write Q mv (Some 0) v role p) = im_index p"
  using assms by (simp add: message_write_def setData_role_def in_rows_def Let_def)

lemma message_write_front_id:
  assumes "qt_conv Q" and "im_data p = y # ys" and "m_id y \<noteq> t"
  shows "im_data (message_write Q mv (Some 0) (QInt t) IDRole p) = y\<lparr>m_id := t\<rparr> # ys \<and>
         im_index (message_write Q mv (Some 0) (QInt t) IDRole p) = (im_index p)(t \<mapsto> 0, m_id y := None)"
  using assms message_edits(2) [OF assms(1)]
  by (simp add: message_write_def setData_role_def in_rows_def Let_def id_of_def message_read_def)

lemma show_sending_front:
  assumes q: "qt_conv Q" and d: "im_data m = new_message # ys" and t: "tempId \<noteq> 0"
  shows "im_data (show_sending Q mv body tempId user now m) = sending_row Q body tempId user now # ys"
    and "im_index (show_sending Q mv body tempId user now m) = (im_index m)(tempId \<mapsto> 0, 0 := None)"
proof -
  note e = message_edits [OF q]
  have i: "model_index 0 m = Some 0" using d by (simp add: model_index_def in_rows_def)
  note w1 = message_write_front [where mv = mv, OF d _ message_roles(1) e(1) [where s = body], simplified]
  note w2 = message_write_front_id [where mv = mv, OF q conjunct1 [OF w1], where t = tempId, simplified]
  have t': "m_id (new_message\<lparr>m_body := body\<rparr>) \<noteq> tempId"
    using t by (simp add: new_message_def invalidID_def)
  note w3 = message_write_front [where mv = mv, OF conjunct1 [OF w2 [OF t' [simplified]]] _ message_roles(2) e(3) [where n = user], simplified]
  note w4 = message_write_front [where mv = mv, OF conjunct1 [OF w3] _ message_roles(3) e(4) [where t = now], simplified]
  note w5 = message_write_front [where mv = mv, OF conjunct1 [OF w4] _ message_roles(4) e(5) [where n = "- 1"], simplified]
  show "im_data (show_sending Q mv body tempId user now m) = sending_row Q body tempId user now # ys"
    using w5 by (simp add: show_sending_def Let_def i sending_row_def new_message_def)
  show "im_index (show_sending Q mv body tempId user now m) = (im_index m)(tempId \<mapsto> 0, 0 := None)"
    using w1 w2 [OF t' [simplified]] w3 w4 w5
    by (simp add: show_sending_def Let_def i new_message_def invalidID_def)
qed


lemma lookup_None_keys:
  "im_wf V m \<Longrightarrow> lookup_im m k = None \<longleftrightarrow> k \<notin> set (keys V m)"
  by (metis lookup_entries dom_entries domIff keys_def image_set)

lemma sending_wf:
  assumes q: "qt_conv Q" and wf: "im_wf (message_vt Q mv) m" and n: "rowCount m \<noteq> 1"
    and z: "lookup_im m 0 = None" "lookup_im m t = None" "t \<noteq> 0"
  shows "\<exists>m1. insertRows (message_vt Q mv) 0 1 m = (True, m1) \<and>
           im_wf (message_vt Q mv) (show_sending Q mv body t user now m1) \<and>
           im_data (show_sending Q mv body t user now m1) = sending_row Q body t user now # im_data m"
proof -
  let ?V = "message_vt Q mv"
  have ok: "qt_ok Q" using q by simp
  have new: "0 \<notin> set (keys ?V m)" "t \<notin> set (keys ?V m)"
    using z by (simp_all add: lookup_None_keys [OF wf])
  have kn: "key ?V (vt_create ?V) = 0" using ok by (simp add: new_message_def invalidID_def)
  obtain m1 where m1: "insertRows ?V 0 1 m = (True, m1)" "im_wf ?V m1" "im_data m1 = new_message # im_data m"
    using insertRow_front_ok [OF message_uniform wf n] new(1) kn by auto
  note f = show_sending_front [OF q m1(3) z(3), where mv = mv]
  let ?s = "show_sending Q mv body t user now m1"
  have "keys ?V m1 = 0 # keys ?V m" using m1(3) ok by (simp add: keys_def new_message_def invalidID_def)
  then have ix: "im_index m1 = rows_from 0 ([] @ 0 # keys ?V m)" and d: "distinct ([] @ 0 # keys ?V m)"
    using m1(2) by (simp_all add: im_wf_def)
  have k: "keys ?V ?s = t # keys ?V m" using f(1) ok by (simp add: keys_def sending_row_def)
  have "im_index ?s = rows_from 0 (t # keys ?V m)"
    using index_replace [OF d, of t] new(2) z(3) by (simp add: f(2) ix)
  then have "im_wf ?V ?s" using d new by (simp add: im_wf_def k)
  with m1(1) f(1) show ?thesis by blast
qed

text \<open>
  A message sent alone arrives once: \<open>create\<close> shows it in front under its temporary
  id and asks the server; the answer replaces exactly that row, under the id of the server, the
  future holds that id, and the index is exact before and after.
\<close>

theorem sent_message_is_replaced:
  assumes "qt_conv Q" and "mc_history c roomID = Some a" and "im_wf (message_vt Q mv) (mc_models c a)"
    and "rowCount (mc_models c a) \<noteq> 1" and "0 \<le> mc_tempCounter c"
    and "lookup_im (mc_models c a) 0 = None" and "lookup_im (mc_models c a) (- (mc_tempCounter c + 1)) = None"
    and "lookup_im (mc_models c a) (m_id data) = None"
  shows "\<exists>c1 c2. create_message Q mv body roomID user now c =
             (Some (Message_Create_exec body roomID, a, - (mc_tempCounter c + 1)), c1) \<and>
           im_wf (message_vt Q mv) (mc_models c1 a) \<and>
           im_data (mc_models c1 a) =
             sending_row Q body (- (mc_tempCounter c + 1)) user now # im_data (mc_models c a) \<and>
           create_message_done Q mv a (- (mc_tempCounter c + 1)) data c1 = (m_id data, c2) \<and>
           im_wf (message_vt Q mv) (mc_models c2 a) \<and>
           im_data (mc_models c2 a) = data # im_data (mc_models c a)"
proof -
  let ?V = "message_vt Q mv" and ?t = "- (mc_tempCounter c + 1)" and ?m = "mc_models c a"
  have ok: "qt_ok Q" using assms(1) by simp
  have "?t \<noteq> 0" using assms(5) by simp
  from sending_wf [OF assms(1,3,4,6,7) this] obtain m1 where m1: "insertRows ?V 0 1 ?m = (True, m1)"
    "im_wf ?V (show_sending Q mv body ?t user now m1)"
    "im_data (show_sending Q mv body ?t user now m1) = sending_row Q body ?t user now # im_data ?m" by blast
  let ?s = "show_sending Q mv body ?t user now m1"
  define c1 where "c1 = (update_model a (\<lambda>_. ?s) c)\<lparr>mc_tempCounter := mc_tempCounter c + 1\<rparr>"
  have c1: "create_message Q mv body roomID user now c = (Some (Message_Create_exec body roomID, a, ?t), c1)"
    "mc_models c1 a = ?s"
    using assms(2) m1(1) by (simp_all add: create_message_def model_of_def c1_def update_model_def Let_def)
  have row: "in_rows 0 ?s" "key ?V (im_data ?s ! nat 0) = ?t"
    using m1(3) ok by (simp_all add: in_rows_def sending_row_def)
  have id: "idToIndex ?t ?s = Some 0" by (rule iffD2 [OF idToIndex_wf [OF m1(2)] conjI [OF row]])
  have "m_id data \<notin> set (keys ?V ?m)" using assms(8) by (simp add: lookup_None_keys [OF assms(3)])
  then have "key ?V data \<notin> set (keys ?V ?s) - {key ?V (im_data ?s ! nat 0)}"
    using m1(3) ok by (auto simp: keys_def sending_row_def)
  from setData_value_ok [OF message_uniform m1(2) row(1) this] obtain m2 where m2:
    "setData_value ?V (Some 0) data ?s = (True, m2)" "im_wf ?V m2" "im_data m2 = (im_data ?s)[nat 0 := data]" by blast
  have "create_message_done Q mv a ?t data c1 = (m_id data, update_model a (\<lambda>_. m2) c1)"
    using m2(1) id by (simp add: create_message_done_def c1(2) Let_def)
  moreover have "im_data (mc_models (update_model a (\<lambda>_. m2) c1) a) = data # im_data ?m"
    using m2(3) m1(3) by (simp add: update_model_def)
  moreover have "im_wf ?V (mc_models (update_model a (\<lambda>_. m2) c1) a)"
    using m2(2) by (simp add: update_model_def)
  ultimately show ?thesis using c1 m1(2,3) by metis
qed

definition example_message_ctrl :: message_ctrl where
  "example_message_ctrl = snd (add_model 3 new_message_ctrl)"

lemma example_message_ctrl_model:
  "mc_history example_message_ctrl 3 = Some 0" "mc_models example_message_ctrl 0 = empty_im"
  "mc_tempCounter example_message_ctrl = 1"
  by (simp_all add: example_message_ctrl_def add_model_def new_message_ctrl_def)

lemma lookup_empty [simp]: "lookup_im empty_im k = None"
  by (simp add: lookup_im_def idToIndex_def empty_im_def data_at_def)

theorem sent_message_is_replaced_witness:
  "\<exists>c1 c2. create_message plain_qt id ''hi'' 3 7 None example_message_ctrl =
       (Some (Message_Create_exec ''hi'' 3, 0, - (mc_tempCounter example_message_ctrl + 1)), c1) \<and>
     im_wf (message_vt plain_qt id) (mc_models c1 0) \<and>
     im_data (mc_models c1 0) =
       sending_row plain_qt ''hi'' (- (mc_tempCounter example_message_ctrl + 1)) 7 None # im_data (mc_models example_message_ctrl 0) \<and>
     create_message_done plain_qt id 0 (- (mc_tempCounter example_message_ctrl + 1)) (new_message\<lparr>m_id := 12\<rparr>) c1 =
       (m_id (new_message\<lparr>m_id := 12\<rparr>), c2) \<and>
     im_wf (message_vt plain_qt id) (mc_models c2 0) \<and>
     im_data (mc_models c2 0) = new_message\<lparr>m_id := 12\<rparr> # im_data (mc_models example_message_ctrl 0)"
  by (rule sent_message_is_replaced [OF plain_qt_conv])
    (simp_all only: example_message_ctrl_model im_wf_empty lookup_empty, simp_all add: rowCount_def empty_im_def)

text \<open>
  Two messages sent in an empty room before the first answer: the answer to the first
  overwrites the row of the second, the first stays under its temporary id, and the answer to the
  second finds no row and is dropped.
\<close>

theorem second_send_loses_row:
  assumes "qt_conv Q" and "mc_history c roomID = Some a" and "mc_models c a = empty_im"
    and "mc_tempCounter c = n" and "0 \<le> n" and "0 < m_id d1"
  shows "\<exists>c1 c2 c3. create_message Q mv b1 roomID user t1 c = (Some (Message_Create_exec b1 roomID, a, - (n + 1)), c1) \<and>
           create_message Q mv b2 roomID user t2 c1 = (Some (Message_Create_exec b2 roomID, a, - (n + 2)), c2) \<and>
           create_message_done Q mv a (- (n + 1)) d1 c2 = (m_id d1, c3) \<and>
           im_data (mc_models c3 a) = [d1, sending_row Q b1 (- (n + 1)) user t1] \<and>
           create_message_done Q mv a (- (n + 2)) d2 c3 = (invalidID, c3)"
proof -
  let ?V = "message_vt Q mv"
  have id: "id_of ?V y row = m_id y" for y row
    using assms(1) message_uniform [of Q mv] by (simp add: uniform_def)
  obtain m1 where m1: "insertRows ?V 0 1 empty_im = (True, m1)" "im_data m1 = [new_message]" "im_index m1 = [0 \<mapsto> 0]"
    by (simp add: insertRows_def empty_im_def Let_def id new_message_def invalidID_def)
  let ?s1 = "show_sending Q mv b1 (- (n + 1)) user t1 m1"
  have n1: "- (n + 1) \<noteq> 0" and n2: "- (n + 2) \<noteq> 0" using assms(5) by simp_all
  note f1 = show_sending_front [OF assms(1) m1(2) n1, where mv = mv and body = b1 and user = user and now = t1]
  obtain m2 where m2: "insertRows ?V 0 1 ?s1 = (True, m2)"
    "im_data m2 = [new_message, sending_row Q b1 (- (n + 1)) user t1]" "im_index m2 = [- (n + 1) \<mapsto> 0, 0 \<mapsto> 0]"
    using f1 m1(3) n1
    by (auto simp: insertRows_def Let_def id new_message_def invalidID_def fun_eq_iff)
  let ?s2 = "show_sending Q mv b2 (- (n + 2)) user t2 m2"
  note f2 = show_sending_front [OF assms(1) m2(2) n2, where mv = mv and body = b2 and user = user and now = t2]
  have s2: "im_index ?s2 = [- (n + 1) \<mapsto> 0, - (n + 2) \<mapsto> 0]"
    using f2(2) m2(3) assms(5) by (auto simp: fun_eq_iff)
  define c1 where "c1 = (update_model a (\<lambda>_. ?s1) c)\<lparr>mc_tempCounter := n + 1\<rparr>"
  define c2 where "c2 = (update_model a (\<lambda>_. ?s2) c1)\<lparr>mc_tempCounter := n + 2\<rparr>"
  have c1: "create_message Q mv b1 roomID user t1 c = (Some (Message_Create_exec b1 roomID, a, - (n + 1)), c1)"
    using assms(2-4) m1(1) by (simp add: create_message_def model_of_def c1_def update_model_def Let_def)
  have "mc_history c1 roomID = Some a" "mc_models c1 a = ?s1" "mc_tempCounter c1 = n + 1"
    using assms(2) by (simp_all add: c1_def update_model_def)
  then have c2: "create_message Q mv b2 roomID user t2 c1 = (Some (Message_Create_exec b2 roomID, a, - (n + 2)), c2)"
    using m2(1) by (simp add: create_message_def model_of_def c2_def update_model_def Let_def algebra_simps)
  have mc2: "mc_models c2 a = ?s2" by (simp add: c2_def update_model_def)
  have i1: "idToIndex (- (n + 1)) ?s2 = Some 0"
    using s2 f2(1) by (simp add: idToIndex_def model_index_def in_rows_def)
  have d: "m_id d1 \<noteq> - (n + 2)" using assms(5,6) by simp
  obtain m3 where m3: "setData_value ?V (Some 0) d1 ?s2 = (True, m3)"
    "im_data m3 = [d1, sending_row Q b1 (- (n + 1)) user t1]"
    "im_index m3 = (im_index ?s2)(m_id d1 \<mapsto> 0, - (n + 2) := None)"
    using f2(1) d by (simp add: setData_value_def in_rows_def Let_def id sending_row_def)
  define c3 where "c3 = update_model a (\<lambda>_. m3) c2"
  have c3: "create_message_done Q mv a (- (n + 1)) d1 c2 = (m_id d1, c3)"
    using m3(1) i1 by (simp add: create_message_done_def mc2 c3_def Let_def)
  have mc3: "mc_models c3 a = m3" by (simp add: c3_def update_model_def)
  have "idToIndex (- (n + 2)) m3 = None" by (simp add: idToIndex_def m3(3))
  then have "create_message_done Q mv a (- (n + 2)) d2 c3 = (invalidID, c3)"
    by (simp add: create_message_done_def mc3 Let_def)
  with c1 c2 c3 mc3 m3(2) show ?thesis by blast
qed

theorem second_send_loses_row_witness:
  "\<exists>c1 c2 c3. create_message plain_qt id ''a'' 3 7 None example_message_ctrl = (Some (Message_Create_exec ''a'' 3, 0, - (1 + 1)), c1) \<and>
     create_message plain_qt id ''b'' 3 7 None c1 = (Some (Message_Create_exec ''b'' 3, 0, - (1 + 2)), c2) \<and>
     create_message_done plain_qt id 0 (- (1 + 1)) (new_message\<lparr>m_id := 12\<rparr>) c2 = (m_id (new_message\<lparr>m_id := 12\<rparr>), c3) \<and>
     im_data (mc_models c3 0) = [new_message\<lparr>m_id := 12\<rparr>, sending_row plain_qt ''a'' (- (1 + 1)) 7 None] \<and>
     create_message_done plain_qt id 0 (- (1 + 2)) (new_message\<lparr>m_id := 13\<rparr>) c3 = (invalidID, c3)"
  by (rule second_send_loses_row [OF plain_qt_conv example_message_ctrl_model]) simp_all

section \<open>Receiving\<close>

text \<open>Every room has a model of its own, at an address that is not reused.\<close>

definition history_ok :: "message_ctrl \<Rightarrow> bool" where
  "history_ok c \<longleftrightarrow> (\<forall>r a. mc_history c r = Some a \<longrightarrow> a < mc_next c) \<and>
     (\<forall>r s a. mc_history c r = Some a \<longrightarrow> mc_history c s = Some a \<longrightarrow> r = s)"

definition room_messages :: "int \<Rightarrow> message_ctrl \<Rightarrow> message_data im" where
  "room_messages r c = (case mc_history c r of None \<Rightarrow> empty_im | Some a \<Rightarrow> mc_models c a)"

lemma history_ok_new: "history_ok new_message_ctrl"
  by (simp add: history_ok_def new_message_ctrl_def)

lemma history_ok_add: "history_ok c \<Longrightarrow> history_ok (snd (add_model r c))"
  unfolding history_ok_def add_model_def by (auto simp: less_Suc_eq)

lemma history_ok_model_of:
  assumes "history_ok c" and "model_of r c = (a, c')"
  shows "history_ok c'" and "mc_history c' r = Some a" and "mc_models c' a = room_messages r c"
    and "s \<noteq> r \<Longrightarrow> mc_history c' s = mc_history c s"
    and "s \<noteq> r \<Longrightarrow> room_messages s c' = room_messages s c"
proof -
  have eq: "(a, c') = (case mc_history c r of None \<Rightarrow> add_model r c | Some a \<Rightarrow> (a, c))"
    using assms(2) by (simp add: model_of_def)
  have fresh: "mc_history c s \<noteq> Some (mc_next c)" for s
    using assms(1) by (auto simp: history_ok_def)
  show "history_ok c'" using eq assms(1) history_ok_add [OF assms(1), of r]
    by (cases "mc_history c r") (simp_all, metis snd_conv)
  show "mc_history c' r = Some a" "mc_models c' a = room_messages r c"
    using eq by (cases "mc_history c r"; simp add: add_model_def room_messages_def)+
  show "mc_history c' s = mc_history c s" if "s \<noteq> r"
    using eq that by (cases "mc_history c r") (simp_all add: add_model_def)
  show "room_messages s c' = room_messages s c" if "s \<noteq> r"
    using eq that fresh [of s]
    by (cases "mc_history c r"; cases "mc_history c s") (auto simp: add_model_def room_messages_def)
qed

text \<open>
  A message of the server with ids appears in front of its room, whose model is made
  if there is none, and in no other room; a message without its own or its room's id is ignored.
\<close>

theorem incoming_message_is_filed:
  assumes "qt_ok Q" and "history_ok c" and "im_wf (message_vt Q mv) (room_messages (m_roomID d) c)"
    and "lookup_im (room_messages (m_roomID d) c) (m_id d) = None" and "c' = on_message Q mv d c"
  shows "history_ok c' \<and>
     (if m_id d = invalidID \<or> m_roomID d = invalidID then c' = c
      else im_wf (message_vt Q mv) (room_messages (m_roomID d) c') \<and>
           im_data (room_messages (m_roomID d) c') = d # im_data (room_messages (m_roomID d) c) \<and>
           (\<forall>s. s \<noteq> m_roomID d \<longrightarrow> room_messages s c' = room_messages s c))"
proof (cases "m_id d = invalidID \<or> m_roomID d = invalidID")
  case True
  with assms(2,5) show ?thesis by (auto simp: on_message_def)
next
  case False
  let ?V = "message_vt Q mv" and ?m = "room_messages (m_roomID d) c"
  obtain a c1 where c1: "model_of (m_roomID d) c = (a, c1)" by (cases "model_of (m_roomID d) c")
  note h = history_ok_model_of [OF assms(2) c1]
  have "m_id d \<notin> set (keys ?V ?m)" using assms(4) by (simp add: lookup_None_keys [OF assms(3)])
  with insertDataList_ok [OF message_uniform assms(3), of 0 "[d]"] assms(1)
  obtain m where m: "insertData ?V 0 d ?m = (True, m)" "im_wf ?V m" "im_data m = d # im_data ?m"
    by (auto simp: insertData_def rowCount_def)
  have c': "c' = update_model a (\<lambda>_. m) c1"
    using False m(1) h(3) by (simp add: assms(5) on_message_def c1 update_model_def)
  have "history_ok c'" using h(1) by (simp add: c' history_ok_def update_model_def)
  moreover have "room_messages (m_roomID d) c' = m"
    using h(2) by (simp add: room_messages_def c' update_model_def)
  moreover have "room_messages s c' = room_messages s c" if s: "s \<noteq> m_roomID d" for s
  proof -
    have "mc_history c1 s \<noteq> Some a" using h(1,2) s by (auto simp: history_ok_def)
    then have "room_messages s c' = room_messages s c1"
      by (auto simp: room_messages_def c' update_model_def split: option.split)
    with h(5) [OF s] show ?thesis by simp
  qed
  ultimately show ?thesis using False m(2,3) by auto
qed

theorem incoming_message_is_filed_witness:
  "history_ok (on_message plain_qt id (new_message\<lparr>m_id := 4, m_roomID := 3\<rparr>) new_message_ctrl) \<and>
     (if m_id (new_message\<lparr>m_id := 4, m_roomID := 3\<rparr>) = invalidID \<or> m_roomID (new_message\<lparr>m_id := 4, m_roomID := 3\<rparr>) = invalidID
      then on_message plain_qt id (new_message\<lparr>m_id := 4, m_roomID := 3\<rparr>) new_message_ctrl = new_message_ctrl
      else im_wf (message_vt plain_qt id) (room_messages (m_roomID (new_message\<lparr>m_id := 4, m_roomID := 3\<rparr>))
             (on_message plain_qt id (new_message\<lparr>m_id := 4, m_roomID := 3\<rparr>) new_message_ctrl)) \<and>
           im_data (room_messages (m_roomID (new_message\<lparr>m_id := 4, m_roomID := 3\<rparr>))
             (on_message plain_qt id (new_message\<lparr>m_id := 4, m_roomID := 3\<rparr>) new_message_ctrl)) =
             new_message\<lparr>m_id := 4, m_roomID := 3\<rparr> #
               im_data (room_messages (m_roomID (new_message\<lparr>m_id := 4, m_roomID := 3\<rparr>)) new_message_ctrl) \<and>
           (\<forall>s. s \<noteq> m_roomID (new_message\<lparr>m_id := 4, m_roomID := 3\<rparr>) \<longrightarrow>
              room_messages s (on_message plain_qt id (new_message\<lparr>m_id := 4, m_roomID := 3\<rparr>) new_message_ctrl) =
                room_messages s new_message_ctrl))"
  by (rule incoming_message_is_filed [OF plain_qt_ok history_ok_new _ _ refl])
    (simp_all add: room_messages_def new_message_ctrl_def)

lemma load_unknown_room: "mc_history c r = None \<Longrightarrow> load_messages_done Q mv r row res c = None"
  by (simp add: load_messages_done_def)

end
