(* ===== verification/UserController.thy ===== *)
theory UserController
  imports Api "HOL-Library.Multiset"
begin

text \<open>
  Users: the observable \<open>User::Handle\<close> (\<open>lib/core/userhandle.cpp\<close>), the list model over
  handles (\<open>lib/core/models/usermodel.h\<close>) and \<open>User::CallerController\<close>
  (\<open>lib/network/controllers/usercontroller.cpp\<close>), which keeps one handle per user id, taken from a
  pool, and merges requests for the same user. Handles and list models are shared objects and live at
  addresses.
\<close>

section \<open>User::Handle\<close>

datatype handle_signal = IdChanged | TagChanged | NameChanged | StatusChanged

definition setID :: "int \<Rightarrow> user_data \<Rightarrow> handle_signal list \<times> user_data" where
  "setID other d = (if u_id d = other then ([], d) else ([IdChanged], d\<lparr>u_id := other\<rparr>))"

definition setTag :: "string \<Rightarrow> user_data \<Rightarrow> handle_signal list \<times> user_data" where
  "setTag other d = (if u_tag d = other then ([], d) else ([TagChanged], d\<lparr>u_tag := other\<rparr>))"

definition setName :: "string \<Rightarrow> user_data \<Rightarrow> handle_signal list \<times> user_data" where
  "setName other d = (if u_name d = other then ([], d) else ([NameChanged], d\<lparr>u_name := other\<rparr>))"

definition setStatus :: "int \<Rightarrow> user_data \<Rightarrow> handle_signal list \<times> user_data" where
  "setStatus other d = (if u_status d = other then ([], d) else ([StatusChanged], d\<lparr>u_status := other\<rparr>))"

definition extractFromData :: "user_data \<Rightarrow> user_data \<Rightarrow> handle_signal list \<times> user_data" where
  "extractFromData other d =
     (let (s1, d) = setName (u_name other) d;
          (s2, d) = setTag (u_tag other) d;
          (s3, d) = setID (u_id other) d;
          (s4, d) = setStatus (u_status other) d
      in (s1 @ s2 @ s3 @ s4, d))"

definition copy_handle :: "user_data \<Rightarrow> user_data \<Rightarrow> handle_signal list \<times> user_data" where
  "copy_handle other d = extractFromData other d"

lemma extractFromData_data [simp]: "snd (extractFromData other d) = other"
  by (simp add: extractFromData_def setID_def setTag_def setName_def setStatus_def Let_def)

text \<open>A signal is emitted exactly for a property whose value changed.\<close>

lemma extractFromData_signals:
  "set (fst (extractFromData other d)) =
     {s. s = NameChanged \<and> u_name other \<noteq> u_name d \<or> s = TagChanged \<and> u_tag other \<noteq> u_tag d \<or>
         s = IdChanged \<and> u_id other \<noteq> u_id d \<or> s = StatusChanged \<and> u_status other \<noteq> u_status d}"
  by (auto simp: extractFromData_def setID_def setTag_def setName_def setStatus_def Let_def)

section \<open>User::Model\<close>

text \<open>
  A connection captures the row (\<open>Some i\<close>), or, in \<open>insertHandler\<close>, nothing: its lambda
  evaluates \<open>index(_data.size())\<close> when the handle changes.
\<close>

record user_model =
  um_data :: "nat list"
  um_connections :: "(nat \<times> nat option) list"

definition new_user_model :: user_model where
  "new_user_model = \<lparr>um_data = [], um_connections = []\<rparr>"

definition user_model_reset :: "nat list \<Rightarrow> user_model \<Rightarrow> user_model" where
  "user_model_reset hs m =
     m\<lparr>um_data := hs, um_connections := um_connections m @ map (\<lambda>(i, h). (h, Some i)) (enumerate 0 hs)\<rparr>"

definition insertHandler :: "nat \<Rightarrow> user_model \<Rightarrow> user_model" where
  "insertHandler u m =
     m\<lparr>um_data := um_data m @ [u], um_connections := um_connections m @ [(u, None)]\<rparr>"

text \<open>The rows of the \<open>dataChanged\<close> signals a change of handle \<open>u\<close> causes; \<open>None\<close> is an invalid index.\<close>

definition handle_changed :: "nat \<Rightarrow> user_model \<Rightarrow> nat option list" where
  "handle_changed u m =
     map (\<lambda>(h, c). let row = (case c of Some i \<Rightarrow> i | None \<Rightarrow> length (um_data m))
                   in if row < length (um_data m) then Some row else None)
       (filter (\<lambda>(h, c). h = u) (um_connections m))"

text \<open>
  The views are not told about changes of a user who joined a room while its user list
  was open: the signal carries an invalid index.
\<close>

theorem joined_user_changes_unseen:
  assumes "u \<notin> fst ` set (um_connections m)"
  shows "handle_changed u (insertHandler u m) = [None]"
proof -
  have "filter (\<lambda>(h, c). h = u) (um_connections m) = []"
    using assms by (force simp: filter_empty_conv)
  then show ?thesis by (simp add: handle_changed_def insertHandler_def)
qed

theorem joined_user_changes_unseen_witness:
  "handle_changed 4 (insertHandler 4 (user_model_reset [2, 3] new_user_model)) = [None]"
  by (rule joined_user_changes_unseen) (simp add: user_model_reset_def new_user_model_def enumerate_eq_zip)

section \<open>User::CallerController\<close>

record user_ctrl =
  uc_heap :: "nat \<Rightarrow> user_data"
  uc_next :: nat
  uc_handlers :: "(int, nat) omap"
  uc_pool :: "nat list"
  uc_rooms :: "int \<Rightarrow> nat option"
  uc_models :: "nat \<Rightarrow> user_model"
  uc_nextModel :: nat
  uc_pending :: "int \<Rightarrow> nat option"

text \<open>\<open>std::stack::emplace\<close> of \<open>n\<close> new handles; the last one made is on top.\<close>

definition pool_grown :: "nat \<Rightarrow> user_ctrl \<Rightarrow> user_ctrl" where
  "pool_grown n c =
     c\<lparr>uc_heap := (\<lambda>a. if uc_next c \<le> a \<and> a < uc_next c + n then new_user else uc_heap c a),
       uc_pool := rev [uc_next c..<uc_next c + n] @ uc_pool c, uc_next := uc_next c + n\<rparr>"

text \<open>
  \<open>growHandlePool\<close> posts the lambda that fills the pool to the thread of the controller and waits until it has run.
  It never returns (\<open>None\<close>) when the caller has \<open>held\<close> the mutex, which is not recursive and which the
  lambda locks, or when the lambda has no \<open>turn\<close>: the thread of the controller runs it as soon as it is back in
  its event loop, or at once when it is the caller and Qt calls the lambda directly.
\<close>

definition growHandlePool :: "bool \<Rightarrow> bool \<Rightarrow> nat \<Rightarrow> user_ctrl \<Rightarrow> user_ctrl option" where
  "growHandlePool held turn n c = (if held \<or> \<not> turn then None else Some (pool_grown n c))"

text \<open>The constructor grows the pool before anything else can hold the mutex.\<close>

definition new_user_ctrl :: user_ctrl where
  "new_user_ctrl = pool_grown 256
     \<lparr>uc_heap = (\<lambda>_. new_user)(0 := new_user\<lparr>u_name := ''null'', u_tag := ''null''\<rparr>), uc_next = 1,
      uc_handlers = [], uc_pool = [], uc_rooms = Map.empty, uc_models = (\<lambda>_. new_user_model),
      uc_nextModel = 0, uc_pending = Map.empty\<rparr>"

definition getFreeHandle :: "bool \<Rightarrow> bool \<Rightarrow> user_ctrl \<Rightarrow> (nat \<times> user_ctrl) option" where
  "getFreeHandle held turn c =
     (case (if uc_pool c = [] then growHandlePool held turn (max 64 (length (uc_handlers c))) c else Some c) of
        None \<Rightarrow> None
      | Some c \<Rightarrow> Some (hd (uc_pool c), c\<lparr>uc_pool := tl (uc_pool c)\<rparr>))"

definition set_handle :: "nat \<Rightarrow> user_data \<Rightarrow> user_ctrl \<Rightarrow> user_ctrl" where
  "set_handle h d c = c\<lparr>uc_heap := (uc_heap c)(h := snd (extractFromData d (uc_heap c h)))\<rparr>"

definition parseSearchString :: "string \<Rightarrow> user_find \<Rightarrow> bool \<times> user_find" where
  "parseSearchString pattern req =
     (case pattern of
        [] \<Rightarrow> (False, req)
      | x # rest \<Rightarrow>
          (if x = CHR ''@'' then (True, req\<lparr>uf_tag := Some (CHR ''^'' # rest)\<rparr>)
           else (True, req\<lparr>uf_name := Some (CHR ''^'' # pattern)\<rparr>)))"

definition find_users :: "string \<Rightarrow> int \<Rightarrow> call" where
  "find_users pattern limit =
     User_Find_exec ((snd (parseSearchString pattern new_user_find))\<lparr>uf_limit := Some limit, uf_useRegexp := True\<rparr>)"

text \<open>
  The loop of the continuations of \<open>find\<close> and \<open>getGroupUsers\<close>: a known user keeps its handle, a new
  one gets a handle from the pool.
\<close>

fun handles_for :: "bool \<Rightarrow> bool \<Rightarrow> user_data list \<Rightarrow> user_ctrl \<Rightarrow> (nat list \<times> user_ctrl) option" where
  "handles_for held turn [] c = Some ([], c)"
| "handles_for held turn (user # users) c =
     (case map_of (uc_handlers c) (u_id user) of
        Some h \<Rightarrow> map_option (\<lambda>(hs, c). (h # hs, c)) (handles_for held turn users c)
      | None \<Rightarrow>
          (case getFreeHandle held turn c of
             None \<Rightarrow> None
           | Some (h, c) \<Rightarrow>
               map_option (\<lambda>(hs, c). (h # hs, c))
                 (handles_for held turn users
                   ((set_handle h user c)\<lparr>uc_handlers := omap_emplace (u_id user) h (uc_handlers c)\<rparr>))))"

text \<open>The continuation of \<open>find\<close> is posted to the thread of the controller and holds no mutex.\<close>

definition find_users_done :: "bool \<Rightarrow> user_data list \<Rightarrow> user_ctrl \<Rightarrow> (user_model \<times> user_ctrl) option" where
  "find_users_done turn users c =
     map_option (\<lambda>(hs, c). (user_model_reset hs new_user_model, c)) (handles_for False turn users c)"

datatype room_users = Ready nat | Request call

definition getGroupUsers :: "int \<Rightarrow> user_ctrl \<Rightarrow> room_users" where
  "getGroupUsers groupID c =
     (case uc_rooms c groupID of Some m \<Rightarrow> Ready m | None \<Rightarrow> Request (Group_GetUsers_exec groupID))"

text \<open>
  The continuation of \<open>getGroupUsers\<close> runs in the thread that brings the answer, without the mutex, or, when the
  answer is there before it is attached, at once in \<open>getGroupUsers\<close>, which has \<open>held\<close> the mutex.
\<close>

definition getGroupUsers_done :: "bool \<Rightarrow> bool \<Rightarrow> int \<Rightarrow> user_data list \<Rightarrow> user_ctrl \<Rightarrow> (nat \<times> user_ctrl) option" where
  "getGroupUsers_done held turn groupID users c =
     (let m = uc_nextModel c;
          c = c\<lparr>uc_rooms := (uc_rooms c)(groupID \<mapsto> m), uc_nextModel := Suc m,
                uc_models := (uc_models c)(m := new_user_model)\<rparr>
      in map_option (\<lambda>(hs, c). (m, c\<lparr>uc_models := (uc_models c)(m := user_model_reset hs (uc_models c m))\<rparr>))
           (handles_for held turn users c))"

text \<open>\<open>get(userID)\<close>: the handle, the future of a request that is under way, or a new request.\<close>

datatype get_user = Known nat | Joined nat | Asked call

definition get_user :: "nat \<Rightarrow> int \<Rightarrow> user_ctrl \<Rightarrow> get_user \<times> user_ctrl" where
  "get_user fresh userID c =
     (case map_of (uc_handlers c) userID of
        Some h \<Rightarrow> (Known h, c)
      | None \<Rightarrow>
          (case uc_pending c userID of
             Some f \<Rightarrow> (Joined f, c)
           | None \<Rightarrow> (Asked (User_Get_exec (Some userID)), c\<lparr>uc_pending := (uc_pending c)(userID \<mapsto> fresh)\<rparr>)))"

text \<open>The continuations of both \<open>get\<close> hold the mutex, so it does not matter whether the lambda has its turn.\<close>

definition get_user_done :: "int \<Rightarrow> user_data \<Rightarrow> user_ctrl \<Rightarrow> (nat \<times> user_ctrl) option" where
  "get_user_done userID res c =
     (case getFreeHandle True True c of
        None \<Rightarrow> None
      | Some (h, c) \<Rightarrow>
          Some (h, (set_handle h res c)\<lparr>uc_handlers := omap_emplace userID h (uc_handlers c),
                     uc_pending := (uc_pending c)(userID := None)\<rparr>))"

definition get_self :: call where
  "get_self = User_Get_exec None"

definition get_self_done :: "user_data \<Rightarrow> user_ctrl \<Rightarrow> (nat \<times> user_ctrl) option" where
  "get_self_done res c = map_option (\<lambda>(h, c). (h, set_handle h res c)) (getFreeHandle True True c)"

text \<open>
  The handler of updates. The tag is set from \<open>*upd.name\<close>, which is undefined behaviour
  (\<open>None\<close>) when the update has no name.
\<close>

definition on_updateUser :: "user_update \<Rightarrow> user_ctrl \<Rightarrow> user_ctrl option" where
  "on_updateUser upd c =
     (case map_of (uc_handlers c) (uu_id upd) of
        None \<Rightarrow> Some c
      | Some h \<Rightarrow>
          (let d = uc_heap c h;
               d = (case uu_name upd of None \<Rightarrow> d | Some n \<Rightarrow> snd (setName n d))
           in case (case uu_tag upd of None \<Rightarrow> Some d | Some _ \<Rightarrow> map_option (\<lambda>n. snd (setTag n d)) (uu_name upd)) of
                None \<Rightarrow> None
              | Some d \<Rightarrow>
                  Some (c\<lparr>uc_heap := (uc_heap c)
                     (h := (case uu_status upd of None \<Rightarrow> d | Some s \<Rightarrow> snd (setStatus s d)))\<rparr>)))"

text \<open>The handler of joins; \<open>Some\<close> is the user whose handle the continuation inserts later.\<close>

definition on_addUser :: "int \<Rightarrow> int \<Rightarrow> user_ctrl \<Rightarrow> int option \<times> user_ctrl" where
  "on_addUser roomID userID c =
     (case uc_rooms c roomID of
        None \<Rightarrow> (None, c)
      | Some m \<Rightarrow>
          (case map_of (uc_handlers c) userID of
             Some h \<Rightarrow> (None, c\<lparr>uc_models := (uc_models c)(m := insertHandler h (uc_models c m))\<rparr>)
           | None \<Rightarrow> (Some userID, c)))"

definition create_user :: "string \<Rightarrow> string \<Rightarrow> call" where
  "create_user password log = User_Create_exec log password"

definition reset_users :: "user_ctrl \<Rightarrow> user_ctrl" where
  "reset_users c = c\<lparr>uc_handlers := [], uc_rooms := Map.empty\<rparr>"

section \<open>One handle per user\<close>

text \<open>
  The handles of the users are distinct, carry the id they are filed under, and are not in the pool,
  whose entries are distinct too; addresses from \<open>uc_next\<close> on are free.
\<close>

definition handles_ok :: "user_ctrl \<Rightarrow> bool" where
  "handles_ok c \<longleftrightarrow> omap_ok (uc_handlers c) \<and> distinct (map snd (uc_handlers c) @ uc_pool c) \<and>
     (\<forall>(k, h) \<in> set (uc_handlers c). u_id (uc_heap c h) = k) \<and>
     (\<forall>h \<in> set (map snd (uc_handlers c) @ uc_pool c). h < uc_next c)"

lemma omap_emplace_set:
  "k \<notin> fst ` set xs \<Longrightarrow> set (omap_emplace k v xs) = insert (k, v) (set xs)"
  by (induction k v xs rule: omap_emplace.induct) auto

lemma omap_emplace_snd:
  "k \<notin> fst ` set xs \<Longrightarrow> mset (map snd (omap_emplace k v xs)) = add_mset v (mset (map snd xs))"
  by (induction k v xs rule: omap_emplace.induct) auto

lemma map_of_None_keys: "map_of xs k = None \<longleftrightarrow> k \<notin> fst ` set xs"
  by (rule map_of_eq_None_iff)

lemma omap_emplace_map_of:
  "k \<notin> fst ` set xs \<Longrightarrow> map_of (omap_emplace k v xs) = (map_of xs)(k \<mapsto> v)"
  by (induction k v xs rule: omap_emplace.induct) (auto simp: fun_eq_iff)

definition used :: "user_ctrl \<Rightarrow> nat list" where
  "used c = map snd (uc_handlers c) @ uc_pool c"

lemma handles_ok_iff:
  "handles_ok c \<longleftrightarrow> omap_ok (uc_handlers c) \<and> distinct (used c) \<and>
     (\<forall>kh \<in> set (uc_handlers c). u_id (uc_heap c (snd kh)) = fst kh) \<and> set (used c) \<subseteq> {..<uc_next c}"
  unfolding handles_ok_def used_def by (auto simp: case_prod_unfold)

lemma handlers_used: "kh \<in> set (uc_handlers c) \<Longrightarrow> snd kh \<in> set (used c)"
  by (simp add: used_def)

lemma grow_used: "used (pool_grown n c) = map snd (uc_handlers c) @ rev [uc_next c..<uc_next c + n] @ uc_pool c"
  by (simp add: used_def pool_grown_def)

lemma grow_frame [simp]:
  "uc_handlers (pool_grown n c) = uc_handlers c" "uc_next (pool_grown n c) = uc_next c + n"
  "a < uc_next c \<Longrightarrow> uc_heap (pool_grown n c) a = uc_heap c a"
  by (simp_all add: pool_grown_def)

lemma grow_pool: "uc_pool (pool_grown n c) = rev [uc_next c..<uc_next c + n] @ uc_pool c"
  by (simp add: pool_grown_def)

lemma grow_ok:
  assumes "handles_ok c"
  shows "handles_ok (pool_grown n c)"
proof -
  have d: "distinct (used c)" and lt: "set (used c) \<subseteq> {..<uc_next c}" and o: "omap_ok (uc_handlers c)"
    and i: "\<forall>kh \<in> set (uc_handlers c). u_id (uc_heap c (snd kh)) = fst kh"
    using assms by (simp_all add: handles_ok_iff)
  have "set (used c) \<inter> set [uc_next c..<uc_next c + n] = {}" using lt by auto
  then have "distinct (used (pool_grown n c))"
    unfolding grow_used using d by (auto simp: used_def)
  moreover have "\<forall>kh \<in> set (uc_handlers c). u_id (uc_heap (pool_grown n c) (snd kh)) = fst kh"
  proof
    fix kh
    assume kh: "kh \<in> set (uc_handlers c)"
    with lt have "snd kh < uc_next c" using handlers_used [of kh c] by auto
    with i kh show "u_id (uc_heap (pool_grown n c) (snd kh)) = fst kh" by simp
  qed
  moreover have "set (used (pool_grown n c)) \<subseteq> {..<uc_next c + n}"
    unfolding grow_used using lt by (auto simp: used_def)
  ultimately show ?thesis using o by (simp add: handles_ok_iff)
qed

text \<open>The handle and what is left: of the pool itself, or of the grown one.\<close>

lemma getFreeHandle_cases:
  assumes "getFreeHandle held turn c = Some (h, c')"
  obtains g ps where "g = c \<and> uc_pool c \<noteq> [] \<or> g = pool_grown (max 64 (length (uc_handlers c))) c \<and> uc_pool c = [] \<and> \<not> held \<and> turn"
    and "uc_pool g = h # ps" and "c' = g\<lparr>uc_pool := ps\<rparr>"
proof -
  define g where "g = (if uc_pool c = [] then pool_grown (max 64 (length (uc_handlers c))) c else c)"
  have "uc_pool g \<noteq> []" by (simp add: g_def grow_pool)
  then obtain p ps where p: "uc_pool g = p # ps" by (cases "uc_pool g") auto
  show thesis
    by (rule that [of g ps])
      (use assms p in \<open>auto simp: getFreeHandle_def growHandlePool_def g_def split: if_splits option.splits\<close>)
qed

lemma getFreeHandle_None:
  "getFreeHandle held turn c = None \<longleftrightarrow> uc_pool c = [] \<and> (held \<or> \<not> turn)"
  by (simp add: getFreeHandle_def growHandlePool_def)

lemma getFreeHandle_pool:
  "uc_pool c = p # ps \<Longrightarrow> getFreeHandle held turn c = Some (p, c\<lparr>uc_pool := ps\<rparr>)"
  by (simp add: getFreeHandle_def)

lemma getFreeHandle_ok:
  assumes "handles_ok c" and "getFreeHandle held turn c = Some (h, c')"
  shows "handles_ok c'" and "h < uc_next c'" and "h \<notin> set (used c')"
    and "uc_handlers c' = uc_handlers c"
proof -
  from assms(2) obtain g ps where g: "g = c \<or> g = pool_grown (max 64 (length (uc_handlers c))) c"
    and p: "uc_pool g = h # ps" and c': "c' = g\<lparr>uc_pool := ps\<rparr>" by (blast elim: getFreeHandle_cases)
  have ok: "handles_ok g" using assms(1) grow_ok g by auto
  have hg: "uc_handlers g = uc_handlers c" using g by auto
  have u: "used g = map snd (uc_handlers g) @ h # ps" "used c' = map snd (uc_handlers g) @ ps"
    by (simp_all add: used_def p c')
  have d: "distinct (used g)" and lt: "set (used g) \<subseteq> {..<uc_next g}" using ok by (simp_all add: handles_ok_iff)
  show "h \<notin> set (used c')" unfolding u(2) using d unfolding u(1) by auto
  show "h < uc_next c'" using lt unfolding u(1) c' by auto
  show "uc_handlers c' = uc_handlers c" using hg c' by simp
  have "distinct (used c')" unfolding u(2) using d unfolding u(1) by simp
  moreover have "set (used c') \<subseteq> {..<uc_next g}" unfolding u(2) using lt unfolding u(1) by simp
  moreover have "uc_handlers c' = uc_handlers g" "uc_next c' = uc_next g" "uc_heap c' = uc_heap g"
    by (simp_all add: c')
  ultimately show "handles_ok c'" using ok by (simp add: handles_ok_iff)
qed

lemma file_handle_ok:
  assumes ok: "handles_ok c" and h: "h < uc_next c" "h \<notin> set (used c)"
    and k: "k \<notin> fst ` set (uc_handlers c)" "u_id d = k"
  shows "handles_ok ((set_handle h d c)\<lparr>uc_handlers := omap_emplace k h (uc_handlers c)\<rparr>)"
proof -
  let ?c = "(set_handle h d c)\<lparr>uc_handlers := omap_emplace k h (uc_handlers c)\<rparr>"
  have fr: "uc_handlers ?c = omap_emplace k h (uc_handlers c)" "uc_next ?c = uc_next c"
    "uc_heap ?c = (uc_heap c)(h := d)" "used ?c = map snd (omap_emplace k h (uc_handlers c)) @ uc_pool c"
    by (simp_all add: set_handle_def used_def)
  have ms: "mset (used ?c) = mset (h # used c)"
    using omap_emplace_snd [OF k(1), of h] by (simp add: fr used_def set_handle_def)
  have st: "set (used ?c) = insert h (set (used c))" using arg_cong [OF ms, of set_mset] by simp
  have "distinct (used ?c)"
    using ok h(2) mset_eq_imp_distinct_iff [OF ms] by (simp add: handles_ok_iff)
  moreover have "set (used ?c) \<subseteq> {..<uc_next ?c}"
    using ok h(1) by (simp add: st fr(2) handles_ok_iff)
  moreover have "\<forall>kh \<in> set (uc_handlers ?c). u_id (uc_heap ?c (snd kh)) = fst kh"
  proof
    fix kh
    assume "kh \<in> set (uc_handlers ?c)"
    then consider "kh = (k, h)" | "kh \<in> set (uc_handlers c)"
      using omap_emplace_set [OF k(1), of h] by (auto simp: fr)
    then show "u_id (uc_heap ?c (snd kh)) = fst kh"
    proof cases
      case 1
      with k(2) show ?thesis by (simp add: fr)
    next
      case 2
      with h(2) have "snd kh \<noteq> h" using handlers_used [OF 2] by auto
      with ok 2 show ?thesis by (simp add: fr handles_ok_iff)
    qed
  qed
  ultimately show ?thesis
    using ok omap_ok_emplace [of "uc_handlers c" k h] by (simp add: handles_ok_iff fr(1))
qed

lemma handles_for_known:
  "map_of (uc_handlers c) (u_id user) = Some h \<Longrightarrow>
     handles_for held turn (user # users) c = map_option (\<lambda>(hs, c). (h # hs, c)) (handles_for held turn users c)"
  by simp

text \<open>A new user: its handle is filed, and one entry of the pool less is left for the others.\<close>

lemma handles_for_new:
  assumes "handles_ok c" and "map_of (uc_handlers c) (u_id user) = None" and "getFreeHandle held turn c = Some (h, c1)"
  obtains c2 where "handles_for held turn (user # users) c = map_option (\<lambda>(hs, c). (h # hs, c)) (handles_for held turn users c2)"
    and "handles_ok c2" and "map_of (uc_handlers c2) = (map_of (uc_handlers c))(u_id user \<mapsto> h)"
    and "uc_pool c \<noteq> [] \<Longrightarrow> length (uc_pool c) = Suc (length (uc_pool c2))"
proof -
  note g = getFreeHandle_ok [OF assms(1,3)]
  have nk: "u_id user \<notin> fst ` set (uc_handlers c1)" using assms(2) g(4) by (simp add: map_of_None_keys)
  let ?c = "(set_handle h user c1)\<lparr>uc_handlers := omap_emplace (u_id user) h (uc_handlers c1)\<rparr>"
  show thesis
  proof (rule that [of ?c])
    show "handles_ok ?c" by (rule file_handle_ok [OF g(1-3) nk refl])
    show "map_of (uc_handlers ?c) = (map_of (uc_handlers c))(u_id user \<mapsto> h)"
      using omap_emplace_map_of [OF nk, of h] g(4) by simp
    show "length (uc_pool c) = Suc (length (uc_pool ?c))" if "uc_pool c \<noteq> []"
      using assms(3) that by (cases "uc_pool c") (auto simp: getFreeHandle_pool set_handle_def)
  qed (use assms(2,3) in simp)
qed

text \<open>The users of an answer that have no handle yet.\<close>

definition new_ids :: "user_data list \<Rightarrow> user_ctrl \<Rightarrow> int set" where
  "new_ids users c = u_id ` set users - dom (map_of (uc_handlers c))"

lemma new_ids_known:
  "map_of (uc_handlers c) (u_id user) = Some h \<Longrightarrow> new_ids (user # users) c = new_ids users c"
  by (auto simp: new_ids_def)

lemma new_ids_new:
  assumes "map_of (uc_handlers c) (u_id user) = None" and "map_of (uc_handlers c2) = (map_of (uc_handlers c))(u_id user \<mapsto> h)"
  shows "card (new_ids (user # users) c) = Suc (card (new_ids users c2))"
proof -
  have "new_ids (user # users) c = insert (u_id user) (new_ids users c2)" "u_id user \<notin> new_ids users c2"
    using assms by (auto simp: new_ids_def)
  moreover have "finite (new_ids users c2)" by (simp add: new_ids_def)
  ultimately show ?thesis by simp
qed

text \<open>One more user in front, who has a handle when the others are resolved.\<close>

lemma resolved_cons:
  assumes "\<exists>hs c'. handles_for held turn users c1 = Some (hs, c') \<and> handles_ok c' \<and> length hs = length users \<and>
      (\<forall>i < length users. map_of (uc_handlers c') (u_id (users ! i)) = Some (hs ! i)) \<and>
      (\<forall>k h. map_of (uc_handlers c1) k = Some h \<longrightarrow> map_of (uc_handlers c') k = Some h)"
    and "map_of (uc_handlers c1) (u_id user) = Some h"
    and "\<And>k g. map_of (uc_handlers c) k = Some g \<Longrightarrow> map_of (uc_handlers c1) k = Some g"
    and "handles_for held turn (user # users) c = map_option (\<lambda>(hs, c). (h # hs, c)) (handles_for held turn users c1)"
  shows "\<exists>hs c'. handles_for held turn (user # users) c = Some (hs, c') \<and> handles_ok c' \<and> length hs = length (user # users) \<and>
      (\<forall>i < length (user # users). map_of (uc_handlers c') (u_id ((user # users) ! i)) = Some (hs ! i)) \<and>
      (\<forall>k h. map_of (uc_handlers c) k = Some h \<longrightarrow> map_of (uc_handlers c') k = Some h)"
proof -
  from assms(1) obtain hs c' where r: "handles_for held turn users c1 = Some (hs, c')" "handles_ok c'"
    "length hs = length users" "\<forall>i < length users. map_of (uc_handlers c') (u_id (users ! i)) = Some (hs ! i)"
    "\<forall>k h. map_of (uc_handlers c1) k = Some h \<longrightarrow> map_of (uc_handlers c') k = Some h" by blast
  have "map_of (uc_handlers c') (u_id ((user # users) ! i)) = Some ((h # hs) ! i)" if "i < length (user # users)" for i
    using r(4,5) assms(2) that by (cases i) auto
  with r assms(3,4) show ?thesis by (intro exI [of _ "h # hs"] exI [of _ c']) (auto simp del: handles_for.simps)
qed

text \<open>
  C30: Resolving a list of users, as the search and the user list of a room do, never returns exactly when the list
  names more users without a handle than the pool has entries, and the pool cannot be grown: the thread holds the mutex,
  or the thread of the controller does not get to the lambda it waits for. Otherwise every user gets one handle: the
  result has a handle per user that carries its id, users already known keep theirs, and no handle is ever shared between
  two ids or with the pool.
\<close>

theorem handles_for_one_per_user:
  assumes "handles_ok c"
  shows "if (held \<or> \<not> turn) \<and> length (uc_pool c) < card (new_ids users c) then handles_for held turn users c = None
         else \<exists>hs c'. handles_for held turn users c = Some (hs, c') \<and> handles_ok c' \<and> length hs = length users \<and>
           (\<forall>i < length users. map_of (uc_handlers c') (u_id (users ! i)) = Some (hs ! i)) \<and>
           (\<forall>k h. map_of (uc_handlers c) k = Some h \<longrightarrow> map_of (uc_handlers c') k = Some h)"
    (is "if ?blocks users c then _ else ?resolved users c")
  using assms
proof (induction users arbitrary: c)
  case Nil
  then show ?case by (simp add: new_ids_def)
next
  case (Cons user users)
  have step: ?case if "handles_ok c1" "map_of (uc_handlers c1) (u_id user) = Some h" "?blocks (user # users) c = ?blocks users c1"
    "\<And>k g. map_of (uc_handlers c) k = Some g \<Longrightarrow> map_of (uc_handlers c1) k = Some g"
    "handles_for held turn (user # users) c = map_option (\<lambda>(hs, c). (h # hs, c)) (handles_for held turn users c1)" for c1 h
  proof (cases "?blocks users c1")
    case True
    with Cons.IH [OF that(1)] have "handles_for held turn users c1 = None" by (simp only: if_True)
    then have "handles_for held turn (user # users) c = None" by (simp only: that(5) option.map)
    with True show ?thesis unfolding that(3) by (simp only: simp_thms if_True)
  next
    case False
    with Cons.IH [OF that(1)] have "?resolved users c1" by (simp only: if_False)
    from resolved_cons [OF this that(2,4,5)] have "?resolved (user # users) c" .
    then show ?thesis unfolding that(3) using False by (simp only: if_False)
  qed
  show ?case
  proof (cases "map_of (uc_handlers c) (u_id user)")
    case (Some h)
    show ?thesis by (rule step [OF Cons.prems Some _ _ handles_for_known [OF Some]]) (simp_all add: new_ids_known [OF Some])
  next
    case None
    show ?thesis
    proof (cases "getFreeHandle held turn c")
      case blocked: None
      have "new_ids (user # users) c \<noteq> {}" "finite (new_ids (user # users) c)" using None by (auto simp: new_ids_def)
      then have "0 < card (new_ids (user # users) c)" by (simp add: card_gt_0_iff)
      moreover have "handles_for held turn (user # users) c = None" using None blocked by simp
      ultimately show ?thesis using blocked unfolding getFreeHandle_None by simp
    next
      case (Some hc)
      then obtain h c1 where f: "getFreeHandle held turn c = Some (h, c1)" by (cases hc) simp
      from handles_for_new [OF Cons.prems None f, of users] obtain c2 where c2:
        "handles_for held turn (user # users) c = map_option (\<lambda>(hs, c). (h # hs, c)) (handles_for held turn users c2)"
        "handles_ok c2" "map_of (uc_handlers c2) = (map_of (uc_handlers c))(u_id user \<mapsto> h)"
        "uc_pool c \<noteq> [] \<Longrightarrow> length (uc_pool c) = Suc (length (uc_pool c2))" by blast
      have "?blocks (user # users) c = ?blocks users c2"
        using new_ids_new [OF None c2(3), of users] c2(4) getFreeHandle_None [of held turn c] f by auto
      moreover have "map_of (uc_handlers c2) (u_id user) = Some h"
        "\<And>k g. map_of (uc_handlers c) k = Some g \<Longrightarrow> map_of (uc_handlers c2) k = Some g" using c2(3) None by auto
      ultimately show ?thesis by (intro step [OF c2(2) _ _ _ c2(1)])
    qed
  qed
qed

lemma handles_ok_new: "handles_ok new_user_ctrl"
  unfolding new_user_ctrl_def by (rule grow_ok) (simp add: handles_ok_def)

lemma new_user_ctrl_pool: "uc_pool new_user_ctrl \<noteq> []" "uc_handlers new_user_ctrl = []" "uc_pending new_user_ctrl = Map.empty"
  by (simp_all add: new_user_ctrl_def grow_pool) (simp add: pool_grown_def)

definition example_users :: "user_data list" where
  "example_users = [new_user\<lparr>u_id := 4\<rparr>, new_user\<lparr>u_id := 9\<rparr>, new_user\<lparr>u_id := 4\<rparr>]"

definition example_user_ctrl :: user_ctrl where
  "example_user_ctrl = new_user_ctrl\<lparr>uc_pool := [7]\<rparr>"

text \<open>Two new users and one handle in the pool: with the mutex held nothing returns, else all three rows are filled.\<close>

theorem handles_for_one_per_user_witness:
  "handles_for True True example_users example_user_ctrl = None \<and>
   (\<exists>hs c'. handles_for False True example_users example_user_ctrl = Some (hs, c') \<and> handles_ok c' \<and> length hs = 3 \<and>
      map_of (uc_handlers c') 4 = Some (hs ! 0) \<and> hs ! 2 = hs ! 0 \<and> map_of (uc_handlers c') 9 = Some (hs ! 1))"
proof -
  have ok: "handles_ok example_user_ctrl"
    by (simp add: handles_ok_def example_user_ctrl_def new_user_ctrl_def pool_grown_def)
  have new: "new_ids example_users example_user_ctrl = {4, 9}"
    by (auto simp: new_ids_def example_users_def example_user_ctrl_def new_user_ctrl_pool)
  have "handles_for True True example_users example_user_ctrl = None"
    using handles_for_one_per_user [OF ok, of True True example_users] new by (simp add: example_user_ctrl_def)
  moreover obtain hs c' where "handles_for False True example_users example_user_ctrl = Some (hs, c')" "handles_ok c'"
    "length hs = length example_users"
    "\<forall>i < length example_users. map_of (uc_handlers c') (u_id (example_users ! i)) = Some (hs ! i)"
    using handles_for_one_per_user [OF ok, of False True example_users] by (auto simp del: handles_for.simps)
  moreover from this(4) have "map_of (uc_handlers c') (u_id (example_users ! i)) = Some (hs ! i)" if "i < 3" for i
    using that by (simp add: example_users_def)
  note this [of 0] this [of 1] this [of 2]
  ultimately show ?thesis
    by (intro conjI exI [of _ hs] exI [of _ c']) (simp_all add: example_users_def del: handles_for.simps)
qed

text \<open>
  Requests for one user are merged: the first \<open>get\<close> of an unknown user asks the
  server, every further one before the answer joins the same future, and once the answer has been
  filed the handle is returned without a call, carrying the data of the answer.
\<close>

theorem get_user_asks_once:
  assumes "handles_ok c" and "uc_pool c \<noteq> []" and "map_of (uc_handlers c) k = None" and "uc_pending c k = None"
    and "u_id res = k"
  shows "\<exists>c1 h c2. get_user f k c = (Asked (User_Get_exec (Some k)), c1) \<and>
           get_user g k c1 = (Joined f, c1) \<and>
           get_user_done k res c1 = Some (h, c2) \<and> handles_ok c2 \<and>
           get_user e k c2 = (Known h, c2) \<and> uc_heap c2 h = res"
proof -
  let ?c1 = "c\<lparr>uc_pending := (uc_pending c)(k \<mapsto> f)\<rparr>"
  have ok: "handles_ok ?c1" using assms(1) by (simp add: handles_ok_def)
  obtain p ps where p: "uc_pool c = p # ps" using assms(2) by (cases "uc_pool c") auto
  let ?g = "?c1\<lparr>uc_pool := ps\<rparr>"
  have free: "getFreeHandle True True ?c1 = Some (p, ?g)" using p by (simp add: getFreeHandle_pool)
  note g = getFreeHandle_ok [OF ok free]
  have nk: "k \<notin> fst ` set (uc_handlers ?g)" using assms(3) by (simp add: map_of_None_keys)
  let ?c = "(set_handle p res ?g)\<lparr>uc_handlers := omap_emplace k p (uc_handlers ?g)\<rparr>"
  let ?c2 = "?c\<lparr>uc_pending := (uc_pending ?g)(k := None)\<rparr>"
  have fin: "handles_ok ?c" by (rule file_handle_ok [OF g(1-3) nk assms(5)])
  then have "handles_ok ?c2" by (simp add: handles_ok_def)
  moreover have "get_user_done k res ?c1 = Some (p, ?c2)" by (simp add: get_user_done_def free)
  moreover have "get_user e k ?c2 = (Known p, ?c2)"
    using omap_emplace_map_of [OF nk, of p] by (simp add: get_user_def)
  moreover have "uc_heap ?c2 p = res" by (simp add: set_handle_def)
  moreover have "get_user f k c = (Asked (User_Get_exec (Some k)), ?c1)" "get_user g k ?c1 = (Joined f, ?c1)"
    using assms(3,4) by (simp_all add: get_user_def)
  ultimately show ?thesis by blast
qed

theorem get_user_asks_once_witness:
  "\<exists>c1 h c2. get_user 1 9 new_user_ctrl = (Asked (User_Get_exec (Some 9)), c1) \<and>
     get_user 2 9 c1 = (Joined 1, c1) \<and>
     get_user_done 9 (new_user\<lparr>u_id := 9\<rparr>) c1 = Some (h, c2) \<and> handles_ok c2 \<and>
     get_user 3 9 c2 = (Known h, c2) \<and> uc_heap c2 h = new_user\<lparr>u_id := 9\<rparr>"
  by (rule get_user_asks_once [OF handles_ok_new]) (simp_all add: new_user_ctrl_pool)

text \<open>
  An update that carries a name and a tag writes the name into the tag; one that
  carries only a tag reads an empty optional.
\<close>

theorem tag_update_writes_name:
  assumes "map_of (uc_handlers c) (uu_id upd) = Some h" and "uu_tag upd = Some t"
  shows "on_updateUser upd c =
     (case uu_name upd of
        None \<Rightarrow> None
      | Some n \<Rightarrow> Some (c\<lparr>uc_heap := (uc_heap c)(h := (uc_heap c h)\<lparr>u_name := n, u_tag := n,
          u_status := or_default (u_status (uc_heap c h)) (uu_status upd)\<rparr>)\<rparr>))"
  using assms
  by (cases "uc_heap c h"; cases "uu_status upd")
    (auto simp: on_updateUser_def setName_def setTag_def setStatus_def or_default_def Let_def split: option.split)

theorem tag_update_writes_name_witness:
  "on_updateUser \<lparr>uu_name = Some ''n'', uu_tag = Some ''t'', uu_status = None, uu_id = 4\<rparr>
     (new_user_ctrl\<lparr>uc_handlers := [(4, 7)]\<rparr>) =
     (case uu_name \<lparr>uu_name = Some ''n'', uu_tag = Some ''t'', uu_status = None, uu_id = 4\<rparr> of
        None \<Rightarrow> None
      | Some n \<Rightarrow> Some ((new_user_ctrl\<lparr>uc_handlers := [(4, 7)]\<rparr>)\<lparr>uc_heap := (uc_heap (new_user_ctrl\<lparr>uc_handlers := [(4, 7)]\<rparr>))
          (7 := (uc_heap (new_user_ctrl\<lparr>uc_handlers := [(4, 7)]\<rparr>) 7)\<lparr>u_name := n, u_tag := n,
             u_status := or_default (u_status (uc_heap (new_user_ctrl\<lparr>uc_handlers := [(4, 7)]\<rparr>) 7))
               (uu_status \<lparr>uu_name = Some ''n'', uu_tag = Some ''t'', uu_status = None, uu_id = 4\<rparr>)\<rparr>)\<rparr>))"
  by (rule tag_update_writes_name) simp_all

text \<open>The answer to a request never arrives when the pool is empty: the thread waits for its own mutex.\<close>

lemma answer_blocks_on_empty_pool: "uc_pool c = [] \<Longrightarrow> get_user_done k res c = None"
  by (simp add: get_user_done_def getFreeHandle_def growHandlePool_def)

text \<open>The search string: a tag behind an at sign, else a name, each anchored at the start.\<close>

lemma parseSearchString_cases:
  "parseSearchString [] req = (False, req)"
  "parseSearchString (CHR ''@'' # s) req = (True, req\<lparr>uf_tag := Some (CHR ''^'' # s)\<rparr>)"
  "x \<noteq> CHR ''@'' \<Longrightarrow> parseSearchString (x # s) req = (True, req\<lparr>uf_name := Some (CHR ''^'' # x # s)\<rparr>)"
  by (simp_all add: parseSearchString_def)

end
