(* ===== verification/WorkQueue.thy ===== *)
theory WorkQueue
  imports Prelude "HOL-Library.Multiset"
begin

text \<open>
  The contract of the two queues that hand work from one thread to another, the calls of the
  coordinator and the tasks of \<open>TaskQueue\<close>: nothing is lost or duplicated, and what is taken is not
  to come after anything that stays. The consequences for draining a queue are proved once.
\<close>

definition put_all :: "('a \<Rightarrow> 'q \<Rightarrow> 'q) \<Rightarrow> 'a list \<Rightarrow> 'q \<Rightarrow> 'q" where
  "put_all put xs q = fold put xs q"

fun drain_queue :: "('q \<Rightarrow> ('a \<times> 'q) option) \<Rightarrow> nat \<Rightarrow> 'q \<Rightarrow> 'a list \<times> 'q" where
  "drain_queue pick 0 q = ([], q)"
| "drain_queue pick (Suc n) q =
     (case pick q of
        None \<Rightarrow> ([], q)
      | Some (x, q) \<Rightarrow> (let (xs, q) = drain_queue pick n q in (x # xs, q)))"

locale work_queue =
  fixes put :: "'a \<Rightarrow> 'q \<Rightarrow> 'q"
    and pick :: "'q \<Rightarrow> ('a \<times> 'q) option"
    and contents :: "'q \<Rightarrow> 'a multiset"
  assumes put_contents: "contents (put x q) = add_mset x (contents q)"
    and pick_None: "pick q = None \<longleftrightarrow> contents q = {#}"
    and pick_Some: "pick q = Some (x, q') \<Longrightarrow> contents q = add_mset x (contents q')"
begin

lemma put_all_contents: "contents (put_all put xs q) = mset xs + contents q"
  unfolding put_all_def by (induction xs arbitrary: q) (auto simp: put_contents)

text \<open>Taking as often as there are elements empties the queue and yields each of them once.\<close>

lemma drain_contents:
  assumes "drain_queue pick n q = (xs, q')"
  shows "contents q = mset xs + contents q'"
  using assms
proof (induction n arbitrary: q xs q')
  case (Suc n)
  show ?case
  proof (cases "pick q")
    case None
    with Suc.prems show ?thesis by simp
  next
    case (Some p)
    obtain x q1 where p: "p = (x, q1)" by (cases p)
    obtain ys q2 where d: "drain_queue pick n q1 = (ys, q2)" by (cases "drain_queue pick n q1")
    from Suc.prems Some p d have "xs = x # ys" "q' = q2" by auto
    with Suc.IH [OF d] pick_Some [of q x q1] Some p show ?thesis by simp
  qed
qed simp

lemma drain_empties:
  assumes "size (contents q) \<le> n" and "drain_queue pick n q = (xs, q')"
  shows "contents q' = {#}" and "mset xs = contents q"
proof -
  have "contents q' = {#}"
    using assms
  proof (induction n arbitrary: q xs q')
    case 0
    then show ?case by simp
  next
    case (Suc n)
    show ?case
    proof (cases "pick q")
      case None
      with Suc.prems pick_None show ?thesis by simp
    next
      case (Some p)
      obtain x q1 where p: "p = (x, q1)" by (cases p)
      obtain ys q2 where d: "drain_queue pick n q1 = (ys, q2)" by (cases "drain_queue pick n q1")
      have "size (contents q1) \<le> n" using Suc.prems(1) pick_Some [of q x q1] Some p by simp
      from Suc.IH [OF this d] Suc.prems(2) Some p d show ?thesis by simp
    qed
  qed
  then show "contents q' = {#}" "mset xs = contents q"
    using drain_contents [OF assms(2)] by simp_all
qed

end

locale ordered_queue = work_queue +
  fixes before :: "'a \<Rightarrow> 'a \<Rightarrow> bool"
  assumes pick_first: "pick q = Some (x, q') \<Longrightarrow> y \<in># contents q' \<Longrightarrow> \<not> before y x"
begin

lemma drain_sorted:
  "drain_queue pick n q = (xs, q') \<Longrightarrow> sorted_wrt (\<lambda>x y. \<not> before y x) xs"
proof (induction n arbitrary: q xs q')
  case (Suc n)
  show ?case
  proof (cases "pick q")
    case None
    with Suc.prems show ?thesis by simp
  next
    case (Some p)
    obtain x q1 where p: "p = (x, q1)" by (cases p)
    obtain ys q2 where d: "drain_queue pick n q1 = (ys, q2)" by (cases "drain_queue pick n q1")
    have "set ys \<subseteq> set_mset (contents q1)" using drain_contents [OF d] by auto
    with pick_first [of q x q1] Some p have "\<forall>y \<in> set ys. \<not> before y x" by blast
    with Suc.IH [OF d] Suc.prems Some p d show ?thesis by auto
  qed
qed simp

end

end
