(* ===== verification/TaskQueue.thy ===== *)
theory TaskQueue
  imports WorkQueue
begin

text \<open>
  \<open>TaskQueue\<close> (\<open>lib/core/taskqueue.h\<close>, \<open>lib/core/taskqueue.cpp\<close>): the thread that runs the
  callbacks of the web socket. The tasks sit in a \<open>std::priority_queue\<close> over \<open>std::greater<Task>\<close>;
  its top is an element that does not compare greater than any other under the class's own
  \<open>operator>\<close>. Where several do, the library may choose; \<open>tq_top\<close> takes the one pushed first.
\<close>

record task =
  t_time :: int
  t_priority :: nat
  t_func :: nat

text \<open>\<open>Task::operator>\<close>\<close>

definition task_greater :: "task \<Rightarrow> task \<Rightarrow> bool" where
  "task_greater a b \<longleftrightarrow>
     (if t_priority a = t_priority b then t_time a < t_time b else t_priority a > t_priority b)"

record task_queue =
  tq_tasks :: "task list"
  tq_joining :: bool

definition new_task_queue :: task_queue where
  "new_task_queue = \<lparr>tq_tasks = [], tq_joining = False\<rparr>"

fun tq_top :: "task list \<Rightarrow> task option" where
  "tq_top [] = None"
| "tq_top (t # ts) = (case tq_top ts of None \<Rightarrow> Some t | Some u \<Rightarrow> if task_greater t u then Some u else Some t)"

text \<open>\<open>schedule\<close>; \<open>enqueue\<close> is \<open>schedule\<close> with the current time and priority 0.\<close>

definition schedule :: "task \<Rightarrow> task list \<Rightarrow> task list" where
  "schedule t q = q @ [t]"

definition enqueue :: "int \<Rightarrow> nat \<Rightarrow> task list \<Rightarrow> task list" where
  "enqueue now f q = schedule \<lparr>t_time = now, t_priority = 0, t_func = f\<rparr> q"

definition pop_top :: "task list \<Rightarrow> (task \<times> task list) option" where
  "pop_top q = (case tq_top q of None \<Rightarrow> None | Some t \<Rightarrow> Some (t, remove1 t q))"

datatype dequeue_result = Joining | WaitForTask | WaitUntil int | Run nat

text \<open>One round of the loop of \<open>dequeue\<close> at time \<open>now\<close>: what it returns or waits for.\<close>

definition dequeue :: "int \<Rightarrow> task_queue \<Rightarrow> dequeue_result \<times> task_queue" where
  "dequeue now q =
     (if tq_joining q then (Joining, q)
      else case pop_top (tq_tasks q) of
             None \<Rightarrow> (WaitForTask, q)
           | Some (t, ts) \<Rightarrow>
               (if t_time t \<le> now then (Run (t_func t), q\<lparr>tq_tasks := ts\<rparr>)
                else (WaitUntil (t_time t), q)))"

text \<open>
  The destructor joins the first thread and clears the vector in the same iteration: the threads
  after it are destroyed while joinable, which terminates the process.
\<close>

datatype shutdown = Joined | Terminated

definition destroy_threads :: "nat \<Rightarrow> shutdown" where
  "destroy_threads threads = (if threads \<le> 1 then Joined else Terminated)"

section \<open>The order of the tasks\<close>

lemma tq_top_None [simp]: "tq_top q = None \<longleftrightarrow> q = []"
  by (cases q) (auto split: option.splits)

lemma task_greater_irrefl [simp]: "\<not> task_greater a a"
  by (simp add: task_greater_def)

lemma task_greater_trans: "\<not> task_greater b a \<Longrightarrow> \<not> task_greater c b \<Longrightarrow> \<not> task_greater c a"
  by (auto simp: task_greater_def split: if_splits)

lemma task_greater_asym: "task_greater a b \<Longrightarrow> \<not> task_greater b a"
  by (auto simp: task_greater_def split: if_splits)

lemma tq_top_SomeD:
  "tq_top q = Some t \<Longrightarrow> t \<in> set q \<and> (\<forall>u \<in> set q. \<not> task_greater t u)"
proof (induction q arbitrary: t)
  case (Cons a q)
  show ?case
  proof (cases "tq_top q")
    case None
    with Cons.prems show ?thesis by simp
  next
    case (Some u)
    note u = Cons.IH [OF Some]
    show ?thesis
    proof (cases "task_greater a u")
      case True
      with Cons.prems Some have "t = u" by simp
      with u task_greater_asym [OF True] show ?thesis by simp
    next
      case False
      with Cons.prems Some have "t = a" by simp
      with u False task_greater_trans [of u _ a] show ?thesis by auto
    qed
  qed
qed simp

interpretation tasks: ordered_queue schedule pop_top mset "\<lambda>a b. task_greater b a"
proof unfold_locales
  show "mset (schedule x q) = add_mset x (mset q)" for x q by (simp add: schedule_def)
  show "pop_top q = None \<longleftrightarrow> mset q = {#}" for q by (auto simp: pop_top_def split: option.splits)
  show "mset q = add_mset x (mset q')" if "pop_top q = Some (x, q')" for q x q'
    using that tq_top_SomeD [of q x] by (auto simp: pop_top_def split: option.splits)
  show "\<not> task_greater x y" if "pop_top q = Some (x, q')" "y \<in># mset q'" for q x q' y
    using that tq_top_SomeD [of q x] by (auto simp: pop_top_def dest: notin_set_remove1 split: option.splits)
qed

text \<open>
  No task is lost or run twice: whatever is scheduled, taking the tasks until the queue
  is empty yields a permutation of them. The order is the reverse of the intended one: within a
  priority the latest time comes first, and a lower priority number before a higher.
\<close>

theorem tasks_run_latest_first:
  assumes "drain_queue pop_top (length ts) (put_all schedule ts []) = (xs, q')"
  shows "mset xs = mset ts \<and> q' = [] \<and>
         sorted_wrt (\<lambda>a b. t_priority a < t_priority b \<or> t_priority a = t_priority b \<and> t_time b \<le> t_time a) xs"
proof -
  have c: "mset (put_all schedule ts []) = mset ts" using tasks.put_all_contents [of ts "[]"] by simp
  then have n: "size (mset (put_all schedule ts [])) \<le> length ts" by simp
  have "sorted_wrt (\<lambda>a b. \<not> task_greater a b) xs" by (rule tasks.drain_sorted [OF assms])
  then have "sorted_wrt (\<lambda>a b. t_priority a < t_priority b \<or> t_priority a = t_priority b \<and> t_time b \<le> t_time a) xs"
    by (rule sorted_wrt_mono_rel [rotated]) (auto simp: task_greater_def split: if_splits)
  with tasks.drain_empties [OF n assms] c show ?thesis by simp
qed

definition example_tasks :: "task list" where
  "example_tasks = [\<lparr>t_time = 1, t_priority = 0, t_func = 10\<rparr>, \<lparr>t_time = 2, t_priority = 0, t_func = 20\<rparr>]"

lemma example_tasks_drain:
  "drain_queue pop_top (length example_tasks) (put_all schedule example_tasks []) = (rev example_tasks, [])"
  by (simp add: example_tasks_def put_all_def schedule_def pop_top_def task_greater_def)

theorem tasks_run_latest_first_witness:
  "mset (rev example_tasks) = mset example_tasks \<and> ([] :: task list) = [] \<and>
   sorted_wrt (\<lambda>a b. t_priority a < t_priority b \<or> t_priority a = t_priority b \<and> t_time b \<le> t_time a)
     (rev example_tasks)"
  by (rule tasks_run_latest_first [OF example_tasks_drain])

text \<open>
  A task that is due waits behind one that is not: while a later task of the same
  lowest priority is queued, a round of the thread runs nothing.
\<close>

theorem due_task_blocked:
  assumes "\<not> tq_joining q" and "late \<in> set (tq_tasks q)" and "now < t_time late"
    and "\<forall>t \<in> set (tq_tasks q). t_priority t = t_priority late"
  shows "\<exists>until. now < until \<and> dequeue now q = (WaitUntil until, q)"
proof -
  obtain t where t: "tq_top (tq_tasks q) = Some t"
    using assms(2) by (cases "tq_top (tq_tasks q)") auto
  from tq_top_SomeD [OF t] assms(2) have "\<not> task_greater t late" "t \<in> set (tq_tasks q)" by auto
  with assms(3,4) have "now < t_time t" by (auto simp: task_greater_def)
  with t assms(1) show ?thesis by (simp add: dequeue_def pop_top_def)
qed

theorem due_task_blocked_witness:
  "\<exists>until. 1 < until \<and> dequeue 1 \<lparr>tq_tasks = example_tasks, tq_joining = False\<rparr> =
     (WaitUntil until, \<lparr>tq_tasks = example_tasks, tq_joining = False\<rparr>)"
  by (rule due_task_blocked [where late = "\<lparr>t_time = 2, t_priority = 0, t_func = 20\<rparr>"])
    (simp_all add: example_tasks_def)

end
