(* ===== verification/Rpc.thy ===== *)
theory Rpc
  imports Api
begin

text \<open>
  The RPC messages (\<open>lib/network/rpc.cpp\<close>, \<open>rpc.h\<close>) and the client end of the socket,
  \<open>ServerRPCWrapper\<close> (\<open>serverrpcwrapper.cpp\<close>): a call gets a fresh message id, its promise
  waits in \<open>_requests\<close>, and the reply with that id settles it. Text on the wire is the JSON value it
  parses to (\<open>None\<close> when it does not parse); promises are addresses, and what happens to them is
  logged in the order it happens, so that a promise settled twice would show.
\<close>

section \<open>Messages\<close>

definition rpc_invalidID :: int where
  "rpc_invalidID = - 1"

datatype reply_status = Unknown | Success | Error

record reply =
  r_id :: int
  r_repTo :: int
  r_error :: "string option"
  r_status :: reply_status
  r_reply :: json

record method_call =
  mc_id :: int
  mc_method :: string
  mc_args :: json

definition new_reply :: reply where
  "new_reply = \<lparr>r_id = rpc_invalidID, r_repTo = rpc_invalidID, r_error = None, r_status = Unknown, r_reply = JNull\<rparr>"

definition new_method_call :: method_call where
  "new_method_call = \<lparr>mc_id = rpc_invalidID, mc_method = [], mc_args = JNull\<rparr>"

text \<open>\<open>NLOHMANN_JSON_SERIALIZE_ENUM\<close>: a value that is not in the table reads as its first entry.\<close>

definition status_json :: "reply_status \<Rightarrow> json" where
  "status_json s = (case s of Unknown \<Rightarrow> JNull | Success \<Rightarrow> JString ''success'' | Error \<Rightarrow> JString ''error'')"

definition json_status :: "json \<Rightarrow> reply_status" where
  "json_status j = (if j = JString ''success'' then Success else if j = JString ''error'' then Error else Unknown)"

definition reply_to_json :: "reply \<Rightarrow> json" where
  "reply_to_json p =
     JObject ([(''type'', JString ''response''), (''messageID'', JInt (r_id p)),
       (''data'', JObject [(''responseTo'', JInt (r_repTo p)), (''status'', status_json (r_status p)),
          (''return'', r_reply p)])] @ opt_member ''errorString'' JString (r_error p))"

definition at_step :: "(json \<Rightarrow> 'x option) \<Rightarrow> string \<Rightarrow> json \<Rightarrow> ('x \<Rightarrow> 'd \<Rightarrow> 'd) \<Rightarrow> 'd \<Rightarrow> 'd option" where
  "at_step get k j f d = (case json_at k j of None \<Rightarrow> None | Some v \<Rightarrow> map_option (\<lambda>x. f x d) (get v))"

text \<open>\<open>data\<close> is the member \<open>data\<close>, whose absence throws before the statements that use it.\<close>

definition reply_from_json :: "jlib \<Rightarrow> json \<Rightarrow> reply \<Rightarrow> reply" where
  "reply_from_json J j p =
     (let data = or_default JNull (json_at ''data'' j) in
      try_block
        [at_step (get_int J) ''messageID'' j (\<lambda>x p. p\<lparr>r_id := x\<rparr>),
         at_step Some ''data'' j (\<lambda>_ p. p),
         index_step (\<lambda>v. Some (json_status v)) ''status'' data (\<lambda>x p. p\<lparr>r_status := x\<rparr>),
         at_step (get_int J) ''responseTo'' data (\<lambda>x p. p\<lparr>r_repTo := x\<rparr>),
         value_step Some ''return'' JNull data (\<lambda>x p. p\<lparr>r_reply := x\<rparr>),
         member_step (get_string J) ''errorString'' data (\<lambda>x p. p\<lparr>r_error := Some x\<rparr>)] p)"

definition method_call_to_json :: "method_call \<Rightarrow> json" where
  "method_call_to_json p =
     JObject [(''type'', JString ''methodCall''), (''messageID'', JInt (mc_id p)),
       (''data'', JObject [(''method'', JString (mc_method p)), (''args'', mc_args p)])]"

definition method_call_from_json :: "jlib \<Rightarrow> json \<Rightarrow> method_call \<Rightarrow> method_call" where
  "method_call_from_json J j p =
     (let data = or_default JNull (json_at ''data'' j) in
      try_block
        [at_step (get_int J) ''messageID'' j (\<lambda>x p. p\<lparr>mc_id := x\<rparr>),
         at_step Some ''data'' j (\<lambda>_ p. p),
         at_step (get_string J) ''method'' data (\<lambda>x p. p\<lparr>mc_method := x\<rparr>),
         value_step Some ''args'' JNull data (\<lambda>x p. p\<lparr>mc_args := x\<rparr>)] p)"

text \<open>\<open>MessageConstructor\<close>; the static counter, an \<open>int\<close>, is passed in and out. What C++ leaves undefined when it overflows is taken as wrapping.\<close>

definition generateID :: "int \<Rightarrow> int \<times> int" where
  "generateID i = (to_i32 (i + 1), to_i32 (i + 1))"

definition methodCallMsg :: "string \<Rightarrow> json \<Rightarrow> int \<Rightarrow> method_call \<times> int" where
  "methodCallMsg m args i =
     (let (n, i) = generateID i in (new_method_call\<lparr>mc_id := n, mc_method := m, mc_args := args\<rparr>, i))"

definition replyMsg :: "int \<Rightarrow> json \<Rightarrow> int \<Rightarrow> reply \<times> int" where
  "replyMsg replyTo rep i =
     (let (n, i) = generateID i in (new_reply\<lparr>r_id := n, r_repTo := replyTo, r_reply := rep\<rparr>, i))"

section \<open>ServerRPCWrapper\<close>

datatype outcome = Value json | Exception string | Done

record wrapper =
  w_connected :: bool
  w_requests :: "int \<Rightarrow> nat option"
  w_handlers :: "string \<Rightarrow> nat list"
  w_connection :: "nat option"
  w_counter :: int
  w_sent :: "json list"
  w_settled :: "(nat \<times> outcome) list"
  w_called :: "(nat \<times> json) list"
  w_closedCb :: "nat option"

definition new_wrapper :: wrapper where
  "new_wrapper =
     \<lparr>w_connected = False, w_requests = Map.empty, w_handlers = (\<lambda>_. []), w_connection = None,
      w_counter = 1, w_sent = [], w_settled = [], w_called = [], w_closedCb = None\<rparr>"

definition settle :: "nat \<Rightarrow> outcome \<Rightarrow> wrapper \<Rightarrow> wrapper" where
  "settle p r w = w\<lparr>w_settled := w_settled w @ [(p, r)]\<rparr>"

definition handleConnectionError :: "string \<Rightarrow> wrapper \<Rightarrow> wrapper" where
  "handleConnectionError desc w =
     (case w_connection w of
        None \<Rightarrow> w
      | Some p \<Rightarrow> (settle p (Exception desc) w)\<lparr>w_connection := None\<rparr>)"

text \<open>
  \<open>connect\<close>: \<open>fresh\<close> is the new promise, \<open>failure\<close> what \<open>open\<close> throws. The
  result is the promise whose future is returned; after a throw the last line dereferences the promise
  that the error handler has reset (\<open>None\<close>).
\<close>

definition connect :: "nat \<Rightarrow> string option \<Rightarrow> wrapper \<Rightarrow> nat option \<times> wrapper" where
  "connect fresh failure w =
     (case w_connection w of
        Some p \<Rightarrow> (Some p, w)
      | None \<Rightarrow>
          (let w = w\<lparr>w_connection := Some fresh\<rparr>;
               w = (case failure of None \<Rightarrow> w | Some desc \<Rightarrow> handleConnectionError desc w)
           in (w_connection w, w)))"

text \<open>The callbacks of the transport.\<close>

definition on_open :: "wrapper \<Rightarrow> wrapper" where
  "on_open w =
     (case w_connection w of
        Some p \<Rightarrow> (settle p Done (w\<lparr>w_connected := True\<rparr>))\<lparr>w_connection := None\<rparr>
      | None \<Rightarrow> w)"

definition on_closed :: "wrapper \<Rightarrow> wrapper" where
  "on_closed w =
     (if \<not> w_connected w then w
      else let w = w\<lparr>w_connected := False\<rparr>
           in case w_closedCb w of None \<Rightarrow> w | Some cb \<Rightarrow> w\<lparr>w_called := w_called w @ [(cb, JNull)]\<rparr>)"

definition on_error :: "string \<Rightarrow> wrapper \<Rightarrow> wrapper" where
  "on_error = handleConnectionError"

definition set_onClosed :: "nat \<Rightarrow> wrapper \<Rightarrow> wrapper" where
  "set_onClosed cb w = w\<lparr>w_closedCb := Some cb\<rparr>"

definition addClientHandler :: "nat \<Rightarrow> string \<Rightarrow> wrapper \<Rightarrow> wrapper" where
  "addClientHandler h m w = w\<lparr>w_handlers := (w_handlers w)(m := w_handlers w m @ [h])\<rparr>"

text \<open>\<open>handleError\<close> settles the promise; the entry of \<open>_requests\<close> is not erased.\<close>

definition handleError :: "string \<Rightarrow> nat \<Rightarrow> wrapper \<Rightarrow> wrapper" where
  "handleError desc p w = settle p (Exception desc) w"

definition serverMethod :: "string \<Rightarrow> json \<Rightarrow> nat \<Rightarrow> string option \<Rightarrow> wrapper \<Rightarrow> wrapper" where
  "serverMethod m args p failure w =
     (let (msg, n) = methodCallMsg m args (w_counter w);
          w = w\<lparr>w_counter := n\<rparr>;
          w = (if w_requests w (mc_id msg) = None
               then w\<lparr>w_requests := (w_requests w)(mc_id msg \<mapsto> p)\<rparr> else w)
      in case failure of
           None \<Rightarrow> w\<lparr>w_sent := w_sent w @ [method_call_to_json msg]\<rparr>
         | Some desc \<Rightarrow> handleError desc p w)"

definition handleReply :: "reply \<Rightarrow> wrapper \<Rightarrow> wrapper" where
  "handleReply rep w =
     (case w_requests w (r_repTo rep) of
        None \<Rightarrow> w
      | Some p \<Rightarrow>
          (settle p
             (case r_status rep of
                Error \<Rightarrow> Exception (or_default [] (r_error rep))
              | Success \<Rightarrow> Value (r_reply rep)
              | Unknown \<Rightarrow> Exception ''Unknown error'') w)
          \<lparr>w_requests := (w_requests w)(r_repTo rep := None)\<rparr>)"

definition handleMethodCall :: "method_call \<Rightarrow> wrapper \<Rightarrow> wrapper" where
  "handleMethodCall mcall w =
     w\<lparr>w_called := w_called w @ map (\<lambda>h. (h, mc_args mcall)) (w_handlers w (mc_method mcall))\<rparr>"

text \<open>
  \<open>None\<close>: \<open>parse\<close> or \<open>value\<close> throws out of the callback, where nothing catches it.
\<close>

definition handleTextMessage :: "jlib \<Rightarrow> json option \<Rightarrow> wrapper \<Rightarrow> wrapper option" where
  "handleTextMessage J msg w =
     (case msg of
        None \<Rightarrow> None
      | Some j \<Rightarrow>
          (case json_value (get_string J) ''type'' [] j of
             None \<Rightarrow> None
           | Some t \<Rightarrow>
               (if t = ''response'' then Some (handleReply (reply_from_json J j new_reply) w)
                else if t = ''methodCall'' then Some (handleMethodCall (method_call_from_json J j new_method_call) w)
                else Some w)))"

section \<open>Encodings\<close>

text \<open>
  A method call survives the wire: parsing what was written gives it back.
\<close>

theorem method_call_roundtrip:
  assumes "jlib_ok J" and "is_i32 (mc_id m)"
  shows "method_call_from_json J (method_call_to_json m) p = m"
  using assms
  by (cases m) (simp add: method_call_from_json_def method_call_to_json_def at_step_def json_at_def
      value_step_def json_value_def or_default_def Let_def)

theorem method_call_roundtrip_witness:
  "method_call_from_json plain_jlib (method_call_to_json \<lparr>mc_id = 2, mc_method = ''m'', mc_args = JBool True\<rparr>)
     new_method_call = \<lparr>mc_id = 2, mc_method = ''m'', mc_args = JBool True\<rparr>"
  by (rule method_call_roundtrip [OF plain_jlib_ok]) (simp add: is_i32_def)

lemma reply_decoded:
  assumes "jlib_ok J" and "is_i32 (r_id r)" and "is_i32 (r_repTo r)" and "r_error p = None"
  shows "reply_from_json J (reply_to_json r) p = r\<lparr>r_error := None\<rparr>"
proof -
  have "json_status (status_json (r_status r)) = r_status r"
    by (cases "r_status r") (simp_all add: json_status_def status_json_def)
  with assms show ?thesis
    by (cases r) (simp add: reply_from_json_def reply_to_json_def at_step_def json_at_def index_step_def
        json_index_def value_step_def json_value_def member_step_def json_contains_def has_key_def
        or_default_def opt_member_def Let_def)
qed

text \<open>
  A reply survives the wire without its error text: \<open>to_json\<close> writes
  \<open>errorString\<close> beside \<open>data\<close> and \<open>from_json\<close> looks for it inside.
\<close>

theorem reply_loses_error:
  assumes "jlib_ok J" and "is_i32 (r_id r)" and "is_i32 (r_repTo r)" and "r_error p = None"
  shows "reply_from_json J (reply_to_json r) p = r\<lparr>r_error := None\<rparr>"
  by (rule reply_decoded [OF assms])

theorem reply_loses_error_witness:
  "reply_from_json plain_jlib (reply_to_json \<lparr>r_id = 4, r_repTo = 2, r_error = Some ''denied'', r_status = Error, r_reply = JNull\<rparr>)
     new_reply = \<lparr>r_id = 4, r_repTo = 2, r_error = Some ''denied'', r_status = Error, r_reply = JNull\<rparr>\<lparr>r_error := None\<rparr>"
  by (rule reply_loses_error [OF plain_jlib_ok]) (simp_all add: is_i32_def new_reply_def)

end
