(* ===== verification/RpcSystem.thy ===== *)
theory RpcSystem
  imports Rpc
begin

text \<open>
  Runs of the RPC client: calls, connection requests, the events of the transport and messages of the
  server in any order. The state carries, beside the wrapper, the promises handed out so far and those
  whose \<open>send\<close> threw; the number of a run counts its calls, each of which draws an id from the counter. The theorems say what a caller may rely on: a promise is settled at most once,
  an unsettled one still waits in the table, and a reply settles the call it answers and no other.
\<close>

type_synonym rpc_state = "nat set \<times> nat set \<times> wrapper"

inductive rpc_step :: "jlib \<Rightarrow> rpc_state \<Rightarrow> nat \<Rightarrow> rpc_state \<Rightarrow> bool" for J :: jlib where
  CallStep: "p \<notin> I \<Longrightarrow> rpc_step J (I, F, w) 1
     (insert p I, (if failure = None then F else insert p F), serverMethod m args p failure w)"
| ConnectStep: "p \<notin> I \<Longrightarrow> w_connection w = None \<Longrightarrow> connect p failure w = (Some q, w') \<Longrightarrow>
     rpc_step J (I, F, w) 0 (insert p I, F, w')"
| ConnectAgainStep: "w_connection w = Some q \<Longrightarrow> connect p failure w = (Some q, w') \<Longrightarrow>
     rpc_step J (I, F, w) 0 (I, F, w')"
| OpenStep: "rpc_step J (I, F, w) 0 (I, F, on_open w)"
| ClosedStep: "rpc_step J (I, F, w) 0 (I, F, on_closed w)"
| ErrorStep: "rpc_step J (I, F, w) 0 (I, F, on_error desc w)"
| MessageStep: "handleTextMessage J msg w = Some w' \<Longrightarrow> rpc_step J (I, F, w) 0 (I, F, w')"
| HandlerStep: "rpc_step J (I, F, w) 0 (I, F, addClientHandler h m w)"

inductive rpc_reachable :: "jlib \<Rightarrow> nat \<Rightarrow> rpc_state \<Rightarrow> bool" for J :: jlib where
  Start: "rpc_reachable J 0 ({}, {}, new_wrapper)"
| Next: "rpc_reachable J n s \<Longrightarrow> rpc_step J s k t \<Longrightarrow> rpc_reachable J (n + k) t"

text \<open>The first id is 2; up to the call with the largest \<open>int\<close> the ids are all different.\<close>

definition ids_left :: "nat \<Rightarrow> bool" where
  "ids_left n \<longleftrightarrow> int n + 1 < 2 ^ 31"

definition times_settled :: "nat \<Rightarrow> wrapper \<Rightarrow> nat" where
  "times_settled p w = count_list (map fst (w_settled w)) p"

definition waiting :: "nat \<Rightarrow> wrapper \<Rightarrow> bool" where
  "waiting p w \<longleftrightarrow> (\<exists>k. w_requests w k = Some p) \<or> w_connection w = Some p"

section \<open>Invariant\<close>

lemma ex_upd_new: "f k = None \<Longrightarrow> (\<exists>l. (f(k \<mapsto> p)) l = Some q) \<longleftrightarrow> q = p \<or> (\<exists>l. f l = Some q)"
  by (metis fun_upd_apply option.distinct(1) option.inject)

lemma ex_upd_del: "f k = Some p \<Longrightarrow> q \<noteq> p \<Longrightarrow> (\<exists>l. (f(k := None)) l = Some q) \<longleftrightarrow> (\<exists>l. f l = Some q)"
  by (metis fun_upd_apply option.distinct(1) option.inject)

definition table_ok :: "nat set \<Rightarrow> nat set \<Rightarrow> wrapper \<Rightarrow> bool" where
  "table_ok I F w \<longleftrightarrow>
     (\<forall>k p. w_requests w k = Some p \<longrightarrow> p \<in> I \<and> k \<le> w_counter w \<and> w_connection w \<noteq> Some p \<and>
        (p \<notin> F \<longrightarrow> times_settled p w = 0)) \<and>
     (\<forall>k l p. w_requests w k = Some p \<longrightarrow> w_requests w l = Some p \<longrightarrow> k = l)"

definition promises_ok :: "nat set \<Rightarrow> nat set \<Rightarrow> wrapper \<Rightarrow> bool" where
  "promises_ok I F w \<longleftrightarrow>
     (\<forall>p. w_connection w = Some p \<longrightarrow> p \<in> I \<and> p \<notin> F \<and> times_settled p w = 0) \<and>
     (\<forall>p \<in> I - F. times_settled p w = 1 \<or> times_settled p w = 0 \<and> waiting p w) \<and>
     (\<forall>p. p \<notin> I \<longrightarrow> times_settled p w = 0) \<and> F \<subseteq> I"

definition rpc_inv :: "rpc_state \<Rightarrow> bool" where
  "rpc_inv s \<longleftrightarrow> (case s of (I, F, w) \<Rightarrow> table_ok I F w \<and> promises_ok I F w)"

lemma times_settled_settle [simp]:
  "times_settled q (settle p r w) = times_settled q w + (if p = q then 1 else 0)"
  by (simp add: times_settled_def settle_def)

lemma settle_frame [simp]:
  "w_requests (settle p r w) = w_requests w" "w_connection (settle p r w) = w_connection w"
  "w_counter (settle p r w) = w_counter w"
  by (simp_all add: settle_def)

text \<open>The parts of the wrapper the invariant does not look at.\<close>

lemma rpc_inv_cong:
  assumes "rpc_inv (I, F, w)" and "w_requests w' = w_requests w" and "w_connection w' = w_connection w"
    and "w_counter w' = w_counter w" and "w_settled w' = w_settled w"
  shows "rpc_inv (I, F, w')"
proof -
  have t: "times_settled p w' = times_settled p w" for p using assms(5) by (simp add: times_settled_def)
  have w: "waiting p w' = waiting p w" for p using assms(2,3) by (simp add: waiting_def)
  show ?thesis
    using assms(1) unfolding rpc_inv_def table_ok_def promises_ok_def by (simp add: t w assms(2-4))
qed

lemma rpc_inv_end_connection:
  assumes "rpc_inv (I, F, w)" and "w_connection w = Some p"
  shows "rpc_inv (I, F, (settle p r w)\<lparr>w_connection := None\<rparr>)"
proof -
  let ?w = "(settle p r w)\<lparr>w_connection := None\<rparr>"
  have t: "times_settled q ?w = times_settled q w + (if p = q then 1 else 0)" for q
    using times_settled_settle [of q p r w] by (simp add: times_settled_def)
  have wt: "waiting q ?w \<longleftrightarrow> (\<exists>k. w_requests w k = Some q)" for q by (simp add: waiting_def)
  from assms have tab: "table_ok I F w" and pr: "promises_ok I F w" by (simp_all add: rpc_inv_def)
  have p: "p \<in> I" "p \<notin> F" "times_settled p w = 0" using pr assms(2) by (simp_all add: promises_ok_def)
  have np: "w_requests w k \<noteq> Some p" for k using tab assms(2) by (auto simp: table_ok_def)
  have "table_ok I F ?w" using tab np by (auto simp: table_ok_def t)
  moreover have "promises_ok I F ?w"
    using pr p assms(2) unfolding promises_ok_def t wt by (auto simp: waiting_def)
  ultimately show ?thesis by (simp add: rpc_inv_def)
qed

lemma rpc_inv_connectionError: "rpc_inv (I, F, w) \<Longrightarrow> rpc_inv (I, F, handleConnectionError d w)"
  by (simp add: handleConnectionError_def rpc_inv_end_connection split: option.split)

lemma rpc_inv_open: "rpc_inv (I, F, w) \<Longrightarrow> rpc_inv (I, F, on_open w)"
proof (cases "w_connection w")
  case (Some p)
  assume i: "rpc_inv (I, F, w)"
  have "rpc_inv (I, F, w\<lparr>w_connected := True\<rparr>)" by (rule rpc_inv_cong [OF i]) simp_all
  from rpc_inv_end_connection [OF this, of p Done] Some show ?thesis by (simp add: on_open_def)
qed (simp add: on_open_def)

lemma rpc_inv_closed: "rpc_inv (I, F, w) \<Longrightarrow> rpc_inv (I, F, on_closed w)"
  by (erule rpc_inv_cong) (simp_all add: on_closed_def Let_def split: option.split)

lemma rpc_inv_connect:
  assumes "rpc_inv (I, F, w)" and "p \<notin> I" and "w_connection w = None" and "connect p failure w = (Some q, w')"
  shows "rpc_inv (insert p I, F, w')"
proof -
  have w': "w' = w\<lparr>w_connection := Some p\<rparr>"
    using assms(3,4) by (auto simp: connect_def handleConnectionError_def Let_def split: option.splits)
  have t: "times_settled r w' = times_settled r w" for r by (simp add: w' times_settled_def)
  from assms(1) have tab: "table_ok I F w" and pr: "promises_ok I F w" by (simp_all add: rpc_inv_def)
  have "table_ok (insert p I) F w'" using tab assms(2) unfolding table_ok_def t by (auto simp: w')
  moreover have "promises_ok (insert p I) F w'"
    using pr assms(2,3) unfolding promises_ok_def t by (auto simp: w' waiting_def)
  ultimately show ?thesis by (simp add: rpc_inv_def)
qed

lemma rpc_inv_call:
  assumes "rpc_inv (I, F, w)" and "p \<notin> I" and "is_i32 (w_counter w + 1)"
  shows "rpc_inv (insert p I, (if failure = None then F else insert p F), serverMethod m args p failure w)"
proof -
  let ?k = "w_counter w + 1" and ?F = "if failure = None then F else insert p F"
  let ?w = "serverMethod m args p failure w"
  from assms(1) have tab: "table_ok I F w" and pr: "promises_ok I F w" by (simp_all add: rpc_inv_def)
  have f: "w_requests w ?k = None"
  proof (cases "w_requests w ?k")
    case (Some q)
    with tab have "?k \<le> w_counter w" unfolding table_ok_def by blast
    then show ?thesis by simp
  qed
  have rq: "w_requests ?w = (w_requests w)(?k \<mapsto> p)" and cn: "w_connection ?w = w_connection w"
    and ct: "w_counter ?w = ?k"
    by (simp_all add: serverMethod_def methodCallMsg_def generateID_def assms(3) Let_def f handleError_def split: option.split)
  have ts: "times_settled q ?w = times_settled q w + (if failure \<noteq> None \<and> p = q then 1 else 0)" for q
    by (simp add: serverMethod_def methodCallMsg_def generateID_def assms(3) Let_def f handleError_def
        times_settled_def settle_def split: option.split)
  have p0: "times_settled p w = 0" using pr assms(2) by (simp add: promises_ok_def)
  have np: "w_requests w k \<noteq> Some p" "w_connection w \<noteq> Some p" for k
    using tab pr assms(2) by (auto simp: table_ok_def promises_ok_def)
  have le: "w_requests w k = Some q \<Longrightarrow> k \<le> w_counter w + 1" for k q
    using tab unfolding table_ok_def by force
  have "table_ok (insert p I) ?F ?w"
    using tab np p0 f le unfolding table_ok_def rq cn ct ts by (auto split: if_splits)
  moreover have "promises_ok (insert p I) ?F ?w"
  proof -
    have w: "waiting q ?w \<longleftrightarrow> waiting q w \<or> q = p" for q
      unfolding waiting_def rq cn ex_upd_new [of "w_requests w", OF f] by blast
    show ?thesis
      using pr np p0 assms(2) unfolding promises_ok_def ts cn w by (auto split: if_splits)
  qed
  ultimately show ?thesis by (simp add: rpc_inv_def)
qed

lemma rpc_inv_reply:
  assumes "rpc_inv (I, F, w)"
  shows "rpc_inv (I, F, handleReply rep w)"
proof (cases "w_requests w (r_repTo rep)")
  case None
  with assms show ?thesis by (simp add: handleReply_def)
next
  case (Some p)
  define r where "r = (case r_status rep of Error \<Rightarrow> Exception (or_default [] (r_error rep))
              | Success \<Rightarrow> Value (r_reply rep) | Unknown \<Rightarrow> Exception ''Unknown error'')"
  let ?w = "(settle p r w)\<lparr>w_requests := (w_requests w)(r_repTo rep := None)\<rparr>"
  have w: "handleReply rep w = ?w" using Some by (simp add: handleReply_def r_def)
  have t: "times_settled q ?w = times_settled q w + (if p = q then 1 else 0)" for q
    using times_settled_settle [of q p r w] by (simp add: times_settled_def)
  from assms have tab: "table_ok I F w" and pr: "promises_ok I F w" by (simp_all add: rpc_inv_def)
  have u: "k \<noteq> r_repTo rep \<Longrightarrow> w_requests w k \<noteq> Some p" for k
    using tab Some unfolding table_ok_def by blast
  have p: "p \<in> I" "p \<notin> F \<Longrightarrow> times_settled p w = 0" "w_connection w \<noteq> Some p"
    using tab Some by (auto simp: table_ok_def)
  have "table_ok I F ?w" using tab u unfolding table_ok_def t by (auto split: if_splits)
  moreover have "promises_ok I F ?w"
  proof -
    have "waiting q ?w = waiting q w" if "q \<noteq> p" for q
    proof -
      have "(\<exists>k. w_requests ?w k = Some q) = (\<exists>k. w_requests w k = Some q)"
        using ex_upd_del [of "w_requests w", OF Some that] by simp
      then show ?thesis unfolding waiting_def by simp
    qed
    then show ?thesis using pr p unfolding promises_ok_def t by auto
  qed
  ultimately show ?thesis by (simp add: rpc_inv_def w)
qed

lemma rpc_inv_message:
  "rpc_inv (I, F, w) \<Longrightarrow> handleTextMessage J msg w = Some w' \<Longrightarrow> rpc_inv (I, F, w')"
  by (auto simp: handleTextMessage_def rpc_inv_reply handleMethodCall_def elim: rpc_inv_cong
      split: option.splits if_splits)

abbreviation counter_of :: "rpc_state \<Rightarrow> int" where
  "counter_of s \<equiv> w_counter (snd (snd s))"

lemma rpc_inv_step:
  assumes "rpc_step J s k t" and "rpc_inv s" and "k = 0 \<or> is_i32 (counter_of s + 1)"
  shows "rpc_inv t"
  using assms(1)
proof cases
  case (CallStep p I F w failure m args)
  with assms(2,3) rpc_inv_call [of I F w p failure m args] show ?thesis by simp
next
  case (ConnectStep p I w failure q w' F)
  with assms(2) show ?thesis by (simp add: rpc_inv_connect)
next
  case (ConnectAgainStep w q p failure w' I F)
  with assms(2) show ?thesis by (simp add: connect_def)
next
  case (MessageStep msg w w' I F)
  with assms(2) show ?thesis by (simp add: rpc_inv_message)
next
  case (HandlerStep I F w h m)
  from assms(2) [unfolded HandlerStep(1)] show ?thesis
    unfolding HandlerStep by (rule rpc_inv_cong) (simp_all add: addClientHandler_def)
qed (use assms(2) in \<open>simp_all add: rpc_inv_open rpc_inv_closed rpc_inv_connectionError on_error_def\<close>)

lemma counter_frame:
  "w_counter (on_open w) = w_counter w" "w_counter (on_closed w) = w_counter w" "w_counter (on_error d w) = w_counter w"
  "w_counter (snd (connect p failure w)) = w_counter w" "w_counter (addClientHandler h m w) = w_counter w"
  "handleTextMessage J msg w = Some w' \<Longrightarrow> w_counter w' = w_counter w"
  by (auto simp: on_open_def on_closed_def on_error_def handleConnectionError_def connect_def addClientHandler_def Let_def
      handleTextMessage_def handleReply_def handleMethodCall_def split: option.splits if_splits)

lemma counter_call: "is_i32 (w_counter w + 1) \<Longrightarrow> w_counter (serverMethod m args p failure w) = w_counter w + 1"
  by (auto simp: serverMethod_def methodCallMsg_def generateID_def Let_def handleError_def split: option.split)

lemma counter_step:
  assumes "rpc_step J s k t" and "k = 0 \<or> is_i32 (counter_of s + 1)"
  shows "counter_of t = counter_of s + int k"
  using assms(1)
proof cases
  case (ConnectStep p I w failure q w' F)
  then show ?thesis using counter_frame(4) [of p failure w] by simp
next
  case (ConnectAgainStep w q p failure w' I F)
  then show ?thesis using counter_frame(4) [of p failure w] by simp
next
  case (MessageStep msg w w' I F)
  then show ?thesis using counter_frame(6) by simp
qed (use assms(2) in \<open>simp_all add: counter_frame(1-3,5) counter_call\<close>)

lemma rpc_inv_reachable: "rpc_reachable J n s \<Longrightarrow> ids_left n \<Longrightarrow> rpc_inv s \<and> counter_of s = 1 + int n"
proof (induction rule: rpc_reachable.induct)
  case Start
  show ?case
    by (simp add: rpc_inv_def table_ok_def promises_ok_def new_wrapper_def times_settled_def)
next
  case (Next n s k t)
  have "ids_left n" using Next.prems by (simp add: ids_left_def)
  with Next.IH have i: "rpc_inv s" "counter_of s = 1 + int n" by simp_all
  then have k: "k = 0 \<or> is_i32 (counter_of s + 1)" using Next.prems by (auto simp: ids_left_def is_i32_def)
  from rpc_inv_step [OF Next.hyps(2) i(1) k] counter_step [OF Next.hyps(2) k] i(2) show ?case by simp
qed

section \<open>Properties\<close>

text \<open>
  C4: In every run of up to 2147483646 calls, the number of ids that an \<open>int\<close> has for them, a promise whose message was sent is
  settled at most once, and as long as it is not settled it is in the table (or is the connection promise): no call is forgotten
  and no reply settles a call twice.
\<close>

theorem promise_settled_at_most_once:
  assumes "rpc_reachable J n (I, F, w)" and "int n < 2 ^ 31 - 1" and "p \<in> I" and "p \<notin> F"
  shows "times_settled p w = 1 \<and> \<not> waiting p w \<or> times_settled p w = 0 \<and> waiting p w"
proof -
  have i: "table_ok I F w" "promises_ok I F w"
    using rpc_inv_reachable [OF assms(1)] assms(2) by (simp_all add: rpc_inv_def ids_left_def)
  have z: "waiting p w \<Longrightarrow> times_settled p w = 0"
    using i assms(4) unfolding waiting_def table_ok_def promises_ok_def by blast
  have "times_settled p w = 1 \<or> times_settled p w = 0 \<and> waiting p w"
    using i(2) assms(3,4) unfolding promises_ok_def by blast
  with z show ?thesis by auto
qed

text \<open>Two calls, the first of which is answered.\<close>

definition two_calls :: wrapper where
  "two_calls = serverMethod ''n'' JNull 1 None (serverMethod ''m'' JNull 0 None new_wrapper)"

definition first_reply :: json where
  "first_reply = reply_to_json \<lparr>r_id = 9, r_repTo = 2, r_error = None, r_status = Success, r_reply = JInt 5\<rparr>"

definition one_answered :: wrapper where
  "one_answered = the (handleTextMessage plain_jlib (Some first_reply) two_calls)"

lemma reply_of_call:
  assumes "jlib_ok J" and "w_requests w k = Some p" and "is_i32 k" and "is_i32 n"
    and "msg = reply_to_json \<lparr>r_id = n, r_repTo = k, r_error = None, r_status = Success, r_reply = v\<rparr>"
  shows "\<exists>w'. handleTextMessage J (Some msg) w = Some w' \<and> w_settled w' = w_settled w @ [(p, Value v)] \<and>
           w_requests w' = (w_requests w)(k := None) \<and> handleTextMessage J (Some msg) w' = Some w'"
proof -
  have "reply_from_json J msg new_reply = \<lparr>r_id = n, r_repTo = k, r_error = None, r_status = Success, r_reply = v\<rparr>"
    using reply_decoded [OF assms(1), of "\<lparr>r_id = n, r_repTo = k, r_error = None, r_status = Success, r_reply = v\<rparr>"]
      assms(3-5) by (simp add: new_reply_def)
  moreover have "json_value (get_string J) ''type'' [] msg = Some ''response''"
    using assms(1) by (simp add: assms(5) reply_to_json_def json_value_def)
  ultimately show ?thesis
    using assms(2) by (simp add: handleTextMessage_def handleReply_def settle_def)
qed

lemma one_answered_run:
  "handleTextMessage plain_jlib (Some first_reply) two_calls = Some one_answered"
  "w_settled one_answered = [(0, Value (JInt 5))]" "w_requests one_answered 3 = Some 1"
proof -
  have "w_requests two_calls = [2 \<mapsto> 0, 3 \<mapsto> 1]" "w_settled two_calls = []"
    by (auto simp: two_calls_def serverMethod_def methodCallMsg_def generateID_def new_wrapper_def new_method_call_def
        is_i32_def Let_def)
  with reply_of_call [OF plain_jlib_ok, of two_calls 2 0 9 first_reply "JInt 5"] obtain w where
    "handleTextMessage plain_jlib (Some first_reply) two_calls = Some w" "w_settled w = [(0, Value (JInt 5))]"
    "w_requests w 3 = Some 1" by (auto simp: is_i32_def first_reply_def)
  then show "handleTextMessage plain_jlib (Some first_reply) two_calls = Some one_answered"
    "w_settled one_answered = [(0, Value (JInt 5))]" "w_requests one_answered 3 = Some 1"
    by (simp_all add: one_answered_def)
qed

lemma one_answered_reachable: "rpc_reachable plain_jlib 2 ({1, 0}, {}, one_answered)"
proof -
  have c: "rpc_reachable plain_jlib n (I, {}, w) \<Longrightarrow> p \<notin> I \<Longrightarrow>
      rpc_reachable plain_jlib (n + 1) (insert p I, {}, serverMethod m args p None w)" for n I w p m args
    using Next [OF _ CallStep [of p I plain_jlib "{}" w None m args]] by simp
  have "rpc_reachable plain_jlib (0 + 1 + 1) ({1, 0}, {}, two_calls)"
    unfolding two_calls_def by (rule c [OF c [OF Start]]) simp_all
  from Next [OF this MessageStep [OF one_answered_run(1)]] show ?thesis by (simp add: numeral_2_eq_2)
qed

theorem promise_settled_at_most_once_witness:
  "times_settled 0 one_answered = 1 \<and> \<not> waiting 0 one_answered \<and>
   times_settled 1 one_answered = 0 \<and> waiting 1 one_answered"
proof -
  have "times_settled 0 one_answered = 1" "times_settled 1 one_answered = 0" "waiting 1 one_answered"
    using one_answered_run by (auto simp: times_settled_def waiting_def)
  with promise_settled_at_most_once [OF one_answered_reachable, of 0] show ?thesis by simp
qed

text \<open>
  The reply to a waiting call settles that call with the returned value, removes it from
  the table and touches no other call; the second copy of the reply changes nothing.
\<close>

theorem reply_settles_its_call:
  assumes "jlib_ok J" and "w_requests w k = Some p" and "is_i32 k" and "is_i32 n"
    and "msg = reply_to_json \<lparr>r_id = n, r_repTo = k, r_error = None, r_status = Success, r_reply = v\<rparr>"
  shows "\<exists>w'. handleTextMessage J (Some msg) w = Some w' \<and> w_settled w' = w_settled w @ [(p, Value v)] \<and>
           w_requests w' = (w_requests w)(k := None) \<and> handleTextMessage J (Some msg) w' = Some w'"
  by (rule reply_of_call [OF assms])


theorem reply_settles_its_call_witness:
  "\<exists>w'. handleTextMessage plain_jlib (Some (reply_to_json
       \<lparr>r_id = 9, r_repTo = 2, r_error = None, r_status = Success, r_reply = JInt 5\<rparr>))
       (serverMethod ''m'' JNull 0 None new_wrapper) = Some w' \<and>
     w_settled w' = w_settled (serverMethod ''m'' JNull 0 None new_wrapper) @ [(0, Value (JInt 5))] \<and>
     w_requests w' = (w_requests (serverMethod ''m'' JNull 0 None new_wrapper))(2 := None) \<and>
     handleTextMessage plain_jlib (Some (reply_to_json
       \<lparr>r_id = 9, r_repTo = 2, r_error = None, r_status = Success, r_reply = JInt 5\<rparr>)) w' = Some w'"
  by (rule reply_settles_its_call [OF plain_jlib_ok])
    (simp_all add: serverMethod_def methodCallMsg_def generateID_def new_wrapper_def new_method_call_def is_i32_def)

text \<open>
  When \<open>open\<close> throws, \<open>connect\<close> dereferences the promise its own error handler
  has reset, after it has failed that promise.
\<close>

theorem connect_failure_returns_null:
  assumes "w_connection w = None"
  shows "\<exists>w'. connect p (Some desc) w = (None, w') \<and> w_settled w' = w_settled w @ [(p, Exception desc)]"
  using assms by (simp add: connect_def handleConnectionError_def settle_def)

theorem connect_failure_returns_null_witness:
  "\<exists>w'. connect 3 (Some ''refused'') new_wrapper = (None, w') \<and>
     w_settled w' = w_settled new_wrapper @ [(3, Exception ''refused'')]"
  by (rule connect_failure_returns_null) (simp add: new_wrapper_def)

text \<open>
  A lost connection settles nothing: after \<open>onClosed\<close> every call waits on, and only
  a message of the server could settle it.
\<close>

theorem closed_leaves_calls_waiting:
  "w_settled (on_closed w) = w_settled w \<and> w_requests (on_closed w) = w_requests w \<and>
   \<not> w_connected (on_closed w)"
  by (simp add: on_closed_def Let_def split: option.split)


text \<open>After a failed \<open>send\<close> the call is settled, and its entry stays in the table.\<close>

lemma send_failure_keeps_entry:
  assumes "w_requests w (to_i32 (w_counter w + 1)) = None"
  shows "w_requests (serverMethod m args p (Some d) w) (to_i32 (w_counter w + 1)) = Some p"
    and "w_settled (serverMethod m args p (Some d) w) = w_settled w @ [(p, Exception d)]"
  using assms by (simp_all add: serverMethod_def methodCallMsg_def generateID_def Let_def handleError_def settle_def new_method_call_def)

end
