(* ===== verification/Coordinator.thy ===== *)
theory Coordinator
  imports Rpc WorkQueue
begin

text \<open>
  \<open>NetworkCoordinator\<close> (\<open>lib/network/networkcoordinator.cpp\<close>): the controllers queue their
  calls, and one thread takes them, connects when it has to, and hands them to the RPC client. What
  \<open>isConnected\<close> answers after the \<open>k\<close>-th connection attempt is the argument \<open>up\<close>.
\<close>

section \<open>State\<close>

record method_info =
  mi_call :: call
  mi_promise :: nat

record credentials =
  cr_login :: string
  cr_password :: string

record coordinator =
  co_directCalls :: "method_info list"
  co_authorizedCalls :: "method_info list"
  co_active :: bool
  co_user :: int
  co_reconnectionCount :: int
  co_credentials :: credentials
  co_disconnectedCb :: "nat option"

definition new_coordinator :: coordinator where
  "new_coordinator =
     \<lparr>co_directCalls = [], co_authorizedCalls = [], co_active = True, co_user = invalidID,
      co_reconnectionCount = 5, co_credentials = \<lparr>cr_login = [], cr_password = []\<rparr>, co_disconnectedCb = None\<rparr>"

section \<open>Operations\<close>

definition queue_call :: "method_info \<Rightarrow> coordinator \<Rightarrow> coordinator" where
  "queue_call mi c =
     (case call_priority (mi_call mi) of
        DirectCall \<Rightarrow> c\<lparr>co_directCalls := co_directCalls c @ [mi]\<rparr>
      | AuthorizedCall \<Rightarrow> c\<lparr>co_authorizedCalls := mi # co_authorizedCalls c\<rparr>)"

text \<open>\<open>takeMethod\<close>; with both queues empty it ends without a \<open>return\<close> (\<open>None\<close>).\<close>

definition takeMethod :: "coordinator \<Rightarrow> (method_info \<times> coordinator) option" where
  "takeMethod c =
     (case co_directCalls c of
        mi # rest \<Rightarrow> Some (mi, c\<lparr>co_directCalls := rest\<rparr>)
      | [] \<Rightarrow>
          (case co_authorizedCalls c of
             mi # rest \<Rightarrow> Some (mi, c\<lparr>co_authorizedCalls := rest\<rparr>)
           | [] \<Rightarrow> None))"

text \<open>The loop around \<open>connect().waitForFinished()\<close>: the number of attempts made.\<close>

function reconnect :: "int \<Rightarrow> (nat \<Rightarrow> bool) \<Rightarrow> nat \<Rightarrow> nat" where
  "reconnect limit up i = (if int i < limit \<and> \<not> up i then reconnect limit up (Suc i) else i)"
  by auto

termination reconnect
  by (relation "measure (\<lambda>(limit, up, i). nat limit - i)") auto

declare reconnect.simps [simp del]

datatype round = Idle | Stopped | Rejected method_info string | Dispatched method_info

text \<open>
  One round of \<open>threadFunc\<close>. The wait ends when a call is queued or the coordinator is stopped;
  \<open>Idle\<close> is a thread still waiting.
\<close>

definition thread_round :: "(nat \<Rightarrow> bool) \<Rightarrow> coordinator \<Rightarrow> (round \<times> coordinator) option" where
  "thread_round up c =
     (if co_directCalls c = [] \<and> co_authorizedCalls c = [] \<and> co_active c then Some (Idle, c)
      else if \<not> co_active c then Some (Stopped, c)
      else
        let tries = reconnect (co_reconnectionCount c) up 0 in
        (case takeMethod c of
           None \<Rightarrow> None
         | Some (mi, c) \<Rightarrow>
             Some (if \<not> up tries then Rejected mi ''Server is not responding'' else Dispatched mi, c)))"

definition setCredentials :: "credentials \<Rightarrow> coordinator \<Rightarrow> coordinator" where
  "setCredentials other c = c\<lparr>co_credentials := other\<rparr>"

definition setReconnectionCount :: "int \<Rightarrow> coordinator \<Rightarrow> coordinator" where
  "setReconnectionCount other c = c\<lparr>co_reconnectionCount := other\<rparr>"

definition currentUser :: "coordinator \<Rightarrow> int" where
  "currentUser c = co_user c"

definition isActive :: "coordinator \<Rightarrow> bool" where
  "isActive c = co_active c"

definition onDisconnected :: "nat \<Rightarrow> coordinator \<Rightarrow> coordinator" where
  "onDisconnected cb c = c\<lparr>co_disconnectedCb := Some cb\<rparr>"

text \<open>\<open>disconnect\<close> closes the transport and forgets the user; the queued calls stay.\<close>

definition disconnect :: "coordinator \<Rightarrow> coordinator" where
  "disconnect c = c\<lparr>co_user := invalidID\<rparr>"

definition stop :: "coordinator \<Rightarrow> coordinator" where
  "stop c = (disconnect c)\<lparr>co_active := False\<rparr>"

definition login_call :: "credentials \<Rightarrow> call" where
  "login_call cr = directCall ''loginUser''
     (JObject [(''login'', JString (cr_login cr)), (''password'', JString (cr_password cr))])"

definition initialize :: "nat \<Rightarrow> coordinator \<Rightarrow> coordinator" where
  "initialize promise c = queue_call \<lparr>mi_call = login_call (co_credentials c), mi_promise = promise\<rparr> c"

definition initialize_done :: "jlib \<Rightarrow> json \<Rightarrow> coordinator \<Rightarrow> coordinator" where
  "initialize_done J res c = c\<lparr>co_user := u_id (user_of J res)\<rparr>"

section \<open>The queues\<close>

definition queued :: "coordinator \<Rightarrow> method_info multiset" where
  "queued c = mset (co_directCalls c) + mset (co_authorizedCalls c)"

definition is_direct :: "method_info \<Rightarrow> bool" where
  "is_direct mi \<longleftrightarrow> call_priority (mi_call mi) = DirectCall"

text \<open>Direct calls sit in the one queue, the others in the other.\<close>

definition sorted_in :: "coordinator \<Rightarrow> bool" where
  "sorted_in c \<longleftrightarrow> (\<forall>mi \<in> set (co_directCalls c). is_direct mi) \<and> (\<forall>mi \<in> set (co_authorizedCalls c). \<not> is_direct mi)"

lemma sorted_in_queue: "sorted_in c \<Longrightarrow> sorted_in (queue_call mi c)"
  by (cases "call_priority (mi_call mi)") (auto simp: sorted_in_def queue_call_def is_direct_def)

lemma sorted_in_take: "sorted_in c \<Longrightarrow> takeMethod c = Some (mi, c') \<Longrightarrow> sorted_in c'"
  by (auto simp: sorted_in_def takeMethod_def split: list.splits)

interpretation calls: work_queue queue_call takeMethod queued
proof unfold_locales
  show "queued (queue_call x q) = add_mset x (queued q)" for x q
    by (simp add: queued_def queue_call_def split: priority.split)
  show "takeMethod q = None \<longleftrightarrow> queued q = {#}" for q
    by (auto simp: queued_def takeMethod_def split: list.splits)
  show "queued q = add_mset x (queued q')" if "takeMethod q = Some (x, q')" for q x q'
    using that by (auto simp: queued_def takeMethod_def split: list.splits)
qed

lemma queue_call_cases:
  "is_direct mi \<Longrightarrow> queue_call mi c = c\<lparr>co_directCalls := co_directCalls c @ [mi]\<rparr>"
  "\<not> is_direct mi \<Longrightarrow> queue_call mi c = c\<lparr>co_authorizedCalls := mi # co_authorizedCalls c\<rparr>"
  by (cases "call_priority (mi_call mi)"; simp add: queue_call_def is_direct_def)+

lemma takeMethod_cases:
  "co_directCalls c = m # ms \<Longrightarrow> takeMethod c = Some (m, c\<lparr>co_directCalls := ms\<rparr>)"
  "co_directCalls c = [] \<Longrightarrow> co_authorizedCalls c = m # ms \<Longrightarrow> takeMethod c = Some (m, c\<lparr>co_authorizedCalls := ms\<rparr>)"
  "co_directCalls c = [] \<Longrightarrow> co_authorizedCalls c = [] \<Longrightarrow> takeMethod c = None"
  by (simp_all add: takeMethod_def)

text \<open>The queues after a run of \<open>serverMethod\<close>s, and the order the thread takes them in.\<close>

lemma put_all_calls:
  "co_directCalls (put_all queue_call ms c) = co_directCalls c @ filter is_direct ms \<and>
   co_authorizedCalls (put_all queue_call ms c) = rev (filter (\<lambda>m. \<not> is_direct m) ms) @ co_authorizedCalls c"
proof (induction ms arbitrary: c)
  case Nil
  show ?case by (simp add: put_all_def)
next
  case (Cons m ms)
  have "put_all queue_call (m # ms) c = put_all queue_call ms (queue_call m c)" by (simp add: put_all_def)
  with Cons [of "queue_call m c"] show ?case
    by (cases "is_direct m") (simp_all add: queue_call_cases)
qed

lemma drain_calls:
  "length (co_directCalls c) + length (co_authorizedCalls c) \<le> n \<Longrightarrow>
     fst (drain_queue takeMethod n c) = co_directCalls c @ co_authorizedCalls c"
proof (induction n arbitrary: c)
  case (Suc n)
  show ?case
  proof (cases "co_directCalls c")
    case (Cons m ms)
    with Suc.prems Suc.IH [of "c\<lparr>co_directCalls := ms\<rparr>"] show ?thesis
      by (simp add: takeMethod_cases(1) [OF Cons] case_prod_unfold Let_def)
  next
    case Nil
    note d = this
    show ?thesis
    proof (cases "co_authorizedCalls c")
      case (Cons m ms)
      with d Suc.prems Suc.IH [of "c\<lparr>co_authorizedCalls := ms\<rparr>"] show ?thesis
        by (simp add: takeMethod_cases(2) [OF d Cons] case_prod_unfold Let_def)
    qed (simp add: d takeMethod_cases(3))
  qed
qed simp

section \<open>Properties\<close>

text \<open>
  C32: No call is lost or sent twice, and direct calls go first: from an idle coordinator,
  the calls queued before the thread gets to them are taken as the direct ones in their order followed
  by the authorized ones in the reverse of theirs. The second queue is a stack, so the last of two
  messages queued while the client connects is sent first.
\<close>

theorem calls_taken_in_order:
  assumes "co_directCalls c = []" and "co_authorizedCalls c = []"
    and "drain_queue takeMethod (length ms) (put_all queue_call ms c) = (xs, c')"
  shows "xs = filter is_direct ms @ rev (filter (\<lambda>m. \<not> is_direct m) ms) \<and> mset xs = mset ms \<and> queued c' = {#}"
proof -
  let ?q = "put_all queue_call ms c"
  have q: "queued ?q = mset ms"
    using assms(1,2) calls.put_all_contents [of ms c] by (simp add: queued_def)
  then have n: "size (queued ?q) \<le> length ms" by simp
  have "length (co_directCalls ?q) + length (co_authorizedCalls ?q) \<le> length ms"
    using q by (metis queued_def n size_mset size_union)
  from drain_calls [OF this] put_all_calls [of ms c] assms
  have "xs = filter is_direct ms @ rev (filter (\<lambda>m. \<not> is_direct m) ms)" by simp
  with calls.drain_empties [OF n assms(3)] q show ?thesis by simp
qed

definition example_calls :: "method_info list" where
  "example_calls = [\<lparr>mi_call = serverCall ''a'' JNull, mi_promise = 1\<rparr>, \<lparr>mi_call = serverCall ''b'' JNull, mi_promise = 2\<rparr>,
     \<lparr>mi_call = directCall ''c'' JNull, mi_promise = 3\<rparr>]"

lemma example_calls_drain:
  "drain_queue takeMethod (length example_calls) (put_all queue_call example_calls new_coordinator) =
     ([\<lparr>mi_call = directCall ''c'' JNull, mi_promise = 3\<rparr>, \<lparr>mi_call = serverCall ''b'' JNull, mi_promise = 2\<rparr>,
       \<lparr>mi_call = serverCall ''a'' JNull, mi_promise = 1\<rparr>], new_coordinator)"
  by (simp add: example_calls_def put_all_def queue_call_def takeMethod_def new_coordinator_def
      serverCall_def directCall_def)

theorem calls_taken_in_order_witness:
  "[\<lparr>mi_call = directCall ''c'' JNull, mi_promise = 3\<rparr>, \<lparr>mi_call = serverCall ''b'' JNull, mi_promise = 2\<rparr>,
       \<lparr>mi_call = serverCall ''a'' JNull, mi_promise = 1\<rparr>] =
     filter is_direct example_calls @ rev (filter (\<lambda>m. \<not> is_direct m) example_calls) \<and>
   mset [\<lparr>mi_call = directCall ''c'' JNull, mi_promise = 3\<rparr>, \<lparr>mi_call = serverCall ''b'' JNull, mi_promise = 2\<rparr>,
       \<lparr>mi_call = serverCall ''a'' JNull, mi_promise = 1\<rparr>] = mset example_calls \<and>
   queued new_coordinator = {#}"
  by (rule calls_taken_in_order [OF _ _ example_calls_drain]) (simp_all add: new_coordinator_def)

lemma reconnect_bounds:
  "i \<le> reconnect limit up i \<and> (int i \<le> limit \<longrightarrow> int (reconnect limit up i) \<le> limit) \<and>
     (up (reconnect limit up i) \<or> limit \<le> int (reconnect limit up i)) \<and>
     (\<forall>j. i \<le> j \<longrightarrow> j < reconnect limit up i \<longrightarrow> \<not> up j)"
proof (induction limit up i rule: reconnect.induct)
  case (1 limit up i)
  show ?case
  proof (cases "int i < limit \<and> \<not> up i")
    case True
    then have r: "reconnect limit up i = reconnect limit up (Suc i)" by (subst reconnect.simps) simp
    have "\<not> up j" if "i \<le> j" "j < reconnect limit up (Suc i)" for j
      using 1 [OF True] True that by (cases "j = i") auto
    with 1 [OF True] True show ?thesis unfolding r by auto
  next
    case False
    then have "reconnect limit up i = i" by (subst reconnect.simps) auto
    with False show ?thesis by auto
  qed
qed

text \<open>
  The thread connects before it sends and gives up after a bounded number of attempts:
  a round with queued calls takes one call and dispatches it exactly if the connection came up within
  \<open>reconnectionCount\<close> attempts, and otherwise fails its future; it never runs into an empty queue.
\<close>

theorem round_takes_one_call:
  assumes "co_active c" and "queued c \<noteq> {#}" and "0 \<le> co_reconnectionCount c"
  shows "\<exists>mi c' r. thread_round up c = Some (r, c') \<and> queued c = add_mset mi (queued c') \<and>
           (if \<exists>k. int k \<le> co_reconnectionCount c \<and> up k then r = Dispatched mi
            else r = Rejected mi ''Server is not responding'')"
proof -
  let ?n = "reconnect (co_reconnectionCount c) up 0"
  from assms(2) obtain mi c' where t: "takeMethod c = Some (mi, c')"
    using calls.pick_None by (cases "takeMethod c") auto
  have "\<not> (co_directCalls c = [] \<and> co_authorizedCalls c = [])" using assms(2) by (auto simp: queued_def)
  with assms(1) t have r: "thread_round up c =
      Some (if \<not> up ?n then Rejected mi ''Server is not responding'' else Dispatched mi, c')"
    by (auto simp: thread_round_def Let_def)
  note b = reconnect_bounds [of 0 "co_reconnectionCount c" up]
  have "(\<exists>k. int k \<le> co_reconnectionCount c \<and> up k) \<longleftrightarrow> up ?n"
  proof
    assume "\<exists>k. int k \<le> co_reconnectionCount c \<and> up k"
    then obtain k where k: "int k \<le> co_reconnectionCount c" "up k" by blast
    show "up ?n"
    proof (rule ccontr)
      assume "\<not> up ?n"
      with b k(1) have "k \<le> ?n" by auto
      with b k(2) \<open>\<not> up ?n\<close> show False by (cases "k = ?n") auto
    qed
  next
    assume "up ?n"
    with b assms(3) show "\<exists>k. int k \<le> co_reconnectionCount c \<and> up k" by auto
  qed
  with r calls.pick_Some [OF t] show ?thesis by auto
qed

theorem round_takes_one_call_witness:
  "\<exists>mi c' r. thread_round (\<lambda>k. k = 2) (put_all queue_call example_calls new_coordinator) = Some (r, c') \<and>
     queued (put_all queue_call example_calls new_coordinator) = add_mset mi (queued c') \<and>
     (if \<exists>k. int k \<le> co_reconnectionCount (put_all queue_call example_calls new_coordinator) \<and> k = 2
      then r = Dispatched mi else r = Rejected mi ''Server is not responding'')"
  by (rule round_takes_one_call)
    (simp_all add: example_calls_def put_all_def queue_call_def new_coordinator_def serverCall_def
      directCall_def queued_def)

end
