(* ===== verification/RtcService.thy ===== *)
theory RtcService
  imports Codec Api
begin

text \<open>
  \<open>rtc::Service\<close> (\<open>lib/network/rtcservice.cpp\<close>): one context per peer with its tracks,
  packet pipes and decoders, and one encoder (and, for video, packetizer) shared by all peers,
  whose output every peer's track listens to. A context is known to the callbacks by a weak pointer;
  it is numbered here, so that a callback of a dead context is told from the context that has replaced it.
  The tracks, peer connections and codecs belong to libdatachannel and FFmpeg: what they answer is
  the argument \<open>M\<close>, when they call back is a step. An operation that dereferences a null
  pointer or an empty optional is \<open>None\<close>.
\<close>

section \<open>State\<close>

datatype handler = EncodeVideo | EncodeAudio | Packetize | Decode | SendTo int nat

text \<open>
  A track is opened by this client or received from the peer; the two get different frame handlers.
\<close>

datatype track = OpenedTrack | ReceivedTrack

text \<open>\<open>pm_opening\<close>: an \<open>onOpen\<close> callback is set on the track and has not been called.\<close>

record peer_media =
  pm_track :: "track option"
  pm_opening :: bool
  pm_pipe :: "(unit, handler) pipe option"
  pm_decoder :: "decoder option"
  pm_listener :: "int option"

datatype pc_command = SetRemote rtc_description | AddCandidate rtc_candidate

record peer =
  pr_no :: nat
  pr_audio :: peer_media
  pr_video :: peer_media
  pr_commands :: "pc_command list"

record service =
  sv_peers :: "(int, peer) omap"
  sv_fresh :: nat
  sv_frames :: "nat \<Rightarrow> (unit, handler) pipe"
  sv_freshPipe :: nat
  sv_frameIndex :: int
  sv_packetIndex :: int
  sv_rawIndex :: int
  sv_encoder :: "(unit, handler) encoder option"
  sv_packetizer :: "(unit, handler) packetizer option"
  sv_audioEncoder :: "(unit, handler) encoder option"
  sv_sent :: "int list"

text \<open>What FFmpeg answers: codecs found, steps of \<open>start\<close>, formats that differ, packets filled.\<close>

record ffmpeg =
  fm_h264 :: bool
  fm_opus :: bool
  fm_opens :: bool
  fm_converts :: bool
  fm_rtp :: bool
  fm_header :: bool
  fm_fills :: bool

definition new_media :: peer_media where
  "new_media = \<lparr>pm_track = None, pm_opening = False, pm_pipe = None, pm_decoder = None, pm_listener = None\<rparr>"

definition new_peer :: "nat \<Rightarrow> peer" where
  "new_peer n = \<lparr>pr_no = n, pr_audio = new_media, pr_video = new_media, pr_commands = []\<rparr>"

definition packet_pipe :: "(unit, handler) pipe" where
  "packet_pipe = new_pipe 128 (\<lambda>_. ())"

definition raw_pipe :: "(unit, handler) pipe" where
  "raw_pipe = new_pipe 2 (\<lambda>_. ())"

definition new_service :: "(nat \<Rightarrow> (unit, handler) pipe) \<Rightarrow> nat \<Rightarrow> service" where
  "new_service frames n =
     \<lparr>sv_peers = [], sv_fresh = 0, sv_frames = frames, sv_freshPipe = n, sv_frameIndex = 0, sv_packetIndex = 0,
      sv_rawIndex = 0, sv_encoder = None, sv_packetizer = None, sv_audioEncoder = None, sv_sent = []\<rparr>"

section \<open>Peer contexts\<close>

definition getPeerContext :: "int \<Rightarrow> service \<Rightarrow> peer option" where
  "getPeerContext k s = map_of (sv_peers s) k"

definition createPeerContext :: "int \<Rightarrow> service \<Rightarrow> service" where
  "createPeerContext k s =
     s\<lparr>sv_peers := omap_emplace k (new_peer (sv_fresh s)) (sv_peers s), sv_fresh := Suc (sv_fresh s)\<rparr>"

definition getOrCreatePeerContext :: "int \<Rightarrow> service \<Rightarrow> service" where
  "getOrCreatePeerContext k s = (if getPeerContext k s = None then createPeerContext k s else s)"

text \<open>A write through the shared pointer to the context of \<open>k\<close>.\<close>

definition with_peer :: "int \<Rightarrow> (peer \<Rightarrow> peer) \<Rightarrow> service \<Rightarrow> service" where
  "with_peer k f s = s\<lparr>sv_peers := map (\<lambda>(j, p). (j, if j = k then f p else p)) (sv_peers s)\<rparr>"

definition on_video :: "int \<Rightarrow> (peer_media \<Rightarrow> peer_media) \<Rightarrow> service \<Rightarrow> service" where
  "on_video k f = with_peer k (\<lambda>p. p\<lparr>pr_video := f (pr_video p)\<rparr>)"

definition on_audio :: "int \<Rightarrow> (peer_media \<Rightarrow> peer_media) \<Rightarrow> service \<Rightarrow> service" where
  "on_audio k f = with_peer k (\<lambda>p. p\<lparr>pr_audio := f (pr_audio p)\<rparr>)"

section \<open>Sending\<close>

text \<open>\<open>_localVideo.packetizer->output()->onDataChanged(packetizerRawHandler)\<close>.\<close>

definition listen_raw :: "int \<Rightarrow> nat \<Rightarrow> service \<Rightarrow> service option" where
  "listen_raw k n s =
     (case sv_packetizer s of
        None \<Rightarrow> None
      | Some z \<Rightarrow>
          (case onDataChanged (SendTo k n) (sv_rawIndex s) (pk_output z) of
             Inl x \<Rightarrow> None
           | Inr (l, idx, out) \<Rightarrow>
               Some (on_video k (\<lambda>m. m\<lparr>pm_listener := Some l\<rparr>)
                       (s\<lparr>sv_packetizer := Some (z\<lparr>pk_output := out\<rparr>), sv_rawIndex := idx\<rparr>))))"

definition listen_audio :: "int \<Rightarrow> nat \<Rightarrow> service \<Rightarrow> service option" where
  "listen_audio k n s =
     (case sv_audioEncoder s of
        None \<Rightarrow> None
      | Some e \<Rightarrow>
          (case onDataChanged (SendTo k n) (sv_packetIndex s) (en_out e) of
             Inl x \<Rightarrow> None
           | Inr (l, idx, out) \<Rightarrow>
               Some (on_audio k (\<lambda>m. m\<lparr>pm_listener := Some l\<rparr>)
                       (s\<lparr>sv_audioEncoder := Some (e\<lparr>en_out := out\<rparr>), sv_packetIndex := idx\<rparr>))))"

text \<open>
  The part of \<open>openLocalVideo\<close> before the track: the encoder runs on the input \<open>a\<close> and the
  packetizer on the encoder. What \<open>start\<close> returns is not looked at.
\<close>

definition start_video :: "ffmpeg \<Rightarrow> nat \<Rightarrow> service \<Rightarrow> service option" where
  "start_video M a s =
     (let e = (case sv_encoder s of None \<Rightarrow> new_encoder (fm_h264 M) packet_pipe | Some e \<Rightarrow> e) in
      case (if en_input e \<noteq> Some a
            then video_start EncodeVideo (fm_opens M) a (sv_frameIndex s) (sv_frames s) e
            else Inr (True, sv_frameIndex s, sv_frames s, e)) of
        Inl x \<Rightarrow> None
      | Inr (_, fidx, frames, e) \<Rightarrow>
          (let z = (case sv_packetizer s of
                      None \<Rightarrow> new_packetizer (fm_rtp M \<and> en_ctx e) raw_pipe
                    | Some z \<Rightarrow> z)
           in case (if \<not> pk_started z
                    then packetizer_start Packetize (fm_header M) (sv_packetIndex s) (en_out e) z
                    else Inr (True, sv_packetIndex s, en_out e, z)) of
                Inl x \<Rightarrow> None
              | Inr (_, pidx, out, z) \<Rightarrow>
                  Some (s\<lparr>sv_frameIndex := fidx, sv_frames := frames, sv_packetIndex := pidx,
                          sv_encoder := Some (e\<lparr>en_out := out\<rparr>), sv_packetizer := Some z\<rparr>)))"

definition openLocalVideo :: "ffmpeg \<Rightarrow> int \<Rightarrow> nat \<Rightarrow> service \<Rightarrow> service option" where
  "openLocalVideo M k a s =
     (case start_video M a (getOrCreatePeerContext k s) of
        None \<Rightarrow> None
      | Some s \<Rightarrow>
          (case getPeerContext k s of
             None \<Rightarrow> None
           | Some p \<Rightarrow>
               (if pm_track (pr_video p) = None
                then Some (on_video k (\<lambda>m. m\<lparr>pm_track := Some OpenedTrack, pm_opening := True\<rparr>) s)
                else listen_raw k (pr_no p) s)))"

definition start_audio :: "ffmpeg \<Rightarrow> nat \<Rightarrow> service \<Rightarrow> service option" where
  "start_audio M a s =
     (let e = (case sv_audioEncoder s of None \<Rightarrow> new_encoder (fm_opus M) packet_pipe | Some e \<Rightarrow> e) in
      case (if en_input e \<noteq> Some a
            then audio_start EncodeAudio (fm_converts M) (fm_opens M) a (sv_frameIndex s) (sv_frames s) e
            else Inr (True, sv_frameIndex s, sv_frames s, e)) of
        Inl x \<Rightarrow> None
      | Inr (_, fidx, frames, e) \<Rightarrow>
          Some (s\<lparr>sv_frameIndex := fidx, sv_frames := frames, sv_audioEncoder := Some e\<rparr>))"

definition openLocalAudio :: "ffmpeg \<Rightarrow> int \<Rightarrow> nat \<Rightarrow> service \<Rightarrow> service option" where
  "openLocalAudio M k a s =
     (case start_audio M a (getOrCreatePeerContext k s) of
        None \<Rightarrow> None
      | Some s \<Rightarrow>
          (case getPeerContext k s of
             None \<Rightarrow> None
           | Some p \<Rightarrow>
               (if pm_track (pr_audio p) = None
                then Some (on_audio k (\<lambda>m. m\<lparr>pm_track := Some OpenedTrack, pm_opening := True\<rparr>) s)
                else listen_audio k (pr_no p) s)))"

text \<open>The \<open>onOpen\<close> callbacks of the tracks that this client opened.\<close>

definition video_track_open :: "int \<Rightarrow> service \<Rightarrow> service option" where
  "video_track_open k s =
     (case getPeerContext k s of
        None \<Rightarrow> Some s
      | Some p \<Rightarrow>
          (if pm_opening (pr_video p)
           then listen_raw k (pr_no p) (on_video k (\<lambda>m. m\<lparr>pm_opening := False\<rparr>) s) else Some s))"

definition audio_track_open :: "int \<Rightarrow> service \<Rightarrow> service option" where
  "audio_track_open k s =
     (case getPeerContext k s of
        None \<Rightarrow> Some s
      | Some p \<Rightarrow>
          (if pm_opening (pr_audio p)
           then listen_audio k (pr_no p) (on_audio k (\<lambda>m. m\<lparr>pm_opening := False\<rparr>) s) else Some s))"

text \<open>The listener of a peer on the packetizer: it sends while its context is alive.\<close>

definition send_video :: "int \<Rightarrow> nat \<Rightarrow> nat \<Rightarrow> service \<Rightarrow> service option" where
  "send_video k n index s =
     (case sv_packetizer s of
        None \<Rightarrow> None
      | Some z \<Rightarrow>
          (case unmapReading index (pk_output z) of
             Inl x \<Rightarrow> None
           | Inr out \<Rightarrow>
               (let s = s\<lparr>sv_packetizer := Some (z\<lparr>pk_output := out\<rparr>)\<rparr> in
                case getPeerContext k s of
                  None \<Rightarrow> Some s
                | Some p \<Rightarrow> Some (if pr_no p = n then s\<lparr>sv_sent := sv_sent s @ [k]\<rparr> else s))))"

text \<open>The listener of a peer on the audio encoder.\<close>

definition send_audio :: "int \<Rightarrow> nat \<Rightarrow> nat \<Rightarrow> service \<Rightarrow> service option" where
  "send_audio k n index s =
     (case sv_audioEncoder s of
        None \<Rightarrow> None
      | Some e \<Rightarrow>
          (case unmapReading index (en_out e) of
             Inl x \<Rightarrow> None
           | Inr out \<Rightarrow>
               (let s = s\<lparr>sv_audioEncoder := Some (e\<lparr>en_out := out\<rparr>)\<rparr> in
                case getPeerContext k s of
                  None \<Rightarrow> Some s
                | Some p \<Rightarrow> Some (if pr_no p = n then s\<lparr>sv_sent := sv_sent s @ [k]\<rparr> else s))))"

section \<open>Closing\<close>

text \<open>The destructors of pipe and decoder leave nothing behind: the pipe dies with its listeners.\<close>

definition flushRemoteVideo :: "int \<Rightarrow> service \<Rightarrow> service" where
  "flushRemoteVideo k = on_video k (\<lambda>m. m\<lparr>pm_pipe := None, pm_decoder := None\<rparr>)"

definition flushRemoteAudio :: "int \<Rightarrow> service \<Rightarrow> service" where
  "flushRemoteAudio k = on_audio k (\<lambda>m. m\<lparr>pm_pipe := None, pm_decoder := None\<rparr>)"

text \<open>\<open>removeListener\<close> through a pointer that may be null.\<close>

definition unlisten_raw :: "int list \<Rightarrow> service \<Rightarrow> service option" where
  "unlisten_raw ls s =
     (if ls = [] then Some s
      else case sv_packetizer s of
             None \<Rightarrow> None
           | Some z \<Rightarrow>
               Some (s\<lparr>sv_packetizer := Some (z\<lparr>pk_output := foldl (\<lambda>out l. removeListener l out) (pk_output z) ls\<rparr>)\<rparr>))"

definition unlisten_audio :: "int list \<Rightarrow> service \<Rightarrow> service option" where
  "unlisten_audio ls s =
     (if ls = [] then Some s
      else case sv_audioEncoder s of
             None \<Rightarrow> None
           | Some e \<Rightarrow>
               Some (s\<lparr>sv_audioEncoder := Some (e\<lparr>en_out := foldl (\<lambda>out l. removeListener l out) (en_out e) ls\<rparr>)\<rparr>))"

definition closeUserConnection :: "int \<Rightarrow> service \<Rightarrow> service option" where
  "closeUserConnection k s =
     (let s = flushRemoteVideo k (flushRemoteAudio k s) in
      case getPeerContext k s of
        None \<Rightarrow> Some s
      | Some p \<Rightarrow>
          Option.bind (unlisten_raw (case pm_listener (pr_video p) of Some l \<Rightarrow> [l] | None \<Rightarrow> []) s) (\<lambda>s.
          Option.bind (unlisten_audio (case pm_listener (pr_audio p) of Some l \<Rightarrow> [l] | None \<Rightarrow> []) s) (\<lambda>s.
          Some (s\<lparr>sv_peers := omap_erase k (sv_peers s)\<rparr>))))"

text \<open>
  The loops of \<open>closeLocalVideo\<close> and \<open>closeLocalAudio\<close> go over all peers, whatever the argument is, and leave
  the numbers of the removed listeners in place. An \<open>unordered_map\<close> has no order of its own; the
  order of its keys is taken here.
\<close>

definition closeLocalVideo :: "int \<Rightarrow> service \<Rightarrow> service option" where
  "closeLocalVideo k s = unlisten_raw (List.map_filter (\<lambda>(j, p). pm_listener (pr_video p)) (sv_peers s)) s"

definition closeLocalAudio :: "int \<Rightarrow> service \<Rightarrow> service option" where
  "closeLocalAudio k s = unlisten_audio (List.map_filter (\<lambda>(j, p). pm_listener (pr_audio p)) (sv_peers s)) s"

text \<open>
  \<open>closeAllConnections\<close> in its two locked regions: first encoders and packetizer, then the peers. Other operations can come
  in between.
\<close>

definition close_codecs :: "service \<Rightarrow> service" where
  "close_codecs s =
     (let frames = (case sv_encoder s of None \<Rightarrow> sv_frames s | Some e \<Rightarrow> fst (video_close (sv_frames s) e));
          frames = (case sv_audioEncoder s of None \<Rightarrow> frames | Some e \<Rightarrow> fst (audio_close frames e))
      in s\<lparr>sv_frames := frames, sv_encoder := None, sv_packetizer := None, sv_audioEncoder := None\<rparr>)"

definition clear_peers :: "service \<Rightarrow> service" where
  "clear_peers s = s\<lparr>sv_peers := []\<rparr>"

definition closeAllConnections :: "service \<Rightarrow> service" where
  "closeAllConnections s = clear_peers (close_codecs s)"

section \<open>Receiving\<close>

text \<open>A decoder with a new output pipe, started on the packet pipe of the peer.\<close>

definition start_decoder ::
    "bool \<Rightarrow> int \<Rightarrow> nat \<Rightarrow> (unit, handler) pipe \<Rightarrow> (int \<times> (unit, handler) pipe \<times> decoder) option" where
  "start_decoder found idx a inp =
     (case decoder_start Decode idx inp (new_decoder found a) of
        Inl x \<Rightarrow> None
      | Inr (_, idx, inp, d) \<Rightarrow> Some (idx, inp, d))"

text \<open>
  \<open>if (!packetPipe) packetPipe = createNullBufferPacketPipe(); if (!decoder) { \<dots>; decoder->start(packetPipe); }\<close>
\<close>

definition ensure_decoder :: "bool \<Rightarrow> peer_media \<Rightarrow> service \<Rightarrow> (peer_media \<times> service) option" where
  "ensure_decoder found m s =
     (let inp = (case pm_pipe m of None \<Rightarrow> packet_pipe | Some q \<Rightarrow> q) in
      case pm_decoder m of
        Some d \<Rightarrow> Some (m\<lparr>pm_pipe := Some inp\<rparr>, s)
      | None \<Rightarrow>
          (case start_decoder found (sv_packetIndex s) (sv_freshPipe s) inp of
             None \<Rightarrow> None
           | Some (idx, inp, d) \<Rightarrow>
               Some (m\<lparr>pm_pipe := Some inp, pm_decoder := Some d\<rparr>,
                     s\<lparr>sv_packetIndex := idx, sv_freshPipe := Suc (sv_freshPipe s)\<rparr>)))"

text \<open>The result is the number of the frame pipe, \<open>None\<close> when the codec was not found.\<close>

definition decoder_output :: "peer_media \<Rightarrow> nat option" where
  "decoder_output m =
     (case pm_decoder m of Some d \<Rightarrow> (if dc_ready d then Some (dc_out d) else None) | None \<Rightarrow> None)"

definition getRemoteVideo :: "ffmpeg \<Rightarrow> int \<Rightarrow> service \<Rightarrow> (nat option \<times> service) option" where
  "getRemoteVideo M k s =
     (let s = getOrCreatePeerContext k s in
      case getPeerContext k s of
        None \<Rightarrow> None
      | Some p \<Rightarrow>
          (case ensure_decoder (fm_h264 M) (pr_video p) s of
             None \<Rightarrow> None
           | Some (m, s) \<Rightarrow> Some (decoder_output m, on_video k (\<lambda>_. m) s)))"

definition getRemoteAudio :: "ffmpeg \<Rightarrow> int \<Rightarrow> service \<Rightarrow> (nat option \<times> service) option" where
  "getRemoteAudio M k s =
     (let s = getOrCreatePeerContext k s in
      case getPeerContext k s of
        None \<Rightarrow> None
      | Some p \<Rightarrow>
          (case ensure_decoder (fm_opus M) (pr_audio p) s of
             None \<Rightarrow> None
           | Some (m, s) \<Rightarrow> Some (decoder_output m, on_audio k (\<lambda>_. m) s)))"

text \<open>
  The \<open>onTrack\<close> callback. It looks the context up without creating it. The video part makes the
  packet pipe only, the audio part also the decoder, which is started only with a new pipe.
\<close>

definition on_track_video :: "int \<Rightarrow> service \<Rightarrow> service option" where
  "on_track_video k s =
     (case getPeerContext k s of
        None \<Rightarrow> None
      | Some p \<Rightarrow>
          Some (on_video k (\<lambda>m. m\<lparr>pm_track := Some ReceivedTrack, pm_opening := False,
                  pm_pipe := Some (case pm_pipe m of None \<Rightarrow> packet_pipe | Some q \<Rightarrow> q)\<rparr>) s))"

definition on_track_audio :: "ffmpeg \<Rightarrow> int \<Rightarrow> service \<Rightarrow> service option" where
  "on_track_audio M k s =
     (case getPeerContext k s of
        None \<Rightarrow> None
      | Some p \<Rightarrow>
          (let m = (pr_audio p)\<lparr>pm_track := Some ReceivedTrack, pm_opening := False\<rparr>;
               (d, s) = (case pm_decoder m of
                           None \<Rightarrow> (new_decoder (fm_opus M) (sv_freshPipe s), s\<lparr>sv_freshPipe := Suc (sv_freshPipe s)\<rparr>)
                         | Some d \<Rightarrow> (d, s))
           in case pm_pipe m of
                Some q \<Rightarrow> Some (on_audio k (\<lambda>_. m\<lparr>pm_decoder := Some d\<rparr>) s)
              | None \<Rightarrow>
                  (case decoder_start Decode (sv_packetIndex s) packet_pipe d of
                     Inl x \<Rightarrow> None
                   | Inr (_, idx, inp, d) \<Rightarrow>
                       Some (on_audio k (\<lambda>_. m\<lparr>pm_decoder := Some d, pm_pipe := Some inp\<rparr>)
                               (s\<lparr>sv_packetIndex := idx\<rparr>)))))"

text \<open>
  A frame goes into the packet pipe; the result is the calls on the listeners. A packet
  that cannot be filled leaves its slot taken. \<open>full\<close> is what the handler does when no slot
  is free.
\<close>

definition push_frame ::
    "bool \<Rightarrow> 'r option \<Rightarrow> ((int, handler) omap \<Rightarrow> (unit, handler) pipe \<Rightarrow> 'r) \<Rightarrow> (unit, handler) pipe \<Rightarrow> 'r option" where
  "push_frame fills full k q =
     (case tryHoldForWriting q of
        Inl x \<Rightarrow> None
      | Inr (None, q) \<Rightarrow> full
      | Inr (Some (packet, subpipe), q) \<Rightarrow>
          (if \<not> fills then Some (k [] q)
           else case unmapWriting subpipe True q of
                  Inl x \<Rightarrow> None
                | Inr (ns, q) \<Rightarrow> Some (k ns q)))"

text \<open>A frame of a received track goes into the packet pipe, which is not made here.\<close>

definition received_video_frame ::
    "ffmpeg \<Rightarrow> int \<Rightarrow> peer_media \<Rightarrow> service \<Rightarrow> ((int, handler) omap \<times> service) option" where
  [simp]: "received_video_frame M k m s =
     (case pm_pipe m of
        None \<Rightarrow> None
      | Some q \<Rightarrow>
          push_frame (fm_fills M) (Some ([], s)) (\<lambda>ns q. (ns, on_video k (\<lambda>m. m\<lparr>pm_pipe := Some q\<rparr>) s)) q)"

definition received_audio_frame ::
    "ffmpeg \<Rightarrow> int \<Rightarrow> peer_media \<Rightarrow> service \<Rightarrow> ((int, handler) omap \<times> service) option" where
  [simp]: "received_audio_frame M k m s =
     (case pm_pipe m of
        None \<Rightarrow> None
      | Some q \<Rightarrow>
          push_frame (fm_fills M) (Some ([], s)) (\<lambda>ns q. (ns, on_audio k (\<lambda>m. m\<lparr>pm_pipe := Some q\<rparr>) s)) q)"

definition on_video_frame :: "ffmpeg \<Rightarrow> int \<Rightarrow> service \<Rightarrow> ((int, handler) omap \<times> service) option" where
  "on_video_frame M k s =
     (case getPeerContext k s of
        None \<Rightarrow> Some ([], s)
      | Some p \<Rightarrow>
          (case pm_track (pr_video p) of
             None \<Rightarrow> Some ([], s)
           | Some OpenedTrack \<Rightarrow>
               (case ensure_decoder (fm_h264 M) (pr_video p) s of
                  None \<Rightarrow> None
                | Some (m, s) \<Rightarrow>
                    (case pm_pipe m of
                       None \<Rightarrow> None
                     | Some q \<Rightarrow>
                         push_frame (fm_fills M) (Some ([], on_video k (\<lambda>_. m) s))
                           (\<lambda>ns q. (ns, on_video k (\<lambda>_. m\<lparr>pm_pipe := Some q\<rparr>) s)) q))
           | Some ReceivedTrack \<Rightarrow> received_video_frame M k (pr_video p) s))"

text \<open>The audio handler of an opened track goes on without a slot, through an empty optional.\<close>

definition on_audio_frame :: "ffmpeg \<Rightarrow> int \<Rightarrow> service \<Rightarrow> ((int, handler) omap \<times> service) option" where
  "on_audio_frame M k s =
     (case getPeerContext k s of
        None \<Rightarrow> Some ([], s)
      | Some p \<Rightarrow>
          (case pm_track (pr_audio p) of
             None \<Rightarrow> Some ([], s)
           | Some OpenedTrack \<Rightarrow>
               (case ensure_decoder (fm_opus M) (pr_audio p) s of
                  None \<Rightarrow> None
                | Some (m, s) \<Rightarrow>
                    (case pm_pipe m of
                       None \<Rightarrow> None
                     | Some q \<Rightarrow>
                         push_frame (fm_fills M) None
                           (\<lambda>ns q. (ns, on_audio k (\<lambda>_. m\<lparr>pm_pipe := Some q\<rparr>) s)) q))
           | Some ReceivedTrack \<Rightarrow> received_audio_frame M k (pr_audio p) s))"

section \<open>Signalling\<close>

definition on_description :: "rtc_description \<Rightarrow> service \<Rightarrow> service" where
  "on_description d s =
     (if rd_id d = 0 then s
      else with_peer (rd_id d) (\<lambda>p. p\<lparr>pr_commands := pr_commands p @ [SetRemote d]\<rparr>)
             (getOrCreatePeerContext (rd_id d) s))"

definition on_candidate :: "rtc_candidate \<Rightarrow> service \<Rightarrow> service" where
  "on_candidate c s =
     with_peer (rc_id c) (\<lambda>p. p\<lparr>pr_commands := pr_commands p @ [AddCandidate c]\<rparr>)
       (getOrCreatePeerContext (rc_id c) s)"

definition on_local_description :: "int \<Rightarrow> string \<Rightarrow> string \<Rightarrow> call" where
  "on_local_description k type description =
     Description_exec \<lparr>rd_id = k, rd_description = description, rd_type = type\<rparr>"

definition on_local_candidate :: "int \<Rightarrow> string \<Rightarrow> string \<Rightarrow> call" where
  "on_local_candidate k mid candidate =
     Candidate_exec \<lparr>rc_id = k, rc_candidate = candidate, rc_mid = mid\<rparr>"

section \<open>The service as a system\<close>

datatype rtc_op =
    OpenVideo int nat | OpenAudio int nat | VideoTrackOpen int | AudioTrackOpen int
  | GetVideo int | GetAudio int | FlushVideo int | FlushAudio int
  | CloseUser int | CloseVideo int | CloseAudio int | CloseAll
  | VideoTrack int | AudioTrack int | VideoFrame int | AudioFrame int
  | Described rtc_description | Candidated rtc_candidate
  | SendVideo int nat nat | SendAudio int nat nat

fun rtc_do :: "ffmpeg \<Rightarrow> rtc_op \<Rightarrow> service \<Rightarrow> service option" where
  "rtc_do M (OpenVideo k a) s = openLocalVideo M k a s"
| "rtc_do M (OpenAudio k a) s = openLocalAudio M k a s"
| "rtc_do M (VideoTrackOpen k) s = video_track_open k s"
| "rtc_do M (AudioTrackOpen k) s = audio_track_open k s"
| "rtc_do M (GetVideo k) s = map_option snd (getRemoteVideo M k s)"
| "rtc_do M (GetAudio k) s = map_option snd (getRemoteAudio M k s)"
| "rtc_do M (FlushVideo k) s = Some (flushRemoteVideo k s)"
| "rtc_do M (FlushAudio k) s = Some (flushRemoteAudio k s)"
| "rtc_do M (CloseUser k) s = closeUserConnection k s"
| "rtc_do M (CloseVideo k) s = closeLocalVideo k s"
| "rtc_do M (CloseAudio k) s = closeLocalAudio k s"
| "rtc_do M CloseAll s = Some (closeAllConnections s)"
| "rtc_do M (VideoTrack k) s = on_track_video k s"
| "rtc_do M (AudioTrack k) s = on_track_audio M k s"
| "rtc_do M (VideoFrame k) s = map_option snd (on_video_frame M k s)"
| "rtc_do M (AudioFrame k) s = map_option snd (on_audio_frame M k s)"
| "rtc_do M (Described d) s = Some (on_description d s)"
| "rtc_do M (Candidated c) s = Some (on_candidate c s)"
| "rtc_do M (SendVideo k n i) s = send_video k n i s"
| "rtc_do M (SendAudio k n i) s = send_audio k n i s"

inductive rtc_reachable :: "ffmpeg \<Rightarrow> service \<Rightarrow> bool" for M where
  rtc_start: "rtc_reachable M (new_service frames n)"
| rtc_next: "rtc_reachable M s \<Longrightarrow> rtc_do M op s = Some s' \<Longrightarrow> rtc_reachable M s'"

text \<open>
  Whoever listens to the packetizer or the audio encoder, or will when the track opens, finds it there;
  context numbers are used once.
\<close>

definition peer_ok :: "bool \<Rightarrow> bool \<Rightarrow> peer \<Rightarrow> bool" where
  "peer_ok z e p \<longleftrightarrow>
     (pm_listener (pr_video p) \<noteq> None \<or> pm_opening (pr_video p) \<longrightarrow> z) \<and>
     (pm_listener (pr_audio p) \<noteq> None \<or> pm_opening (pr_audio p) \<longrightarrow> e)"

definition sv_inv :: "service \<Rightarrow> bool" where
  "sv_inv s \<longleftrightarrow>
     omap_ok (sv_peers s) \<and>
     (\<forall>p \<in> snd ` set (sv_peers s).
        pr_no p < sv_fresh s \<and> peer_ok (sv_packetizer s \<noteq> None) (sv_audioEncoder s \<noteq> None) p)"

named_theorems sv_intros "preservation of the invariant of the service"

lemma sv_inv_mono:
  assumes "sv_inv s" and "sv_peers t = sv_peers s" and "sv_fresh t = sv_fresh s"
    and "sv_packetizer s \<noteq> None \<Longrightarrow> sv_packetizer t \<noteq> None"
    and "sv_audioEncoder s \<noteq> None \<Longrightarrow> sv_audioEncoder t \<noteq> None"
  shows "sv_inv t"
  using assms unfolding sv_inv_def peer_ok_def by metis

lemma with_peer_fields [simp]:
  "sv_fresh (with_peer k f s) = sv_fresh s" "sv_packetizer (with_peer k f s) = sv_packetizer s"
  "sv_audioEncoder (with_peer k f s) = sv_audioEncoder s" "sv_encoder (with_peer k f s) = sv_encoder s"
  "sv_frames (with_peer k f s) = sv_frames s" "sv_rawIndex (with_peer k f s) = sv_rawIndex s"
  "sv_packetIndex (with_peer k f s) = sv_packetIndex s" "sv_frameIndex (with_peer k f s) = sv_frameIndex s"
  "sv_freshPipe (with_peer k f s) = sv_freshPipe s"
  by (simp_all add: with_peer_def)

lemma map_of_update_value:
  "map_of (map (\<lambda>(j, p). (j, if j = k then f p else p)) xs) j =
     (if j = k then map_option f (map_of xs j) else map_of xs j)"
  by (induction xs) auto

lemma get_with_peer [simp]:
  "getPeerContext j (with_peer k f s) = (if j = k then map_option f (getPeerContext j s) else getPeerContext j s)"
  by (simp add: getPeerContext_def with_peer_def map_of_update_value)

lemma sv_inv_with_peer [sv_intros]:
  assumes "sv_inv s"
    and "\<And>p. peer_ok (sv_packetizer s \<noteq> None) (sv_audioEncoder s \<noteq> None) p \<Longrightarrow> (k, p) \<in> set (sv_peers s) \<Longrightarrow>
           pr_no (f p) = pr_no p \<and> peer_ok (sv_packetizer s \<noteq> None) (sv_audioEncoder s \<noteq> None) (f p)"
  shows "sv_inv (with_peer k f s)"
proof -
  have "map fst (sv_peers (with_peer k f s)) = map fst (sv_peers s)"
    by (simp add: with_peer_def comp_def case_prod_beta)
  moreover have "\<forall>p \<in> snd ` set (sv_peers (with_peer k f s)).
      pr_no p < sv_fresh s \<and> peer_ok (sv_packetizer s \<noteq> None) (sv_audioEncoder s \<noteq> None) p"
  proof
    fix p
    assume "p \<in> snd ` set (sv_peers (with_peer k f s))"
    then obtain j q where q: "(j, q) \<in> set (sv_peers s)" "p = (if j = k then f q else q)"
      by (auto simp: with_peer_def)
    then have "q \<in> snd ` set (sv_peers s)" by force
    with assms(1) have "pr_no q < sv_fresh s" "peer_ok (sv_packetizer s \<noteq> None) (sv_audioEncoder s \<noteq> None) q"
      by (auto simp: sv_inv_def)
    with q assms(2) [of q] show "pr_no p < sv_fresh s \<and>
        peer_ok (sv_packetizer s \<noteq> None) (sv_audioEncoder s \<noteq> None) p" by auto
  qed
  ultimately show ?thesis using assms(1) by (simp add: sv_inv_def omap_ok_def)
qed

lemma sv_inv_on_video [sv_intros]:
  assumes "sv_inv s"
    and "\<And>p. getPeerContext k s = Some p \<Longrightarrow>
           (pm_listener (f (pr_video p)) \<noteq> None \<or> pm_opening (f (pr_video p)) \<Longrightarrow>
              pm_listener (pr_video p) \<noteq> None \<or> pm_opening (pr_video p) \<or> sv_packetizer s \<noteq> None)"
  shows "sv_inv (on_video k f s)"
  unfolding on_video_def
proof (rule sv_inv_with_peer [OF assms(1)])
  fix p
  assume p: "peer_ok (sv_packetizer s \<noteq> None) (sv_audioEncoder s \<noteq> None) p" "(k, p) \<in> set (sv_peers s)"
  then have "getPeerContext k s = Some p"
    using assms(1) omap_ok_distinct [of "sv_peers s"] by (simp add: getPeerContext_def sv_inv_def)
  with assms(2) p(1) show "pr_no (p\<lparr>pr_video := f (pr_video p)\<rparr>) = pr_no p \<and>
      peer_ok (sv_packetizer s \<noteq> None) (sv_audioEncoder s \<noteq> None) (p\<lparr>pr_video := f (pr_video p)\<rparr>)"
    by (auto simp: peer_ok_def)
qed

lemma sv_inv_on_audio [sv_intros]:
  assumes "sv_inv s"
    and "\<And>p. getPeerContext k s = Some p \<Longrightarrow>
           (pm_listener (f (pr_audio p)) \<noteq> None \<or> pm_opening (f (pr_audio p)) \<Longrightarrow>
              pm_listener (pr_audio p) \<noteq> None \<or> pm_opening (pr_audio p) \<or> sv_audioEncoder s \<noteq> None)"
  shows "sv_inv (on_audio k f s)"
  unfolding on_audio_def
proof (rule sv_inv_with_peer [OF assms(1)])
  fix p
  assume p: "peer_ok (sv_packetizer s \<noteq> None) (sv_audioEncoder s \<noteq> None) p" "(k, p) \<in> set (sv_peers s)"
  then have "getPeerContext k s = Some p"
    using assms(1) omap_ok_distinct [of "sv_peers s"] by (simp add: getPeerContext_def sv_inv_def)
  with assms(2) p(1) show "pr_no (p\<lparr>pr_audio := f (pr_audio p)\<rparr>) = pr_no p \<and>
      peer_ok (sv_packetizer s \<noteq> None) (sv_audioEncoder s \<noteq> None) (p\<lparr>pr_audio := f (pr_audio p)\<rparr>)"
    by (auto simp: peer_ok_def)
qed

text \<open>Writes that touch neither listener nor callback of a track, but may drop the callback.\<close>

definition quiet :: "(peer_media \<Rightarrow> peer_media) \<Rightarrow> peer_media \<Rightarrow> bool" where
  "quiet f m \<longleftrightarrow> pm_listener (f m) = pm_listener m \<and> (pm_opening (f m) \<longrightarrow> pm_opening m)"

lemma sv_inv_quiet [sv_intros]:
  assumes "sv_inv s"
  shows "(\<And>p. getPeerContext k s = Some p \<Longrightarrow> quiet f (pr_video p)) \<Longrightarrow> sv_inv (on_video k f s)"
    and "(\<And>p. getPeerContext k s = Some p \<Longrightarrow> quiet f (pr_audio p)) \<Longrightarrow> sv_inv (on_audio k f s)"
proof -
  show "sv_inv (on_video k f s)" if "\<And>p. getPeerContext k s = Some p \<Longrightarrow> quiet f (pr_video p)"
    by (rule sv_inv_on_video [OF assms]) (use that in \<open>auto simp: quiet_def\<close>)
  show "sv_inv (on_audio k f s)" if "\<And>p. getPeerContext k s = Some p \<Longrightarrow> quiet f (pr_audio p)"
    by (rule sv_inv_on_audio [OF assms]) (use that in \<open>auto simp: quiet_def\<close>)
qed

lemma getPeer_snd: "getPeerContext k s = Some p \<Longrightarrow> p \<in> snd ` set (sv_peers s)"
  unfolding getPeerContext_def by (drule map_of_SomeD) force

lemma sv_inv_peer:
  assumes "sv_inv s" and "getPeerContext k s = Some p"
  shows "peer_ok (sv_packetizer s \<noteq> None) (sv_audioEncoder s \<noteq> None) p" "pr_no p < sv_fresh s"
  using assms getPeer_snd [OF assms(2)] by (auto simp: sv_inv_def)

lemma omap_emplace_values: "snd ` set (omap_emplace k v xs) \<subseteq> insert v (snd ` set xs)"
  by (induction k v xs rule: omap_emplace.induct) auto

lemma sv_inv_getOrCreate [sv_intros]:
  assumes "sv_inv s"
  shows "sv_inv (getOrCreatePeerContext k s)"
proof -
  have "sv_inv (createPeerContext k s)"
    unfolding sv_inv_def
  proof (intro conjI ballI)
    show "omap_ok (sv_peers (createPeerContext k s))"
      using assms by (auto simp: createPeerContext_def sv_inv_def)
  next
    fix p
    assume "p \<in> snd ` set (sv_peers (createPeerContext k s))"
    then consider "p = new_peer (sv_fresh s)" | "p \<in> snd ` set (sv_peers s)"
      using subsetD [OF omap_emplace_values [of k "new_peer (sv_fresh s)" "sv_peers s"]]
      by (auto simp: createPeerContext_def)
    then have "pr_no p < Suc (sv_fresh s) \<and> peer_ok (sv_packetizer s \<noteq> None) (sv_audioEncoder s \<noteq> None) p"
    proof cases
      case 1
      then show ?thesis by (simp add: new_peer_def new_media_def peer_ok_def)
    next
      case 2
      then have "pr_no p < sv_fresh s \<and> peer_ok (sv_packetizer s \<noteq> None) (sv_audioEncoder s \<noteq> None) p"
        using assms unfolding sv_inv_def by blast
      then show ?thesis by simp
    qed
    then show "pr_no p < sv_fresh (createPeerContext k s)"
      "peer_ok (sv_packetizer (createPeerContext k s) \<noteq> None)
         (sv_audioEncoder (createPeerContext k s) \<noteq> None) p"
      by (simp_all add: createPeerContext_def)
  qed
  with assms show ?thesis by (simp add: getOrCreatePeerContext_def)
qed

lemma on_media_fields [simp]:
  "sv_packetizer (on_video k f s) = sv_packetizer s" "sv_packetizer (on_audio k f s) = sv_packetizer s"
  "sv_audioEncoder (on_video k f s) = sv_audioEncoder s" "sv_audioEncoder (on_audio k f s) = sv_audioEncoder s"
  "sv_rawIndex (on_video k f s) = sv_rawIndex s" "sv_packetIndex (on_audio k f s) = sv_packetIndex s"
  by (simp_all add: on_video_def on_audio_def)

lemma sv_inv_listen_raw [sv_intros]:
  assumes "sv_inv s" and "listen_raw k n s = Some s'"
  shows "sv_inv s'"
proof -
  from assms(2) obtain l t where t: "s' = on_video k (\<lambda>m. m\<lparr>pm_listener := Some l\<rparr>) t"
    "sv_peers t = sv_peers s" "sv_fresh t = sv_fresh s" "sv_packetizer t \<noteq> None"
    "sv_audioEncoder t = sv_audioEncoder s"
    by (auto simp: listen_raw_def split: option.splits sum.splits)
  have "sv_inv t" by (rule sv_inv_mono [OF assms(1) t(2,3)]) (use t(4,5) in simp_all)
  then show ?thesis unfolding t(1) by (rule sv_inv_on_video) (use t(4) in simp)
qed

lemma sv_inv_listen_audio [sv_intros]:
  assumes "sv_inv s" and "listen_audio k n s = Some s'"
  shows "sv_inv s'"
proof -
  from assms(2) obtain l t where t: "s' = on_audio k (\<lambda>m. m\<lparr>pm_listener := Some l\<rparr>) t"
    "sv_peers t = sv_peers s" "sv_fresh t = sv_fresh s" "sv_audioEncoder t \<noteq> None"
    "sv_packetizer t = sv_packetizer s"
    by (auto simp: listen_audio_def split: option.splits sum.splits)
  have "sv_inv t" by (rule sv_inv_mono [OF assms(1) t(2,3)]) (use t(4,5) in simp_all)
  then show ?thesis unfolding t(1) by (rule sv_inv_on_audio) (use t(4) in simp)
qed

lemma start_video_fields:
  assumes "start_video M a s = Some t"
  shows "sv_peers t = sv_peers s" "sv_fresh t = sv_fresh s" "sv_packetizer t \<noteq> None"
    "sv_audioEncoder t = sv_audioEncoder s" "sv_rawIndex t = sv_rawIndex s"
  using assms by (auto simp: start_video_def Let_def split: sum.splits)

lemma start_audio_fields:
  assumes "start_audio M a s = Some t"
  shows "sv_peers t = sv_peers s" "sv_fresh t = sv_fresh s" "sv_audioEncoder t \<noteq> None"
    "sv_packetizer t = sv_packetizer s" "sv_packetIndex t = sv_packetIndex s"
  using assms by (auto simp: start_audio_def Let_def split: sum.splits)

lemma sv_inv_openLocalVideo [sv_intros]:
  assumes "sv_inv s" and "openLocalVideo M k a s = Some s'"
  shows "sv_inv s'"
proof -
  from assms(2) obtain t p where t: "start_video M a (getOrCreatePeerContext k s) = Some t"
    "getPeerContext k t = Some p"
    "(if pm_track (pr_video p) = None
      then Some (on_video k (\<lambda>m. m\<lparr>pm_track := Some OpenedTrack, pm_opening := True\<rparr>) t)
      else listen_raw k (pr_no p) t) = Some s'"
    by (auto simp: openLocalVideo_def split: option.splits)
  note f = start_video_fields [OF t(1)]
  have i: "sv_inv t"
    by (rule sv_inv_mono [OF sv_inv_getOrCreate [OF assms(1)] f(1,2)]) (use f in simp_all)
  show ?thesis
  proof (cases "pm_track (pr_video p) = None")
    case True
    with t(3) have "s' = on_video k (\<lambda>m. m\<lparr>pm_track := Some OpenedTrack, pm_opening := True\<rparr>) t" by simp
    then show ?thesis using f(3) by (auto intro: sv_inv_on_video [OF i])
  next
    case False
    with t(3) show ?thesis by (auto intro: sv_inv_listen_raw [OF i])
  qed
qed

lemma sv_inv_openLocalAudio [sv_intros]:
  assumes "sv_inv s" and "openLocalAudio M k a s = Some s'"
  shows "sv_inv s'"
proof -
  from assms(2) obtain t p where t: "start_audio M a (getOrCreatePeerContext k s) = Some t"
    "getPeerContext k t = Some p"
    "(if pm_track (pr_audio p) = None
      then Some (on_audio k (\<lambda>m. m\<lparr>pm_track := Some OpenedTrack, pm_opening := True\<rparr>) t)
      else listen_audio k (pr_no p) t) = Some s'"
    by (auto simp: openLocalAudio_def split: option.splits)
  note f = start_audio_fields [OF t(1)]
  have i: "sv_inv t"
    by (rule sv_inv_mono [OF sv_inv_getOrCreate [OF assms(1)] f(1,2)]) (use f in simp_all)
  show ?thesis
  proof (cases "pm_track (pr_audio p) = None")
    case True
    with t(3) have "s' = on_audio k (\<lambda>m. m\<lparr>pm_track := Some OpenedTrack, pm_opening := True\<rparr>) t" by simp
    then show ?thesis using f(3) by (auto intro: sv_inv_on_audio [OF i])
  next
    case False
    with t(3) show ?thesis by (auto intro: sv_inv_listen_audio [OF i])
  qed
qed

lemma sv_inv_video_track_open [sv_intros]:
  assumes "sv_inv s" and "video_track_open k s = Some s'"
  shows "sv_inv s'"
proof (cases "\<exists>p. getPeerContext k s = Some p \<and> pm_opening (pr_video p)")
  case True
  then obtain p :: peer where "listen_raw k (pr_no p) (on_video k (\<lambda>m. m\<lparr>pm_opening := False\<rparr>) s) = Some s'"
    using assms(2) by (auto simp: video_track_open_def)
  then show ?thesis
    by (rule sv_inv_listen_raw [rotated]) (rule sv_inv_quiet(1) [OF assms(1)], simp add: quiet_def)
next
  case False
  with assms show ?thesis by (auto simp: video_track_open_def split: option.splits)
qed

lemma sv_inv_audio_track_open [sv_intros]:
  assumes "sv_inv s" and "audio_track_open k s = Some s'"
  shows "sv_inv s'"
proof (cases "\<exists>p. getPeerContext k s = Some p \<and> pm_opening (pr_audio p)")
  case True
  then obtain p :: peer where "listen_audio k (pr_no p) (on_audio k (\<lambda>m. m\<lparr>pm_opening := False\<rparr>) s) = Some s'"
    using assms(2) by (auto simp: audio_track_open_def)
  then show ?thesis
    by (rule sv_inv_listen_audio [rotated]) (rule sv_inv_quiet(2) [OF assms(1)], simp add: quiet_def)
next
  case False
  with assms show ?thesis by (auto simp: audio_track_open_def split: option.splits)
qed

lemma sv_inv_flush [sv_intros]:
  assumes "sv_inv s"
  shows "sv_inv (flushRemoteVideo k s)" "sv_inv (flushRemoteAudio k s)"
  unfolding flushRemoteVideo_def flushRemoteAudio_def
  by (rule sv_inv_quiet [OF assms], simp add: quiet_def)+

lemma sv_inv_unlisten [sv_intros]:
  assumes "sv_inv s"
  shows "unlisten_raw ls s = Some s' \<Longrightarrow> sv_inv s'" "unlisten_audio ls s = Some s' \<Longrightarrow> sv_inv s'"
  using assms
  by (auto simp: unlisten_raw_def unlisten_audio_def split: if_splits option.splits elim!: sv_inv_mono)

lemma sv_inv_erase [sv_intros]:
  assumes "sv_inv s"
  shows "sv_inv (s\<lparr>sv_peers := omap_erase k (sv_peers s)\<rparr>)"
proof -
  have "snd ` set (omap_erase k (sv_peers s)) \<subseteq> snd ` set (sv_peers s)" by (auto simp: omap_erase_def)
  then have "\<forall>p \<in> snd ` set (omap_erase k (sv_peers s)).
      pr_no p < sv_fresh s \<and> peer_ok (sv_packetizer s \<noteq> None) (sv_audioEncoder s \<noteq> None) p"
    using assms unfolding sv_inv_def by blast
  with assms omap_ok_erase [of "sv_peers s" k] show ?thesis by (simp add: sv_inv_def)
qed

lemma sv_inv_closeUser [sv_intros]:
  assumes "sv_inv s" and "closeUserConnection k s = Some s'"
  shows "sv_inv s'"
proof (cases "getPeerContext k (flushRemoteVideo k (flushRemoteAudio k s))")
  case None
  with assms(2) have "s' = flushRemoteVideo k (flushRemoteAudio k s)"
    by (simp add: closeUserConnection_def Let_def)
  then show ?thesis using sv_inv_flush(1) [OF sv_inv_flush(2) [OF assms(1)]] by metis
next
  case (Some p)
  with assms(2) obtain ls t ms u where u: "unlisten_raw ls (flushRemoteVideo k (flushRemoteAudio k s)) = Some t"
    "unlisten_audio ms t = Some u" "s' = u\<lparr>sv_peers := omap_erase k (sv_peers u)\<rparr>"
    unfolding closeUserConnection_def Let_def by (simp only: option.case bind_eq_Some_conv) blast
  have "sv_inv t" by (rule sv_inv_unlisten(1) [OF sv_inv_flush(1) [OF sv_inv_flush(2) [OF assms(1)]] u(1)])
  then have "sv_inv u" by (rule sv_inv_unlisten(2) [OF _ u(2)])
  then show ?thesis unfolding u(3) by (rule sv_inv_erase)
qed

lemma sv_inv_closeAll [sv_intros]: "sv_inv (closeAllConnections s)"
  by (simp add: sv_inv_def closeAllConnections_def close_codecs_def clear_peers_def Let_def)

lemma ensure_decoder_fields:
  assumes "ensure_decoder found m s = Some (m', t)"
  shows "sv_peers t = sv_peers s" "sv_fresh t = sv_fresh s" "sv_packetizer t = sv_packetizer s"
    "sv_audioEncoder t = sv_audioEncoder s" "quiet (\<lambda>_. m') m" "pm_pipe m' \<noteq> None" "pm_decoder m' \<noteq> None"
    "pm_track m' = pm_track m" "pm_listener m' = pm_listener m" "pm_opening m' = pm_opening m"
  using assms by (auto simp: ensure_decoder_def Let_def quiet_def split: option.splits)

lemma sv_inv_ensured:
  assumes "sv_inv s" and "ensure_decoder found m s = Some (m', t)"
  shows "sv_inv t"
    and "(\<And>p. getPeerContext k s = Some p \<Longrightarrow> pr_video p = m) \<Longrightarrow>
           sv_inv (on_video k (\<lambda>_. m') t) \<and> sv_inv (on_video k (\<lambda>_. m'\<lparr>pm_pipe := q\<rparr>) t)"
    and "(\<And>p. getPeerContext k s = Some p \<Longrightarrow> pr_audio p = m) \<Longrightarrow>
           sv_inv (on_audio k (\<lambda>_. m') t) \<and> sv_inv (on_audio k (\<lambda>_. m'\<lparr>pm_pipe := q\<rparr>) t)"
proof -
  note f = ensure_decoder_fields [OF assms(2)]
  show t: "sv_inv t" by (rule sv_inv_mono [OF assms(1)]) (simp_all add: f)
  have g: "getPeerContext k t = getPeerContext k s" by (simp add: getPeerContext_def f)
  show "sv_inv (on_video k (\<lambda>_. m') t) \<and> sv_inv (on_video k (\<lambda>_. m'\<lparr>pm_pipe := q\<rparr>) t)"
    if "\<And>p. getPeerContext k s = Some p \<Longrightarrow> pr_video p = m"
    by (intro conjI sv_inv_quiet(1) [OF t]) (use that f(9,10) in \<open>simp_all add: g quiet_def\<close>)
  show "sv_inv (on_audio k (\<lambda>_. m') t) \<and> sv_inv (on_audio k (\<lambda>_. m'\<lparr>pm_pipe := q\<rparr>) t)"
    if "\<And>p. getPeerContext k s = Some p \<Longrightarrow> pr_audio p = m"
    by (intro conjI sv_inv_quiet(2) [OF t]) (use that f(9,10) in \<open>simp_all add: g quiet_def\<close>)
qed

lemma sv_inv_getRemote [sv_intros]:
  assumes "sv_inv s"
  shows "getRemoteVideo M k s = Some (a, s') \<Longrightarrow> sv_inv s'" "getRemoteAudio M k s = Some (a, s') \<Longrightarrow> sv_inv s'"
  using sv_inv_ensured [OF sv_inv_getOrCreate [OF assms]]
  by (fastforce simp: getRemoteVideo_def getRemoteAudio_def Let_def split: option.splits)+

lemma sv_inv_track [sv_intros]:
  assumes "sv_inv s"
  shows "on_track_video k s = Some s' \<Longrightarrow> sv_inv s'" "on_track_audio M k s = Some s' \<Longrightarrow> sv_inv s'"
proof -
  show "sv_inv s'" if "on_track_video k s = Some s'"
    using that by (auto simp: on_track_video_def quiet_def split: option.splits intro!: sv_inv_quiet(1) [OF assms])
  show "sv_inv s'" if t: "on_track_audio M k s = Some s'"
  proof -
    from t obtain p where p: "getPeerContext k s = Some p" by (auto simp: on_track_audio_def split: option.splits)
    with t obtain t m where "s' = on_audio k (\<lambda>_. m) t" "sv_peers t = sv_peers s" "sv_fresh t = sv_fresh s"
      "sv_packetizer t = sv_packetizer s" "sv_audioEncoder t = sv_audioEncoder s"
      "pm_listener m = pm_listener (pr_audio p)" "\<not> pm_opening m"
      by (auto simp: on_track_audio_def Let_def split: option.splits sum.splits prod.splits)
    note t = this
    have "sv_inv t" by (rule sv_inv_mono [OF assms t(2,3)]) (simp_all add: t)
    then show ?thesis unfolding t(1)
      by (rule sv_inv_quiet(2)) (use p t(2,6,7) in \<open>simp add: quiet_def getPeerContext_def\<close>)
  qed
qed

lemma push_frame_cases:
  assumes "push_frame fills full k q = Some r"
  shows "full = Some r \<or> (\<exists>ns q'. r = k ns q')"
  using assms unfolding push_frame_def
  by (auto split: sum.splits option.splits if_splits; blast)

lemma sv_inv_video_frame [sv_intros]:
  assumes "sv_inv s" and "on_video_frame M k s = Some (ns, s')"
  shows "sv_inv s'"
proof (cases "getPeerContext k s")
  case None
  with assms show ?thesis by (simp add: on_video_frame_def)
next
  case (Some p)
  show ?thesis
  proof (cases "pm_track (pr_video p)")
    case None
    with assms Some show ?thesis by (simp add: on_video_frame_def)
  next
    case t: (Some tr)
    show ?thesis
    proof (cases tr)
      case OpenedTrack
      with assms(2) Some t obtain m u q where e: "ensure_decoder (fm_h264 M) (pr_video p) s = Some (m, u)"
        "push_frame (fm_fills M) (Some ([], on_video k (\<lambda>_. m) u))
           (\<lambda>ns q. (ns, on_video k (\<lambda>_. m\<lparr>pm_pipe := Some q\<rparr>) u)) q = Some (ns, s')"
        by (auto simp: on_video_frame_def split: option.splits)
      have "s' = on_video k (\<lambda>_. m) u \<or> (\<exists>q. s' = on_video k (\<lambda>_. m\<lparr>pm_pipe := Some q\<rparr>) u)"
        using push_frame_cases [OF e(2)] by auto
      then show ?thesis using sv_inv_ensured(2) [OF assms(1) e(1), of k] Some by auto
    next
      case ReceivedTrack
      with assms(2) Some t obtain q where
        "push_frame (fm_fills M) (Some ([], s)) (\<lambda>ns q. (ns, on_video k (\<lambda>m. m\<lparr>pm_pipe := Some q\<rparr>) s)) q = Some (ns, s')"
        by (auto simp: on_video_frame_def split: option.splits)
      from push_frame_cases [OF this] have "s' = s \<or> (\<exists>q. s' = on_video k (\<lambda>m. m\<lparr>pm_pipe := Some q\<rparr>) s)" by auto
      moreover have "sv_inv (on_video k (\<lambda>m. m\<lparr>pm_pipe := Some q\<rparr>) s)" for q
        by (rule sv_inv_quiet(1) [OF assms(1)]) (simp add: quiet_def)
      ultimately show ?thesis using assms(1) by auto
    qed
  qed
qed

lemma sv_inv_audio_frame [sv_intros]:
  assumes "sv_inv s" and "on_audio_frame M k s = Some (ns, s')"
  shows "sv_inv s'"
proof (cases "getPeerContext k s")
  case None
  with assms show ?thesis by (simp add: on_audio_frame_def)
next
  case (Some p)
  show ?thesis
  proof (cases "pm_track (pr_audio p)")
    case None
    with assms Some show ?thesis by (simp add: on_audio_frame_def)
  next
    case t: (Some tr)
    show ?thesis
    proof (cases tr)
      case OpenedTrack
      with assms(2) Some t obtain m u q where e: "ensure_decoder (fm_opus M) (pr_audio p) s = Some (m, u)"
        "push_frame (fm_fills M) None
           (\<lambda>ns q. (ns, on_audio k (\<lambda>_. m\<lparr>pm_pipe := Some q\<rparr>) u)) q = Some (ns, s')"
        by (auto simp: on_audio_frame_def split: option.splits)
      have "\<exists>q. s' = on_audio k (\<lambda>_. m\<lparr>pm_pipe := Some q\<rparr>) u"
        using push_frame_cases [OF e(2)] by auto
      then show ?thesis using sv_inv_ensured(3) [OF assms(1) e(1), of k] Some by auto
    next
      case ReceivedTrack
      with assms(2) Some t obtain q where
        "push_frame (fm_fills M) (Some ([], s)) (\<lambda>ns q. (ns, on_audio k (\<lambda>m. m\<lparr>pm_pipe := Some q\<rparr>) s)) q = Some (ns, s')"
        by (auto simp: on_audio_frame_def split: option.splits)
      from push_frame_cases [OF this] have "s' = s \<or> (\<exists>q. s' = on_audio k (\<lambda>m. m\<lparr>pm_pipe := Some q\<rparr>) s)" by auto
      moreover have "sv_inv (on_audio k (\<lambda>m. m\<lparr>pm_pipe := Some q\<rparr>) s)" for q
        by (rule sv_inv_quiet(2) [OF assms(1)]) (simp add: quiet_def)
      ultimately show ?thesis using assms(1) by auto
    qed
  qed
qed

lemma sv_inv_signalling [sv_intros]:
  assumes "sv_inv s"
  shows "sv_inv (on_description d s)" "sv_inv (on_candidate c s)"
  using assms unfolding on_description_def on_candidate_def
  by (auto intro!: sv_inv_with_peer [OF sv_inv_getOrCreate] simp: peer_ok_def)

lemma sv_inv_send [sv_intros]:
  assumes "sv_inv s"
  shows "send_video k n i s = Some s' \<Longrightarrow> sv_inv s'" "send_audio k n i s = Some s' \<Longrightarrow> sv_inv s'"
  by (auto simp: send_video_def send_audio_def Let_def split: option.splits sum.splits if_splits
      intro!: sv_inv_mono [OF assms])

lemma sv_inv_do:
  assumes "sv_inv s" and "rtc_do M op s = Some s'"
  shows "sv_inv s'"
proof -
  note i = assms(1)
  note r = sv_inv_openLocalVideo [OF i] sv_inv_openLocalAudio [OF i] sv_inv_video_track_open [OF i]
    sv_inv_audio_track_open [OF i] sv_inv_getRemote [OF i] sv_inv_closeUser [OF i] sv_inv_unlisten [OF i]
    sv_inv_track [OF i] sv_inv_video_frame [OF i] sv_inv_audio_frame [OF i] sv_inv_send [OF i]
  show ?thesis
    using assms(2)
    by (cases op) (auto dest: r simp: closeLocalVideo_def closeLocalAudio_def sv_inv_flush [OF i]
        sv_inv_signalling [OF i] sv_inv_closeAll)
qed

lemma sv_inv_reachable: "rtc_reachable M s \<Longrightarrow> sv_inv s"
proof (induction rule: rtc_reachable.induct)
  case (rtc_start frames n)
  show ?case by (simp add: sv_inv_def new_service_def)
next
  case (rtc_next s op s')
  then show ?case by (blast intro: sv_inv_do)
qed

section \<open>Properties\<close>

lemma get_on_media [simp]:
  "getPeerContext j (on_video k f s) =
     (if j = k then map_option (\<lambda>p. p\<lparr>pr_video := f (pr_video p)\<rparr>) (getPeerContext j s) else getPeerContext j s)"
  "getPeerContext j (on_audio k f s) =
     (if j = k then map_option (\<lambda>p. p\<lparr>pr_audio := f (pr_audio p)\<rparr>) (getPeerContext j s) else getPeerContext j s)"
  by (simp_all add: on_video_def on_audio_def)

lemma get_flush:
  "getPeerContext k (flushRemoteVideo k (flushRemoteAudio k s)) =
     map_option (\<lambda>p. p\<lparr>pr_audio := (pr_audio p)\<lparr>pm_pipe := None, pm_decoder := None\<rparr>,
                       pr_video := (pr_video p)\<lparr>pm_pipe := None, pm_decoder := None\<rparr>\<rparr>) (getPeerContext k s)"
  by (cases "getPeerContext k s") (simp_all add: flushRemoteVideo_def flushRemoteAudio_def)

lemma flush_fields [simp]:
  "sv_packetizer (flushRemoteVideo k s) = sv_packetizer s" "sv_packetizer (flushRemoteAudio k s) = sv_packetizer s"
  "sv_audioEncoder (flushRemoteVideo k s) = sv_audioEncoder s"
  "sv_audioEncoder (flushRemoteAudio k s) = sv_audioEncoder s"
  by (simp_all add: flushRemoteVideo_def flushRemoteAudio_def)

lemma get_erase: "getPeerContext k (s\<lparr>sv_peers := omap_erase k (sv_peers t)\<rparr>) = None"
  by (auto simp: getPeerContext_def map_of_eq_None_iff omap_erase_def)

lemma unlisten_some:
  "ls = [] \<or> sv_packetizer s \<noteq> None \<Longrightarrow> \<exists>t. unlisten_raw ls s = Some t \<and> sv_audioEncoder t = sv_audioEncoder s"
  "ls = [] \<or> sv_audioEncoder s \<noteq> None \<Longrightarrow> \<exists>t. unlisten_audio ls s = Some t"
  by (auto simp: unlisten_raw_def unlisten_audio_def)

lemma closeUser_total:
  assumes "sv_inv s"
  shows "\<exists>s'. closeUserConnection k s = Some s' \<and> getPeerContext k s' = None"
proof (cases "getPeerContext k s")
  case None
  then show ?thesis by (simp add: closeUserConnection_def Let_def get_flush)
next
  case (Some p)
  from sv_inv_peer(1) [OF assms Some]
  have v: "(case pm_listener (pr_video p) of Some l \<Rightarrow> [l] | None \<Rightarrow> []) = [] \<or>
      sv_packetizer (flushRemoteVideo k (flushRemoteAudio k s)) \<noteq> None"
    and a: "(case pm_listener (pr_audio p) of Some l \<Rightarrow> [l] | None \<Rightarrow> []) = [] \<or> sv_audioEncoder s \<noteq> None"
    by (auto simp: peer_ok_def split: option.splits)
  from unlisten_some(1) [OF v] obtain t where
    t: "unlisten_raw (case pm_listener (pr_video p) of Some l \<Rightarrow> [l] | None \<Rightarrow> [])
          (flushRemoteVideo k (flushRemoteAudio k s)) = Some t" "sv_audioEncoder t = sv_audioEncoder s"
    by auto
  from unlisten_some(2) [of "case pm_listener (pr_audio p) of Some l \<Rightarrow> [l] | None \<Rightarrow> []" t] a t(2) obtain u where
    "unlisten_audio (case pm_listener (pr_audio p) of Some l \<Rightarrow> [l] | None \<Rightarrow> []) t = Some u" by auto
  with t(1) Some show ?thesis by (simp add: closeUserConnection_def Let_def get_flush get_erase)
qed

lemma closeLocal_total:
  assumes inv: "sv_inv s"
  shows "closeLocalVideo k s \<noteq> None" and "closeLocalAudio k s \<noteq> None"
proof -
  have ok: "peer_ok (sv_packetizer s \<noteq> None) (sv_audioEncoder s \<noteq> None) q" if "(j, q) \<in> set (sv_peers s)" for j q
    using inv that unfolding sv_inv_def by force
  have "List.map_filter (\<lambda>(j, p). pm_listener (pr_video p)) (sv_peers s) = [] \<or> sv_packetizer s \<noteq> None"
    using ok by (fastforce simp: map_filter_def peer_ok_def filter_empty_conv)
  with unlisten_some(1) show "closeLocalVideo k s \<noteq> None" unfolding closeLocalVideo_def by blast
  have "List.map_filter (\<lambda>(j, p). pm_listener (pr_audio p)) (sv_peers s) = [] \<or> sv_audioEncoder s \<noteq> None"
    using ok by (fastforce simp: map_filter_def peer_ok_def filter_empty_conv)
  with unlisten_some(2) show "closeLocalAudio k s \<noteq> None" unfolding closeLocalAudio_def by blast
qed

text \<open>Between the two regions of \<open>closeAllConnections\<close>.\<close>

lemma close_codecs_fields [simp]:
  "sv_peers (close_codecs s) = sv_peers s" "sv_packetizer (close_codecs s) = None"
  "sv_audioEncoder (close_codecs s) = None" "getPeerContext k (close_codecs s) = getPeerContext k s"
  by (simp_all add: close_codecs_def Let_def getPeerContext_def)

lemma gap_closing:
  "closeLocalVideo k (close_codecs s) = None \<longleftrightarrow> (\<exists>(j, p) \<in> set (sv_peers s). pm_listener (pr_video p) \<noteq> None)"
  "closeLocalAudio k (close_codecs s) = None \<longleftrightarrow> (\<exists>(j, p) \<in> set (sv_peers s). pm_listener (pr_audio p) \<noteq> None)"
  "closeUserConnection k (close_codecs s) = None \<longleftrightarrow> (case getPeerContext k s of None \<Rightarrow> False
      | Some p \<Rightarrow> pm_listener (pr_video p) \<noteq> None \<or> pm_listener (pr_audio p) \<noteq> None)"
proof -
  show "closeLocalVideo k (close_codecs s) = None \<longleftrightarrow> (\<exists>(j, p) \<in> set (sv_peers s). pm_listener (pr_video p) \<noteq> None)"
    by (auto simp: closeLocalVideo_def unlisten_raw_def map_filter_def filter_empty_conv split: if_splits)
  show "closeLocalAudio k (close_codecs s) = None \<longleftrightarrow> (\<exists>(j, p) \<in> set (sv_peers s). pm_listener (pr_audio p) \<noteq> None)"
    by (auto simp: closeLocalAudio_def unlisten_audio_def map_filter_def filter_empty_conv split: if_splits)
  show "closeUserConnection k (close_codecs s) = None \<longleftrightarrow> (case getPeerContext k s of None \<Rightarrow> False
      | Some p \<Rightarrow> pm_listener (pr_video p) \<noteq> None \<or> pm_listener (pr_audio p) \<noteq> None)"
    by (auto simp: closeUserConnection_def Let_def get_flush unlisten_raw_def unlisten_audio_def split: option.split)
qed

text \<open>
  C14: When the operations of the service run one after the other, each to its end, closing never goes through a null pointer: in every state
  they reach, closing a user's connection or the local streams finds the packetizer and the encoder its listeners were registered
  with, and the user's context is gone afterwards. But \<open>closeAllConnections\<close> gives its locks back between the codecs and the peers:
  there closing the local video or audio goes through a null pointer exactly if some peer listens to it, and closing a user's
  connection exactly if this user does.
\<close>

theorem closing_finds_its_pipes:
  assumes "rtc_reachable M s"
  shows "(\<exists>s'. closeUserConnection k s = Some s' \<and> getPeerContext k s' = None) \<and>
    closeLocalVideo k s \<noteq> None \<and> closeLocalAudio k s \<noteq> None \<and>
    (closeLocalVideo k (close_codecs s) = None \<longleftrightarrow> (\<exists>(j, p) \<in> set (sv_peers s). pm_listener (pr_video p) \<noteq> None)) \<and>
    (closeLocalAudio k (close_codecs s) = None \<longleftrightarrow> (\<exists>(j, p) \<in> set (sv_peers s). pm_listener (pr_audio p) \<noteq> None)) \<and>
    (closeUserConnection k (close_codecs s) = None \<longleftrightarrow> (case getPeerContext k s of None \<Rightarrow> False
      | Some p \<Rightarrow> pm_listener (pr_video p) \<noteq> None \<or> pm_listener (pr_audio p) \<noteq> None))"
  using closeUser_total [of s k] closeLocal_total [of s k] sv_inv_reachable [OF assms] gap_closing [of k s] by blast

definition good_ffmpeg :: ffmpeg where
  "good_ffmpeg = \<lparr>fm_h264 = True, fm_opus = True, fm_opens = True, fm_converts = True, fm_rtp = True,
     fm_header = True, fm_fills = True\<rparr>"

definition idle_service :: service where
  "idle_service = new_service (\<lambda>_. packet_pipe) 5"

fun rtc_run :: "ffmpeg \<Rightarrow> rtc_op list \<Rightarrow> service \<Rightarrow> service option" where
  "rtc_run M [] s = Some s"
| "rtc_run M (op # ops) s = (case rtc_do M op s of None \<Rightarrow> None | Some s \<Rightarrow> rtc_run M ops s)"

lemma rtc_run_reachable: "rtc_run M ops s = Some s' \<Longrightarrow> rtc_reachable M s \<Longrightarrow> rtc_reachable M s'"
  by (induction M ops s rule: rtc_run.induct) (auto split: option.splits intro: rtc_next)

lemmas rtc_run_simps = good_ffmpeg_def idle_service_def new_service_def openLocalVideo_def start_video_def
  getOrCreatePeerContext_def createPeerContext_def getPeerContext_def new_encoder_def video_start_def
  new_packetizer_def packetizer_start_def onDataChanged_def video_track_open_def listen_raw_def on_video_def
  with_peer_def new_peer_def new_media_def on_track_video_def

definition video_call :: service where
  "video_call = the (rtc_run good_ffmpeg [OpenVideo 3 0, VideoTrackOpen 3] idle_service)"

lemma video_call_run: "rtc_run good_ffmpeg [OpenVideo 3 0, VideoTrackOpen 3] idle_service = Some video_call"
  by (simp add: video_call_def rtc_run_simps)

lemma video_call_reachable: "rtc_reachable good_ffmpeg video_call"
  by (rule rtc_run_reachable [OF video_call_run]) (simp add: idle_service_def rtc_start)

theorem closing_finds_its_pipes_witness:
  "(\<exists>s'. closeUserConnection 3 video_call = Some s' \<and> getPeerContext 3 s' = None) \<and>
    closeLocalVideo 3 video_call \<noteq> None \<and> closeLocalAudio 3 video_call \<noteq> None \<and>
    closeLocalVideo 3 (close_codecs video_call) = None \<and> closeLocalAudio 3 (close_codecs video_call) \<noteq> None"
proof -
  obtain p where "sv_peers video_call = [(3, p)]" "pm_listener (pr_video p) \<noteq> None" "pm_listener (pr_audio p) = None"
    by (simp add: video_call_def rtc_run_simps)
  with closing_finds_its_pipes [OF video_call_reachable, of 3] show ?thesis by simp
qed

lemma omap_emplace_keeps: "x \<in> set xs \<Longrightarrow> x \<in> set (omap_emplace k v xs)"
  by (induction k v xs rule: omap_emplace.induct) auto

lemma omap_emplace_new: "k \<notin> fst ` set xs \<Longrightarrow> (k, v) \<in> set (omap_emplace k v xs)"
  by (induction k v xs rule: omap_emplace.induct) auto

lemma set_omap_erase_all: "set (omap_erase_all q xs) = {x \<in> set xs. fst x \<notin> set q}"
  unfolding omap_erase_all_def by (induction q arbitrary: xs) (auto simp: omap_erase_def)

lemma omap_emplace_all_snoc: "omap_emplace_all (q @ [(h, i)]) xs = omap_emplace i h (omap_emplace_all q xs)"
  by (simp add: omap_emplace_all_def)

text \<open>A listener that is registered stays so when another number is registered and queued for removal.\<close>

lemma listener_survives:
  assumes "(l, h) \<in> set (listeners (drain_queues p))" and "onDataChanged c idx p = Inr (i, idx', q)" and "l \<noteq> i"
  shows "(l, h) \<in> set (listeners (drain_queues (removeListener i q)))"
  using assms omap_emplace_keeps [of "(l, h)" "omap_emplace_all (addListenerQueue p) (listeners p)" i c]
  by (auto simp: onDataChanged_def removeListener_def drain_queues_def set_omap_erase_all omap_emplace_all_snoc
      split: if_splits)

lemma listen_raw_some:
  assumes "listen_raw k n s = Some t"
  obtains z idx out where "sv_packetizer s = Some z"
    "onDataChanged (SendTo k n) (sv_rawIndex s) (pk_output z) = Inr (sv_rawIndex s + 1, sv_rawIndex s + 1, out)"
    "sv_packetizer t = Some (z\<lparr>pk_output := out\<rparr>)" "sv_audioEncoder t = sv_audioEncoder s"
    "getPeerContext k t = map_option (\<lambda>p. p\<lparr>pr_video := (pr_video p)\<lparr>pm_listener := Some (sv_rawIndex s + 1)\<rparr>\<rparr>)
       (getPeerContext k s)"
  using assms
  by (auto simp: listen_raw_def onDataChanged_def getPeerContext_def with_peer_def on_video_def
      map_of_update_value split: option.splits sum.splits if_splits)

lemma closeUser_video:
  assumes "getPeerContext k s = Some p" and "pm_listener (pr_video p) = Some l" and "sv_packetizer s = Some z"
    and "pm_listener (pr_audio p) = None \<or> sv_audioEncoder s \<noteq> None"
  shows "\<exists>s'. closeUserConnection k s = Some s' \<and> getPeerContext k s' = None \<and>
    sv_packetizer s' = Some (z\<lparr>pk_output := removeListener l (pk_output z)\<rparr>)"
proof -
  let ?s = "flushRemoteVideo k (flushRemoteAudio k s)"
  let ?t = "?s\<lparr>sv_packetizer := Some (z\<lparr>pk_output := removeListener l (pk_output z)\<rparr>)\<rparr>"
  have t: "unlisten_raw [l] ?s = Some ?t" using assms(3) by (simp add: unlisten_raw_def)
  have "\<exists>u. unlisten_audio (case pm_listener (pr_audio p) of Some l \<Rightarrow> [l] | None \<Rightarrow> []) ?t = Some u \<and>
      sv_packetizer u = sv_packetizer ?t"
    using assms(4) by (auto simp: unlisten_audio_def split: option.split)
  then obtain u where u: "unlisten_audio (case pm_listener (pr_audio p) of Some l \<Rightarrow> [l] | None \<Rightarrow> []) ?t = Some u"
    "sv_packetizer u = Some (z\<lparr>pk_output := removeListener l (pk_output z)\<rparr>)" by auto
  show ?thesis
    using assms(1,2) t u by (simp add: closeUserConnection_def Let_def get_flush get_erase)
qed

text \<open>
  Opening the video for a user who is already sent to registers a second listener and
  forgets the number of the first: after the user has left, the first is still called for every packet.
\<close>

theorem reopened_video_leaks_listener:
  assumes "rtc_reachable M s" and "getPeerContext k s = Some p" and "pm_track (pr_video p) \<noteq> None"
    and "sv_packetizer s = Some z" and "(l, h) \<in> set (listeners (drain_queues (pk_output z)))"
    and "l \<le> sv_rawIndex s" and "openLocalVideo M k a s = Some s1" and "pk_started z"
  shows "\<exists>s2 z2. closeUserConnection k s1 = Some s2 \<and> getPeerContext k s2 = None \<and>
    sv_packetizer s2 = Some z2 \<and> (l, h) \<in> set (listeners (drain_queues (pk_output z2)))"
proof -
  have g: "getOrCreatePeerContext k s = s" using assms(2) by (simp add: getOrCreatePeerContext_def)
  from assms(7) g obtain t q where t: "start_video M a s = Some t" "getPeerContext k t = Some q"
    "(if pm_track (pr_video q) = None
      then Some (on_video k (\<lambda>m. m\<lparr>pm_track := Some OpenedTrack, pm_opening := True\<rparr>) t)
      else listen_raw k (pr_no q) t) = Some s1"
    by (auto simp: openLocalVideo_def split: option.splits)
  note f = start_video_fields [OF t(1)]
  have q: "q = p" using t(2) assms(2) f(1) by (simp add: getPeerContext_def)
  have z: "sv_packetizer t = Some z"
    using t(1) assms(4,8) by (auto simp: start_video_def Let_def split: sum.splits)
  from t(3) q assms(3) have "listen_raw k (pr_no p) t = Some s1" by simp
  then obtain out where r:
    "onDataChanged (SendTo k (pr_no p)) (sv_rawIndex t) (pk_output z) = Inr (sv_rawIndex t + 1, sv_rawIndex t + 1, out)"
    "sv_packetizer s1 = Some (z\<lparr>pk_output := out\<rparr>)" "sv_audioEncoder s1 = sv_audioEncoder t"
    "getPeerContext k s1 = Some (p\<lparr>pr_video := (pr_video p)\<lparr>pm_listener := Some (sv_rawIndex t + 1)\<rparr>\<rparr>)"
    by (rule listen_raw_some) (use z t(2) q in auto)
  have a: "pm_listener (pr_audio p) = None \<or> sv_audioEncoder s1 \<noteq> None"
    using sv_inv_peer(1) [OF sv_inv_reachable [OF assms(1)] assms(2)] r(3) f(4)
    by (auto simp: peer_ok_def)
  obtain s2 where s2: "closeUserConnection k s1 = Some s2" "getPeerContext k s2 = None"
    "sv_packetizer s2 = Some (z\<lparr>pk_output := removeListener (sv_rawIndex t + 1) out\<rparr>)"
    using closeUser_video [OF r(4) _ r(2), of "sv_rawIndex t + 1"] a by auto
  moreover have "(l, h) \<in> set (listeners (drain_queues (removeListener (sv_rawIndex t + 1) out)))"
    by (rule listener_survives [OF assms(5) r(1)]) (use assms(6) f(5) in simp)
  ultimately show ?thesis by auto
qed

lemma pipe_init [simp]:
  "listeners packet_pipe = []" "addListenerQueue packet_pipe = []" "removeListenerQueue packet_pipe = []"
  "listeners raw_pipe = []" "addListenerQueue raw_pipe = []" "removeListenerQueue raw_pipe = []"
  by (simp_all add: packet_pipe_def raw_pipe_def new_pipe_def)

definition call_packetizer :: "(unit, handler) packetizer" where
  "call_packetizer =
     \<lparr>pk_ctx = True, pk_started = True, pk_input = True, pk_listener = Some 1,
      pk_output = raw_pipe\<lparr>addListenerQueue := [(SendTo 3 0, 1)]\<rparr>\<rparr>"

lemma video_call_facts:
  "sv_packetizer video_call = Some call_packetizer" "sv_rawIndex video_call = 1"
  "getPeerContext 3 video_call = Some \<lparr>pr_no = 0, pr_audio = new_media,
     pr_video = new_media\<lparr>pm_track := Some OpenedTrack, pm_listener := Some 1\<rparr>, pr_commands = []\<rparr>"
  "openLocalVideo good_ffmpeg 3 0 video_call \<noteq> None"
  by (simp_all add: video_call_def call_packetizer_def rtc_run_simps)

theorem reopened_video_leaks_listener_witness:
  "\<exists>s1 s2 z2. openLocalVideo good_ffmpeg 3 0 video_call = Some s1 \<and> closeUserConnection 3 s1 = Some s2 \<and>
    getPeerContext 3 s2 = None \<and> sv_packetizer s2 = Some z2 \<and>
    (1, SendTo 3 0) \<in> set (listeners (drain_queues (pk_output z2)))"
proof -
  obtain s1 where o: "openLocalVideo good_ffmpeg 3 0 video_call = Some s1" using video_call_facts(4) by blast
  have m: "(1, SendTo 3 0) \<in> set (listeners (drain_queues (pk_output call_packetizer)))"
    by (simp add: call_packetizer_def drain_queues_def omap_emplace_all_def omap_erase_all_def)
  show ?thesis
    using reopened_video_leaks_listener [OF video_call_reachable video_call_facts(3) _ video_call_facts(1) m _ o]
      o video_call_facts(2)
    by (auto simp: call_packetizer_def)
qed

lemma push_frame_roomy:
  assumes "roomy q"
  shows "\<exists>q'. push_frame True full k q = Some (k (listeners (drain_queues q)) q')"
proof -
  from assms obtain d i r where h: "tryHoldForWriting q = Inr (Some (d, i), r)" "balanced r"
    "i < length (subpipes q)" "length (subpipes r) = length (subpipes q)" "\<not> isFree (subpipes r ! i)"
    "listeners (drain_queues r) = listeners (drain_queues q)"
    unfolding roomy_def by (meson hold_then_unmap)
  then show ?thesis by (auto simp: push_frame_def unmapWriting_def Let_def)
qed

lemma roomy_packet_pipe [simp]: "roomy (packet_pipe\<lparr>addListenerQueue := q\<rparr>)" "roomy packet_pipe"
  by (simp_all add: roomy_def balanced_def taken_def packet_pipe_def new_pipe_def)

text \<open>
  A peer whose stream was flushed is seen again once the view asks for the stream: then the
  next frame of its track, whoever opened the track, is handed to a running decoder, and the view is
  connected to that decoder's output.
\<close>

theorem remote_video_delivered:
  assumes "getPeerContext k s = Some p" and "pm_track (pr_video p) \<noteq> None" and "fm_h264 M" and "fm_fills M"
    and "sv_packetIndex s + 1 < 2 ^ 31"
  shows "\<exists>a s1 ns s2. getRemoteVideo M k (flushRemoteVideo k s) = Some (Some a, s1) \<and>
    on_video_frame M k s1 = Some (ns, s2) \<and> Decode \<in> snd ` set ns \<and>
    (\<exists>s3. getRemoteVideo M k s2 = Some (Some a, s3))"
proof -
  let ?f = "flushRemoteVideo k s"
  let ?m = "(pr_video p)\<lparr>pm_pipe := None, pm_decoder := None\<rparr>"
  let ?l = "sv_packetIndex s + 1"
  let ?q = "packet_pipe\<lparr>addListenerQueue := [(Decode, ?l)]\<rparr>"
  let ?d = "\<lparr>dc_ready = True, dc_input = True, dc_listener = Some ?l, dc_holding = [], dc_out = sv_freshPipe s\<rparr>"
  let ?n = "?m\<lparr>pm_pipe := Some ?q, pm_decoder := Some ?d\<rparr>"
  define s1 where "s1 = on_video k (\<lambda>_. ?n) (?f\<lparr>sv_packetIndex := ?l, sv_freshPipe := Suc (sv_freshPipe s)\<rparr>)"
  have f: "getPeerContext k ?f = Some (p\<lparr>pr_video := ?m\<rparr>)" "sv_packetIndex ?f = sv_packetIndex s"
    "sv_freshPipe ?f = sv_freshPipe s"
    using assms(1) by (simp_all add: flushRemoteVideo_def on_video_def)
  have e: "ensure_decoder True ?m ?f = Some (?n, ?f\<lparr>sv_packetIndex := ?l, sv_freshPipe := Suc (sv_freshPipe s)\<rparr>)"
    using assms(5) f by (simp add: ensure_decoder_def start_decoder_def decoder_start_def new_decoder_def
        onDataChanged_def Let_def)
  have g1: "getRemoteVideo M k ?f = Some (Some (sv_freshPipe s), s1)"
    using f(1) e assms(3) by (simp add: getRemoteVideo_def getOrCreatePeerContext_def decoder_output_def s1_def)
  have peer1: "getPeerContext k s1 = Some (p\<lparr>pr_video := ?n\<rparr>)"
    using f(1) by (simp add: s1_def getPeerContext_def on_video_def with_peer_def map_of_update_value)
  have ls: "listeners (drain_queues ?q) = [(?l, Decode)]"
    by (simp add: drain_queues_def omap_emplace_all_def omap_erase_all_def)
  have e2: "ensure_decoder True ?n u = Some (?n, u)" for u
    by (simp add: ensure_decoder_def)
  have "\<exists>q'. on_video_frame M k s1 = Some ([(?l, Decode)], on_video k (\<lambda>_. ?n\<lparr>pm_pipe := Some q'\<rparr>) s1)"
  proof (cases "pm_track (pr_video p)")
    case None
    with assms(2) show ?thesis by simp
  next
    case (Some tr)
    show ?thesis
    proof (cases tr)
      case OpenedTrack
      obtain q' where "push_frame True (Some ([], on_video k (\<lambda>_. ?n) s1))
          (\<lambda>ns q. (ns, on_video k (\<lambda>_. ?n\<lparr>pm_pipe := Some q\<rparr>) s1)) ?q =
          Some (listeners (drain_queues ?q), on_video k (\<lambda>_. ?n\<lparr>pm_pipe := Some q'\<rparr>) s1)"
        using push_frame_roomy [of ?q] roomy_packet_pipe(1) by blast
      with Some OpenedTrack peer1 assms(3,4) e2 show ?thesis
        unfolding on_video_frame_def by (simp add: ls) blast
    next
      case ReceivedTrack
      obtain q' where "push_frame True (Some ([], s1))
          (\<lambda>ns q. (ns, on_video k (\<lambda>m. m\<lparr>pm_pipe := Some q\<rparr>) s1)) ?q =
          Some (listeners (drain_queues ?q), on_video k (\<lambda>m. m\<lparr>pm_pipe := Some q'\<rparr>) s1)"
        using push_frame_roomy [of ?q] roomy_packet_pipe(1) by blast
      moreover have "on_video k (\<lambda>m. m\<lparr>pm_pipe := Some q'\<rparr>) s1 = on_video k (\<lambda>_. ?n\<lparr>pm_pipe := Some q'\<rparr>) s1" for q'
        by (simp add: s1_def on_video_def with_peer_def comp_def case_prod_beta)
      ultimately show ?thesis using Some ReceivedTrack peer1 assms(4)
        unfolding on_video_frame_def by (simp add: ls) blast
    qed
  qed
  then obtain q' where fr: "on_video_frame M k s1 = Some ([(?l, Decode)], on_video k (\<lambda>_. ?n\<lparr>pm_pipe := Some q'\<rparr>) s1)"
    by blast
  have "\<exists>s3. getRemoteVideo M k (on_video k (\<lambda>_. ?n\<lparr>pm_pipe := Some q'\<rparr>) s1) = Some (Some (sv_freshPipe s), s3)"
    using peer1 assms(3)
    by (simp add: getRemoteVideo_def getOrCreatePeerContext_def ensure_decoder_def decoder_output_def Let_def)
  with g1 fr show ?thesis by fastforce
qed

text \<open>
  Frames of a track received from the peer go into a pipe that a flush has taken away: if the peer
  turns its camera or microphone off and on again before the view asks for the stream anew, the next frame
  dereferences a null pointer. The handlers of a track this client opened make the pipe again.
\<close>

theorem frame_after_flush_undefined:
  assumes "getPeerContext k s = Some p" and "pm_track (pr_video p) = Some ReceivedTrack"
    and "pm_track (pr_audio p) = Some ReceivedTrack"
  shows "on_video_frame M k (flushRemoteVideo k s) = None \<and> on_audio_frame M k (flushRemoteAudio k s) = None"
  using assms
  by (simp add: on_video_frame_def on_audio_frame_def flushRemoteVideo_def flushRemoteAudio_def)

definition received_call :: service where
  "received_call =
     the (rtc_run good_ffmpeg [Candidated \<lparr>rc_id = 3, rc_candidate = [], rc_mid = []\<rparr>, VideoTrack 3, AudioTrack 3]
            idle_service)"

lemma received_call_facts:
  "\<exists>p. getPeerContext 3 received_call = Some p \<and> pm_track (pr_video p) = Some ReceivedTrack \<and>
     pm_track (pr_audio p) = Some ReceivedTrack"
  "sv_packetIndex received_call = 1"
  by (simp_all add: received_call_def rtc_run_simps on_candidate_def on_track_audio_def on_audio_def new_decoder_def
      decoder_start_def)

theorem remote_video_delivered_witness:
  "\<exists>a s1 ns s2. getRemoteVideo good_ffmpeg 3 (flushRemoteVideo 3 received_call) = Some (Some a, s1) \<and>
    on_video_frame good_ffmpeg 3 s1 = Some (ns, s2) \<and> Decode \<in> snd ` set ns \<and>
    (\<exists>s3. getRemoteVideo good_ffmpeg 3 s2 = Some (Some a, s3))"
proof -
  obtain p where p: "getPeerContext 3 received_call = Some p" "pm_track (pr_video p) = Some ReceivedTrack"
    using received_call_facts(1) by blast
  show ?thesis
    by (rule remote_video_delivered [OF p(1)])
      (simp_all add: p(2) received_call_facts(2) good_ffmpeg_def)
qed

theorem frame_after_flush_undefined_witness:
  "on_video_frame good_ffmpeg 3 (flushRemoteVideo 3 received_call) = None \<and>
    on_audio_frame good_ffmpeg 3 (flushRemoteAudio 3 received_call) = None"
  using received_call_facts(1) frame_after_flush_undefined by blast

text \<open>
  When FFmpeg works and the counters have room for \<open>n\<close> more listeners, opening the video for a peer
  succeeds.
\<close>

definition video_ready :: "ffmpeg \<Rightarrow> nat \<Rightarrow> service \<Rightarrow> bool" where
  "video_ready M n s \<longleftrightarrow>
     fm_h264 M \<and> fm_rtp M \<and> fm_opens M \<and> fm_header M \<and>
     (\<forall>e. sv_encoder s = Some e \<longrightarrow> en_cdc e \<and> en_ctx e) \<and>
     (\<forall>z. sv_packetizer s = Some z \<longrightarrow> pk_ctx z) \<and>
     sv_frameIndex s + int n < 2 ^ 31 \<and> sv_packetIndex s + int n < 2 ^ 31 \<and> sv_rawIndex s + int n < 2 ^ 31"

lemma start_video_ready:
  assumes "video_ready M (Suc n) s"
  shows "\<exists>t. start_video M a s = Some t \<and> sv_rawIndex t = sv_rawIndex s \<and> video_ready M n t"
proof -
  define e where "e = (case sv_encoder s of None \<Rightarrow> new_encoder (fm_h264 M) packet_pipe | Some e \<Rightarrow> e)"
  have e: "en_cdc e" "en_ctx e"
    using assms by (auto simp: e_def video_ready_def new_encoder_def split: option.split)
  obtain b fidx frames e' where v: "(if en_input e \<noteq> Some a
      then video_start EncodeVideo (fm_opens M) a (sv_frameIndex s) (sv_frames s) e
      else Inr (True, sv_frameIndex s, sv_frames s, e)) = Inr (b, fidx, frames, e')"
    "fidx \<le> sv_frameIndex s + 1" "en_cdc e'" "en_ctx e'"
    using assms e by (cases "en_input e = Some a") (auto simp: video_start_def onDataChanged_def video_ready_def)
  define z where "z = (case sv_packetizer s of None \<Rightarrow> new_packetizer (fm_rtp M \<and> en_ctx e') raw_pipe | Some z \<Rightarrow> z)"
  have z: "pk_ctx z" using assms v(4) by (auto simp: z_def video_ready_def new_packetizer_def split: option.split)
  obtain b2 pidx out z' where w: "(if \<not> pk_started z
      then packetizer_start Packetize (fm_header M) (sv_packetIndex s) (en_out e') z
      else Inr (True, sv_packetIndex s, en_out e', z)) = Inr (b2, pidx, out, z')"
    "pidx \<le> sv_packetIndex s + 1" "pk_ctx z'"
    using assms z by (cases "pk_started z") (auto simp: packetizer_start_def onDataChanged_def video_ready_def)
  have "start_video M a s = Some (s\<lparr>sv_frameIndex := fidx, sv_frames := frames, sv_packetIndex := pidx,
      sv_encoder := Some (e'\<lparr>en_out := out\<rparr>), sv_packetizer := Some z'\<rparr>)"
    unfolding start_video_def Let_def e_def [symmetric] v(1) sum.case prod.case z_def [symmetric] w(1)
    by (rule refl)
  with assms v w show ?thesis by (simp add: video_ready_def)
qed

definition has_video_track :: "int \<Rightarrow> service \<Rightarrow> bool" where
  "has_video_track k s \<longleftrightarrow> (\<exists>p. getPeerContext k s = Some p \<and> pm_track (pr_video p) \<noteq> None)"

lemma map_of_emplace_new:
  "map_of xs k = None \<Longrightarrow> map_of (omap_emplace k v xs) = (map_of xs)(k \<mapsto> v)"
  by (induction k v xs rule: omap_emplace.induct) (auto split: if_splits)

lemma get_getOrCreate:
  "getPeerContext j (getOrCreatePeerContext k s) =
     (if j = k \<and> getPeerContext k s = None then Some (new_peer (sv_fresh s)) else getPeerContext j s)"
  by (auto simp: getOrCreatePeerContext_def getPeerContext_def createPeerContext_def map_of_emplace_new)

lemma openLocalVideo_ready:
  assumes "video_ready M (Suc n) s"
  shows "\<exists>s'. openLocalVideo M k a s = Some s' \<and> video_ready M n s' \<and> has_video_track k s' \<and>
    (\<forall>j. has_video_track j s \<longrightarrow> has_video_track j s')"
proof -
  let ?c = "getOrCreatePeerContext k s"
  have "video_ready M (Suc n) ?c"
    using assms by (simp add: video_ready_def getOrCreatePeerContext_def createPeerContext_def)
  then obtain t where t: "start_video M a ?c = Some t" "sv_rawIndex t = sv_rawIndex ?c" "video_ready M n t"
    using start_video_ready by blast
  note f = start_video_fields [OF t(1)]
  have g: "getPeerContext j t = getPeerContext j ?c" for j using f(1) by (simp add: getPeerContext_def)
  obtain p where p: "getPeerContext k t = Some p" unfolding g get_getOrCreate by (cases "getPeerContext k s") auto
  have keep: "has_video_track j s \<Longrightarrow> has_video_track j t" for j
    by (auto simp: has_video_track_def g get_getOrCreate)
  show ?thesis
  proof (cases "pm_track (pr_video p) = None")
    case True
    let ?s = "on_video k (\<lambda>m. m\<lparr>pm_track := Some OpenedTrack, pm_opening := True\<rparr>) t"
    have "openLocalVideo M k a s = Some ?s" using t(1) p True by (simp add: openLocalVideo_def)
    moreover have "video_ready M n ?s" using t(3) by (simp add: video_ready_def on_video_def)
    moreover have "has_video_track k ?s" using p by (simp add: has_video_track_def)
    moreover have "has_video_track j s \<longrightarrow> has_video_track j ?s" for j
      using keep [of j] by (auto simp: has_video_track_def)
    ultimately show ?thesis by blast
  next
    case False
    obtain z where z: "sv_packetizer t = Some z" using f(3) by blast
    have "sv_rawIndex t + 1 < 2 ^ 31"
      using assms t(2) by (simp add: video_ready_def getOrCreatePeerContext_def createPeerContext_def)
    then obtain s' where s': "listen_raw k (pr_no p) t = Some s'"
      using z by (simp add: listen_raw_def onDataChanged_def)
    have ok: "video_ready M n s'" "\<forall>j. has_video_track j t \<longrightarrow> has_video_track j s'"
      using s' z t(2,3) assms
      by (auto simp: listen_raw_def onDataChanged_def video_ready_def on_video_def has_video_track_def
          getOrCreatePeerContext_def createPeerContext_def getPeerContext_def with_peer_def map_of_update_value
          split: if_splits)
    have "openLocalVideo M k a s = Some s'" using t(1) p False s' by (auto simp: openLocalVideo_def)
    moreover have "has_video_track k t" using p False by (simp add: has_video_track_def)
    ultimately show ?thesis using ok keep by blast
  qed
qed

end
