(* ===== verification/CallController.thy ===== *)
theory CallController
  imports RtcService Models
begin

text \<open>
  \<open>Call::Controller\<close> and \<open>Call::Handle\<close> (\<open>lib/network/controllers/callcontroller.cpp\<close>): the
  handles the views hold, one per room, with the list of participants; the local camera and microphone; and the
  \<open>rtc::Service\<close> that carries the streams. A call to the server is appended to \<open>cl_calls\<close>
  and its continuation is an operation of its own. \<open>None\<close> is undefined behaviour: a null pointer, or the
  top of an empty stack.
\<close>

section \<open>State\<close>

text \<open>
  Sources, sinks and handles are numbered; \<open>ch_deleted\<close> records \<open>deleteLater\<close>, \<open>ch_gone\<close> that the event loop
  has carried it out, so that a pointer to the handle dangles.
\<close>

record call_handle =
  ch_roomID :: int
  ch_inside :: bool
  ch_prt :: "participate_data im"
  ch_deleted :: bool
  ch_gone :: bool

record call_ctrl =
  cl_handles :: "int \<Rightarrow> nat option"
  cl_heap :: "nat \<Rightarrow> call_handle"
  cl_pool :: "nat list"
  cl_next :: nat
  cl_rtc :: service
  cl_audio :: "nat option"
  cl_video :: "nat option"
  cl_connectors :: "int \<Rightarrow> (nat option \<times> nat option) option"
  cl_active :: "int option"
  cl_calls :: "call list"
  cl_closed :: "nat list"

text \<open>The libraries, the frame pipe of a source, and the user that is logged in.\<close>

record call_env =
  ce_qt :: qt
  ce_moved :: "participate_data \<Rightarrow> participate_data"
  ce_ffmpeg :: ffmpeg
  ce_output :: "nat \<Rightarrow> nat"
  ce_user :: int

abbreviation call_vt :: "call_env \<Rightarrow> (participate_data, qvariant) vtable" where
  "call_vt E \<equiv> participate_vt (ce_qt E) (ce_moved E)"

definition new_handle :: call_handle where
  "new_handle = \<lparr>ch_roomID = 0, ch_inside = False, ch_prt = empty_im, ch_deleted = False, ch_gone = False\<rparr>"

lemma new_handle_alive [simp]: "\<not> ch_gone new_handle"
  by (simp add: new_handle_def)

definition new_call_ctrl :: "service \<Rightarrow> call_ctrl" where
  "new_call_ctrl r =
     \<lparr>cl_handles = Map.empty, cl_heap = (\<lambda>_. new_handle), cl_pool = [], cl_next = 0, cl_rtc = r,
      cl_audio = None, cl_video = None, cl_connectors = Map.empty, cl_active = None, cl_calls = [],
      cl_closed = []\<rparr>"

definition with_handle :: "nat \<Rightarrow> (call_handle \<Rightarrow> call_handle) \<Rightarrow> call_ctrl \<Rightarrow> call_ctrl" where
  "with_handle h f c = c\<lparr>cl_heap := (cl_heap c)(h := f (cl_heap c h))\<rparr>"

definition with_participants ::
    "nat \<Rightarrow> (participate_data im \<Rightarrow> participate_data im) \<Rightarrow> call_ctrl \<Rightarrow> call_ctrl" where
  "with_participants h f = with_handle h (\<lambda>x. x\<lparr>ch_prt := f (ch_prt x)\<rparr>)"

abbreviation participants_of :: "nat \<Rightarrow> call_ctrl \<Rightarrow> participate_data im" where
  "participants_of h c \<equiv> ch_prt (cl_heap c h)"

definition send_call :: "call \<Rightarrow> call_ctrl \<Rightarrow> call_ctrl" where
  "send_call r c = c\<lparr>cl_calls := cl_calls c @ [r]\<rparr>"

fun fold_opt :: "('x \<Rightarrow> 's \<Rightarrow> 's option) \<Rightarrow> 'x list \<Rightarrow> 's \<Rightarrow> 's option" where
  "fold_opt f [] s = Some s"
| "fold_opt f (x # xs) s = (case f x s of None \<Rightarrow> None | Some t \<Rightarrow> fold_opt f xs t)"

section \<open>Handles\<close>

text \<open>
  \<open>growHandlePool\<close> runs in the event loop of the controller's thread: it is a step of its own, and a
  \<open>handle()\<close> that finds the pool empty goes on to its top before it has run.
\<close>

definition grow_call_pool :: "nat \<Rightarrow> call_ctrl \<Rightarrow> call_ctrl" where
  "grow_call_pool n c =
     c\<lparr>cl_pool := rev [cl_next c..<cl_next c + n] @ cl_pool c,
       cl_heap := (\<lambda>h. if cl_next c \<le> h \<and> h < cl_next c + n then new_handle else cl_heap c h),
       cl_next := cl_next c + n\<rparr>"

text \<open>\<open>None\<close> is the top of an empty pool, or a number set in a handle that is gone.\<close>

definition room_handle :: "int \<Rightarrow> call_ctrl \<Rightarrow> (nat \<times> call_ctrl) option" where
  "room_handle roomID c =
     (case cl_handles c roomID of
        Some h \<Rightarrow> Some (h, c)
      | None \<Rightarrow>
          (case cl_pool c of
             [] \<Rightarrow> None
           | h # rest \<Rightarrow>
               if ch_gone (cl_heap c h) then None
               else (let c = with_handle h (\<lambda>x. x\<lparr>ch_roomID := roomID\<rparr>) (c\<lparr>cl_pool := rest\<rparr>)
                in Some (h, send_call (Call_Get_exec roomID)
                          (c\<lparr>cl_handles := (cl_handles c)(roomID \<mapsto> h)\<rparr>)))))"

definition call_loaded :: "call_env \<Rightarrow> nat \<Rightarrow> participate_data list \<Rightarrow> call_ctrl \<Rightarrow> call_ctrl" where
  "call_loaded E h res = with_participants h (\<lambda>m. snd (insertRange (call_vt E) 0 res m))"

definition release_handle :: "nat \<Rightarrow> call_ctrl \<Rightarrow> call_ctrl" where
  "release_handle h c =
     (let k = ch_roomID (cl_heap c h);
          c = (case cl_handles c k of
                 Some h' \<Rightarrow> c\<lparr>cl_pool := h' # cl_pool c, cl_handles := (cl_handles c)(k := None)\<rparr>
               | None \<Rightarrow> c)
      in with_handle h (\<lambda>x. x\<lparr>ch_deleted := True\<rparr>) c)"

text \<open>The event loop deletes what was handed to \<open>deleteLater\<close>.\<close>

definition delete_handles :: "call_ctrl \<Rightarrow> call_ctrl" where
  "delete_handles c =
     c\<lparr>cl_heap := (\<lambda>h. (cl_heap c h)\<lparr>ch_gone := ch_gone (cl_heap c h) \<or> ch_deleted (cl_heap c h)\<rparr>)\<rparr>"

section \<open>Participants\<close>

definition participant_flag :: "call_env \<Rightarrow> int \<Rightarrow> int \<Rightarrow> participate_data im \<Rightarrow> bool" where
  "participant_flag E k role m =
     (case data_role (call_vt E) (idToIndex k m) role m of Some v \<Rightarrow> q_bool (ce_qt E) v | None \<Rightarrow> False)"

text \<open>\<open>setAudio\<close> and \<open>setVideo\<close> write the flag of the current user, unless it has the value.\<close>

definition set_flag :: "call_env \<Rightarrow> int \<Rightarrow> bool \<Rightarrow> participate_data im \<Rightarrow> participate_data im" where
  "set_flag E role st m =
     (case idToIndex (ce_user E) m of
        None \<Rightarrow> m
      | Some r \<Rightarrow>
          (if data_role (call_vt E) (Some r) role m = Some (QBool st) then m
           else snd (setData_role (call_vt E) (Some r) (QBool st) role m)))"

definition setAudio :: "call_env \<Rightarrow> bool \<Rightarrow> nat \<Rightarrow> call_ctrl \<Rightarrow> call_ctrl" where
  "setAudio E st h = with_participants h (set_flag E HasAudio st)"

definition setVideo :: "call_env \<Rightarrow> bool \<Rightarrow> nat \<Rightarrow> call_ctrl \<Rightarrow> call_ctrl" where
  "setVideo E st h = with_participants h (set_flag E HasVideo st)"

definition hasAudio :: "call_env \<Rightarrow> nat \<Rightarrow> call_ctrl \<Rightarrow> bool" where
  "hasAudio E h c =
     (if idToIndex (ce_user E) (participants_of h c) = None then False
      else participant_flag E (ce_user E) HasAudio (participants_of h c))"

definition hasVideo :: "call_env \<Rightarrow> nat \<Rightarrow> call_ctrl \<Rightarrow> bool" where
  "hasVideo E h c =
     (if idToIndex (ce_user E) (participants_of h c) = None then False
      else participant_flag E (ce_user E) HasVideo (participants_of h c))"

text \<open>The ids the loops over the participants read, without the current user.\<close>

definition other_participants :: "call_env \<Rightarrow> participate_data im \<Rightarrow> int list" where
  "other_participants E m =
     filter (\<lambda>k. k \<noteq> ce_user E)
       (map (\<lambda>i. case data_role (call_vt E) (model_index (int i) m) IDRole m of
                   Some v \<Rightarrow> q_int (ce_qt E) v | None \<Rightarrow> 0) [0..<length (im_data m)])"

section \<open>Local streams\<close>

text \<open>\<open>openVideo\<close> after \<open>st->open()\<close>, and the continuation after the server has answered.\<close>

definition openVideo :: "call_env \<Rightarrow> nat \<Rightarrow> nat \<Rightarrow> call_ctrl \<Rightarrow> call_ctrl" where
  "openVideo E h st c =
     (let c = c\<lparr>cl_closed := (case cl_video c of Some s \<Rightarrow> if s \<noteq> st then cl_closed c @ [s] else cl_closed c
                                             | None \<Rightarrow> cl_closed c),
                cl_video := Some st\<rparr>
      in send_call (UpdateCallMedia_exec None (Some True)) (setVideo E True h c))"

definition openVideo_done :: "call_env \<Rightarrow> nat \<Rightarrow> call_ctrl \<Rightarrow> call_ctrl option" where
  "openVideo_done E h c =
     (case cl_video c of
        None \<Rightarrow> Some c
      | Some st \<Rightarrow>
          map_option (\<lambda>r. c\<lparr>cl_rtc := r\<rparr>)
            (fold_opt (\<lambda>k. openLocalVideo (ce_ffmpeg E) k (ce_output E st))
               (other_participants E (participants_of h c)) (cl_rtc c)))"

definition openAudio :: "call_env \<Rightarrow> nat \<Rightarrow> nat \<Rightarrow> call_ctrl \<Rightarrow> call_ctrl" where
  "openAudio E h st c =
     (let c = c\<lparr>cl_closed := (case cl_audio c of Some s \<Rightarrow> if s \<noteq> st then cl_closed c @ [s] else cl_closed c
                                             | None \<Rightarrow> cl_closed c),
                cl_audio := Some st\<rparr>
      in send_call (UpdateCallMedia_exec (Some True) None) (setAudio E True h c))"

definition openAudio_done :: "call_env \<Rightarrow> nat \<Rightarrow> call_ctrl \<Rightarrow> call_ctrl option" where
  "openAudio_done E h c =
     (case cl_audio c of
        None \<Rightarrow> Some c
      | Some st \<Rightarrow>
          map_option (\<lambda>r. c\<lparr>cl_rtc := r\<rparr>)
            (fold_opt (\<lambda>k. openLocalAudio (ce_ffmpeg E) k (ce_output E st))
               (other_participants E (participants_of h c)) (cl_rtc c)))"

definition close_video_source :: "call_ctrl \<Rightarrow> call_ctrl" where
  "close_video_source c =
     (case cl_video c of None \<Rightarrow> c | Some s \<Rightarrow> c\<lparr>cl_closed := cl_closed c @ [s], cl_video := None\<rparr>)"

definition close_audio_source :: "call_ctrl \<Rightarrow> call_ctrl" where
  "close_audio_source c =
     (case cl_audio c of None \<Rightarrow> c | Some s \<Rightarrow> c\<lparr>cl_closed := cl_closed c @ [s], cl_audio := None\<rparr>)"

definition closeVideo :: "call_env \<Rightarrow> nat \<Rightarrow> call_ctrl \<Rightarrow> call_ctrl option" where
  "closeVideo E h c =
     (let c = setVideo E False h (close_video_source c) in
      map_option (\<lambda>r. send_call (UpdateCallMedia_exec None (Some False)) (c\<lparr>cl_rtc := r\<rparr>))
        (fold_opt closeLocalVideo (other_participants E (participants_of h c)) (cl_rtc c)))"

definition closeAudio :: "call_env \<Rightarrow> nat \<Rightarrow> call_ctrl \<Rightarrow> call_ctrl option" where
  "closeAudio E h c =
     (let c = setAudio E False h (close_audio_source c) in
      map_option (\<lambda>r. send_call (UpdateCallMedia_exec (Some False) None) (c\<lparr>cl_rtc := r\<rparr>))
        (fold_opt closeLocalAudio (other_participants E (participants_of h c)) (cl_rtc c)))"

definition clearMedia :: "call_ctrl \<Rightarrow> call_ctrl" where
  "clearMedia c = (close_video_source (close_audio_source c))\<lparr>cl_connectors := Map.empty\<rparr>"

section \<open>Joining and leaving\<close>

text \<open>
  \<open>join\<close> makes an exceptional future when the handle is inside the call, drops it and goes on. The request
  and the rest are two steps.
\<close>

definition join_call :: "nat \<Rightarrow> call_ctrl \<Rightarrow> call_ctrl" where
  "join_call h c = send_call (Call_Join_exec (ch_roomID (cl_heap c h)) []) c"

definition join_call_done :: "call_env \<Rightarrow> nat \<Rightarrow> call_ctrl \<Rightarrow> call_ctrl" where
  "join_call_done E h c =
     (let c = (with_handle h (\<lambda>x. x\<lparr>ch_inside := True\<rparr>) c)\<lparr>cl_active := Some (ch_roomID (cl_heap c h))\<rparr>
      in with_participants h
           (\<lambda>m. snd (insertData (call_vt E) 0 (new_participate\<lparr>p_userID := ce_user E\<rparr>) m)) c)"

definition disconnect_call :: "nat \<Rightarrow> call_ctrl \<Rightarrow> bool \<times> call_ctrl" where
  "disconnect_call h c =
     (if \<not> ch_inside (cl_heap c h) then (False, c)
      else
        let c' = clearMedia c in
        (True, send_call (Call_Disconnect_exec (ch_roomID (cl_heap c h)))
                 (c'\<lparr>cl_rtc := closeAllConnections (cl_rtc c')\<rparr>)))"

definition disconnect_call_done :: "call_env \<Rightarrow> nat \<Rightarrow> call_ctrl \<Rightarrow> call_ctrl" where
  "disconnect_call_done E h c =
     with_participants h
       (\<lambda>m. snd (removeRows (call_vt E) (case idToIndex (ce_user E) m of Some r \<Rightarrow> r | None \<Rightarrow> - 1) 1 m))
       (with_handle h (\<lambda>x. x\<lparr>ch_inside := False\<rparr>) c)"

text \<open>
  \<open>reset\<close> leaves the active call, with the request that \<open>disconnect\<close> makes for it at the end of \<open>cl_calls\<close>. The index
  operator makes a null handle for a call that has none.
\<close>

definition reset_calls :: "call_ctrl \<Rightarrow> call_ctrl option" where
  "reset_calls c =
     (case cl_active c of
        None \<Rightarrow> Some (c\<lparr>cl_active := None, cl_handles := Map.empty\<rparr>)
      | Some k \<Rightarrow>
          (case cl_handles c k of
             None \<Rightarrow> None
           | Some h \<Rightarrow>
               if ch_gone (cl_heap c h) then None
               else Some ((snd (disconnect_call h c))\<lparr>cl_active := None, cl_handles := Map.empty\<rparr>)))"

section \<open>Calls of the server\<close>

definition open_to_joined ::
    "call_env \<Rightarrow> bool \<Rightarrow> nat option \<Rightarrow> (ffmpeg \<Rightarrow> int \<Rightarrow> nat \<Rightarrow> service \<Rightarrow> service option) \<Rightarrow> int \<Rightarrow> service \<Rightarrow> service option" where
  "open_to_joined E on src f k r =
     (if on then (case src of None \<Rightarrow> None | Some st \<Rightarrow> f (ce_ffmpeg E) k (ce_output E st) r) else Some r)"

definition on_call_join :: "call_env \<Rightarrow> participate_data \<Rightarrow> call_ctrl \<Rightarrow> call_ctrl option" where
  "on_call_join E part c =
     (case room_handle (p_roomID part) c of
        None \<Rightarrow> None
      | Some (h, c) \<Rightarrow>
          (if idToIndex (p_userID part) (participants_of h c) \<noteq> None then Some c
           else
             let c = with_participants h (\<lambda>m. snd (insertData (call_vt E) 0 part m)) c;
                 m = participants_of h c
             in Option.bind (open_to_joined E (participant_flag E (ce_user E) HasVideo m) (cl_video c) openLocalVideo
                               (p_userID part) (cl_rtc c)) (\<lambda>r.
                Option.bind (open_to_joined E (participant_flag E (ce_user E) HasAudio m) (cl_audio c) openLocalAudio
                               (p_userID part) r) (\<lambda>r.
                Some (c\<lparr>cl_rtc := r\<rparr>)))))"

definition on_media_update :: "call_env \<Rightarrow> media_update \<Rightarrow> call_ctrl \<Rightarrow> call_ctrl option" where
  "on_media_update E upd c =
     (case room_handle (mu_roomID upd) c of
        None \<Rightarrow> None
      | Some (h, c) \<Rightarrow>
          (let m = participants_of h c in
           case idToIndex (mu_userID upd) m of
             None \<Rightarrow> Some c
           | Some r \<Rightarrow>
               (let s = (if participant_flag E (mu_userID upd) HasVideo m \<and> \<not> mu_video upd
                         then flushRemoteVideo (mu_userID upd) (cl_rtc c) else cl_rtc c);
                    s = (if participant_flag E (mu_userID upd) HasAudio m \<and> \<not> mu_audio upd
                         then flushRemoteAudio (mu_userID upd) s else s);
                    m = snd (setData_role (call_vt E) (Some r) (QBool (mu_video upd)) HasVideo m);
                    m = snd (setData_role (call_vt E) (Some r) (QBool (mu_audio upd)) HasAudio m)
                in Some (with_participants h (\<lambda>_. m) (c\<lparr>cl_rtc := s\<rparr>)))))"

definition on_call_disconnect :: "call_env \<Rightarrow> participate_data \<Rightarrow> call_ctrl \<Rightarrow> call_ctrl option" where
  "on_call_disconnect E part c =
     map_option (\<lambda>r.
       let c = c\<lparr>cl_rtc := r, cl_connectors := (cl_connectors c)(p_userID part := None), cl_active := None\<rparr>
       in case cl_handles c (p_roomID part) of
            None \<Rightarrow> c
          | Some h \<Rightarrow>
              with_participants h
                (\<lambda>m. case idToIndex (p_userID part) m of
                       None \<Rightarrow> m
                     | Some r \<Rightarrow> snd (removeRows (call_vt E) r 1 m)) c)
       (closeUserConnection (p_userID part) (cl_rtc c))"

section \<open>Views\<close>

definition connectVideoSink :: "call_env \<Rightarrow> int \<Rightarrow> nat \<Rightarrow> call_ctrl \<Rightarrow> call_ctrl option" where
  "connectVideoSink E userID sink c =
     (let pipe = (case cl_connectors c userID of Some (_, p) \<Rightarrow> p | None \<Rightarrow> None) in
      if userID \<noteq> ce_user E
      then map_option (\<lambda>(a, r). c\<lparr>cl_rtc := r, cl_connectors := (cl_connectors c)(userID \<mapsto> (Some sink, a))\<rparr>)
             (getRemoteVideo (ce_ffmpeg E) userID (cl_rtc c))
      else Some (c\<lparr>cl_connectors := (cl_connectors c)(userID \<mapsto>
                    (Some sink, case cl_video c of Some st \<Rightarrow> Some (ce_output E st) | None \<Rightarrow> pipe))\<rparr>))"

text \<open>The result is the pipe the output is started on, if there is a device.\<close>

definition connectAudioOutput ::
    "call_env \<Rightarrow> bool \<Rightarrow> int \<Rightarrow> call_ctrl \<Rightarrow> (nat option \<times> call_ctrl) option" where
  "connectAudioOutput E devices userID c =
     (if \<not> devices then Some (None, c)
      else map_option (\<lambda>(a, r). (a, c\<lparr>cl_rtc := r\<rparr>)) (getRemoteAudio (ce_ffmpeg E) userID (cl_rtc c)))"

section \<open>The participants\<close>

lemma flag_write:
  assumes "qt_ok (ce_qt E)" and "im_wf (call_vt E) m" and "in_rows r m" and "role \<in> {HasVideo, HasAudio}"
    and "m' = snd (setData_role (call_vt E) (Some r) (QBool b) role m)"
    and "y = or_default (im_data m ! nat r) (participate_edit (ce_qt E) (im_data m ! nat r) (QBool b) r role)"
  shows "im_wf (call_vt E) m'" and "im_data m' = (im_data m)[nat r := y]" and "in_rows r m'"
proof -
  let ?x = "im_data m ! nat r"
  have rows: "nat r < length (im_data m)" using assms(3) by (auto simp: in_rows_def)
  have "im_wf (call_vt E) m' \<and> im_data m' = (im_data m)[nat r := y]"
  proof (cases "participate_edit (ce_qt E) ?x (QBool b) r role")
    case None
    then have "setData_role (call_vt E) (Some r) (QBool b) role m = (False, m)"
      by (auto simp: setData_role_def Let_def vt_fields)
    then show ?thesis using assms(2,5,6) None by (simp add: or_default_def)
  next
    case (Some z)
    have id: "p_userID z = p_userID ?x" "role \<noteq> IDRole"
      using Some assms(4) by (auto simp: participate_edit_def role_defs Let_def split: if_splits)
    then show ?thesis
      using setData_role_ok [OF participate_uniform assms(2,3), of "QBool b" role z] Some assms(1,5,6)
      by (auto simp: vt_fields or_default_def)
  qed
  then show "im_wf (call_vt E) m'" "im_data m' = (im_data m)[nat r := y]" "in_rows r m'"
    using assms(3) by (simp_all add: in_rows_def)
qed

lemma participant_row:
  assumes "qt_ok (ce_qt E)" and "im_wf (call_vt E) m" and "lookup_im m k = Some x"
  obtains r where "idToIndex k m = Some r" "in_rows r m" "im_data m ! nat r = x" "p_userID x = k"
proof (cases "idToIndex k m")
  case None
  with assms(3) show ?thesis by (simp add: lookup_im_def data_at_def)
next
  case (Some r)
  then have "in_rows r m" "key (call_vt E) (im_data m ! nat r) = k" using idToIndex_wf [OF assms(2)] by auto
  with Some assms that [of r] show ?thesis by (auto simp: lookup_im_def data_at_def)
qed

lemma participant_update_lookup:
  assumes "qt_ok (ce_qt E)" and "im_wf (call_vt E) m" and "im_wf (call_vt E) m'" and "idToIndex k m = Some r"
    and "im_data m' = (im_data m)[nat r := y]" and "p_userID y = k"
  shows "lookup_im m' = (lookup_im m)(k \<mapsto> y)"
proof -
  have "key (call_vt E) y = k" using assms(1,6) by simp
  from participants.fetch_update(1) [OF assms(2,3,4,5) this] show ?thesis
    by (simp add: lookup_im_fetch [OF assms(2)] lookup_im_fetch [OF assms(3)])
qed

lemma flag_at:
  assumes "qt_ok (ce_qt E)" and "idToIndex k m = Some r" and "in_rows r m"
  shows "participant_flag E k HasVideo m = p_hasVideo (im_data m ! nat r)"
    and "participant_flag E k HasAudio m = p_hasAudio (im_data m ! nat r)"
  using assms by (simp_all add: participant_flag_def data_role_def participate_read_def role_defs)

lemma with_participants_fields [simp]:
  "participants_of h (with_participants h f c) = f (participants_of h c)"
  "cl_rtc (with_participants h f c) = cl_rtc c" "cl_handles (with_participants h f c) = cl_handles c"
  "cl_video (with_participants h f c) = cl_video c" "cl_audio (with_participants h f c) = cl_audio c"
  "cl_closed (with_participants h f c) = cl_closed c" "cl_calls (with_participants h f c) = cl_calls c"
  "cl_connectors (with_participants h f c) = cl_connectors c" "cl_active (with_participants h f c) = cl_active c"
  "ch_inside (cl_heap (with_participants h f c) j) = ch_inside (cl_heap c j)"
  by (simp_all add: with_participants_def with_handle_def)

text \<open>
  A media update of the server is applied exactly: the participant ends with both flags of the update, although
  writing the first may fall through into the second, no other participant changes, the index stays exact, and
  the stream of a user who turned it off, and no other, is flushed.
\<close>

theorem media_update_applied:
  assumes "qt_ok (ce_qt E)" and "cl_handles c (mu_roomID upd) = Some h"
    and "im_wf (call_vt E) (participants_of h c)" and "lookup_im (participants_of h c) (mu_userID upd) = Some x"
  shows "\<exists>c'. on_media_update E upd c = Some c' \<and> im_wf (call_vt E) (participants_of h c') \<and>
    lookup_im (participants_of h c') =
      (lookup_im (participants_of h c))(mu_userID upd \<mapsto> x\<lparr>p_hasVideo := mu_video upd, p_hasAudio := mu_audio upd\<rparr>) \<and>
    cl_rtc c' =
      (if p_hasAudio x \<and> \<not> mu_audio upd then flushRemoteAudio (mu_userID upd) else id)
        ((if p_hasVideo x \<and> \<not> mu_video upd then flushRemoteVideo (mu_userID upd) else id) (cl_rtc c))"
proof -
  let ?m = "participants_of h c" and ?k = "mu_userID upd"
  obtain r where r: "idToIndex ?k ?m = Some r" "in_rows r ?m" "im_data ?m ! nat r = x" "p_userID x = ?k"
    by (rule participant_row [OF assms(1,3,4)])
  define m1 where "m1 = snd (setData_role (call_vt E) (Some r) (QBool (mu_video upd)) HasVideo ?m)"
  define y1 where "y1 = or_default x (participate_edit (ce_qt E) x (QBool (mu_video upd)) r HasVideo)"
  define m2 where "m2 = snd (setData_role (call_vt E) (Some r) (QBool (mu_audio upd)) HasAudio m1)"
  define y2 where "y2 = or_default y1 (participate_edit (ce_qt E) y1 (QBool (mu_audio upd)) r HasAudio)"
  note w1 = flag_write [OF assms(1,3) r(2) _ m1_def y1_def [folded r(3)], simplified]
  have x1: "im_data m1 ! nat r = y1" using w1(2) r(2) by (auto simp: in_rows_def)
  note w2 = flag_write [OF assms(1) w1(1) w1(3) _ m2_def y2_def [folded x1], simplified]
  have y2: "y2 = x\<lparr>p_hasVideo := mu_video upd, p_hasAudio := mu_audio upd\<rparr>"
    using assms(1) by (cases x) (auto simp: y1_def y2_def participate_edit_def role_defs Let_def or_default_def)
  have "lookup_im m2 = (lookup_im ?m)(?k \<mapsto> y2)"
    by (rule participant_update_lookup [OF assms(1,3) w2(1) r(1)]) (simp_all add: w1(2) w2(2) y2 r(4))
  moreover have "on_media_update E upd c =
      Some (with_participants h (\<lambda>_. m2) (c\<lparr>cl_rtc :=
        (if p_hasAudio x \<and> \<not> mu_audio upd then flushRemoteAudio ?k else id)
          ((if p_hasVideo x \<and> \<not> mu_video upd then flushRemoteVideo ?k else id) (cl_rtc c))\<rparr>))"
    using flag_at [OF assms(1) r(1,2)] r(1,3) assms(2)
    by (simp add: on_media_update_def room_handle_def Let_def m1_def [symmetric] m2_def [symmetric])
  ultimately show ?thesis using w2(1) y2 by simp
qed

definition example_env :: call_env where
  "example_env = \<lparr>ce_qt = plain_qt, ce_moved = id, ce_ffmpeg = good_ffmpeg, ce_output = id, ce_user = 1\<rparr>"

definition two_participants :: "participate_data im" where
  "two_participants = \<lparr>im_data = [new_participate\<lparr>p_userID := 1\<rparr>,
     new_participate\<lparr>p_userID := 2, p_hasVideo := True\<rparr>], im_index = [1 \<mapsto> 0, 2 \<mapsto> 1], im_signals = []\<rparr>"

definition example_call :: call_ctrl where
  "example_call = (new_call_ctrl idle_service)\<lparr>cl_handles := [7 \<mapsto> 0], cl_active := Some 7, cl_video := Some 4,
     cl_heap := (\<lambda>_. new_handle)(0 := \<lparr>ch_roomID = 7, ch_inside = True, ch_prt = two_participants, ch_deleted = False, ch_gone = False\<rparr>)\<rparr>"

lemma example_call_facts:
  "qt_ok (ce_qt example_env)" "cl_handles example_call 7 = Some 0" "participants_of 0 example_call = two_participants"
  "im_wf (call_vt example_env) two_participants" "cl_active example_call = Some 7" "cl_video example_call = Some 4"
  "ch_inside (cl_heap example_call 0)" "ch_roomID (cl_heap example_call 0) = 7" "cl_rtc example_call = idle_service"
  "lookup_im two_participants 2 = Some (new_participate\<lparr>p_userID := 2, p_hasVideo := True\<rparr>)"
  "lookup_im two_participants 1 = Some (new_participate\<lparr>p_userID := 1\<rparr>)"
  by (auto simp: example_env_def plain_qt_ok example_call_def new_call_ctrl_def im_wf_def keys_def
      two_participants_def fun_eq_iff lookup_im_def data_at_def idToIndex_def model_index_def in_rows_def)

theorem media_update_applied_witness:
  "\<exists>c'. on_media_update example_env \<lparr>mu_video = False, mu_audio = True, mu_userID = 2, mu_roomID = 7\<rparr> example_call =
      Some c' \<and>
    im_wf (call_vt example_env) (participants_of 0 c') \<and>
    lookup_im (participants_of 0 c') = (lookup_im (participants_of 0 example_call))(2 \<mapsto>
      (new_participate\<lparr>p_userID := 2, p_hasVideo := True\<rparr>)\<lparr>p_hasVideo := False, p_hasAudio := True\<rparr>) \<and>
    cl_rtc c' = flushRemoteVideo 2 (cl_rtc example_call)"
  using media_update_applied [of example_env example_call
      "\<lparr>mu_video = False, mu_audio = True, mu_userID = 2, mu_roomID = 7\<rparr>" 0
      "new_participate\<lparr>p_userID := 2, p_hasVideo := True\<rparr>"] example_call_facts
  by (simp add: new_participate_def)

section \<open>Streams of the participants\<close>

lemma other_participants_ids:
  assumes "qt_ok (ce_qt E)"
  shows "other_participants E m = filter (\<lambda>k. k \<noteq> ce_user E) (map p_userID (im_data m))"
proof -
  have "map (\<lambda>i. case data_role (call_vt E) (model_index (int i) m) IDRole m of
        Some v \<Rightarrow> q_int (ce_qt E) v | None \<Rightarrow> 0) [0..<length (im_data m)] = map p_userID (im_data m)"
    using assms
    by (intro nth_equalityI) (simp_all add: data_role_def model_index_def in_rows_def participate_read_def)
  then show ?thesis by (simp add: other_participants_def)
qed

lemma open_all_ready:
  assumes "video_ready M (length ks + n) r"
  shows "\<exists>r'. fold_opt (\<lambda>k. openLocalVideo M k a) ks r = Some r' \<and> video_ready M n r' \<and>
    (\<forall>k. k \<in> set ks \<or> has_video_track k r \<longrightarrow> has_video_track k r')"
  using assms
proof (induction ks arbitrary: r)
  case (Cons k ks)
  then have "video_ready M (Suc (length ks + n)) r" by simp
  then obtain r1 where r1: "openLocalVideo M k a r = Some r1" "video_ready M (length ks + n) r1" "has_video_track k r1"
    "\<forall>j. has_video_track j r \<longrightarrow> has_video_track j r1" using openLocalVideo_ready by blast
  from Cons.IH [OF r1(2)] obtain r2 where "fold_opt (\<lambda>k. openLocalVideo M k a) ks r1 = Some r2" "video_ready M n r2"
    "\<forall>k. k \<in> set ks \<or> has_video_track k r1 \<longrightarrow> has_video_track k r2" by blast
  with r1 show ?case by auto
qed simp

text \<open>
  C19: Turning the camera on reaches everyone: with FFmpeg working, the continuation of \<open>openVideo\<close> succeeds
  and gives every other participant of the room a connection with a video track; tracks that were there stay.
\<close>

theorem opened_video_reaches_participants:
  assumes "qt_ok (ce_qt E)" and "video_ready (ce_ffmpeg E) (length (im_data (participants_of h c))) (cl_rtc c)"
  shows "\<exists>c'. openVideo_done E h (openVideo E h st c) = Some c' \<and> cl_video c' = Some st \<and>
    (\<forall>k \<in> p_userID ` set (im_data (participants_of h c)) - {ce_user E}. has_video_track k (cl_rtc c')) \<and>
    (\<forall>k. has_video_track k (cl_rtc c) \<longrightarrow> has_video_track k (cl_rtc c'))"
proof -
  let ?c = "openVideo E h st c" and ?m = "participants_of h c"
  have ids: "map p_userID (im_data (set_flag E HasVideo True m)) = map p_userID (im_data m)" for m
  proof -
    have "p_userID y = p_userID x" if "participate_edit Q x (QBool True) r HasVideo = Some y" for Q x r y
      using that by (auto simp: participate_edit_def role_defs Let_def split: if_splits)
    then have "map p_userID (im_data (snd (setData_role (call_vt E) (Some r) (QBool True) HasVideo m))) =
        map p_userID (im_data m)" for r
      by (auto simp: setData_role_def Let_def vt_fields emit_def map_update in_rows_def role_defs
          list_update_same_conv split: option.split)
    then show ?thesis by (auto simp: set_flag_def split: option.split)
  qed
  have m: "participants_of h ?c = set_flag E HasVideo True (participants_of h c)" and v: "cl_video ?c = Some st"
    and r: "cl_rtc ?c = cl_rtc c"
    by (simp_all add: openVideo_def setVideo_def send_call_def with_participants_def with_handle_def)
  let ?ks = "other_participants E (participants_of h ?c)"
  have ks: "?ks = filter (\<lambda>k. k \<noteq> ce_user E) (map p_userID (im_data ?m))"
    unfolding other_participants_ids [OF assms(1)] m ids ..
  then have "length ?ks \<le> length (im_data ?m)" by (metis length_filter_le length_map)
  then have rd: "video_ready (ce_ffmpeg E) (length ?ks + (length (im_data ?m) - length ?ks)) (cl_rtc c)"
    using assms(2) by simp
  obtain r' where "fold_opt (\<lambda>k. openLocalVideo (ce_ffmpeg E) k (ce_output E st)) ?ks (cl_rtc c) = Some r'"
    "\<forall>k. k \<in> set ?ks \<or> has_video_track k (cl_rtc c) \<longrightarrow> has_video_track k r'"
    using open_all_ready [OF rd] by blast
  then show ?thesis using v r ks by (simp add: openVideo_done_def)
qed

theorem opened_video_reaches_participants_witness:
  "\<exists>c'. openVideo_done example_env 0 (openVideo example_env 0 9 example_call) = Some c' \<and> cl_video c' = Some 9 \<and>
    (\<forall>k \<in> p_userID ` set (im_data (participants_of 0 example_call)) - {ce_user example_env}.
       has_video_track k (cl_rtc c')) \<and>
    (\<forall>k. has_video_track k (cl_rtc example_call) \<longrightarrow> has_video_track k (cl_rtc c'))"
  by (rule opened_video_reaches_participants)
    (simp_all add: example_call_facts(1,3,9) two_participants_def example_env_def good_ffmpeg_def video_ready_def
      plain_qt_ok idle_service_def new_service_def)

end
