(* ===== verification/CallSessions.thy ===== *)
theory CallSessions
  imports CallController
begin

text \<open>
  \<open>Call::Controller\<close> as a system: its operations and handlers in any order, interleaved with the callbacks
  of the tracks. The invariant says that every room has a handle of its own and that the service below
  stays consistent. The rest is about a handle's life: joining, leaving, releasing, resetting.
\<close>

section \<open>Operations in any order\<close>

datatype call_op =
    GrowPool nat | GetHandle int | Loaded nat "participate_data list" | Release nat | EventLoop
  | OpenedVideo nat nat | VideoAnswered nat | OpenedAudio nat nat | AudioAnswered nat
  | StopVideo nat | StopAudio nat | JoinRoom nat | Joined nat | Leave nat | Left nat | ResetCalls
  | JoinReceived participate_data | MediaReceived media_update | LeaveReceived participate_data
  | ShowVideo int nat | PlayAudio bool int | RtcEvent rtc_op

fun call_step :: "call_env \<Rightarrow> call_op \<Rightarrow> call_ctrl \<Rightarrow> call_ctrl option" where
  "call_step E (GrowPool n) c = Some (grow_call_pool n c)"
| "call_step E (GetHandle k) c = map_option snd (room_handle k c)"
| "call_step E (Loaded h res) c = Some (call_loaded E h res c)"
| "call_step E (Release h) c = Some (release_handle h c)"
| "call_step E EventLoop c = Some (delete_handles c)"
| "call_step E (OpenedVideo h st) c = Some (openVideo E h st c)"
| "call_step E (VideoAnswered h) c = openVideo_done E h c"
| "call_step E (OpenedAudio h st) c = Some (openAudio E h st c)"
| "call_step E (AudioAnswered h) c = openAudio_done E h c"
| "call_step E (StopVideo h) c = closeVideo E h c"
| "call_step E (StopAudio h) c = closeAudio E h c"
| "call_step E (JoinRoom h) c = Some (join_call h c)"
| "call_step E (Joined h) c = Some (join_call_done E h c)"
| "call_step E (Leave h) c = Some (snd (disconnect_call h c))"
| "call_step E (Left h) c = Some (disconnect_call_done E h c)"
| "call_step E ResetCalls c = reset_calls c"
| "call_step E (JoinReceived part) c = on_call_join E part c"
| "call_step E (MediaReceived upd) c = on_media_update E upd c"
| "call_step E (LeaveReceived part) c = on_call_disconnect E part c"
| "call_step E (ShowVideo k sink) c = connectVideoSink E k sink c"
| "call_step E (PlayAudio devices k) c = map_option snd (connectAudioOutput E devices k c)"
| "call_step E (RtcEvent op) c = map_option (\<lambda>r. c\<lparr>cl_rtc := r\<rparr>) (rtc_do (ce_ffmpeg E) op (cl_rtc c))"

text \<open>The handle that an operation uses; one that is gone is a dangling pointer, and then there is no result.\<close>

fun used_handle :: "call_op \<Rightarrow> call_ctrl \<Rightarrow> nat option" where
  "used_handle (VideoAnswered h) c = (if cl_video c = None then None else Some h)"
| "used_handle (AudioAnswered h) c = (if cl_audio c = None then None else Some h)"
| "used_handle (JoinReceived part) c = cl_handles c (p_roomID part)"
| "used_handle (MediaReceived upd) c = cl_handles c (mu_roomID upd)"
| "used_handle (LeaveReceived part) c = cl_handles c (p_roomID part)"
| "used_handle ResetCalls c = Option.bind (cl_active c) (cl_handles c)"
| "used_handle (Loaded h res) c = Some h"
| "used_handle (Release h) c = Some h"
| "used_handle (OpenedVideo h st) c = Some h"
| "used_handle (OpenedAudio h st) c = Some h"
| "used_handle (StopVideo h) c = Some h"
| "used_handle (StopAudio h) c = Some h"
| "used_handle (JoinRoom h) c = Some h"
| "used_handle (Joined h) c = Some h"
| "used_handle (Leave h) c = Some h"
| "used_handle (Left h) c = Some h"
| "used_handle _ c = None"

definition call_do :: "call_env \<Rightarrow> call_op \<Rightarrow> call_ctrl \<Rightarrow> call_ctrl option" where
  "call_do E op c =
     (case used_handle op c of
        Some h \<Rightarrow> if ch_gone (cl_heap c h) then None else call_step E op c
      | None \<Rightarrow> call_step E op c)"

lemma call_do_step: "call_do E op c = Some c' \<Longrightarrow> call_step E op c = Some c'"
  by (auto simp: call_do_def split: option.splits if_splits)

inductive call_reachable :: "call_env \<Rightarrow> call_ctrl \<Rightarrow> bool" for E where
  call_start: "call_reachable E (new_call_ctrl (new_service frames n))"
| call_next: "call_reachable E c \<Longrightarrow> call_do E op c = Some c' \<Longrightarrow> call_reachable E c'"

definition rooms_ok :: "call_ctrl \<Rightarrow> bool" where
  "rooms_ok c \<longleftrightarrow>
     distinct (cl_pool c) \<and> (\<forall>h \<in> set (cl_pool c). h < cl_next c) \<and>
     (\<forall>k h. cl_handles c k = Some h \<longrightarrow> h < cl_next c \<and> h \<notin> set (cl_pool c) \<and> ch_roomID (cl_heap c h) = k)"

definition calls_inv :: "call_ctrl \<Rightarrow> bool" where
  "calls_inv c \<longleftrightarrow> rooms_ok c \<and> sv_inv (cl_rtc c)"

text \<open>Most operations leave pool, table and room numbers alone.\<close>

definition same_rooms :: "call_ctrl \<Rightarrow> call_ctrl \<Rightarrow> bool" where
  "same_rooms c c' \<longleftrightarrow>
     cl_handles c' = cl_handles c \<and> cl_pool c' = cl_pool c \<and> cl_next c' = cl_next c \<and>
     (\<forall>h. ch_roomID (cl_heap c' h) = ch_roomID (cl_heap c h))"

lemma delete_handles_fields [simp]:
  "cl_handles (delete_handles c) = cl_handles c" "cl_pool (delete_handles c) = cl_pool c"
  "cl_next (delete_handles c) = cl_next c" "cl_rtc (delete_handles c) = cl_rtc c" "cl_calls (delete_handles c) = cl_calls c"
  "ch_roomID (cl_heap (delete_handles c) h) = ch_roomID (cl_heap c h)"
  "ch_gone (cl_heap (delete_handles c) h) \<longleftrightarrow> ch_gone (cl_heap c h) \<or> ch_deleted (cl_heap c h)"
  by (auto simp: delete_handles_def)

named_theorems call_frame "operations that keep the rooms, and what they do to the service"

lemma same_rooms_ok: "same_rooms c c' \<Longrightarrow> rooms_ok c \<Longrightarrow> rooms_ok c'"
  by (simp add: same_rooms_def rooms_ok_def)

lemma same_rooms_refl [call_frame]: "same_rooms c c"
  by (simp add: same_rooms_def)

lemma same_rooms_update [call_frame]:
  "same_rooms c (with_participants h f c') = same_rooms c c'"
  "same_rooms c (send_call r c') = same_rooms c c'"
  "same_rooms c (c'\<lparr>cl_rtc := s\<rparr>) = same_rooms c c'"
  "same_rooms c (c'\<lparr>cl_active := a\<rparr>) = same_rooms c c'"
  "same_rooms c (c'\<lparr>cl_connectors := m\<rparr>) = same_rooms c c'"
  "same_rooms c (c'\<lparr>cl_video := v\<rparr>) = same_rooms c c'"
  "same_rooms c (c'\<lparr>cl_audio := v\<rparr>) = same_rooms c c'"
  "same_rooms c (c'\<lparr>cl_closed := l\<rparr>) = same_rooms c c'"
  "same_rooms c (with_handle h (\<lambda>x. x\<lparr>ch_inside := b\<rparr>) c') = same_rooms c c'"
  "same_rooms c (with_handle h (\<lambda>x. x\<lparr>ch_deleted := b\<rparr>) c') = same_rooms c c'"
  "same_rooms c (delete_handles c') = same_rooms c c'"
  by (auto simp: same_rooms_def with_participants_def with_handle_def send_call_def)

lemma rtc_of_update [call_frame]:
  "cl_rtc (with_participants h f c) = cl_rtc c" "cl_rtc (send_call r c) = cl_rtc c"
  "cl_rtc (with_handle h g c) = cl_rtc c"
  by (simp_all add: with_participants_def with_handle_def send_call_def)

lemma close_sources [call_frame]:
  "same_rooms c (close_video_source c') = same_rooms c c'" "same_rooms c (close_audio_source c') = same_rooms c c'"
  "cl_rtc (close_video_source c) = cl_rtc c" "cl_rtc (close_audio_source c) = cl_rtc c"
  by (simp_all add: close_video_source_def close_audio_source_def call_frame split: option.split)

lemma fold_opt_inv:
  assumes "fold_opt f xs s = Some s'" and "P s" and "\<And>x s s'. P s \<Longrightarrow> f x s = Some s' \<Longrightarrow> P s'"
  shows "P s'"
  using assms(1,2) by (induction xs arbitrary: s) (auto split: option.splits intro: assms(3))

lemma calls_inv_same:
  "calls_inv c \<Longrightarrow> same_rooms c c' \<Longrightarrow> sv_inv (cl_rtc c') \<Longrightarrow> calls_inv c'"
  by (auto simp: calls_inv_def same_rooms_ok)

lemmas fold_opt_sv = fold_opt_inv [where P = sv_inv]

section \<open>The invariant\<close>

lemma rooms_ok_grow:
  assumes "rooms_ok c"
  shows "rooms_ok (grow_call_pool n c)"
proof -
  have b: "\<And>k h. cl_handles c k = Some h \<Longrightarrow> h < cl_next c" "\<And>h. h \<in> set (cl_pool c) \<Longrightarrow> h < cl_next c"
    using assms by (auto simp: rooms_ok_def)
  show ?thesis
    using assms by (auto simp: rooms_ok_def grow_call_pool_def dest: b intro: less_imp_le_nat)
qed

lemma rooms_ok_handle:
  assumes "rooms_ok c" and "room_handle k c = Some (h, c')"
  shows "rooms_ok c'" and "cl_handles c' k = Some h" and "cl_rtc c' = cl_rtc c"
proof -
  consider "cl_handles c k = Some h" "c' = c"
    | rest where "cl_handles c k = None" "cl_pool c = h # rest"
        "c' = send_call (Call_Get_exec k) (with_handle h (\<lambda>x. x\<lparr>ch_roomID := k\<rparr>)
                (c\<lparr>cl_pool := rest, cl_handles := (cl_handles c)(k \<mapsto> h)\<rparr>))"
    using assms(2) by (auto simp: room_handle_def Let_def with_handle_def send_call_def split: option.splits list.splits if_splits)
  then have "rooms_ok c' \<and> cl_handles c' k = Some h \<and> cl_rtc c' = cl_rtc c"
  proof cases
    case 1
    with assms(1) show ?thesis by simp
  next
    case 2
    with assms(1) show ?thesis
      by (auto simp: rooms_ok_def send_call_def with_handle_def split: if_splits)
  qed
  then show "rooms_ok c'" "cl_handles c' k = Some h" "cl_rtc c' = cl_rtc c" by simp_all
qed

lemma rooms_ok_release: "rooms_ok c \<Longrightarrow> rooms_ok (release_handle h c)"
proof (cases "cl_handles c (ch_roomID (cl_heap c h))")
  case None
  then show "rooms_ok c \<Longrightarrow> ?thesis"
    by (auto simp: release_handle_def Let_def intro!: same_rooms_ok [of c] simp: call_frame)
next
  case (Some g)
  assume ok: "rooms_ok c"
  have "rooms_ok (c\<lparr>cl_pool := g # cl_pool c, cl_handles := (cl_handles c)(ch_roomID (cl_heap c h) := None)\<rparr>)"
    using ok Some unfolding rooms_ok_def by (auto split: if_splits) (metis option.inject)+
  then show ?thesis
    by (rule same_rooms_ok [rotated]) (simp add: release_handle_def Let_def Some call_frame)
qed

lemma rtc_release [call_frame]: "cl_rtc (release_handle h c) = cl_rtc c" "cl_rtc (grow_call_pool n c) = cl_rtc c"
  by (auto simp: release_handle_def Let_def with_handle_def grow_call_pool_def split: option.split)

lemma sv_inv_rtc_do [call_frame]: "sv_inv s \<Longrightarrow> rtc_do M op s = Some s' \<Longrightarrow> sv_inv s'"
  by (rule sv_inv_do)

lemma calls_inv_rtc:
  assumes "calls_inv c" and "same_rooms c c'" and "cl_rtc c' = cl_rtc c"
  shows "calls_inv c'"
  using assms by (auto simp: calls_inv_def same_rooms_ok)

lemma flag_frame [call_frame]:
  "same_rooms c (setVideo E b h c') = same_rooms c c'" "same_rooms c (setAudio E b h c') = same_rooms c c'"
  "cl_rtc (setVideo E b h c) = cl_rtc c" "cl_rtc (setAudio E b h c) = cl_rtc c"
  by (simp_all add: setVideo_def setAudio_def call_frame)

lemma calls_inv_open:
  assumes "calls_inv c"
  shows "calls_inv (openVideo E h st c)" "calls_inv (openAudio E h st c)"
    "openVideo_done E h c = Some c1 \<Longrightarrow> calls_inv c1" "openAudio_done E h c = Some c2 \<Longrightarrow> calls_inv c2"
proof -
  show "calls_inv (openVideo E h st c)" "calls_inv (openAudio E h st c)"
    by (rule calls_inv_rtc [OF assms]; simp add: openVideo_def openAudio_def call_frame)+
  have i: "sv_inv (cl_rtc c)" using assms by (simp add: calls_inv_def)
  show "calls_inv c1" if d: "openVideo_done E h c = Some c1"
  proof (cases "cl_video c")
    case (Some st)
    with d obtain r where r: "fold_opt (\<lambda>k. openLocalVideo (ce_ffmpeg E) k (ce_output E st))
        (other_participants E (participants_of h c)) (cl_rtc c) = Some r" "c1 = c\<lparr>cl_rtc := r\<rparr>"
      by (auto simp: openVideo_done_def)
    have "sv_inv r" by (rule fold_opt_sv [OF r(1) i]) (rule sv_inv_openLocalVideo)
    then show ?thesis unfolding r(2) by (intro calls_inv_same [OF assms]) (simp_all add: call_frame)
  qed (use assms d in \<open>simp add: openVideo_done_def\<close>)
  show "calls_inv c2" if d: "openAudio_done E h c = Some c2"
  proof (cases "cl_audio c")
    case (Some st)
    with d obtain r where r: "fold_opt (\<lambda>k. openLocalAudio (ce_ffmpeg E) k (ce_output E st))
        (other_participants E (participants_of h c)) (cl_rtc c) = Some r" "c2 = c\<lparr>cl_rtc := r\<rparr>"
      by (auto simp: openAudio_done_def)
    have "sv_inv r" by (rule fold_opt_sv [OF r(1) i]) (rule sv_inv_openLocalAudio)
    then show ?thesis unfolding r(2) by (intro calls_inv_same [OF assms]) (simp_all add: call_frame)
  qed (use assms d in \<open>simp add: openAudio_done_def\<close>)
qed

lemma closeLocal_inv:
  "sv_inv s \<Longrightarrow> closeLocalVideo k s = Some s' \<Longrightarrow> sv_inv s'"
  "sv_inv s \<Longrightarrow> closeLocalAudio k s = Some s' \<Longrightarrow> sv_inv s'"
  by (rule sv_inv_do [where op = "CloseVideo k"], assumption, simp)
    (rule sv_inv_do [where op = "CloseAudio k"], assumption, simp)

lemma calls_inv_close:
  assumes "calls_inv c"
  shows "closeVideo E h c = Some c1 \<Longrightarrow> calls_inv c1" "closeAudio E h c = Some c2 \<Longrightarrow> calls_inv c2"
proof -
  have i: "sv_inv (cl_rtc c)" using assms by (simp add: calls_inv_def)
  show "calls_inv c1" if d: "closeVideo E h c = Some c1"
  proof -
    let ?d = "setVideo E False h (close_video_source c)"
    from d obtain r where r: "fold_opt closeLocalVideo (other_participants E (participants_of h ?d)) (cl_rtc ?d) = Some r"
      "c1 = send_call (UpdateCallMedia_exec None (Some False)) (?d\<lparr>cl_rtc := r\<rparr>)"
      by (auto simp: closeVideo_def Let_def)
    have "sv_inv r" by (rule fold_opt_sv [OF r(1)]) (use i in \<open>simp add: call_frame\<close>, rule closeLocal_inv(1))
    then show ?thesis unfolding r(2) by (intro calls_inv_same [OF assms]) (simp_all add: call_frame)
  qed
  show "calls_inv c2" if d: "closeAudio E h c = Some c2"
  proof -
    let ?d = "setAudio E False h (close_audio_source c)"
    from d obtain r where r: "fold_opt closeLocalAudio (other_participants E (participants_of h ?d)) (cl_rtc ?d) = Some r"
      "c2 = send_call (UpdateCallMedia_exec (Some False) None) (?d\<lparr>cl_rtc := r\<rparr>)"
      by (auto simp: closeAudio_def Let_def)
    have "sv_inv r" by (rule fold_opt_sv [OF r(1)]) (use i in \<open>simp add: call_frame\<close>, rule closeLocal_inv(2))
    then show ?thesis unfolding r(2) by (intro calls_inv_same [OF assms]) (simp_all add: call_frame)
  qed
qed

lemma calls_inv_leave:
  assumes "calls_inv c"
  shows "calls_inv (snd (disconnect_call h c))" "reset_calls c = Some c' \<Longrightarrow> calls_inv c'"
proof -
  show l: "calls_inv (snd (disconnect_call h c))" for h
    by (rule calls_inv_same [OF assms])
      (use assms in \<open>auto simp: disconnect_call_def Let_def clearMedia_def call_frame calls_inv_def sv_inv_closeAll\<close>)
  have e: "calls_inv (d\<lparr>cl_active := None, cl_handles := Map.empty\<rparr>)" if "calls_inv d" for d
    using that by (simp add: calls_inv_def rooms_ok_def)
  show "calls_inv c'" if "reset_calls c = Some c'"
    using that e [OF assms] e [OF l] by (auto simp: reset_calls_def split: option.splits if_splits)
qed

lemma calls_inv_join:
  assumes "calls_inv c"
  shows "on_call_join E part c = Some c' \<Longrightarrow> calls_inv c'"
proof -
  assume r: "on_call_join E part c = Some c'"
  then obtain h d where h: "room_handle (p_roomID part) c = Some (h, d)" by (auto simp: on_call_join_def split: option.splits)
  have ok: "calls_inv d"
    using rooms_ok_handle [OF _ h] assms by (simp add: calls_inv_def)
  have o: "sv_inv t'" if "open_to_joined E on src f k t = Some t'" "sv_inv t"
      "\<And>M k a s s'. sv_inv s \<Longrightarrow> f M k a s = Some s' \<Longrightarrow> sv_inv s'" for on src f k t t'
    using that by (auto simp: open_to_joined_def split: if_splits option.splits)
  consider "c' = d" | m r1 r2 b1 b2 where "c' = (with_participants h m d)\<lparr>cl_rtc := r2\<rparr>"
      "open_to_joined E b1 (cl_video d) openLocalVideo (p_userID part) (cl_rtc d) = Some r1"
      "open_to_joined E b2 (cl_audio d) openLocalAudio (p_userID part) r1 = Some r2"
    using r h by (auto simp: on_call_join_def Let_def bind_eq_Some_conv split: if_splits)
  then show "calls_inv c'"
  proof cases
    case 2
    have "sv_inv r1" by (rule o [OF 2(2)]) (use ok sv_inv_openLocalVideo in \<open>auto simp: calls_inv_def\<close>)
    then have "sv_inv r2" by (rule o [OF 2(3)]) (rule sv_inv_openLocalAudio)
    then show ?thesis unfolding 2(1) by (intro calls_inv_same [OF ok]) (simp_all add: call_frame)
  qed (use ok in simp)
qed

lemma calls_inv_with_rtc:
  "calls_inv d \<Longrightarrow> sv_inv s \<Longrightarrow> calls_inv (with_participants h f (d\<lparr>cl_rtc := s\<rparr>))"
  by (rule calls_inv_same [of d]) (simp_all add: call_frame)

lemma calls_inv_media:
  assumes "calls_inv c"
  shows "on_media_update E upd c = Some c' \<Longrightarrow> calls_inv c'"
proof -
  assume r: "on_media_update E upd c = Some c'"
  then obtain h d where h: "room_handle (mu_roomID upd) c = Some (h, d)" by (auto simp: on_media_update_def split: option.splits)
  have ok: "calls_inv d"
    using rooms_ok_handle [OF _ h] assms by (simp add: calls_inv_def)
  let ?k = "mu_userID upd" and ?m = "participants_of h d"
  let ?v = "if participant_flag E ?k HasVideo ?m \<and> \<not> mu_video upd then flushRemoteVideo ?k (cl_rtc d) else cl_rtc d"
  let ?a = "if participant_flag E ?k HasAudio ?m \<and> \<not> mu_audio upd then flushRemoteAudio ?k ?v else ?v"
  have "sv_inv ?v" using ok by (simp add: calls_inv_def sv_inv_flush)
  then have a: "sv_inv ?a" by (simp add: sv_inv_flush)
  show "calls_inv c'"
  proof (cases "idToIndex ?k ?m")
    case None
    with r h ok show ?thesis by (simp add: on_media_update_def Let_def)
  next
    case (Some i)
    let ?n = "snd (setData_role (call_vt E) (Some i) (QBool (mu_audio upd)) HasAudio
      (snd (setData_role (call_vt E) (Some i) (QBool (mu_video upd)) HasVideo ?m)))"
    from r h Some have c': "c' = with_participants h (\<lambda>_. ?n) (d\<lparr>cl_rtc := ?a\<rparr>)"
      by (simp only: on_media_update_def Let_def option.case prod.case option.inject)
    show ?thesis unfolding c' by (rule calls_inv_with_rtc [OF ok a])
  qed
qed

lemma calls_inv_received:
  assumes "calls_inv c"
  shows "on_call_disconnect E part c = Some c1 \<Longrightarrow> calls_inv c1"
    "connectVideoSink E k sink c = Some c2 \<Longrightarrow> calls_inv c2"
    "connectAudioOutput E b k c = Some (a, c3) \<Longrightarrow> calls_inv c3"
proof -
  have i: "sv_inv (cl_rtc c)" using assms by (simp add: calls_inv_def)
  show "calls_inv c1" if "on_call_disconnect E part c = Some c1"
    using that sv_inv_closeUser [OF i]
    by (intro calls_inv_same [OF assms]) (auto simp: on_call_disconnect_def Let_def call_frame split: option.split)
  show "calls_inv c2" if "connectVideoSink E k sink c = Some c2"
    using that sv_inv_getRemote(1) [OF i] i
    by (intro calls_inv_same [OF assms]) (auto simp: connectVideoSink_def Let_def call_frame split: if_splits)
  show "calls_inv c3" if "connectAudioOutput E b k c = Some (a, c3)"
    using that sv_inv_getRemote(2) [OF i] i
    by (intro calls_inv_same [OF assms]) (auto simp: connectAudioOutput_def call_frame split: if_splits)
qed

lemma calls_inv_pool:
  assumes "calls_inv c"
  shows "calls_inv (grow_call_pool n c)" "calls_inv (release_handle h c)" "calls_inv (call_loaded E h res c)"
    "calls_inv (delete_handles c)" "calls_inv (join_call h c)" "calls_inv (join_call_done E h c)" "calls_inv (disconnect_call_done E h c)"
  using assms
  by (simp_all add: calls_inv_def rooms_ok_grow rooms_ok_release call_frame)
    (auto simp: call_loaded_def join_call_def join_call_done_def disconnect_call_done_def Let_def call_frame
      intro: same_rooms_ok [of c])

lemma calls_inv_do:
  assumes "calls_inv c" and "call_step E op c = Some c'"
  shows "calls_inv c'"
proof (cases op)
  case (GetHandle k)
  with assms show ?thesis by (auto simp: calls_inv_def dest: rooms_ok_handle)
next
  case (RtcEvent rop)
  with assms(2) obtain r where r: "rtc_do (ce_ffmpeg E) rop (cl_rtc c) = Some r" "c' = c\<lparr>cl_rtc := r\<rparr>" by auto
  have "sv_inv r" using r(1) assms(1) by (auto simp: calls_inv_def intro: sv_inv_rtc_do)
  then show ?thesis unfolding r(2) by (intro calls_inv_same [OF assms(1)]) (simp_all add: call_frame)
next
  case (PlayAudio b k)
  with assms show ?thesis by (auto dest: calls_inv_received(3))
qed (use assms(2) in \<open>auto simp: calls_inv_pool [OF assms(1)] calls_inv_open(1,2) [OF assms(1)] calls_inv_leave(1) [OF assms(1)]
    dest: calls_inv_open(3,4) [OF assms(1)] calls_inv_close [OF assms(1)] calls_inv_leave(2) [OF assms(1)]
      calls_inv_join [OF assms(1)] calls_inv_media [OF assms(1)] calls_inv_received(1,2) [OF assms(1)]\<close>)

lemma calls_inv_reachable: "call_reachable E c \<Longrightarrow> calls_inv c"
proof (induction rule: call_reachable.induct)
  case (call_start frames n)
  have "rtc_reachable good_ffmpeg (new_service frames n)" by (rule rtc_start)
  then show ?case by (simp add: calls_inv_def rooms_ok_def new_call_ctrl_def sv_inv_reachable)
next
  case (call_next c op c')
  then show ?case by (blast intro: calls_inv_do call_do_step)
qed

section \<open>Handles\<close>

text \<open>
  C12: Whatever has happened before, asking for the handle of a room gives a handle that carries this room's number,
  is in the table for it and for no other room, and leaves the entries of the other rooms alone; the
  server is asked for the participants exactly the first time, and then the handle has not been deleted. It fails exactly if the room has
  no handle yet and the pool is empty, or the first handle of the pool was released and deleted since: then the top of
  an empty stack is taken, or the number is set in an object that is gone.
\<close>

theorem rooms_have_own_handles:
  assumes "call_reachable E c"
  shows "if cl_handles c k = None \<and> (cl_pool c = [] \<or> ch_gone (cl_heap c (hd (cl_pool c))))
    then room_handle k c = None
    else \<exists>h c'. room_handle k c = Some (h, c') \<and> ch_roomID (cl_heap c' h) = k \<and> cl_handles c' k = Some h \<and>
      (\<forall>j. j \<noteq> k \<longrightarrow> cl_handles c' j = cl_handles c j \<and> cl_handles c j \<noteq> Some h) \<and>
      cl_calls c' = cl_calls c @ (if cl_handles c k = None then [Call_Get_exec k] else []) \<and>
      (cl_handles c k = None \<longrightarrow> \<not> ch_gone (cl_heap c' h))"
proof (cases "cl_handles c k = None \<and> (cl_pool c = [] \<or> ch_gone (cl_heap c (hd (cl_pool c))))")
  case True
  then show ?thesis by (auto simp: room_handle_def split: list.split)
next
  case False
  have ok: "rooms_ok c" using calls_inv_reachable [OF assms(1)] by (simp add: calls_inv_def)
  obtain h c' where r: "room_handle k c = Some (h, c')"
    using False by (cases "cl_handles c k"; cases "cl_pool c") (auto simp: room_handle_def Let_def)
  have ok': "rooms_ok c'" "cl_handles c' k = Some h" using rooms_ok_handle [OF ok r] by simp_all
  have same: "j \<noteq> k \<Longrightarrow> cl_handles c' j = cl_handles c j" for j
    using r by (auto simp: room_handle_def Let_def send_call_def with_handle_def split: option.splits list.splits if_splits)
  have own: "cl_handles c' j = Some h \<Longrightarrow> j = k" for j
    using ok' unfolding rooms_ok_def by metis
  have "ch_roomID (cl_heap c' h) = k" using ok' by (simp add: rooms_ok_def)
  moreover have "cl_calls c' = cl_calls c @ (if cl_handles c k = None then [Call_Get_exec k] else [])"
    "cl_handles c k = None \<longrightarrow> \<not> ch_gone (cl_heap c' h)"
    using r by (auto simp: room_handle_def Let_def send_call_def with_handle_def split: option.splits list.splits if_splits)
  ultimately show ?thesis using r ok'(2) same own unfolding if_not_P [OF False] by metis
qed

definition grown_calls :: call_ctrl where
  "grown_calls = grow_call_pool 3 (new_call_ctrl idle_service)"

lemma grown_calls_reachable: "call_reachable example_env grown_calls"
proof -
  have "call_reachable example_env (new_call_ctrl idle_service)"
    unfolding idle_service_def by (rule call_start)
  moreover have "call_do example_env (GrowPool 3) (new_call_ctrl idle_service) = Some grown_calls"
    by (simp add: grown_calls_def call_do_def)
  ultimately show ?thesis by (rule call_next)
qed

lemma grown_calls_pool: "cl_pool grown_calls = [2, 1, 0]" "cl_handles grown_calls k = None"
  by (simp_all add: grown_calls_def grow_call_pool_def new_call_ctrl_def upt_rec)

lemma grown_calls_heap [simp]: "cl_heap grown_calls h = new_handle"
  by (simp add: grown_calls_def grow_call_pool_def new_call_ctrl_def)

theorem rooms_have_own_handles_witness:
  "room_handle 7 (new_call_ctrl idle_service) = None \<and>
   (\<exists>h c'. room_handle 7 grown_calls = Some (h, c') \<and> ch_roomID (cl_heap c' h) = 7 \<and> cl_handles c' 7 = Some h \<and>
    (\<forall>j. j \<noteq> 7 \<longrightarrow> cl_handles c' j = cl_handles grown_calls j) \<and>
    cl_calls c' = cl_calls grown_calls @ [Call_Get_exec 7] \<and> \<not> ch_gone (cl_heap c' h))"
proof -
  have "call_reachable example_env (new_call_ctrl idle_service)"
    unfolding idle_service_def by (rule call_start)
  from rooms_have_own_handles [OF this, of 7] rooms_have_own_handles [OF grown_calls_reachable, of 7] show ?thesis
    by (auto simp: grown_calls_pool grown_calls_heap) (simp_all add: new_call_ctrl_def)
qed

text \<open>
  A released handle goes back to the pool and is marked for deletion: the next room that is opened gets this handle,
  about to be deleted, with the participants of the room before; and once the event loop has deleted it, the number of the next room
  is set in an object that is gone. Nothing in the program calls \<open>Controller::release\<close> yet; \<open>Handle::release\<close> is empty.
\<close>

theorem released_handle_given_out_again:
  assumes "call_reachable E c" and "cl_handles c k = Some h" and "cl_handles c j = None" and "\<not> ch_gone (cl_heap c h)"
  shows "(\<exists>c'. room_handle j (release_handle h c) = Some (h, c') \<and> ch_deleted (cl_heap c' h) \<and>
      participants_of h c' = participants_of h c) \<and>
    room_handle j (delete_handles (release_handle h c)) = None"
proof -
  have "ch_roomID (cl_heap c h) = k"
    using calls_inv_reachable [OF assms(1)] assms(2) by (simp add: calls_inv_def rooms_ok_def)
  with assms(2-4) show ?thesis
    by (auto simp: release_handle_def Let_def room_handle_def with_handle_def send_call_def delete_handles_def)
qed

definition one_room :: call_ctrl where
  "one_room = snd (the (room_handle 7 grown_calls))"

lemma one_room_facts: "call_reachable example_env one_room" "cl_handles one_room 7 = Some 2" "cl_handles one_room 8 = None"
  "\<not> ch_gone (cl_heap one_room h)"
proof -
  have r: "room_handle 7 grown_calls = Some (2, one_room)"
    by (simp add: one_room_def room_handle_def Let_def grown_calls_pool)
  then have "call_do example_env (GetHandle 7) grown_calls = Some one_room" by (simp add: call_do_def)
  with grown_calls_reachable show "call_reachable example_env one_room" by (rule call_next)
  show "cl_handles one_room 7 = Some 2" "cl_handles one_room 8 = None" "\<not> ch_gone (cl_heap one_room h)"
    by (simp_all add: one_room_def room_handle_def Let_def grown_calls_pool with_handle_def send_call_def)
qed

theorem released_handle_given_out_again_witness:
  "(\<exists>c'. room_handle 8 (release_handle 2 one_room) = Some (2, c') \<and> ch_deleted (cl_heap c' 2) \<and>
    participants_of 2 c' = participants_of 2 one_room) \<and> room_handle 8 (delete_handles (release_handle 2 one_room)) = None"
  by (rule released_handle_given_out_again [OF one_room_facts])

section \<open>Joining and leaving\<close>

lemma rtc_all_closed [simp]: "getPeerContext k (closeAllConnections s) = None"
  by (simp add: getPeerContext_def closeAllConnections_def clear_peers_def)

lemma close_sources_fields [simp]:
  "cl_video (close_video_source c) = None" "cl_audio (close_video_source c) = cl_audio c"
  "cl_audio (close_audio_source c) = None" "cl_video (close_audio_source c) = cl_video c"
  "cl_heap (close_video_source c) = cl_heap c" "cl_heap (close_audio_source c) = cl_heap c"
  "cl_calls (close_video_source c) = cl_calls c" "cl_calls (close_audio_source c) = cl_calls c"
  "cl_handles (close_video_source c) = cl_handles c" "cl_handles (close_audio_source c) = cl_handles c"
  by (simp_all add: close_video_source_def close_audio_source_def split: option.split)

lemma leave_fields:
  assumes "ch_inside (cl_heap c h)"
  shows "disconnect_call h c = (True, snd (disconnect_call h c))"
    "cl_video (snd (disconnect_call h c)) = None" "cl_audio (snd (disconnect_call h c)) = None"
    "cl_connectors (snd (disconnect_call h c)) = Map.empty" "cl_heap (snd (disconnect_call h c)) = cl_heap c"
    "cl_handles (snd (disconnect_call h c)) = cl_handles c"
    "cl_rtc (snd (disconnect_call h c)) = closeAllConnections (cl_rtc c)"
    "cl_calls (snd (disconnect_call h c)) = cl_calls c @ [Call_Disconnect_exec (ch_roomID (cl_heap c h))]"
    "cl_closed (snd (disconnect_call h c)) =
       cl_closed c @ (case cl_audio c of Some s \<Rightarrow> [s] | None \<Rightarrow> []) @ (case cl_video c of Some s \<Rightarrow> [s] | None \<Rightarrow> [])"
  using assms
  by (simp_all add: disconnect_call_def Let_def clearMedia_def send_call_def call_frame)
    (simp add: close_video_source_def close_audio_source_def split: option.split)

lemma left_participants:
  "participants_of h (disconnect_call_done E h c) =
     snd (removeRows (call_vt E) (case idToIndex (ce_user E) (participants_of h c) of Some r \<Rightarrow> r | None \<Rightarrow> - 1) 1
            (participants_of h c))"
  "\<not> ch_inside (cl_heap (disconnect_call_done E h c) h)"
  by (simp_all add: disconnect_call_done_def with_participants_def with_handle_def)

lemma participate_key: "qt_ok (ce_qt E) \<Longrightarrow> key (call_vt E) x = p_userID x"
  by simp

lemma participate_id: "qt_ok (ce_qt E) \<Longrightarrow> id_of (call_vt E) x i = p_userID x"
  by (simp add: id_of_def participate_vt_def participate_read_def)

lemma participate_keys: "qt_ok (ce_qt E) \<Longrightarrow> key (call_vt E) = p_userID"
  by auto

lemma unlisted_index:
  assumes "qt_ok (ce_qt E)" and "im_wf (call_vt E) m" and "k \<notin> p_userID ` set (im_data m)"
  shows "idToIndex k m = None"
proof (rule ccontr)
  assume "idToIndex k m \<noteq> None"
  then obtain r where "in_rows r m" "p_userID (im_data m ! nat r) = k"
    using idToIndex_wf [OF assms(2)] assms(1) by fastforce
  then show False using assms(3) in_rows_nth by blast
qed

lemma distinct_counts: "distinct xs \<Longrightarrow> count_list xs x = (if x \<in> set xs then 1 else 0)"
  by (induction xs) auto

lemma listed_lookup:
  assumes "qt_ok (ce_qt E)" and "im_wf (call_vt E) m" and "k \<in> p_userID ` set (im_data m)"
  shows "\<exists>x. lookup_im m k = Some x"
proof -
  have "k \<in> key (call_vt E) ` set (im_data m)" using assms(1,3) by simp
  then have "k \<in> dom (entries (call_vt E) (im_data m))" by (simp add: dom_entries)
  then show ?thesis using lookup_entries [OF assms(2)] by auto
qed



text \<open>
  Joining again is not refused, although the code makes the error for it: the request goes out, the user is listed a
  second time, and leaving removes one of the two rows, so outside the call the user is listed still.
\<close>

theorem second_join_outlives_leaving:
  assumes "qt_ok (ce_qt E)" and "im_wf (call_vt E) (participants_of h c)" and "ch_inside (cl_heap c h)"
    and "ce_user E \<in> p_userID ` set (im_data (participants_of h c))"
  shows "\<exists>c1 c2 c3. join_call h c = c1 \<and> cl_calls c1 = cl_calls c @ [Call_Join_exec (ch_roomID (cl_heap c h)) []] \<and>
    join_call_done E h c1 = c2 \<and> count_list (map p_userID (im_data (participants_of h c2))) (ce_user E) = 2 \<and>
    disconnect_call_done E h (snd (disconnect_call h c2)) = c3 \<and> \<not> ch_inside (cl_heap c3 h) \<and>
    im_data (participants_of h c3) = im_data (participants_of h c)"
proof -
  let ?m = "participants_of h c" and ?new = "new_participate\<lparr>p_userID := ce_user E\<rparr>"
  let ?c1 = "join_call h c"
  let ?c2 = "join_call_done E h ?c1"
  have c1: "cl_heap ?c1 = cl_heap c" "cl_calls ?c1 = cl_calls c @ [Call_Join_exec (ch_roomID (cl_heap c h)) []]"
    by (simp_all add: join_call_def send_call_def)
  define m2 where "m2 = snd (insertData (call_vt E) 0 ?new ?m)"
  have m2: "participants_of h ?c2 = m2" "ch_inside (cl_heap ?c2 h)"
    by (simp_all add: join_call_done_def Let_def with_handle_def with_participants_def c1(1) m2_def)
  have d2: "im_data m2 = ?new # im_data ?m" "im_index m2 (ce_user E) = Some 0"
    using participate_id [OF assms(1)] by (simp_all add: m2_def insertData_def insertDataList_def Let_def emit_def)
  have i2: "idToIndex (ce_user E) m2 = Some 0"
    using d2 by (simp add: idToIndex_def model_index_def in_rows_def)
  have one: "count_list (map p_userID (im_data ?m)) (ce_user E) = 1"
  proof -
    have "distinct (map p_userID (im_data ?m))"
      using assms(2) by (simp add: im_wf_def keys_def participate_keys [OF assms(1)])
    then have "count_list (map p_userID (im_data ?m)) k = (if k \<in> set (map p_userID (im_data ?m)) then 1 else 0)" for k
      by (rule distinct_counts)
    then show ?thesis using assms(4) by simp
  qed
  let ?c3 = "disconnect_call_done E h (snd (disconnect_call h ?c2))"
  have "im_data (participants_of h ?c3) = im_data ?m"
    using i2 d2(1) by (simp add: left_participants leave_fields(5) [OF m2(2)] m2(1) removeRows_def Let_def emit_def)
  then show ?thesis using c1 one d2(1) m2(1) left_participants(2) [of E h] by simp
qed

theorem second_join_outlives_leaving_witness:
  "\<exists>c1 c2 c3. join_call 0 example_call = c1 \<and>
    cl_calls c1 = cl_calls example_call @ [Call_Join_exec (ch_roomID (cl_heap example_call 0)) []] \<and>
    join_call_done example_env 0 c1 = c2 \<and>
    count_list (map p_userID (im_data (participants_of 0 c2))) (ce_user example_env) = 2 \<and>
    disconnect_call_done example_env 0 (snd (disconnect_call 0 c2)) = c3 \<and> \<not> ch_inside (cl_heap c3 0) \<and>
    im_data (participants_of 0 c3) = im_data (participants_of 0 example_call)"
  by (rule second_join_outlives_leaving)
    (simp_all add: example_call_facts, simp add: two_participants_def new_participate_def example_env_def)

text \<open>
  When any participant leaves any room the controller forgets which room it is in: a reset after that closes
  neither camera nor microphone and does not leave the call; without it, it does.
\<close>

theorem leaving_participant_forgets_call:
  assumes "call_reachable E c" and "cl_active c = Some k" and "cl_handles c k = Some h" and "ch_inside (cl_heap c h)"
    and "\<not> ch_gone (cl_heap c h)"
  shows "\<exists>c0 c1 c2. reset_calls c = Some c0 \<and> cl_video c0 = None \<and> cl_audio c0 = None \<and>
      cl_calls c0 = cl_calls c @ [Call_Disconnect_exec k] \<and>
    on_call_disconnect E part c = Some c1 \<and> reset_calls c1 = Some c2 \<and> cl_video c2 = cl_video c \<and>
      cl_audio c2 = cl_audio c \<and> cl_calls c2 = cl_calls c"
proof -
  have inv: "sv_inv (cl_rtc c)" "ch_roomID (cl_heap c h) = k"
    using calls_inv_reachable [OF assms(1)] assms(3) by (simp_all add: calls_inv_def rooms_ok_def)
  obtain r where "closeUserConnection (p_userID part) (cl_rtc c) = Some r" using closeUser_total [OF inv(1)] by blast
  then obtain c1 where c1: "on_call_disconnect E part c = Some c1" "cl_active c1 = None" "cl_video c1 = cl_video c"
    "cl_audio c1 = cl_audio c" "cl_calls c1 = cl_calls c"
    by (simp add: on_call_disconnect_def Let_def split: option.split)
  then show ?thesis
    using assms(2,3,5) leave_fields [OF assms(4)] inv(2) by (simp add: reset_calls_def)
qed

definition in_call :: call_ctrl where
  "in_call = openVideo example_env 2 4 (join_call_done example_env 2 one_room)"

lemma in_call_facts:
  "call_reachable example_env in_call" "cl_active in_call = Some 7" "cl_handles in_call 7 = Some 2"
  "ch_inside (cl_heap in_call 2)" "\<not> ch_gone (cl_heap in_call 2)" "cl_video in_call = Some 4"
proof -
  have "call_do example_env (Joined 2) one_room = Some (join_call_done example_env 2 one_room)"
    "call_do example_env (OpenedVideo 2 4) (join_call_done example_env 2 one_room) = Some in_call"
    using one_room_facts(4)
    by (simp_all add: in_call_def call_do_def join_call_done_def Let_def with_handle_def with_participants_def)
  then show "call_reachable example_env in_call" using one_room_facts(1) call_next by metis
  have "ch_roomID (cl_heap one_room 2) = 7"
    using calls_inv_reachable [OF one_room_facts(1)] one_room_facts(2) by (simp add: calls_inv_def rooms_ok_def)
  then show "cl_active in_call = Some 7" "cl_handles in_call 7 = Some 2" "ch_inside (cl_heap in_call 2)"
    "\<not> ch_gone (cl_heap in_call 2)" "cl_video in_call = Some 4"
    using one_room_facts(2,4)
    by (simp_all add: in_call_def openVideo_def setVideo_def join_call_done_def Let_def send_call_def
        with_participants_def with_handle_def)
qed

theorem leaving_participant_forgets_call_witness:
  "\<exists>c0 c1 c2. reset_calls in_call = Some c0 \<and> cl_video c0 = None \<and> cl_audio c0 = None \<and>
      cl_calls c0 = cl_calls in_call @ [Call_Disconnect_exec 7] \<and>
    on_call_disconnect example_env (new_participate\<lparr>p_userID := 9, p_roomID := 8\<rparr>) in_call = Some c1 \<and>
      reset_calls c1 = Some c2 \<and> cl_video c2 = cl_video in_call \<and>
      cl_audio c2 = cl_audio in_call \<and> cl_calls c2 = cl_calls in_call"
  by (rule leaving_participant_forgets_call [OF in_call_facts(1-5)])

section \<open>A participant joins\<close>


definition camera_call :: call_ctrl where
  "camera_call = with_participants 0 (\<lambda>m. m\<lparr>im_data := [new_participate\<lparr>p_userID := 1, p_hasVideo := True\<rparr>,
     new_participate\<lparr>p_userID := 2, p_hasVideo := True\<rparr>]\<rparr>) example_call"

lemma camera_call_facts:
  "qt_ok (ce_qt example_env)" "cl_handles camera_call 7 = Some 0" "im_wf (call_vt example_env) (participants_of 0 camera_call)"
  "3 \<notin> p_userID ` set (im_data (participants_of 0 camera_call))" "cl_video camera_call = Some 4"
  "lookup_im (participants_of 0 camera_call) (ce_user example_env) =
     Some (new_participate\<lparr>p_userID := 1, p_hasVideo := True\<rparr>)"
  "video_ready (ce_ffmpeg example_env) 1 (cl_rtc camera_call)" "ch_inside (cl_heap camera_call 0)"
  "\<not> p_hasAudio (new_participate\<lparr>p_userID := 1, p_hasVideo := True\<rparr>)"
  by (simp_all add: camera_call_def example_call_facts(2,3,6,7,9))
    (auto simp: example_env_def plain_qt_ok im_wf_def keys_def two_participants_def fun_eq_iff lookup_im_def data_at_def
      idToIndex_def model_index_def in_rows_def new_participate_def good_ffmpeg_def video_ready_def idle_service_def new_service_def)


end
