(* ===== verification/CallDelivery.thy ===== *)
theory CallDelivery
  imports Coordinator RpcSystem
begin

text \<open>
  The way of a call: a round of \<open>NetworkCoordinator::threadFunc\<close> (\<open>lib/network/networkcoordinator.cpp\<close>) over the actual
  \<open>ServerRPCWrapper\<close>, from the queue through the attempts to connect to the text on the wire, and back
  with the reply of the server. Promises of calls and of connections share their addresses.
\<close>

section \<open>A round over the wrapper\<close>

record network =
  nw_co :: coordinator
  nw_rpc :: wrapper
  nw_fresh :: nat

text \<open>How an attempt ends: the transport opens, reports an error, or throws at once.\<close>

datatype attempt = Opens | Fails string | Throws string

text \<open>\<open>connect().waitForFinished()\<close>; \<open>None\<close> is the null pointer in \<open>connect\<close>.\<close>

definition connect_attempt :: "attempt \<Rightarrow> network \<Rightarrow> network option" where
  "connect_attempt a n =
     (case connect (nw_fresh n) (case a of Throws desc \<Rightarrow> Some desc | _ \<Rightarrow> None) (nw_rpc n) of
        (None, w) \<Rightarrow> None
      | (Some p, w) \<Rightarrow>
          Some (n\<lparr>nw_fresh := Suc (nw_fresh n),
                  nw_rpc := (case a of Opens \<Rightarrow> on_open w | Fails desc \<Rightarrow> on_error desc w | Throws desc \<Rightarrow> w)\<rparr>))"

fun connect_loop :: "nat \<Rightarrow> (nat \<Rightarrow> attempt) \<Rightarrow> nat \<Rightarrow> network \<Rightarrow> network option" where
  "connect_loop 0 env i n = Some n"
| "connect_loop (Suc k) env i n =
     (if w_connected (nw_rpc n) then Some n
      else case connect_attempt (env i) n of None \<Rightarrow> None | Some n \<Rightarrow> connect_loop k env (Suc i) n)"

definition network_round :: "(nat \<Rightarrow> attempt) \<Rightarrow> string option \<Rightarrow> network \<Rightarrow> network option" where
  "network_round env failure n =
     (if co_directCalls (nw_co n) = [] \<and> co_authorizedCalls (nw_co n) = [] \<and> co_active (nw_co n) then Some n
      else if \<not> co_active (nw_co n) then Some n
      else case connect_loop (nat (co_reconnectionCount (nw_co n))) env 0 n of
             None \<Rightarrow> None
           | Some n \<Rightarrow>
               (case takeMethod (nw_co n) of
                  None \<Rightarrow> None
                | Some (mi, c) \<Rightarrow>
                    Some (n\<lparr>nw_co := c, nw_rpc :=
                      (if \<not> w_connected (nw_rpc n)
                       then settle (mi_promise mi) (Exception ''Server is not responding'') (nw_rpc n)
                       else serverMethod (call_method (mi_call mi)) (call_args (mi_call mi)) (mi_promise mi) failure
                              (nw_rpc n))\<rparr>)))"

section \<open>Attempts\<close>

text \<open>What the attempts leave alone.\<close>

definition same_calls :: "network \<Rightarrow> network \<Rightarrow> bool" where
  "same_calls n m \<longleftrightarrow> nw_co m = nw_co n \<and> w_requests (nw_rpc m) = w_requests (nw_rpc n) \<and>
     w_counter (nw_rpc m) = w_counter (nw_rpc n) \<and> w_sent (nw_rpc m) = w_sent (nw_rpc n) \<and>
     w_connection (nw_rpc m) = None"

text \<open>How the attempts from \<open>i\<close> on end: with the first of them that opens or throws, if there is one.\<close>

fun attempts_end :: "nat \<Rightarrow> (nat \<Rightarrow> attempt) \<Rightarrow> nat \<Rightarrow> attempt" where
  "attempts_end 0 env i = Fails []"
| "attempts_end (Suc k) env i = (case env i of Fails desc \<Rightarrow> attempts_end k env (Suc i) | a \<Rightarrow> a)"

definition reached :: "(nat \<Rightarrow> attempt) \<Rightarrow> network \<Rightarrow> attempt" where
  "reached env n = (if w_connected (nw_rpc n) then Opens else attempts_end (nat (co_reconnectionCount (nw_co n))) env 0)"

lemma connect_attempt_throws: "w_connection (nw_rpc n) = None \<Longrightarrow> connect_attempt (Throws desc) n = None"
  by (simp add: connect_attempt_def connect_def handleConnectionError_def)

lemma connect_attempt_ok:
  assumes "w_connection (nw_rpc n) = None" and "\<forall>desc. a \<noteq> Throws desc"
  obtains m where "connect_attempt a n = Some m" "same_calls n m"
    "w_connected (nw_rpc m) \<longleftrightarrow> w_connected (nw_rpc n) \<or> a = Opens"
  using assms
  by (cases a) (auto simp: connect_attempt_def connect_def on_open_def on_error_def handleConnectionError_def settle_def
      same_calls_def)

lemma connect_loop_ok:
  assumes "w_connection (nw_rpc n) = None"
  shows "case (if w_connected (nw_rpc n) then Opens else attempts_end k env i) of
      Throws desc \<Rightarrow> connect_loop k env i n = None
    | Opens \<Rightarrow> \<exists>m. connect_loop k env i n = Some m \<and> same_calls n m \<and> w_connected (nw_rpc m)
    | Fails desc \<Rightarrow> \<exists>m. connect_loop k env i n = Some m \<and> same_calls n m \<and> \<not> w_connected (nw_rpc m)"
  using assms
proof (induction k arbitrary: i n)
  case 0
  then show ?case by (simp add: same_calls_def)
next
  case (Suc k)
  show ?case
  proof (cases "w_connected (nw_rpc n)")
    case True
    with Suc.prems show ?thesis by (simp add: same_calls_def)
  next
    case False
    show ?thesis
    proof (cases "env i")
      case (Throws desc)
      with False connect_attempt_throws [OF Suc.prems] show ?thesis by simp
    next
      case Opens
      obtain m where m: "connect_attempt Opens n = Some m" "same_calls n m" "w_connected (nw_rpc m)"
        by (rule connect_attempt_ok [OF Suc.prems, of Opens]) auto
      then have "connect_loop k env (Suc i) m = Some m" by (cases k) simp_all
      with False Opens m show ?thesis by simp
    next
      case (Fails desc)
      obtain m where m: "connect_attempt (Fails desc) n = Some m" "same_calls n m" "\<not> w_connected (nw_rpc m)"
        by (rule connect_attempt_ok [OF Suc.prems, of "Fails desc"]) (use False in auto)
      have "w_connection (nw_rpc m) = None" using m(2) by (simp add: same_calls_def)
      from Suc.IH [OF this, of "Suc i"] m False Fails show ?thesis
        by (auto simp: same_calls_def split: attempt.splits)
    qed
  qed
qed

section \<open>Delivery\<close>

lemma queue_take: "co_directCalls c = [] \<Longrightarrow> co_authorizedCalls c = [] \<Longrightarrow>
    \<exists>c'. takeMethod (queue_call mi c) = Some (mi, c') \<and> queued c' = {#} \<and>
      \<not> (co_directCalls (queue_call mi c) = [] \<and> co_authorizedCalls (queue_call mi c) = []) \<and>
      co_active (queue_call mi c) = co_active c \<and> co_reconnectionCount (queue_call mi c) = co_reconnectionCount c"
  by (cases "call_priority (mi_call mi)") (simp_all add: queue_call_def takeMethod_def queued_def)

text \<open>Connecting settles promises, but none with a value.\<close>

definition settled_more :: "wrapper \<Rightarrow> wrapper \<Rightarrow> bool" where
  "settled_more w w' \<longleftrightarrow>
     (\<exists>xs. w_settled w' = w_settled w @ xs \<and> (\<forall>x \<in> set xs. case snd x of Value v \<Rightarrow> False | _ \<Rightarrow> True))"

lemma settled_more_refl: "settled_more w w"
  by (simp add: settled_more_def)

lemma settled_more_trans: "settled_more u v \<Longrightarrow> settled_more v w \<Longrightarrow> settled_more u w"
  by (force simp: settled_more_def)

lemma connect_attempt_settled: "connect_attempt a n = Some m \<Longrightarrow> settled_more (nw_rpc n) (nw_rpc m)"
  by (cases a) (auto simp: connect_attempt_def connect_def on_open_def on_error_def handleConnectionError_def settle_def
      settled_more_def Let_def split: option.splits)

lemma connect_loop_settled: "connect_loop k env i n = Some m \<Longrightarrow> settled_more (nw_rpc n) (nw_rpc m)"
proof (induction k arbitrary: i n)
  case (Suc k)
  then show ?case
    by (auto simp: settled_more_refl split: if_splits option.splits
        intro: settled_more_trans [OF connect_attempt_settled])
qed (simp add: settled_more_refl)

text \<open>The round that finds one call in the queue.\<close>

lemma one_call_throws:
  assumes "co_active (nw_co n)" and "co_directCalls (nw_co n) = []" and "co_authorizedCalls (nw_co n) = []"
    and "w_connection (nw_rpc n) = None" and "reached env n = Throws desc"
  shows "network_round env None (n\<lparr>nw_co := queue_call mi (nw_co n)\<rparr>) = None"
  using queue_take [OF assms(2,3), of mi] assms(1,5)
    connect_loop_ok [of "n\<lparr>nw_co := queue_call mi (nw_co n)\<rparr>" "nat (co_reconnectionCount (nw_co n))" env 0] assms(4)
  by (auto simp: network_round_def reached_def split: if_splits)

lemma one_call_round:
  assumes "co_active (nw_co n)" and "co_directCalls (nw_co n) = []" and "co_authorizedCalls (nw_co n) = []"
    and "w_connection (nw_rpc n) = None" and "\<forall>desc. reached env n \<noteq> Throws desc"
  obtains m c where
    "network_round env None (n\<lparr>nw_co := queue_call mi (nw_co n)\<rparr>) = Some (m\<lparr>nw_co := c, nw_rpc :=
       (if \<not> w_connected (nw_rpc m) then settle (mi_promise mi) (Exception ''Server is not responding'') (nw_rpc m)
        else serverMethod (call_method (mi_call mi)) (call_args (mi_call mi)) (mi_promise mi) None (nw_rpc m))\<rparr>)"
    "queued c = {#}" "same_calls (n\<lparr>nw_co := queue_call mi (nw_co n)\<rparr>) m"
    "w_connected (nw_rpc m) \<longleftrightarrow> reached env n = Opens"
    "settled_more (nw_rpc n) (nw_rpc m)"
proof -
  let ?n = "n\<lparr>nw_co := queue_call mi (nw_co n)\<rparr>"
  obtain c where t: "takeMethod (queue_call mi (nw_co n)) = Some (mi, c)" "queued c = {#}"
    "\<not> (co_directCalls (queue_call mi (nw_co n)) = [] \<and> co_authorizedCalls (queue_call mi (nw_co n)) = [])"
    "co_active (queue_call mi (nw_co n))"
    "co_reconnectionCount (queue_call mi (nw_co n)) = co_reconnectionCount (nw_co n)"
    using queue_take [OF assms(2,3)] assms(1) by metis
  from connect_loop_ok [of ?n "nat (co_reconnectionCount (nw_co n))" env 0] assms(4,5) obtain m where
    m: "connect_loop (nat (co_reconnectionCount (nw_co n))) env 0 ?n = Some m" "same_calls ?n m"
      "w_connected (nw_rpc m) \<longleftrightarrow> reached env n = Opens"
    by (auto simp: reached_def split: attempt.splits if_splits)
  show thesis
    by (rule that [OF _ t(2) m(2,3)])
      (use t m(1,2) connect_loop_settled [OF m(1)] in \<open>auto simp: network_round_def same_calls_def\<close>)
qed

text \<open>The message id of the next call.\<close>

definition next_id :: "wrapper \<Rightarrow> int" where
  "next_id w = fst (generateID (w_counter w))"

lemma call_sent:
  assumes "same_calls n m" and "w_requests (nw_rpc n) (next_id (nw_rpc n)) = None"
  shows "w_sent (serverMethod method args p None (nw_rpc m)) = w_sent (nw_rpc n) @ [method_call_to_json
      \<lparr>mc_id = next_id (nw_rpc n), mc_method = method, mc_args = args\<rparr>]"
    and "w_requests (serverMethod method args p None (nw_rpc m)) = (w_requests (nw_rpc n))(next_id (nw_rpc n) \<mapsto> p)"
    and "w_settled (serverMethod method args p None (nw_rpc m)) = w_settled (nw_rpc m)"
  using assms by (simp_all add: same_calls_def serverMethod_def methodCallMsg_def next_id_def generateID_def new_method_call_def)

lemma next_id_int [simp]: "is_i32 (next_id w)"
  by (simp add: next_id_def generateID_def)

text \<open>
  C5: A call queued in an idle network, with no connection under way and no call waiting under the next message id, is answered:
  the next round takes it, and if the network is connected, or within the allowed number of attempts one opens before any throws,
  its method and arguments go out under this id and the reply to it settles the promise of the call with the value, as its last
  event. If all attempts fail, the promise fails and nothing is sent. If an attempt throws, \<open>connect\<close> dereferences a null pointer.
  Nobody needs to be logged in, for a direct or an authorized call.
\<close>

theorem queued_call_is_answered:
  assumes "jlib_ok J" and "co_active (nw_co n)" and "co_directCalls (nw_co n) = []" and "co_authorizedCalls (nw_co n) = []"
    and "w_connection (nw_rpc n) = None" and "w_requests (nw_rpc n) (next_id (nw_rpc n)) = None" and "is_i32 k"
  shows "case reached env n of
      Throws desc \<Rightarrow> network_round env None (n\<lparr>nw_co := queue_call mi (nw_co n)\<rparr>) = None
    | Opens \<Rightarrow>
        (\<exists>m w. network_round env None (n\<lparr>nw_co := queue_call mi (nw_co n)\<rparr>) = Some m \<and> queued (nw_co m) = {#} \<and>
           w_sent (nw_rpc m) = w_sent (nw_rpc n) @ [method_call_to_json
             \<lparr>mc_id = next_id (nw_rpc n), mc_method = call_method (mi_call mi), mc_args = call_args (mi_call mi)\<rparr>] \<and>
           handleTextMessage J (Some (reply_to_json
             \<lparr>r_id = k, r_repTo = next_id (nw_rpc n), r_error = None, r_status = Success, r_reply = v\<rparr>)) (nw_rpc m) = Some w \<and>
           w_settled w = w_settled (nw_rpc m) @ [(mi_promise mi, Value v)] \<and> w_requests w = w_requests (nw_rpc n))
    | Fails desc \<Rightarrow>
        (\<exists>m. network_round env None (n\<lparr>nw_co := queue_call mi (nw_co n)\<rparr>) = Some m \<and> queued (nw_co m) = {#} \<and>
           w_sent (nw_rpc m) = w_sent (nw_rpc n) \<and>
           last (w_settled (nw_rpc m)) = (mi_promise mi, Exception ''Server is not responding''))"
proof (cases "\<exists>desc. reached env n = Throws desc")
  case True
  with one_call_throws [OF assms(2-5)] show ?thesis by auto
next
  case False
  let ?n = "n\<lparr>nw_co := queue_call mi (nw_co n)\<rparr>" and ?id = "next_id (nw_rpc n)"
  have "\<forall>desc. reached env n \<noteq> Throws desc" using False by blast
  then obtain m c where r: "network_round env None ?n = Some (m\<lparr>nw_co := c, nw_rpc :=
       (if \<not> w_connected (nw_rpc m) then settle (mi_promise mi) (Exception ''Server is not responding'') (nw_rpc m)
        else serverMethod (call_method (mi_call mi)) (call_args (mi_call mi)) (mi_promise mi) None (nw_rpc m))\<rparr>)"
    "queued c = {#}" "same_calls ?n m" "w_connected (nw_rpc m) \<longleftrightarrow> reached env n = Opens"
    by (rule one_call_round [OF assms(2-5)])
  let ?w = "serverMethod (call_method (mi_call mi)) (call_args (mi_call mi)) (mi_promise mi) None (nw_rpc m)"
  have s: "w_sent ?w = w_sent (nw_rpc n) @ [method_call_to_json \<lparr>mc_id = ?id,
      mc_method = call_method (mi_call mi), mc_args = call_args (mi_call mi)\<rparr>]"
    "w_requests ?w = (w_requests (nw_rpc n))(?id \<mapsto> mi_promise mi)"
    using call_sent [OF r(3)] assms(6) by simp_all
  from reply_of_call [OF assms(1), of ?w ?id "mi_promise mi" k] s(2) assms(7) obtain w where
    "handleTextMessage J (Some (reply_to_json
        \<lparr>r_id = k, r_repTo = ?id, r_error = None, r_status = Success, r_reply = v\<rparr>)) ?w = Some w"
    "w_settled w = w_settled ?w @ [(mi_promise mi, Value v)]" "w_requests w = (w_requests ?w)(?id := None)" by auto
  moreover have "(w_requests ?w)(?id := None) = w_requests (nw_rpc n)" using s(2) assms(6) by (simp add: fun_upd_idem)
  ultimately show ?thesis
    using r s(1) False by (cases "reached env n") (auto simp: settle_def same_calls_def)
qed

definition idle_network :: network where
  "idle_network = \<lparr>nw_co = new_coordinator, nw_rpc = new_wrapper, nw_fresh = 100\<rparr>"

definition second_attempt :: "nat \<Rightarrow> attempt" where
  "second_attempt j = (if j = 0 then Fails ''refused'' else Opens)"

definition example_call_info :: method_info where
  "example_call_info = \<lparr>mi_call = serverCall ''m'' JNull, mi_promise = 1\<rparr>"

lemma idle_network_facts:
  "w_sent (nw_rpc idle_network) = []" "next_id (nw_rpc idle_network) = 2" "w_connection (nw_rpc idle_network) = None"
  "w_requests (nw_rpc idle_network) k = None" "co_active (nw_co idle_network)" "co_directCalls (nw_co idle_network) = []"
  "co_authorizedCalls (nw_co idle_network) = []" "co_reconnectionCount (nw_co idle_network) = 5"
  "call_method (mi_call example_call_info) = ''m''" "call_args (mi_call example_call_info) = JNull"
  "reached second_attempt idle_network = Opens"
  by (simp_all add: idle_network_def new_coordinator_def new_wrapper_def example_call_info_def serverCall_def second_attempt_def
      next_id_def generateID_def is_i32_def reached_def numeral_eq_Suc)

theorem queued_call_is_answered_witness:
  "\<exists>m w. network_round second_attempt None
      (idle_network\<lparr>nw_co := queue_call example_call_info (nw_co idle_network)\<rparr>) = Some m \<and>
    queued (nw_co m) = {#} \<and>
    w_sent (nw_rpc m) = [method_call_to_json \<lparr>mc_id = 2, mc_method = ''m'', mc_args = JNull\<rparr>] \<and>
    handleTextMessage plain_jlib (Some (reply_to_json
      \<lparr>r_id = 9, r_repTo = 2, r_error = None, r_status = Success, r_reply = JInt 5\<rparr>)) (nw_rpc m) = Some w \<and>
    last (w_settled w) = (mi_promise example_call_info, Value (JInt 5))"
proof -
  have "is_i32 9" by (simp add: is_i32_def)
  from queued_call_is_answered [OF plain_jlib_ok _ _ _ _ _ this, of idle_network second_attempt example_call_info "JInt 5"]
  show ?thesis by (auto simp: idle_network_facts)
qed

end
