(* ===== verification/LockOrder.thy ===== *)
theory LockOrder
  imports Prelude
begin

text \<open>
  The two mutexes of the network layer, \<open>NetworkCoordinator::_mutex\<close> (\<open>lib/network/networkcoordinator.cpp\<close>) and
  \<open>ServerRPCWrapper::_mutex\<close> (\<open>lib/network/serverrpcwrapper.cpp\<close>), and the threads that take both: the network
  thread connects while it holds the first, and the task that runs when the connection closes notifies the coordinator
  while it holds the second. One step is what a thread does between two points at which it may have to wait.
\<close>

section \<open>The threads\<close>

datatype party = NetworkThread | TaskThread

text \<open>
  Where the network thread is in its round: waiting for a call, at the test of the loop, at the lock in
  \<open>connect\<close>, behind it, in \<open>waitForFinished\<close>, behind the loop, at the end of the round.
\<close>

datatype net_point = NetWait | NetTest | NetConnect | NetInside | NetAwait | NetTake | NetDone

text \<open>Where the closing task is: not begun, behind its lock, at the lock in the callback, behind it, done.\<close>

datatype task_point = TaskIdle | TaskClosing | TaskNotify | TaskInside | TaskDone

record locks =
  lk_co :: "party option"
  lk_rpc :: "party option"
  lk_connected :: bool
  lk_promise :: bool
  lk_net :: net_point
  lk_task :: task_point
  lk_tries :: nat

definition locks_start :: "nat \<Rightarrow> locks" where
  "locks_start limit = \<lparr>lk_co = None, lk_rpc = None, lk_connected = True, lk_promise = False, lk_net = NetWait,
     lk_task = TaskIdle, lk_tries = limit\<rparr>"

text \<open>The round of the network thread, with a call queued; \<open>lk_tries\<close> is what is left of the attempts.\<close>

definition net_moves :: "locks \<Rightarrow> locks list" where
  "net_moves s =
     (case lk_net s of
        NetWait \<Rightarrow> (if lk_co s = None then [s\<lparr>lk_co := Some NetworkThread, lk_net := NetTest\<rparr>] else [])
      | NetTest \<Rightarrow>
          (if 0 < lk_tries s \<and> \<not> lk_connected s then [s\<lparr>lk_net := NetConnect, lk_tries := lk_tries s - 1\<rparr>]
           else [s\<lparr>lk_net := NetTake\<rparr>])
      | NetConnect \<Rightarrow> (if lk_rpc s = None then [s\<lparr>lk_rpc := Some NetworkThread, lk_net := NetInside\<rparr>] else [])
      | NetInside \<Rightarrow> [s\<lparr>lk_rpc := None, lk_promise := True, lk_net := NetAwait\<rparr>]
      | NetAwait \<Rightarrow> (if \<not> lk_promise s then [s\<lparr>lk_net := NetTest\<rparr>] else [])
      | NetTake \<Rightarrow> [s\<lparr>lk_co := None, lk_net := NetDone\<rparr>]
      | NetDone \<Rightarrow> [])"

definition task_moves :: "locks \<Rightarrow> locks list" where
  "task_moves s =
     (case lk_task s of
        TaskIdle \<Rightarrow> (if lk_rpc s = None then [s\<lparr>lk_rpc := Some TaskThread, lk_task := TaskClosing\<rparr>] else [])
      | TaskClosing \<Rightarrow>
          (if \<not> lk_connected s then [s\<lparr>lk_rpc := None, lk_task := TaskDone\<rparr>]
           else [s\<lparr>lk_connected := False, lk_task := TaskNotify\<rparr>])
      | TaskNotify \<Rightarrow> (if lk_co s = None then [s\<lparr>lk_co := Some TaskThread, lk_task := TaskInside\<rparr>] else [])
      | TaskInside \<Rightarrow> [s\<lparr>lk_co := None, lk_rpc := None, lk_task := TaskDone\<rparr>]
      | TaskDone \<Rightarrow> [])"

text \<open>The transport opens the connection or fails; its handlers take and release the mutex of the wrapper.\<close>

definition transport_moves :: "locks \<Rightarrow> locks list" where
  "transport_moves s =
     (if lk_promise s \<and> lk_rpc s = None
      then [s\<lparr>lk_connected := True, lk_promise := False\<rparr>, s\<lparr>lk_promise := False\<rparr>] else [])"

definition lock_moves :: "locks \<Rightarrow> locks list" where
  "lock_moves s = net_moves s @ task_moves s @ transport_moves s"

inductive lock_reachable :: "nat \<Rightarrow> locks \<Rightarrow> bool" for limit where
  Begin: "lock_reachable limit (locks_start limit)"
| Move: "lock_reachable limit s \<Longrightarrow> t \<in> set (lock_moves s) \<Longrightarrow> lock_reachable limit t"

section \<open>Who holds what\<close>

definition lock_inv :: "locks \<Rightarrow> bool" where
  "lock_inv s \<longleftrightarrow>
     (lk_co s = Some NetworkThread \<longleftrightarrow> lk_net s \<in> {NetTest, NetConnect, NetInside, NetAwait, NetTake}) \<and>
     (lk_co s = Some TaskThread \<longleftrightarrow> lk_task s = TaskInside) \<and>
     (lk_rpc s = Some NetworkThread \<longleftrightarrow> lk_net s = NetInside) \<and>
     (lk_rpc s = Some TaskThread \<longleftrightarrow> lk_task s \<in> {TaskClosing, TaskNotify, TaskInside}) \<and>
     (lk_net s \<in> {NetConnect, NetInside} \<longrightarrow> \<not> lk_connected s) \<and>
     (lk_promise s \<longrightarrow> lk_net s = NetAwait \<and> \<not> lk_connected s \<and> lk_task s \<notin> {TaskNotify, TaskInside})"

lemma lock_inv_start: "lock_inv (locks_start limit)"
  by (simp add: lock_inv_def locks_start_def)

lemma lock_inv_net: "lock_inv s \<Longrightarrow> t \<in> set (net_moves s) \<Longrightarrow> lock_inv t"
  by (cases "lk_net s") (auto simp: lock_inv_def net_moves_def split: if_splits)

lemma lock_inv_task: "lock_inv s \<Longrightarrow> t \<in> set (task_moves s) \<Longrightarrow> lock_inv t"
  by (cases "lk_task s") (auto simp: lock_inv_def task_moves_def split: if_splits)

lemma lock_inv_transport:
  assumes "lock_inv s" and "t \<in> set (transport_moves s)"
  shows "lock_inv t"
proof -
  have p: "lk_promise s" "t = s\<lparr>lk_connected := True, lk_promise := False\<rparr> \<or> t = s\<lparr>lk_promise := False\<rparr>"
    using assms(2) by (auto simp: transport_moves_def split: if_splits)
  then have "lk_net s = NetAwait" using assms(1) by (simp add: lock_inv_def)
  with p assms(1) show ?thesis by (elim disjE) (simp_all add: lock_inv_def)
qed

lemma lock_inv_reachable: "lock_reachable limit s \<Longrightarrow> lock_inv s"
proof (induction rule: lock_reachable.induct)
  case Begin
  show ?case by (rule lock_inv_start)
next
  case (Move s t)
  from Move.hyps(2) consider "t \<in> set (net_moves s)" | "t \<in> set (task_moves s)" | "t \<in> set (transport_moves s)"
    unfolding lock_moves_def set_append by blast
  then show ?case using lock_inv_net [OF Move.IH] lock_inv_task [OF Move.IH] lock_inv_transport [OF Move.IH] by cases blast+
qed

section \<open>The deadlock\<close>

text \<open>Each thread has the mutex the other waits for.\<close>

definition deadlocked :: "locks \<Rightarrow> bool" where
  "deadlocked s \<longleftrightarrow> lk_net s = NetConnect \<and> lk_task s = TaskNotify \<and> lk_co s = Some NetworkThread \<and>
     lk_rpc s = Some TaskThread"

lemma stuck_net:
  assumes "lock_inv s" and "net_moves s = []"
  shows "lk_net s = NetDone \<or> lk_net s = NetWait \<and> lk_co s = Some TaskThread \<or>
    lk_net s = NetConnect \<and> lk_rpc s = Some TaskThread \<or> lk_net s = NetAwait \<and> lk_promise s"
proof -
  have "lk_co s \<noteq> None \<Longrightarrow> lk_net s = NetWait \<Longrightarrow> lk_co s = Some TaskThread"
    using assms(1) by (cases "lk_co s"; cases "the (lk_co s)") (auto simp: lock_inv_def)
  moreover have "lk_rpc s \<noteq> None \<Longrightarrow> lk_net s = NetConnect \<Longrightarrow> lk_rpc s = Some TaskThread"
    using assms(1) by (cases "lk_rpc s"; cases "the (lk_rpc s)") (auto simp: lock_inv_def)
  ultimately show ?thesis
    using assms(2) by (cases "lk_net s") (auto simp: net_moves_def split: if_splits)
qed

lemma stuck_task:
  assumes "lock_inv s" and "task_moves s = []"
  shows "lk_task s = TaskDone \<or> lk_task s = TaskIdle \<and> lk_net s = NetInside \<or>
    lk_task s = TaskNotify \<and> lk_co s = Some NetworkThread"
proof -
  have "lk_co s \<noteq> None \<Longrightarrow> lk_task s = TaskNotify \<Longrightarrow> lk_co s = Some NetworkThread"
    using assms(1) by (cases "lk_co s"; cases "the (lk_co s)") (auto simp: lock_inv_def)
  moreover have "lk_rpc s \<noteq> None \<Longrightarrow> lk_task s = TaskIdle \<Longrightarrow> lk_net s = NetInside"
    using assms(1) by (cases "lk_rpc s"; cases "the (lk_rpc s)") (auto simp: lock_inv_def)
  ultimately show ?thesis
    using assms(2) by (cases "lk_task s") (auto simp: task_moves_def split: if_splits)
qed

text \<open>
  C33: Whatever the threads and the transport do, the round of the network thread and the closing task come to
  an end or into one deadlock: the network thread waits in \<open>connect\<close> for the mutex of the wrapper with the mutex of the
  coordinator in hand, the task the other way round. The deadlock can be reached whenever
  at least one attempt to connect is allowed.
\<close>

theorem stuck_only_in_deadlock:
  assumes "lock_reachable limit s" and "lock_moves s = []"
  shows "(lk_net s = NetDone \<and> lk_task s = TaskDone \<and> lk_co s = None \<and> lk_rpc s = None) \<or> deadlocked s"
proof -
  have i: "lock_inv s" by (rule lock_inv_reachable [OF assms(1)])
  have "net_moves s = []" "task_moves s = []" "transport_moves s = []" using assms(2) by (simp_all add: lock_moves_def)
  with stuck_net [OF i] stuck_task [OF i]
  have n: "lk_net s = NetDone \<or> lk_net s = NetWait \<and> lk_co s = Some TaskThread \<or>
      lk_net s = NetConnect \<and> lk_rpc s = Some TaskThread \<or> lk_net s = NetAwait \<and> lk_promise s"
    and t: "lk_task s = TaskDone \<or> lk_task s = TaskIdle \<and> lk_net s = NetInside \<or>
      lk_task s = TaskNotify \<and> lk_co s = Some NetworkThread"
    and p: "lk_promise s \<longrightarrow> lk_rpc s \<noteq> None" by (auto simp: transport_moves_def split: if_splits)
  have r: "lk_rpc s = None \<or> lk_rpc s = Some TaskThread \<or> lk_rpc s = Some NetworkThread"
    and c: "lk_co s = None \<or> lk_co s = Some TaskThread \<or> lk_co s = Some NetworkThread"
    by (metis not_Some_eq party.exhaust)+
  from t consider (ended) "lk_task s = TaskDone" | (idle) "lk_task s = TaskIdle" "lk_net s = NetInside"
    | (notify) "lk_task s = TaskNotify" "lk_co s = Some NetworkThread" by blast
  then show ?thesis
  proof cases
    case ended
    with n p r c i show ?thesis by (elim disjE) (simp_all add: lock_inv_def)
  next
    case idle
    with n show ?thesis by simp
  next
    case notify
    with n i show ?thesis by (elim disjE) (simp_all add: lock_inv_def deadlocked_def)
  qed
qed

text \<open>The closing task gets as far as its callback while the network thread gets as far as \<open>connect\<close>.\<close>

definition deadlock_run :: "nat \<Rightarrow> locks list" where
  "deadlock_run limit =
     (let s1 = (locks_start limit)\<lparr>lk_rpc := Some TaskThread, lk_task := TaskClosing\<rparr>;
          s2 = s1\<lparr>lk_connected := False, lk_task := TaskNotify\<rparr>;
          s3 = s2\<lparr>lk_co := Some NetworkThread, lk_net := NetTest\<rparr>;
          s4 = s3\<lparr>lk_net := NetConnect, lk_tries := limit - 1\<rparr>
      in [s1, s2, s3, s4])"

lemma deadlock_reachable:
  assumes "0 < limit"
  shows "lock_reachable limit (last (deadlock_run limit))" "lock_moves (last (deadlock_run limit)) = []"
proof -
  let ?s0 = "locks_start limit"
  let ?s1 = "?s0\<lparr>lk_rpc := Some TaskThread, lk_task := TaskClosing\<rparr>"
  let ?s2 = "?s1\<lparr>lk_connected := False, lk_task := TaskNotify\<rparr>"
  let ?s3 = "?s2\<lparr>lk_co := Some NetworkThread, lk_net := NetTest\<rparr>"
  let ?s4 = "?s3\<lparr>lk_net := NetConnect, lk_tries := limit - 1\<rparr>"
  note moves = lock_moves_def net_moves_def task_moves_def transport_moves_def locks_start_def
  have "lock_reachable limit ?s1" by (rule Move [OF Begin]) (simp add: moves)
  then have "lock_reachable limit ?s2" by (rule Move) (simp add: moves)
  then have "lock_reachable limit ?s3" by (rule Move) (simp add: moves)
  then have "lock_reachable limit ?s4" by (rule Move) (use assms in \<open>simp add: moves\<close>)
  then show "lock_reachable limit (last (deadlock_run limit))" by (simp add: deadlock_run_def Let_def)
  show "lock_moves (last (deadlock_run limit)) = []" by (simp add: deadlock_run_def Let_def moves)
qed

theorem stuck_only_in_deadlock_witness:
  "lock_moves (last (deadlock_run 5)) = [] \<and> deadlocked (last (deadlock_run 5))"
proof -
  have "lk_net (last (deadlock_run 5)) \<noteq> NetDone" by (simp add: deadlock_run_def Let_def)
  with stuck_only_in_deadlock [OF deadlock_reachable [of 5]] deadlock_reachable [of 5] show ?thesis by simp
qed

end
