(* ===== verification/Settings.thy ===== *)
theory Settings
  imports Prelude
begin

text \<open>
  \<open>ApplicationSettings\<close> (\<open>lib/core/applicationsettings.cpp\<close>): four settings in a \<open>QSettings\<close>, which is a map
  of strings here, each with a default and a signal for its change.
\<close>

section \<open>The settings\<close>

datatype settings_signal = LanguageChanged | VideoDeviceChanged | AudioDeviceChanged | OutputAudioDeviceChanged

record settings =
  st_values :: "string \<Rightarrow> string option"
  st_signals :: "settings_signal list"

definition value_of :: "string \<Rightarrow> string \<Rightarrow> settings \<Rightarrow> string" where
  "value_of k dflt s = (case st_values s k of None \<Rightarrow> dflt | Some v \<Rightarrow> v)"

definition setValue :: "string \<Rightarrow> string \<Rightarrow> settings \<Rightarrow> settings" where
  "setValue k v s = s\<lparr>st_values := (st_values s)(k \<mapsto> v)\<rparr>"

definition emit_if :: "bool \<Rightarrow> settings_signal \<Rightarrow> settings \<Rightarrow> settings" where
  "emit_if b sig s = (if b then s\<lparr>st_signals := st_signals s @ [sig]\<rparr> else s)"

definition defaultLanguage :: string where
  "defaultLanguage = ''en''"

definition language :: "settings \<Rightarrow> string" where
  "language s = value_of ''language'' defaultLanguage s"

definition setLanguage :: "string \<Rightarrow> settings \<Rightarrow> settings" where
  "setLanguage other s = emit_if (other \<noteq> language s) LanguageChanged (setValue ''language'' other s)"

definition defaultVideoDevice :: string where
  "defaultVideoDevice = ''unknown''"

definition videoDevice :: "settings \<Rightarrow> string" where
  "videoDevice s = value_of ''videoDevice'' defaultVideoDevice s"

definition setVideoDevice :: "string \<Rightarrow> settings \<Rightarrow> settings" where
  "setVideoDevice other s = emit_if (other \<noteq> videoDevice s) VideoDeviceChanged (setValue ''videoDevice'' other s)"

definition defaultAudioDevice :: string where
  "defaultAudioDevice = ''unknown''"

definition audioDevice :: "settings \<Rightarrow> string" where
  "audioDevice s = value_of ''audioDevice'' defaultAudioDevice s"

definition setAudioDevice :: "string \<Rightarrow> settings \<Rightarrow> settings" where
  "setAudioDevice other s = emit_if (other \<noteq> audioDevice s) AudioDeviceChanged (setValue ''audioDevice'' other s)"

definition defaultOutputAudioDevice :: string where
  "defaultOutputAudioDevice = ''unknown''"

definition outputAudioDevice :: "settings \<Rightarrow> string" where
  "outputAudioDevice s = value_of ''outputAudioDevice'' defaultOutputAudioDevice s"

definition setOutputAudioDevice :: "string \<Rightarrow> settings \<Rightarrow> settings" where
  "setOutputAudioDevice other s =
     emit_if (other \<noteq> outputAudioDevice s) OutputAudioDeviceChanged (setValue ''outputAudioDevice'' other s)"

section \<open>One contract for the four\<close>

text \<open>
  A setting of the store \<open>'s\<close>: the value set is read back, and the log of the signals grows by the own one exactly at a
  change.
\<close>

locale setting =
  fixes get :: "'s \<Rightarrow> 'v" and set_to :: "'v \<Rightarrow> 's \<Rightarrow> 's" and log :: "'s \<Rightarrow> 'e list" and sig :: 'e
  assumes get_set: "get (set_to v s) = v"
    and log_set: "log (set_to v s) = log s @ (if v = get s then [] else [sig])"
begin

lemma run_get: "vs \<noteq> [] \<Longrightarrow> get (fold set_to vs s) = last vs"
  by (induction vs arbitrary: s) (auto simp: get_set)

lemma run_log: "log (fold set_to vs s) = log s @ replicate (length (remdups_adj (get s # vs)) - 1) sig"
proof (induction vs arbitrary: s)
  case (Cons v vs)
  have pos: "0 < length (remdups_adj (v # vs))" by simp
  show ?case
  proof (cases "v = get s")
    case True
    with Cons [of "set_to v s"] show ?thesis by (simp add: get_set log_set)
  next
    case False
    have "replicate (length (remdups_adj (v # vs))) sig = sig # replicate (length (remdups_adj (v # vs)) - 1) sig"
      using pos by (metis Suc_diff_1 replicate_Suc)
    with False Cons [of "set_to v s"] show ?thesis by (simp add: get_set log_set)
  qed
qed simp

end

lemmas settings_defs = value_of_def setValue_def emit_if_def language_def setLanguage_def videoDevice_def
  setVideoDevice_def audioDevice_def setAudioDevice_def outputAudioDevice_def setOutputAudioDevice_def

interpretation lang: setting language setLanguage st_signals LanguageChanged
  by unfold_locales (auto simp: settings_defs)

interpretation video: setting videoDevice setVideoDevice st_signals VideoDeviceChanged
  by unfold_locales (auto simp: settings_defs)

interpretation audio: setting audioDevice setAudioDevice st_signals AudioDeviceChanged
  by unfold_locales (auto simp: settings_defs)

interpretation speaker: setting outputAudioDevice setOutputAudioDevice st_signals OutputAudioDeviceChanged
  by unfold_locales (auto simp: settings_defs)

text \<open>
  The language is read back as last set, changes are notified once each and repeated values not at all, and the three
  devices keep theirs.
\<close>

theorem language_set:
  assumes "vs \<noteq> []"
  shows "language (fold setLanguage vs s) = last vs \<and>
    st_signals (fold setLanguage vs s) =
      st_signals s @ replicate (length (remdups_adj (language s # vs)) - 1) LanguageChanged \<and>
    videoDevice (fold setLanguage vs s) = videoDevice s \<and> audioDevice (fold setLanguage vs s) = audioDevice s \<and>
    outputAudioDevice (fold setLanguage vs s) = outputAudioDevice s"
proof -
  have "videoDevice (fold setLanguage vs s) = videoDevice s \<and> audioDevice (fold setLanguage vs s) = audioDevice s \<and>
    outputAudioDevice (fold setLanguage vs s) = outputAudioDevice s"
    by (induction vs arbitrary: s) (auto simp: settings_defs)
  then show ?thesis using lang.run_get [OF assms] lang.run_log by simp
qed

lemma devices_set:
  assumes "vs \<noteq> []"
  shows "videoDevice (fold setVideoDevice vs s) = last vs" "audioDevice (fold setAudioDevice vs s) = last vs"
    "outputAudioDevice (fold setOutputAudioDevice vs s) = last vs"
  using video.run_get [OF assms] audio.run_get [OF assms] speaker.run_get [OF assms] by simp_all

theorem language_set_witness:
  "language (fold setLanguage [''de'', ''fr''] \<lparr>st_values = Map.empty, st_signals = []\<rparr>) = ''fr''"
  using language_set [of "[''de'', ''fr'']" "\<lparr>st_values = Map.empty, st_signals = []\<rparr>"] by simp

end
