(* ===== verification/Startup.thy ===== *)
theory Startup
  imports Complex_Main Prelude
begin

text \<open>
  \<open>StartupWindow\<close> (\<open>lib/core/startupwindow.cpp\<close>), the window in which the user logs in: its state, its setters,
  which notify only a change, and \<open>QmlStartupWindow\<close> (\<open>app/qmlstartupwindow.cpp\<close>), which copies what is notified
  into the properties of the QML window.
\<close>

section \<open>The startup window\<close>

datatype startup_state = Inital | Loading

datatype startup_signal = StateChanged | LoadingProgressChanged | StatusChanged | ErrorStringChanged

record startup_window =
  sw_state :: startup_state
  sw_progress :: real
  sw_status :: string
  sw_error :: string
  sw_visible :: bool
  sw_signals :: "startup_signal list"

definition new_startup :: startup_window where
  "new_startup = \<lparr>sw_state = Inital, sw_progress = 0, sw_status = [], sw_error = [], sw_visible = False, sw_signals = []\<rparr>"

definition setState :: "startup_state \<Rightarrow> startup_window \<Rightarrow> startup_window" where
  "setState other w =
     (if sw_state w = other then w else w\<lparr>sw_state := other, sw_signals := sw_signals w @ [StateChanged]\<rparr>)"

definition setLoadingProgress :: "real \<Rightarrow> startup_window \<Rightarrow> startup_window" where
  "setLoadingProgress other w =
     (if other = sw_progress w then w
      else w\<lparr>sw_progress := other, sw_signals := sw_signals w @ [LoadingProgressChanged]\<rparr>)"

definition setStartupStatus :: "string \<Rightarrow> startup_window \<Rightarrow> startup_window" where
  "setStartupStatus other w =
     (if other = sw_status w then w else w\<lparr>sw_status := other, sw_signals := sw_signals w @ [StatusChanged]\<rparr>)"

definition setErrorString :: "string \<Rightarrow> startup_window \<Rightarrow> startup_window" where
  "setErrorString other w =
     (if other = sw_error w then w else w\<lparr>sw_error := other, sw_signals := sw_signals w @ [ErrorStringChanged]\<rparr>)"

definition startup_clear :: "startup_window \<Rightarrow> startup_window" where
  "startup_clear w = setErrorString [] (setStartupStatus [] (setState Inital (setLoadingProgress 0 w)))"

definition show_startup :: "bool \<Rightarrow> startup_window \<Rightarrow> startup_window" where
  "show_startup b w = w\<lparr>sw_visible := b\<rparr>"

section \<open>The QML window\<close>

record qml_window =
  qw_state :: string
  qw_loadingProgress :: real
  qw_loadingStatus :: string
  qw_errorString :: string

text \<open>The handlers of the four signals; each runs within the setter that emits its signal.\<close>

definition mirror :: "startup_signal \<Rightarrow> startup_window \<Rightarrow> qml_window \<Rightarrow> qml_window" where
  "mirror sig w q =
     (case sig of
        StateChanged \<Rightarrow> q\<lparr>qw_state := (if sw_state w = Loading then ''loading'' else ''inital'')\<rparr>
      | LoadingProgressChanged \<Rightarrow> q\<lparr>qw_loadingProgress := sw_progress w\<rparr>
      | StatusChanged \<Rightarrow> q\<lparr>qw_loadingStatus := sw_status w\<rparr>
      | ErrorStringChanged \<Rightarrow> q\<lparr>qw_errorString := sw_error w\<rparr>)"

text \<open>A setter together with the handlers of what it emits.\<close>

definition setter_shown ::
    "(startup_window \<Rightarrow> startup_window) \<Rightarrow> startup_window \<times> qml_window \<Rightarrow> startup_window \<times> qml_window" where
  "setter_shown f = (\<lambda>(w, q).
     let w' = f w in (w', fold (\<lambda>sig. mirror sig w') (drop (length (sw_signals w)) (sw_signals w')) q))"

datatype startup_op = SetState startup_state | SetProgress real | SetStatus string | SetError string | Clear

definition startup_do :: "startup_op \<Rightarrow> startup_window \<times> qml_window \<Rightarrow> startup_window \<times> qml_window" where
  "startup_do op s =
     (case op of
        SetState st \<Rightarrow> setter_shown (setState st) s
      | SetProgress x \<Rightarrow> setter_shown (setLoadingProgress x) s
      | SetStatus t \<Rightarrow> setter_shown (setStartupStatus t) s
      | SetError e \<Rightarrow> setter_shown (setErrorString e) s
      | Clear \<Rightarrow> setter_shown (setErrorString []) (setter_shown (setStartupStatus [])
                  (setter_shown (setState Inital) (setter_shown (setLoadingProgress 0) s))))"

section \<open>Properties\<close>

lemma startup_clear_fields [simp]:
  "sw_state (startup_clear w) = Inital" "sw_progress (startup_clear w) = 0" "sw_status (startup_clear w) = []"
  "sw_error (startup_clear w) = []" "sw_visible (startup_clear w) = sw_visible w"
  by (auto simp: startup_clear_def setState_def setLoadingProgress_def setStartupStatus_def setErrorString_def)

lemma startup_set_fields [simp]:
  "sw_state (setState s w) = s" "sw_status (setStartupStatus t w) = t" "sw_error (setErrorString e w) = e"
  "sw_state (setErrorString e w) = sw_state w" "sw_state (setStartupStatus t w) = sw_state w"
  "sw_error (setState s w) = sw_error w" "sw_error (setStartupStatus t w) = sw_error w"
  "sw_status (setErrorString e w) = sw_status w" "sw_status (setState s w) = sw_status w"
  "sw_visible (setState s w) = sw_visible w" "sw_visible (setErrorString e w) = sw_visible w"
  "sw_visible (setStartupStatus t w) = sw_visible w"
  by (auto simp: setState_def setStartupStatus_def setErrorString_def)

lemma show_startup_fields [simp]:
  "sw_state (show_startup b w) = sw_state w" "sw_status (show_startup b w) = sw_status w"
  "sw_error (show_startup b w) = sw_error w" "sw_visible (show_startup b w) = b"
  by (auto simp: show_startup_def)

text \<open>The QML window shows what the window holds.\<close>

definition shows_window :: "startup_window \<Rightarrow> qml_window \<Rightarrow> bool" where
  "shows_window w q \<longleftrightarrow> qw_state q = (if sw_state w = Loading then ''loading'' else ''inital'') \<and>
     qw_loadingProgress q = sw_progress w \<and> qw_loadingStatus q = sw_status w \<and> qw_errorString q = sw_error w"

lemma setter_shown_ok [simp]:
  assumes "shows_window (fst s) (snd s)"
  shows "shows_window (fst (setter_shown (setState x) s)) (snd (setter_shown (setState x) s))"
    "shows_window (fst (setter_shown (setLoadingProgress y) s)) (snd (setter_shown (setLoadingProgress y) s))"
    "shows_window (fst (setter_shown (setStartupStatus z) s)) (snd (setter_shown (setStartupStatus z) s))"
    "shows_window (fst (setter_shown (setErrorString z) s)) (snd (setter_shown (setErrorString z) s))"
  using assms
  by (auto simp: setter_shown_def shows_window_def setState_def setLoadingProgress_def setStartupStatus_def
      setErrorString_def mirror_def Let_def split: prod.splits)

lemma fst_setter_shown: "fst (setter_shown f s) = f (fst s)"
  by (simp add: setter_shown_def Let_def split: prod.split)

text \<open>
  The QML window goes on showing state, progress, status and error of the startup window through every sequence of
  changes, although only changes are notified; in the end the window is what the setters alone make of it, and clearing
  resets all four.
\<close>

theorem window_shown_by_qml:
  assumes "shows_window w q"
  shows "case fold startup_do ops (w, q) of (w', q') \<Rightarrow> shows_window w' q' \<and> sw_visible w' = sw_visible w \<and>
     (case startup_do Clear (w', q') of (w'', q'') \<Rightarrow> w'' = startup_clear w' \<and>
        q'' = \<lparr>qw_state = ''inital'', qw_loadingProgress = 0, qw_loadingStatus = [], qw_errorString = []\<rparr>)"
proof -
  have step: "shows_window (fst (startup_do op s)) (snd (startup_do op s)) \<and>
      sw_visible (fst (startup_do op s)) = sw_visible (fst s)"
    if "shows_window (fst s) (snd s)" for op s
  proof -
    have "shows_window (fst (startup_do op s)) (snd (startup_do op s))"
      using that by (cases op) (simp_all add: startup_do_def)
    moreover have "sw_visible (fst (startup_do op s)) = sw_visible (fst s)"
      by (cases op) (simp_all add: startup_do_def fst_setter_shown setLoadingProgress_def)
    ultimately show ?thesis by simp
  qed
  have run: "shows_window (fst (fold startup_do ops s)) (snd (fold startup_do ops s)) \<and>
      sw_visible (fst (fold startup_do ops s)) = sw_visible (fst s)" if "shows_window (fst s) (snd s)" for s
    using that step by (induction ops arbitrary: s) auto
  obtain w' q' where e: "fold startup_do ops (w, q) = (w', q')" by (cases "fold startup_do ops (w, q)")
  obtain w'' q'' where c: "startup_do Clear (w', q') = (w'', q'')" by (cases "startup_do Clear (w', q')")
  from run [of "(w, q)"] assms e have s: "shows_window w' q'" "sw_visible w' = sw_visible w" by simp_all
  from step [of "(w', q')" Clear] s(1) c have "shows_window w'' q''" by simp
  moreover have "w'' = startup_clear w'"
    using arg_cong [OF c, of fst] by (simp add: startup_do_def fst_setter_shown startup_clear_def)
  ultimately show ?thesis using e c s by (auto simp: shows_window_def)
qed

theorem window_shown_by_qml_witness:
  "case fold startup_do [SetState Loading, SetStatus ''Connecting'', SetError ''no'']
     (new_startup, \<lparr>qw_state = ''inital'', qw_loadingProgress = 0, qw_loadingStatus = [], qw_errorString = []\<rparr>)
   of (w', q') \<Rightarrow> shows_window w' q'"
  using window_shown_by_qml [of new_startup
      "\<lparr>qw_state = ''inital'', qw_loadingProgress = 0, qw_loadingStatus = [], qw_errorString = []\<rparr>"
      "[SetState Loading, SetStatus ''Connecting'', SetError ''no'']"]
  by (simp add: shows_window_def new_startup_def split: prod.splits)

end
