(* ===== verification/Session.thy ===== *)
theory Session
  imports Startup CallSessions GroupController MessageController UserController Coordinator
begin

text \<open>
  A session of the client: \<open>CallerControllerManager\<close> (\<open>lib/network/controllers/controllermanager.cpp\<close>), \<open>QmlChatWindow\<close>
  (\<open>app/qmlchatwindow.cpp\<close>) and \<open>App\<close> (\<open>app/app.cpp\<close>), which logs in and out over the network
  coordinator and the four controllers. What runs when a future is filled is an operation of its own; \<open>None\<close> is a null
  pointer.
\<close>

section \<open>The controller manager\<close>

text \<open>
  \<open>initializeAll\<close>: the errors of the four controllers, in the order in which their futures fail; the result is the
  exception it throws, and the stored error, which is never cleared.
\<close>

definition initialize_all :: "string option list \<Rightarrow> string option \<Rightarrow> string option \<times> string option" where
  "initialize_all results lastError =
     (let lastError = foldl (\<lambda>last res. case res of Some err \<Rightarrow> Some err | None \<Rightarrow> last) lastError results
      in (lastError, lastError))"

record managers =
  mg_message :: message_ctrl
  mg_group :: group_ctrl
  mg_call :: call_ctrl
  mg_user :: user_ctrl

text \<open>
  The requests that the call controller has made since it was \<open>old\<close> are in the queue of the coordinator; \<open>p\<close> numbers
  their promises. The other controllers make none when they are reset.
\<close>

definition queue_since :: "nat \<Rightarrow> call_ctrl \<Rightarrow> call_ctrl \<Rightarrow> coordinator \<Rightarrow> coordinator" where
  "queue_since p old new n =
     fold (\<lambda>(i, r). queue_call \<lparr>mi_call = r, mi_promise = i\<rparr>) (enumerate p (drop (length (cl_calls old)) (cl_calls new))) n"

definition resetAll :: "nat \<Rightarrow> managers \<Rightarrow> coordinator \<Rightarrow> (managers \<times> coordinator) option" where
  "resetAll p m n =
     map_option (\<lambda>c. (\<lparr>mg_message = reset_messages (mg_message m), mg_group = reset_rooms (mg_group m), mg_call = c,
                      mg_user = reset_users (mg_user m)\<rparr>, queue_since p (mg_call m) c n))
       (reset_calls (mg_call m))"

section \<open>The chat window\<close>

text \<open>
  \<open>cw_promise\<close>: \<open>_initPromise\<close> is set; \<open>cw_window\<close>: the QML window has been made;
  \<open>cw_checker\<close>: the timer runs. An initialization ends with an outcome for the waiting \<open>App\<close>.
\<close>

record chat_window =
  cw_promise :: bool
  cw_window :: bool
  cw_hasError :: bool
  cw_checker :: bool
  cw_visible :: bool

datatype outcome = Waiting | Finished | Failed string

definition new_chat :: chat_window where
  "new_chat = \<lparr>cw_promise = False, cw_window = False, cw_hasError = False, cw_checker = False, cw_visible = False\<rparr>"

text \<open>The result says whether the current user is asked for.\<close>

definition chat_initialize :: "chat_window \<Rightarrow> bool \<times> chat_window" where
  "chat_initialize w = (if cw_promise w then (False, w) else (True, w\<lparr>cw_promise := True\<rparr>))"

definition fail_promise :: "string \<Rightarrow> chat_window \<Rightarrow> (outcome \<times> chat_window) option" where
  "fail_promise err w = (if cw_promise w then Some (Failed err, w\<lparr>cw_promise := False\<rparr>) else None)"

definition user_failed :: "chat_window \<Rightarrow> (outcome \<times> chat_window) option" where
  "user_failed = fail_promise ''Cannot receive current user info''"

definition component_ready :: "chat_window \<Rightarrow> chat_window" where
  "component_ready w = w\<lparr>cw_checker := True\<rparr>"

definition component_error :: "string \<Rightarrow> chat_window \<Rightarrow> (outcome \<times> chat_window) option" where
  "component_error err w = fail_promise (''QQmlComponent creation error:'' @ err) (w\<lparr>cw_checker := False\<rparr>)"

text \<open>
  \<open>finalizeCreation\<close>, called by the timer: \<open>ready\<close>, \<open>made\<close> and \<open>casts\<close> say what the incubator
  has. Without an object the error is noted, but timer and promise stay.
\<close>

definition finalizeCreation :: "bool \<Rightarrow> bool \<Rightarrow> bool \<Rightarrow> chat_window \<Rightarrow> (outcome \<times> chat_window) option" where
  "finalizeCreation ready made casts w =
     (if \<not> cw_checker w \<or> \<not> ready then Some (Waiting, w)
      else if \<not> made then Some (Waiting, w\<lparr>cw_hasError := True\<rparr>)
      else
        let w = w\<lparr>cw_window := casts, cw_hasError := cw_hasError w \<or> \<not> casts, cw_checker := False\<rparr>
        in if cw_promise w then Some (Finished, w\<lparr>cw_promise := False\<rparr>) else None)"

definition show_chat :: "chat_window \<Rightarrow> chat_window option" where
  "show_chat w = (if cw_hasError w then Some w else if cw_window w then Some (w\<lparr>cw_visible := True\<rparr>) else None)"

definition hide_chat :: "chat_window \<Rightarrow> chat_window option" where
  "hide_chat w = (if cw_hasError w then Some w else if cw_window w then Some (w\<lparr>cw_visible := False\<rparr>) else None)"

section \<open>The application\<close>

text \<open>
  \<open>ap_tasks\<close> counts the logouts that the lost connection has left in the event loop; \<open>ap_promise\<close>
  numbers the requests.
\<close>

record app =
  ap_startup :: startup_window
  ap_chat :: "chat_window option"
  ap_network :: coordinator
  ap_managers :: managers
  ap_tasks :: nat
  ap_promise :: nat

definition on_startup :: "(startup_window \<Rightarrow> startup_window) \<Rightarrow> app \<Rightarrow> app" where
  "on_startup f ap = ap\<lparr>ap_startup := f (ap_startup ap)\<rparr>"

definition begin_loading :: "app \<Rightarrow> app" where
  "begin_loading = on_startup (\<lambda>w. setStartupStatus ''Connecting'' (setState Loading (startup_clear w)))"

definition show_failure :: "string \<Rightarrow> app \<Rightarrow> app" where
  "show_failure err = on_startup (\<lambda>w. setErrorString err (startup_clear w))"

definition connect_network :: "credentials \<Rightarrow> app \<Rightarrow> app" where
  "connect_network cr ap =
     ap\<lparr>ap_network := initialize (ap_promise ap) (setCredentials cr (ap_network ap)), ap_promise := Suc (ap_promise ap)\<rparr>"

definition handleLogin :: "string \<Rightarrow> string \<Rightarrow> app \<Rightarrow> app" where
  "handleLogin login pass ap = connect_network \<lparr>cr_login = login, cr_password = pass\<rparr> (begin_loading ap)"

text \<open>The chat window of the session, made when there is none; \<open>made\<close>: the factory makes one.\<close>

definition ensure_chat :: "bool \<Rightarrow> app \<Rightarrow> (string + app)" where
  "ensure_chat made ap =
     (case ap_chat ap of
        Some w \<Rightarrow> Inr (ap\<lparr>ap_chat := Some (snd (chat_initialize w))\<rparr>)
      | None \<Rightarrow>
          (if made then Inr (ap\<lparr>ap_chat := Some (snd (chat_initialize new_chat))\<rparr>)
           else Inl ''Cannot create chat window''))"

text \<open>The chat window has initialized, or failed to, for which there is no handler; it may be gone by then.\<close>

definition chat_settled :: "outcome \<Rightarrow> app \<Rightarrow> app option" where
  "chat_settled out ap =
     (case out of
        Finished \<Rightarrow>
          (case ap_chat ap of
             None \<Rightarrow> None
           | Some w \<Rightarrow>
               map_option (\<lambda>w. on_startup startup_clear ((on_startup (show_startup False) ap)\<lparr>ap_chat := Some w\<rparr>)) (show_chat w))
      | _ \<Rightarrow> Some ap)"

text \<open>
  The continuations of \<open>handleLogin\<close>: the coordinator has answered, or failed with a string or with something
  else (\<open>Inl None\<close>).
\<close>

definition login_settled :: "jlib \<Rightarrow> bool \<Rightarrow> string option + json \<Rightarrow> app \<Rightarrow> app" where
  "login_settled J made result ap =
     (case result of
        Inr res \<Rightarrow>
          (let ap = ap\<lparr>ap_network := initialize_done J res (ap_network ap)\<rparr> in
           case ensure_chat made ap of Inl err \<Rightarrow> show_failure err ap | Inr ap \<Rightarrow> ap)
      | Inl (Some err) \<Rightarrow> show_failure err ap
      | Inl None \<Rightarrow> show_failure ''Unknown error'' ap)"

text \<open>
  Registration first makes the user. The handler at the end sees the failure of that request; the future of the
  connection that follows is not returned, so what fails there is dropped.
\<close>

definition handleRegistration :: "string \<Rightarrow> string \<Rightarrow> app \<Rightarrow> app" where
  "handleRegistration login pass ap =
     (let ap = begin_loading ap in
      ap\<lparr>ap_network := queue_call \<lparr>mi_call = create_user pass login, mi_promise = ap_promise ap\<rparr> (ap_network ap),
         ap_promise := Suc (ap_promise ap)\<rparr>)"

definition user_created :: "string \<Rightarrow> string \<Rightarrow> string + unit \<Rightarrow> app \<Rightarrow> app" where
  "user_created login pass result ap =
     (case result of
        Inr _ \<Rightarrow> connect_network \<lparr>cr_login = login, cr_password = pass\<rparr> ap
      | Inl err \<Rightarrow> show_failure err ap)"

definition registration_settled :: "jlib \<Rightarrow> bool \<Rightarrow> string option + json \<Rightarrow> app \<Rightarrow> app" where
  "registration_settled J made result ap =
     (case result of
        Inr res \<Rightarrow>
          (let ap = ap\<lparr>ap_network := initialize_done J res (ap_network ap)\<rparr> in
           case ensure_chat made ap of Inl err \<Rightarrow> ap | Inr ap \<Rightarrow> ap)
      | Inl _ \<Rightarrow> ap)"

definition logout :: "string \<Rightarrow> app \<Rightarrow> app option" where
  "logout reason ap =
     Option.bind (case ap_chat ap of None \<Rightarrow> Some ap | Some w \<Rightarrow> map_option (\<lambda>w. ap\<lparr>ap_chat := None\<rparr>) (hide_chat w)) (\<lambda>ap.
     map_option (\<lambda>(m, n).
         on_startup (\<lambda>w. show_startup True (setErrorString reason (startup_clear w)))
           (ap\<lparr>ap_network := n, ap_managers := m, ap_promise := Suc (ap_promise ap)\<rparr>))
       (resetAll (ap_promise ap) (ap_managers ap) (disconnect (ap_network ap))))"

text \<open>The connection is lost: with a chat window a logout is put into the event loop.\<close>

definition connection_lost :: "app \<Rightarrow> app" where
  "connection_lost ap = (if ap_chat ap \<noteq> None then ap\<lparr>ap_tasks := Suc (ap_tasks ap)\<rparr> else ap)"

definition run_task :: "app \<Rightarrow> app option" where
  "run_task ap =
     (if ap_tasks ap = 0 then Some ap else logout ''Server disconnected'' (ap\<lparr>ap_tasks := ap_tasks ap - 1\<rparr>))"

definition app_run :: "bool \<Rightarrow> app \<Rightarrow> int \<times> app" where
  "app_run made ap =
     (if \<not> made then (- 1, ap)
      else (1, (on_startup (\<lambda>_. show_startup True new_startup) ap)\<lparr>ap_network := onDisconnected 0 (ap_network ap)\<rparr>))"

section \<open>Properties\<close>

lemma app_fields [simp]:
  "ap_chat (on_startup f ap) = ap_chat ap" "ap_network (on_startup f ap) = ap_network ap"
  "ap_managers (on_startup f ap) = ap_managers ap" "ap_startup (on_startup f ap) = f (ap_startup ap)"
  "ap_startup (connect_network cr ap) = ap_startup ap" "ap_chat (connect_network cr ap) = ap_chat ap"
  by (auto simp: on_startup_def connect_network_def)

lemma begin_loading_fields [simp]:
  "sw_state (ap_startup (begin_loading ap)) = Loading" "sw_status (ap_startup (begin_loading ap)) = ''Connecting''"
  "sw_error (ap_startup (begin_loading ap)) = []"
  "sw_visible (ap_startup (begin_loading ap)) = sw_visible (ap_startup ap)" "ap_chat (begin_loading ap) = ap_chat ap"
  by (auto simp: begin_loading_def)

lemma show_failure_fields [simp]:
  "sw_state (ap_startup (show_failure err ap)) = Inital" "sw_error (ap_startup (show_failure err ap)) = err"
  "ap_chat (show_failure err ap) = ap_chat ap"
  by (auto simp: show_failure_def)

text \<open>The active call and its handle, if one is inside it; a call controller that forgets its calls leaves it.\<close>

definition left_handle :: "call_ctrl \<Rightarrow> nat option" where
  "left_handle c =
     (case Option.bind (cl_active c) (cl_handles c) of
        None \<Rightarrow> None | Some h \<Rightarrow> if ch_inside (cl_heap c h) then Some h else None)"

text \<open>The active call has no handle, or one that has been deleted.\<close>

definition lost_handle :: "call_ctrl \<Rightarrow> bool" where
  "lost_handle c \<longleftrightarrow>
     (case cl_active c of None \<Rightarrow> False
      | Some k \<Rightarrow> (case cl_handles c k of None \<Rightarrow> True | Some h \<Rightarrow> ch_gone (cl_heap c h)))"

lemma reset_calls_active:
  "if lost_handle c then reset_calls c = None
   else \<exists>c'. reset_calls c = Some c' \<and> cl_active c' = None \<and> cl_handles c' = Map.empty \<and>
     (case left_handle c of
        None \<Rightarrow> cl_video c' = cl_video c \<and> cl_audio c' = cl_audio c \<and> cl_calls c' = cl_calls c
      | Some h \<Rightarrow> cl_video c' = None \<and> cl_audio c' = None \<and>
          cl_calls c' = cl_calls c @ [Call_Disconnect_exec (ch_roomID (cl_heap c h))])"
proof (cases "Option.bind (cl_active c) (cl_handles c)")
  case None
  then show ?thesis by (auto simp: reset_calls_def lost_handle_def left_handle_def split: option.split)
next
  case (Some h)
  then obtain k where "cl_active c = Some k" "cl_handles c k = Some h" by (auto simp: bind_eq_Some_conv)
  then show ?thesis
    using leave_fields [of c h] by (auto simp: reset_calls_def lost_handle_def left_handle_def disconnect_call_def)
qed

text \<open>
  C15: Logging out ends the session. It goes wrong exactly if there is a chat window whose window has not been made and that noted no
  error, or if the active call has no handle any more; else there is no chat window, no user, no history,
  no room and no handle afterwards, and the startup window is visible with the reason as its error. If one is inside the active call,
  camera and microphone are closed and the queue of the coordinator gets the one request that leaves the room; if not, they stay as they
  are and the queue too. What was queued before is still there. The end of the connection that follows asks for no second logout.
\<close>

theorem logout_ends_session:
  "if (\<exists>w. ap_chat ap = Some w \<and> \<not> cw_window w \<and> \<not> cw_hasError w) \<or> lost_handle (mg_call (ap_managers ap))
   then logout reason ap = None
   else \<exists>ap'. logout reason ap = Some ap' \<and> ap_chat ap' = None \<and> currentUser (ap_network ap') = invalidID \<and>
    mc_history (mg_message (ap_managers ap')) = Map.empty \<and> im_data (gc_rooms (mg_group (ap_managers ap'))) = [] \<and>
    uc_handlers (mg_user (ap_managers ap')) = [] \<and> cl_handles (mg_call (ap_managers ap')) = Map.empty \<and>
    cl_active (mg_call (ap_managers ap')) = None \<and>
    (case left_handle (mg_call (ap_managers ap)) of
       None \<Rightarrow> cl_video (mg_call (ap_managers ap')) = cl_video (mg_call (ap_managers ap)) \<and>
         cl_audio (mg_call (ap_managers ap')) = cl_audio (mg_call (ap_managers ap)) \<and>
         queued (ap_network ap') = queued (ap_network ap)
     | Some h \<Rightarrow> cl_video (mg_call (ap_managers ap')) = None \<and> cl_audio (mg_call (ap_managers ap')) = None \<and>
         queued (ap_network ap') = queued (ap_network ap) +
           {#\<lparr>mi_call = Call_Disconnect_exec (ch_roomID (cl_heap (mg_call (ap_managers ap)) h)), mi_promise = ap_promise ap\<rparr>#}) \<and>
    sw_state (ap_startup ap') = Inital \<and> sw_status (ap_startup ap') = [] \<and> sw_error (ap_startup ap') = reason \<and>
    sw_visible (ap_startup ap') \<and> connection_lost ap' = ap'"
proof (cases "(\<exists>w. ap_chat ap = Some w \<and> \<not> cw_window w \<and> \<not> cw_hasError w) \<or> lost_handle (mg_call (ap_managers ap))")
  case True
  then show ?thesis using reset_calls_active [of "mg_call (ap_managers ap)"]
    by (auto simp: logout_def hide_chat_def resetAll_def bind_eq_None_conv split: option.splits)
next
  case False
  let ?c = "mg_call (ap_managers ap)"
  define hidden where "hidden = ap\<lparr>ap_chat := None\<rparr>"
  have "(case ap_chat ap of None \<Rightarrow> Some ap | Some w \<Rightarrow> map_option (\<lambda>w. ap\<lparr>ap_chat := None\<rparr>) (hide_chat w)) = Some hidden"
    using False by (cases "ap_chat ap") (auto simp: hide_chat_def hidden_def)
  moreover from False reset_calls_active [of ?c] obtain c where c: "reset_calls ?c = Some c" "cl_active c = None"
    "cl_handles c = Map.empty" "case left_handle ?c of
        None \<Rightarrow> cl_video c = cl_video ?c \<and> cl_audio c = cl_audio ?c \<and> cl_calls c = cl_calls ?c
      | Some h \<Rightarrow> cl_video c = None \<and> cl_audio c = None \<and>
          cl_calls c = cl_calls ?c @ [Call_Disconnect_exec (ch_roomID (cl_heap ?c h))]" by auto
  define n where "n = queue_since (ap_promise ap) ?c c (disconnect (ap_network ap))"
  have n: "currentUser n = invalidID" "queued n = queued (ap_network ap) + (case left_handle ?c of None \<Rightarrow> {#}
      | Some h \<Rightarrow> {#\<lparr>mi_call = Call_Disconnect_exec (ch_roomID (cl_heap ?c h)), mi_promise = ap_promise ap\<rparr>#})"
    using c(4) by (auto simp: n_def queue_since_def queued_def disconnect_def currentUser_def queue_call_def
        split: option.splits priority.split)
  ultimately have "\<exists>ap'. logout reason ap = Some ap' \<and> ap_chat ap' = None \<and> ap_network ap' = n \<and>
      ap_managers ap' = \<lparr>mg_message = reset_messages (mg_message (ap_managers ap)),
        mg_group = reset_rooms (mg_group (ap_managers ap)), mg_call = c, mg_user = reset_users (mg_user (ap_managers ap))\<rparr> \<and>
      ap_startup ap' = show_startup True (setErrorString reason (startup_clear (ap_startup ap)))"
    using c(1) by (simp add: logout_def resetAll_def n_def hidden_def)
  then show ?thesis
    using n c unfolding if_not_P [OF False]
    by (auto simp: reset_messages_def reset_rooms_def reset_users_def reset_im_def connection_lost_def split: option.splits)
qed

text \<open>A client in a call: one chat window, the camera open, room 7.\<close>

definition example_app :: app where
  "example_app =
     \<lparr>ap_startup = new_startup, ap_chat = Some (new_chat\<lparr>cw_window := True, cw_visible := True\<rparr>),
      ap_network = new_coordinator\<lparr>co_user := 3\<rparr>,
      ap_managers = \<lparr>mg_message = new_message_ctrl, mg_group = new_group_ctrl, mg_call = example_call, mg_user = new_user_ctrl\<rparr>,
      ap_tasks = 0, ap_promise = 0\<rparr>"

lemma example_app_facts:
  "ap_chat example_app = Some (new_chat\<lparr>cw_window := True, cw_visible := True\<rparr>)" "mg_call (ap_managers example_app) = example_call"
  "ap_promise example_app = 0" "queued (ap_network example_app) = {#}" "\<not> lost_handle example_call"
  "left_handle example_call = Some 0"
  by (simp_all add: example_app_def lost_handle_def left_handle_def example_call_facts queued_def new_coordinator_def)
    (simp add: example_call_def)

theorem logout_ends_session_witness:
  "\<exists>ap'. logout ''bye'' example_app = Some ap' \<and> ap_chat ap' = None \<and> currentUser (ap_network ap') = invalidID \<and>
    cl_active (mg_call (ap_managers ap')) = None \<and> cl_video (mg_call (ap_managers ap')) = None \<and>
    queued (ap_network ap') = {#\<lparr>mi_call = Call_Disconnect_exec 7, mi_promise = 0\<rparr>#} \<and>
    sw_error (ap_startup ap') = ''bye'' \<and> sw_visible (ap_startup ap')"
  using logout_ends_session [of example_app "''bye''"] by (auto simp: example_app_facts example_call_facts)

text \<open>
  A login that works: the startup window loads while the server is asked, the user of the answer is the current one,
  and once the window has been made and the initialization ends, the chat window is visible and the startup window is
  cleared and hidden.
\<close>

theorem login_shows_chat:
  assumes "ap_chat ap = None"
  shows "sw_state (ap_startup (handleLogin login pass ap)) = Loading \<and>
    (\<exists>w w' ap'. ap_chat (login_settled J True (Inr res) (handleLogin login pass ap)) = Some w \<and>
      finalizeCreation True True True (component_ready w) = Some (Finished, w') \<and>
      chat_settled Finished ((login_settled J True (Inr res) (handleLogin login pass ap))\<lparr>ap_chat := Some w'\<rparr>) = Some ap' \<and>
      map_option cw_visible (ap_chat ap') = Some True \<and> currentUser (ap_network ap') = u_id (user_of J res) \<and>
      \<not> sw_visible (ap_startup ap') \<and> sw_state (ap_startup ap') = Inital \<and> sw_error (ap_startup ap') = [])"
  using assms
  by (simp add: handleLogin_def login_settled_def ensure_chat_def chat_initialize_def new_chat_def component_ready_def
      finalizeCreation_def chat_settled_def show_chat_def currentUser_def initialize_done_def)

theorem login_shows_chat_witness:
  "sw_state (ap_startup (handleLogin ''ann'' ''pw'' (example_app\<lparr>ap_chat := None\<rparr>))) = Loading \<and>
   (\<exists>w. ap_chat (login_settled plain_jlib True (Inr (JObject [])) (handleLogin ''ann'' ''pw'' (example_app\<lparr>ap_chat := None\<rparr>))) =
     Some w)"
  using login_shows_chat [of "example_app\<lparr>ap_chat := None\<rparr>" "''ann''" "''pw''" plain_jlib "JObject []"] by auto

text \<open>
  A connection that is lost while the chat window is being made ends the client: the logout it asks for hides a window
  that is not there.
\<close>

theorem disconnect_while_loading_crashes:
  assumes "ap_chat ap = None" and "ap_tasks ap = 0"
  shows "run_task (connection_lost (login_settled J True (Inr res) ap)) = None"
  using assms
  by (simp add: run_task_def connection_lost_def login_settled_def ensure_chat_def chat_initialize_def new_chat_def
      logout_def hide_chat_def)

theorem disconnect_while_loading_crashes_witness:
  "run_task (connection_lost (login_settled plain_jlib True (Inr (JObject [])) (example_app\<lparr>ap_chat := None\<rparr>))) = None"
  by (rule disconnect_while_loading_crashes) (simp_all add: example_app_def)

text \<open>
  When the connection fails after a login its error is shown and the window takes input again; when it fails after a
  registration the startup window goes on loading without an error.
\<close>

theorem registration_loses_connect_error:
  "sw_state (ap_startup (login_settled J made (Inl (Some err)) (handleLogin login pass ap))) = Inital \<and>
   sw_error (ap_startup (login_settled J made (Inl (Some err)) (handleLogin login pass ap))) = err \<and>
   sw_state (ap_startup (registration_settled J made (Inl (Some err))
     (user_created login pass (Inr ()) (handleRegistration login pass ap)))) = Loading \<and>
   sw_error (ap_startup (registration_settled J made (Inl (Some err))
     (user_created login pass (Inr ()) (handleRegistration login pass ap)))) = []"
  by (simp add: login_settled_def registration_settled_def user_created_def handleRegistration_def Let_def)

text \<open>The stored error of a failed initialization is thrown by every later one.\<close>

lemma initialize_error_stays:
  assumes "initialize_all results None = (Some err, stored)"
  shows "initialize_all [None, None, None, None] stored = (Some err, stored)"
  using assms by (auto simp: initialize_all_def Let_def)

end
