(* ===== verification/Publication.thy ===== *)
theory Publication
  imports DataPipeSystem
begin

text \<open>
  The publication of a slot in two parts, as \<open>DataPipe::unmapWriting\<close> has them (\<open>lib/media/datapipe.h\<close>): the
  queues and the number of readings are handled with the lock held, the listeners are called afterwards, in a loop over
  the map as it then is. \<open>unmapWriting\<close> of \<open>DataPipe\<close> is the publication whose loop sees the map of the lock; here
  any number of writers may be in their loops, and the other operations of the pipe come in between.
\<close>

section \<open>The two parts\<close>

text \<open>The locked part; the result says whether the loop follows.\<close>

definition unmapWriting_locked :: "nat \<Rightarrow> bool \<Rightarrow> ('a, 'c) pipe \<Rightarrow> pipe_error + bool \<times> ('a, 'c) pipe" where
  "unmapWriting_locked index notifyReaders p =
     (if index < length (subpipes p) then
        let p = drain_queues p in
        if \<not> notifyReaders \<or> length (listeners p) = 0
        then Inr (False, sem_release
               (p\<lparr>subpipes := (subpipes p)[index := (subpipes p ! index)\<lparr>isFree := True\<rparr>]\<rparr>))
        else Inr (True,
               p\<lparr>subpipes := (subpipes p)
                   [index := (subpipes p ! index)\<lparr>readings := of_nat (length (listeners p))\<rparr>]\<rparr>)
      else Inl OutOfRange)"

text \<open>
  The loop: its iterator stands on the listener that is being called. Stepping on from a listener that has been erased
  meanwhile is undefined (\<open>None\<close>).
\<close>

definition first_listener :: "(int, 'c) omap \<Rightarrow> int option" where
  "first_listener ls = (case ls of [] \<Rightarrow> None | (k, c) # _ \<Rightarrow> Some k)"

definition next_listener :: "int \<Rightarrow> (int, 'c) omap \<Rightarrow> int option option" where
  "next_listener k ls =
     (if k \<in> fst ` set ls then Some (first_listener (dropWhile (\<lambda>(j, c). j \<le> k) ls)) else None)"

lemma unmapWriting_parts:
  "unmapWriting i b p =
     (case unmapWriting_locked i b p of
        Inl e \<Rightarrow> Inl e
      | Inr (go, q) \<Rightarrow> Inr (if go then listeners q else [], q))"
  by (simp add: unmapWriting_def unmapWriting_locked_def Let_def)

lemma locked_go:
  assumes "unmapWriting_locked i b p = Inr (go, q)"
  shows "listeners q = listeners (drain_queues p) \<and> (go \<longrightarrow> listeners q \<noteq> [])"
  using assms by (auto simp: unmapWriting_locked_def Let_def sem_release_def split: if_splits)

section \<open>Writers in their loops\<close>

datatype writer = Idle | Calling nat int

text \<open>
  \<open>pb_counted\<close> are the listeners that were counted as readings of the writer's last slot, \<open>pb_made\<close> those that it
  has called for it.
\<close>

record ('a, 'c) pubsys =
  pb_pipe :: "('a, 'c) pipe"
  pb_writers :: "nat \<Rightarrow> writer"
  pb_counted :: "nat \<Rightarrow> int list"
  pb_made :: "nat \<Rightarrow> int list"

definition pb_init :: "('a, 'c) pipe \<Rightarrow> ('a, 'c) pubsys" where
  "pb_init p = \<lparr>pb_pipe = p, pb_writers = (\<lambda>_. Idle), pb_counted = (\<lambda>_. []), pb_made = (\<lambda>_. [])\<rparr>"

definition locked_publication :: "nat \<Rightarrow> nat \<Rightarrow> ('a, 'c) pipe \<Rightarrow> bool \<Rightarrow> ('a, 'c) pubsys \<Rightarrow> ('a, 'c) pubsys" where
  "locked_publication t i p go s =
     (case (go, first_listener (listeners p)) of
        (True, Some k) \<Rightarrow>
          s\<lparr>pb_pipe := p, pb_writers := (pb_writers s)(t := Calling i k),
            pb_counted := (pb_counted s)(t := map fst (listeners p)), pb_made := (pb_made s)(t := [k])\<rparr>
      | _ \<Rightarrow> s\<lparr>pb_pipe := p, pb_counted := (pb_counted s)(t := []), pb_made := (pb_made s)(t := [])\<rparr>)"

definition loop_step :: "nat \<Rightarrow> nat \<Rightarrow> int option \<Rightarrow> ('a, 'c) pubsys \<Rightarrow> ('a, 'c) pubsys" where
  "loop_step t i nxt s =
     (case nxt of
        None \<Rightarrow> s\<lparr>pb_writers := (pb_writers s)(t := Idle)\<rparr>
      | Some k \<Rightarrow>
          s\<lparr>pb_writers := (pb_writers s)(t := Calling i k), pb_made := (pb_made s)(t := pb_made s t @ [k])\<rparr>)"

text \<open>
  \<open>w\<close> writers. The steps of the readers, and of the threads that take slots, register and remove listeners, change the
  pipe but not the map of its listeners.
\<close>

inductive pb_step :: "nat \<Rightarrow> ('a, 'c) pubsys \<Rightarrow> ('a, 'c) pubsys \<Rightarrow> bool" for w where
  publish: "t < w \<Longrightarrow> pb_writers s t = Idle \<Longrightarrow> unmapWriting_locked i b (pb_pipe s) = Inr (go, p) \<Longrightarrow>
     pb_step w s (locked_publication t i p go s)"
| returned: "t < w \<Longrightarrow> pb_writers s t = Calling i k \<Longrightarrow> next_listener k (listeners (pb_pipe s)) = Some nxt \<Longrightarrow>
     pb_step w s (loop_step t i nxt s)"
| hold: "sem_acquire (pb_pipe s) = Some p \<Longrightarrow> getFree p = Inr ((d, i), q) \<Longrightarrow> pb_step w s (s\<lparr>pb_pipe := q\<rparr>)"
| read: "unmapReading i (pb_pipe s) = Inr p \<Longrightarrow> pb_step w s (s\<lparr>pb_pipe := p\<rparr>)"
| subscribe: "onDataChanged c idx (pb_pipe s) = Inr (k, idx', p) \<Longrightarrow> pb_step w s (s\<lparr>pb_pipe := p\<rparr>)"
| unsubscribe: "pb_step w s (s\<lparr>pb_pipe := removeListener k (pb_pipe s)\<rparr>)"

inductive pb_reachable :: "nat \<Rightarrow> ('a, 'c) pipe \<Rightarrow> ('a, 'c) pubsys \<Rightarrow> bool" for w p where
  start: "pb_reachable w p (pb_init p)"
| step: "pb_reachable w p s \<Longrightarrow> pb_step w s t \<Longrightarrow> pb_reachable w p t"

section \<open>One writer\<close>

lemma strict_sorted_dropWhile:
  assumes "omap_ok ls" and "(k, c) # rest = dropWhile (\<lambda>(j, c). j \<le> l) ls"
  shows "dropWhile (\<lambda>(j, c). j \<le> k) ls = rest"
proof -
  define pre where "pre = takeWhile (\<lambda>(j, c). j \<le> l) ls"
  have ls: "ls = pre @ (k, c) # rest" using assms(2) by (simp add: pre_def)
  with assms(1) have "\<forall>x \<in> set pre. fst x < k" "\<forall>x \<in> set rest. k < fst x"
    by (auto simp: omap_ok_def sorted_wrt_append)
  then show ?thesis by (cases rest) (auto simp: ls dropWhile_append)
qed

definition writer_ok :: "('a, 'c) pubsys \<Rightarrow> bool" where
  "writer_ok s \<longleftrightarrow> omap_ok (listeners (pb_pipe s)) \<and>
     (case pb_writers s 0 of
        Idle \<Rightarrow> pb_made s 0 = pb_counted s 0
      | Calling i k \<Rightarrow>
          k \<in> fst ` set (listeners (pb_pipe s)) \<and> pb_counted s 0 = map fst (listeners (pb_pipe s)) \<and>
          pb_made s 0 @ map fst (dropWhile (\<lambda>(j, c). j \<le> k) (listeners (pb_pipe s))) = pb_counted s 0)"

lemma writer_ok_frame:
  "writer_ok s \<Longrightarrow> listeners p = listeners (pb_pipe s) \<Longrightarrow> writer_ok (s\<lparr>pb_pipe := p\<rparr>)"
  by (simp add: writer_ok_def cong: writer.case_cong)

lemma writer_ok_publish:
  assumes "writer_ok s" and idle: "pb_writers s 0 = Idle" and "unmapWriting_locked i b (pb_pipe s) = Inr (go, p)"
  shows "writer_ok (locked_publication 0 i p go s)"
proof -
  have ok: "omap_ok (listeners p)" and ne: "go \<longrightarrow> listeners p \<noteq> []"
    using assms locked_go [OF assms(3)] by (auto simp: writer_ok_def listeners_ok_drain)
  show ?thesis
  proof (cases "go \<and> listeners p \<noteq> []")
    case True
    then obtain k c rest where ls: "listeners p = (k, c) # rest" by (cases "listeners p") auto
    have "(k, c) # rest = dropWhile (\<lambda>(j, c). j \<le> k - 1) (listeners p)" by (simp add: ls)
    from strict_sorted_dropWhile [OF ok this] have "dropWhile (\<lambda>(j, c). j \<le> k) rest = rest"
      by (simp add: ls)
    with True ls ok show ?thesis
      by (simp add: locked_publication_def first_listener_def writer_ok_def)
  next
    case False
    with ne have "\<not> go" by simp
    with ok idle show ?thesis by (simp add: locked_publication_def writer_ok_def)
  qed
qed

lemma writer_ok_loop:
  assumes "writer_ok s" and "pb_writers s 0 = Calling i k" and "next_listener k (listeners (pb_pipe s)) = Some nxt"
  shows "writer_ok (loop_step 0 i nxt s)"
proof -
  let ?ls = "listeners (pb_pipe s)"
  let ?d = "dropWhile (\<lambda>(j, c). j \<le> k) ?ls"
  have nxt: "nxt = first_listener ?d" using assms(3) by (auto simp: next_listener_def split: if_splits)
  show ?thesis
  proof (cases ?d)
    case Nil
    with assms nxt show ?thesis by (simp add: loop_step_def writer_ok_def first_listener_def)
  next
    case (Cons x rest)
    obtain j c where x: "x = (j, c)" by (cases x)
    have "(j, c) \<in> set ?ls" using set_dropWhileD [of "(j, c)" "\<lambda>(j, c). j \<le> k" ?ls] Cons x by simp
    moreover have "dropWhile (\<lambda>(i, c). i \<le> j) ?ls = rest"
      using assms(1) Cons x by (intro strict_sorted_dropWhile [of _ j c rest k]) (simp_all add: writer_ok_def)
    ultimately show ?thesis
      using assms(1,2) nxt Cons x by (force simp: loop_step_def writer_ok_def first_listener_def)
  qed
qed

lemma writer_ok_step: "pb_step w s t \<Longrightarrow> w = 1 \<Longrightarrow> writer_ok s \<Longrightarrow> writer_ok t"
proof (induction rule: pb_step.induct)
  case (hold s p d i q)
  then show ?case
    by (intro writer_ok_frame) (auto simp: sem_acquire_def getFree_def split: if_splits option.splits)
next
  case (read i s p)
  then show ?case
    by (intro writer_ok_frame) (auto simp: unmapReading_def Let_def sem_release_def split: if_splits)
next
  case (subscribe c idx s k idx' p)
  then show ?case by (intro writer_ok_frame) (auto simp: onDataChanged_def split: if_splits)
qed (simp_all add: writer_ok_publish writer_ok_loop writer_ok_frame removeListener_def)

lemma writer_ok_reachable: "pb_reachable w p s \<Longrightarrow> w = 1 \<Longrightarrow> omap_ok (listeners p) \<Longrightarrow> writer_ok s"
proof (induction rule: pb_reachable.induct)
  case (step s t)
  then show ?case using writer_ok_step by blast
qed (simp add: pb_init_def writer_ok_def)

text \<open>
  C3: A pipe with one writer publishes as if its loop were part of the locked region, whatever readers and listeners do
  meanwhile: the loop never leaves an erased listener, and when it has ended it has called exactly the listeners that were
  counted as readings, in their order.
\<close>

theorem one_writer_calls_all:
  assumes "pb_reachable 1 p s" and "omap_ok (listeners p)"
  shows "(pb_writers s 0 = Idle \<longrightarrow> pb_made s 0 = pb_counted s 0) \<and>
    (\<forall>i k. pb_writers s 0 = Calling i k \<longrightarrow>
       next_listener k (listeners (pb_pipe s)) \<noteq> None \<and>
       (\<exists>rest. pb_counted s 0 = pb_made s 0 @ rest))"
proof -
  have "writer_ok s" using writer_ok_reachable [OF assms(1) _ assms(2)] by simp
  then show ?thesis
    by (auto simp: writer_ok_def next_listener_def image_iff)
      metis
qed

section \<open>Two writers\<close>

text \<open>A pipe with two slots being written and two listeners.\<close>

definition two_writing :: "(nat, string) pipe" where
  "two_writing =
     \<lparr>subpipes = [\<lparr>isFree = False, ptr = 0, readings = 0\<rparr>, \<lparr>isFree = False, ptr = 1, readings = 0\<rparr>], sem = 0,
      listeners = [(1, ''enc''), (2, ''sink'')], addListenerQueue = [], removeListenerQueue = []\<rparr>"

text \<open>The writer publishes; in its loop the second listener is removed, which waits for the next publication; the loop ends.\<close>

definition first_called :: "(nat, string) pubsys" where
  "first_called = locked_publication 0 0
     (two_writing\<lparr>subpipes := [\<lparr>isFree = False, ptr = 0, readings = 2\<rparr>, \<lparr>isFree = False, ptr = 1, readings = 0\<rparr>]\<rparr>) True
     (pb_init two_writing)"

definition reader_left :: "(nat, string) pubsys" where
  "reader_left = first_called\<lparr>pb_pipe := removeListener 2 (pb_pipe first_called)\<rparr>"

lemma first_called_reachable: "0 < w \<Longrightarrow> pb_reachable w two_writing first_called"
proof -
  have "unmapWriting_locked 0 True (pb_pipe (pb_init two_writing)) = Inr (True,
    two_writing\<lparr>subpipes := [\<lparr>isFree = False, ptr = 0, readings = 2\<rparr>, \<lparr>isFree = False, ptr = 1, readings = 0\<rparr>]\<rparr>)"
    by (simp add: two_writing_def pb_init_def unmapWriting_locked_def drain_queues_def omap_emplace_all_def omap_erase_all_def)
  then show "0 < w \<Longrightarrow> pb_reachable w two_writing first_called"
    unfolding first_called_def by (intro pb_reachable.step [OF pb_reachable.start] pb_step.publish) (simp_all add: pb_init_def)
qed

lemmas loop_of_two = reader_left_def first_called_def two_writing_def pb_init_def locked_publication_def first_listener_def
  next_listener_def removeListener_def loop_step_def

lemma one_writer_run:
  "pb_reachable 1 two_writing reader_left"
  "pb_reachable 1 two_writing (loop_step 0 0 (Some 2) reader_left)"
  "pb_reachable 1 two_writing (loop_step 0 0 None (loop_step 0 0 (Some 2) reader_left))"
proof -
  show r: "pb_reachable 1 two_writing reader_left"
    unfolding reader_left_def by (rule pb_reachable.step [OF first_called_reachable pb_step.unsubscribe]) simp
  show r: "pb_reachable 1 two_writing (loop_step 0 0 (Some 2) reader_left)"
    by (rule pb_reachable.step [OF r]) (rule pb_step.returned [where k = 1]; simp add: loop_of_two)
  show "pb_reachable 1 two_writing (loop_step 0 0 None (loop_step 0 0 (Some 2) reader_left))"
    by (rule pb_reachable.step [OF r]) (rule pb_step.returned [where k = 2]; simp add: loop_of_two)
qed

theorem one_writer_calls_all_witness:
  "pb_writers reader_left 0 = Calling 0 1 \<and> next_listener 1 (listeners (pb_pipe reader_left)) \<noteq> None \<and>
   (let s = loop_step 0 0 None (loop_step 0 0 (Some 2) reader_left) in
      pb_writers s 0 = Idle \<and> pb_counted s 0 = [1, 2] \<and> pb_made s 0 = pb_counted s 0)"
proof -
  have ok: "omap_ok (listeners two_writing)" by (simp add: two_writing_def omap_ok_def)
  have w: "pb_writers reader_left 0 = Calling 0 1"
    "pb_writers (loop_step 0 0 None (loop_step 0 0 (Some 2) reader_left)) 0 = Idle"
    "pb_counted (loop_step 0 0 None (loop_step 0 0 (Some 2) reader_left)) 0 = [1, 2]"
    by (simp_all add: loop_of_two)
  from one_writer_calls_all [OF one_writer_run(1) ok] one_writer_calls_all [OF one_writer_run(3) ok] w
  show ?thesis by (simp add: Let_def)
qed

text \<open>The first writer is at its first listener while a listener is removed and the second writer publishes.\<close>

definition overtaken :: "int \<Rightarrow> (nat, string) pubsys" where
  "overtaken k =
     (let ls = omap_erase k (listeners two_writing); j = fst (hd ls) in
      \<lparr>pb_pipe = two_writing\<lparr>subpipes := [\<lparr>isFree = False, ptr = 0, readings = 2\<rparr>, \<lparr>isFree = False, ptr = 1, readings = 1\<rparr>],
                  listeners := ls\<rparr>,
       pb_writers = (\<lambda>_. Idle)(0 := Calling 0 1, 1 := Calling 1 j),
       pb_counted = (\<lambda>_. [])(0 := [1, 2], 1 := [j]), pb_made = (\<lambda>_. [])(0 := [1], 1 := [j])\<rparr>)"

lemma overtaken_reachable:
  assumes "k = 1 \<or> k = 2"
  shows "pb_reachable 2 two_writing (overtaken k)"
proof -
  have "pb_reachable 2 two_writing first_called" by (rule first_called_reachable) simp
  then have r: "pb_reachable 2 two_writing (first_called\<lparr>pb_pipe := removeListener k (pb_pipe first_called)\<rparr>)" (is "pb_reachable _ _ ?s2")
    by (rule pb_reachable.step) (rule pb_step.unsubscribe)
  let ?q = "two_writing\<lparr>subpipes := [\<lparr>isFree = False, ptr = 0, readings = 2\<rparr>, \<lparr>isFree = False, ptr = 1, readings = 1\<rparr>],
    listeners := omap_erase k (listeners two_writing)\<rparr>"
  have "unmapWriting_locked 1 True (pb_pipe ?s2) = Inr (True, ?q)"
    using assms
    by (auto simp: first_called_def two_writing_def pb_init_def locked_publication_def first_listener_def removeListener_def
        unmapWriting_locked_def drain_queues_def omap_emplace_all_def omap_erase_all_def omap_erase_def)
  moreover have "pb_writers ?s2 1 = Idle"
    by (simp add: first_called_def pb_init_def locked_publication_def first_listener_def two_writing_def)
  ultimately have "pb_reachable 2 two_writing (locked_publication 1 1 ?q True ?s2)"
    by (intro pb_reachable.step [OF r] pb_step.publish) simp_all
  moreover have "locked_publication 1 1 ?q True ?s2 = overtaken k"
    using assms
    by (auto simp: overtaken_def first_called_def two_writing_def pb_init_def locked_publication_def first_listener_def
        omap_erase_def removeListener_def fun_eq_iff)
  ultimately show ?thesis by simp
qed

text \<open>
  A pipe with two writers is not safe: a reader that is removed while the first writer is in its loop and whose removal
  the second writer carries out is counted as a reading of the first slot but never called, so the slot stays owed after
  both loops have ended; and if it is the reader being called, the loop goes on from an erased listener.
\<close>

theorem two_writers_lose_a_reader:
  "(\<exists>s. pb_reachable 2 two_writing s \<and> pb_writers s 0 = Idle \<and> pb_writers s 1 = Idle \<and>
      pb_counted s 0 = [1, 2] \<and> pb_made s 0 = [1] \<and> owed_readings (pb_pipe s) 0 = 2) \<and>
   (\<exists>s. pb_reachable 2 two_writing s \<and> pb_writers s 0 = Calling 0 1 \<and>
      next_listener 1 (listeners (pb_pipe s)) = None)"
proof
  let ?s1 = "loop_step 0 0 None (overtaken 2)"
  have "pb_step 2 (overtaken 2) ?s1"
    by (rule pb_step.returned [where k = 1])
      (simp_all add: overtaken_def two_writing_def omap_erase_def next_listener_def first_listener_def)
  moreover have "pb_step 2 ?s1 (loop_step 1 1 None ?s1)"
    by (rule pb_step.returned [where k = 1])
      (simp_all add: overtaken_def two_writing_def omap_erase_def next_listener_def first_listener_def loop_step_def)
  ultimately have "pb_reachable 2 two_writing (loop_step 1 1 None ?s1)"
    using overtaken_reachable [of 2] by (blast intro: pb_reachable.step)
  then show "\<exists>s. pb_reachable 2 two_writing s \<and> pb_writers s 0 = Idle \<and> pb_writers s 1 = Idle \<and>
      pb_counted s 0 = [1, 2] \<and> pb_made s 0 = [1] \<and> owed_readings (pb_pipe s) 0 = 2"
    by (intro exI [of _ "loop_step 1 1 None ?s1"])
      (simp add: overtaken_def two_writing_def omap_erase_def loop_step_def owed_readings_def)
  show "\<exists>s. pb_reachable 2 two_writing s \<and> pb_writers s 0 = Calling 0 1 \<and>
      next_listener 1 (listeners (pb_pipe s)) = None"
    using overtaken_reachable [of 1]
    by (intro exI [of _ "overtaken 1"]) (simp add: overtaken_def two_writing_def omap_erase_def next_listener_def)
qed

end
