(* ===== verification/DecoderPool.thy ===== *)
theory DecoderPool
  imports Codec "HOL-Library.Multiset"
begin

text \<open>
  \<open>Media::AbstractDecoder\<close> as it runs (\<open>lib/media/decoder.cpp\<close>): the listener of the input pipe only puts a task
  into a pool of one thread, which takes the tasks in order; \<open>stop\<close>, which the destructor calls, comes at any time
  between two tasks, because both take \<open>_decodeMutex\<close>. A task goes to \<open>_input\<close> when it runs, and \<open>stop\<close> resets it:
  what a waiting task then does with the null pointer is the error \<open>NullInput\<close>. The work of one task is
  \<open>decode_packet\<close> of \<open>Codec\<close>.
\<close>

section \<open>The queue of tasks\<close>

text \<open>
  \<open>po_tasks\<close> are slot and time stamp of the packets that wait, first one first. \<open>po_arrived\<close> and \<open>po_given\<close> record the
  packets that came and the calls of \<open>unmapReading\<close> that the tasks made.
\<close>

record ('a, 'h, 'b, 'k) decoder_pool =
  po_dec :: decoder
  po_inp :: "('a, 'h) pipe"
  po_out :: "('b, 'k) pipe"
  po_tasks :: "(nat \<times> int) list"
  po_timestamp :: int
  po_delta :: int
  po_arrived :: "nat list"
  po_given :: "nat list"

text \<open>The listener; the result says whether it warns of a time stamp that goes back.\<close>

definition packet_arrives ::
    "nat \<Rightarrow> int \<Rightarrow> ('a, 'h, 'b, 'k) decoder_pool \<Rightarrow> bool \<times> ('a, 'h, 'b, 'k) decoder_pool" where
  "packet_arrives index pts s =
     (pts - po_timestamp s < 0,
      s\<lparr>po_timestamp := pts, po_tasks := po_tasks s @ [(index, pts)], po_arrived := po_arrived s @ [index]\<rparr>)"

text \<open>The calls of \<open>unmapReading\<close> that a task makes: for a refused packet its own slot, otherwise what was held.\<close>

definition given_back :: "int \<Rightarrow> nat \<Rightarrow> nat list \<Rightarrow> ('b, 'k) pipe \<Rightarrow> nat \<Rightarrow> nat list" where
  "given_back response n holding out index =
     (if response < 0 then [index]
      else if 0 < n \<and> 0 < sem out then replicate (length holding) (hd holding) else [])"

definition run_decoder_task ::
    "((int, 'k) omap \<Rightarrow> ('b, 'k) pipe \<Rightarrow> ('b, 'k) pipe) \<Rightarrow> int \<Rightarrow> nat \<Rightarrow> bool \<Rightarrow> ('a, 'h, 'b, 'k) decoder_pool \<Rightarrow>
       codec_error + bool \<times> ('a, 'h, 'b, 'k) decoder_pool" where
  "run_decoder_task env response n again s =
     (case po_tasks s of
        [] \<Rightarrow> Inr (False, s)
      | (index, pts) # tasks \<Rightarrow>
          (let back = given_back response n (dc_holding (po_dec s)) (po_out s) index in
           if back \<noteq> [] \<and> \<not> dc_input (po_dec s) then Inl NullInput
           else
             (case decode_packet env response n again index (dc_holding (po_dec s)) (po_inp s) (po_out s) of
                Inl x \<Rightarrow> Inl (PipeError x)
              | Inr (holding, inp, out) \<Rightarrow>
                  Inr (pts - po_delta s < 0,
                       s\<lparr>po_dec := (po_dec s)\<lparr>dc_holding := holding\<rparr>, po_inp := inp, po_out := out, po_tasks := tasks,
                         po_delta := pts, po_given := po_given s @ back\<rparr>))))"

definition stop_decoder :: "('a, 'h, 'b, 'k) decoder_pool \<Rightarrow> ('a, 'h, 'b, 'k) decoder_pool" where
  "stop_decoder s = (let (inp, d) = decoder_stop (po_inp s) (po_dec s) in s\<lparr>po_inp := inp, po_dec := d\<rparr>)"

text \<open>The threads in the order in which they get their turn; \<open>Other\<close> is what else happens to the input pipe.\<close>

datatype ('a, 'h) pool_event =
  Arrive nat int
| RunTask int nat bool
| StopDecoder
| Other "('a, 'h) pipe \<Rightarrow> ('a, 'h) pipe"

fun pool_step ::
    "((int, 'k) omap \<Rightarrow> ('b, 'k) pipe \<Rightarrow> ('b, 'k) pipe) \<Rightarrow> ('a, 'h) pool_event \<Rightarrow> ('a, 'h, 'b, 'k) decoder_pool \<Rightarrow>
       codec_error + ('a, 'h, 'b, 'k) decoder_pool" where
  "pool_step env (Arrive index pts) s = Inr (snd (packet_arrives index pts s))"
| "pool_step env (RunTask response n again) s = map_sum id snd (run_decoder_task env response n again s)"
| "pool_step env StopDecoder s = Inr (stop_decoder s)"
| "pool_step env (Other f) s = Inr (s\<lparr>po_inp := f (po_inp s)\<rparr>)"

definition started_pool :: "('a, 'h) pipe \<Rightarrow> ('b, 'k) pipe \<Rightarrow> decoder \<Rightarrow> ('a, 'h, 'b, 'k) decoder_pool" where
  "started_pool inp out d =
     \<lparr>po_dec = d, po_inp = inp, po_out = out, po_tasks = [], po_timestamp = 0, po_delta = 0, po_arrived = [], po_given = []\<rparr>"

section \<open>What a task gives back\<close>

text \<open>
  The part of the input pipe that a task touches, as an abstract step: the calls it makes and the slots it goes on to
  hold.
\<close>

definition held_after :: "int \<Rightarrow> nat \<Rightarrow> bool \<Rightarrow> nat list \<Rightarrow> nat \<Rightarrow> nat list" where
  "held_after response n again holding index =
     (if response < 0 then holding
      else (if 0 < n then [] else holding) @ (if again then [index] else []))"

lemma decode_frames_held:
  assumes "roomy out" and "keeps_room env" and "fold_err unmapReading (given_back 0 n holding out index) inp = Inr inp'"
  shows "\<exists>out'. decode_frames env n again index holding inp out = Inr (held_after 0 n again holding index, inp', out') \<and>
    roomy out'"
  using assms(1,3)
proof (induction n arbitrary: holding inp out)
  case 0
  from 0(2) have "inp' = inp" by (simp add: given_back_def)
  obtain d i q ns r where "tryHoldForWriting out = Inr (Some (d, i), q)" "unmapWriting i False q = Inr (ns, r)"
    "roomy r" using decode_write [OF 0(1), of False] by metis
  with \<open>inp' = inp\<close> show ?case by (simp add: held_after_def)
next
  case (Suc n)
  obtain d i q ns r where w: "tryHoldForWriting out = Inr (Some (d, i), q)" "unmapWriting i True q = Inr (ns, r)"
    "balanced r" by (rule decode_write [OF Suc.prems(1)])
  then have ok: "roomy (env ns r)" using assms(2) by (simp add: roomy_def keeps_room_def)
  have rel: "release_held holding inp = Inr inp'"
    using Suc.prems by (simp add: given_back_def roomy_def release_held_replicate)
  have "fold_err unmapReading (given_back 0 n [] (env ns r) index) inp' = Inr inp'" by (simp add: given_back_def)
  from Suc.IH [OF ok this] w rel show ?case by (auto simp: held_after_def)
qed

lemma decode_packet_held:
  assumes "roomy out" and "keeps_room env"
    and "fold_err unmapReading (given_back response n holding out index) inp = Inr inp'"
  shows "\<exists>out'. decode_packet env response n again index holding inp out =
      Inr (held_after response n again holding index, inp', out') \<and> roomy out'"
proof (cases "response < 0")
  case True
  with assms show ?thesis
    by (auto simp: decode_packet_def given_back_def held_after_def split: sum.splits)
next
  case False
  then have "given_back response n holding out index = given_back 0 n holding out index"
    and "held_after response n again holding index = held_after 0 n again holding index"
    by (simp_all add: given_back_def held_after_def)
  with decode_frames_held [OF assms(1,2), of n holding index inp inp' again] assms(3) False show ?thesis
    by (simp add: decode_packet_def)
qed


section \<open>Every order of the threads\<close>

text \<open>
  A decoder in use: slots that the pipe has, packets that are refused or complete a frame, and no \<open>stop\<close>; the rest of
  the client leaves the slots of the pipe in place.
\<close>

fun orderly :: "nat \<Rightarrow> ('a, 'h) pool_event \<Rightarrow> bool" where
  "orderly m (Arrive index pts) = (index < m)"
| "orderly m (RunTask response n again) = (response < 0 \<or> 0 < n \<and> again)"
| "orderly m StopDecoder = False"
| "orderly m (Other f) = (\<forall>p. length (subpipes (f p)) = length (subpipes p))"

fun refuses :: "('a, 'h) pool_event \<Rightarrow> bool" where
  "refuses (RunTask response n again) = (response < 0)"
| "refuses _ = False"

fun arrival :: "('a, 'h) pool_event \<Rightarrow> nat list" where
  "arrival (Arrive index pts) = [index]"
| "arrival _ = []"

abbreviation held_slots :: "('a, 'h, 'b, 'k) decoder_pool \<Rightarrow> nat list" where
  "held_slots s \<equiv> dc_holding (po_dec s)"

abbreviation waiting_slots :: "('a, 'h, 'b, 'k) decoder_pool \<Rightarrow> nat list" where
  "waiting_slots s \<equiv> map fst (po_tasks s)"

definition pool_ok :: "nat \<Rightarrow> ('a, 'h, 'b, 'k) decoder_pool \<Rightarrow> bool" where
  "pool_ok m s \<longleftrightarrow> dc_input (po_dec s) \<and> roomy (po_out s) \<and> length (subpipes (po_inp s)) = m \<and> length (held_slots s) \<le> 1 \<and>
     (\<forall>i \<in> set (held_slots s @ waiting_slots s). i < m)"

definition accounted :: "('a, 'h, 'b, 'k) decoder_pool \<Rightarrow> bool" where
  "accounted s \<longleftrightarrow> mset (po_arrived s) = mset (po_given s @ held_slots s @ waiting_slots s)"

definition in_order :: "('a, 'h, 'b, 'k) decoder_pool \<Rightarrow> bool" where
  "in_order s \<longleftrightarrow> po_arrived s = po_given s @ held_slots s @ waiting_slots s"

lemma unmapReading_all:
  "\<forall>i \<in> set is. i < length (subpipes p) \<Longrightarrow>
     \<exists>q. fold_err unmapReading is p = Inr q \<and> length (subpipes q) = length (subpipes p)"
proof (induction "is" arbitrary: p)
  case (Cons i js)
  then obtain q where "unmapReading i p = Inr q" "length (subpipes q) = length (subpipes p)"
    using unmapReading_in_range [of i p] by auto
  with Cons show ?case by (metis (no_types, lifting) fold_err.simps(2) list.set_intros(2) sum.case(2))
qed simp

text \<open>A task of a decoder in use.\<close>

lemma run_task_ok:
  assumes "keeps_room env" and "pool_ok m s" and "po_tasks s = (index, pts) # tasks" and "response < 0 \<or> 0 < n \<and> again"
  obtains w s' where "run_decoder_task env response n again s = Inr (w, s')" "pool_ok m s'" "po_tasks s' = tasks"
    "po_given s' = po_given s @ (if response < 0 then [index] else held_slots s)"
    "held_slots s' = (if response < 0 then held_slots s else [index])"
    "po_arrived s' = po_arrived s" "dc_listener (po_dec s') = dc_listener (po_dec s)"
    "fold_err unmapReading (if response < 0 then [index] else held_slots s) (po_inp s) = Inr (po_inp s')"
proof -
  let ?given = "given_back response n (held_slots s) (po_out s) index"
  have bk: "?given = (if response < 0 then [index] else held_slots s)"
    using assms(2,4) by (cases "held_slots s") (auto simp: given_back_def pool_ok_def roomy_def)
  then have "\<forall>i \<in> set ?given. i < length (subpipes (po_inp s))"
    using assms(2,3) by (auto simp: pool_ok_def)
  then obtain inp where inp: "fold_err unmapReading ?given (po_inp s) = Inr inp"
    "length (subpipes inp) = length (subpipes (po_inp s))" using unmapReading_all by blast
  have "roomy (po_out s)" using assms(2) by (simp add: pool_ok_def)
  from decode_packet_held [OF this assms(1) inp(1), of again] obtain out where
    "decode_packet env response n again index (held_slots s) (po_inp s) (po_out s) =
       Inr (held_after response n again (held_slots s) index, inp, out)" "roomy out" by blast
  moreover have "held_after response n again (held_slots s) index = (if response < 0 then held_slots s else [index])"
    using assms(4) by (auto simp: held_after_def)
  ultimately obtain w s' where "run_decoder_task env response n again s = Inr (w, s')" "po_inp s' = inp" "po_out s' = out"
    "po_tasks s' = tasks" "po_given s' = po_given s @ ?given" "po_arrived s' = po_arrived s"
    "po_dec s' = (po_dec s)\<lparr>dc_holding := if response < 0 then held_slots s else [index]\<rparr>" "roomy (po_out s')"
    using assms(2,3) by (auto simp: run_decoder_task_def Let_def pool_ok_def)
  with that [of w s'] assms(2,3) inp bk show ?thesis by (auto simp: pool_ok_def simp del: fold_err.simps)
qed

lemma pool_step_ok:
  assumes "keeps_room env" and "pool_ok m s" and "orderly m ev"
  shows "\<exists>s'. pool_step env ev s = Inr s' \<and> pool_ok m s' \<and> po_arrived s' = po_arrived s @ arrival ev \<and>
    dc_listener (po_dec s') = dc_listener (po_dec s) \<and> (accounted s \<longrightarrow> accounted s') \<and>
    (\<not> refuses ev \<and> in_order s \<longrightarrow> in_order s')"
proof (cases ev)
  case (RunTask response n again)
  show ?thesis
  proof (cases "po_tasks s")
    case Nil
    with RunTask assms(2) show ?thesis by (simp add: run_decoder_task_def)
  next
    case (Cons t tasks)
    then obtain index pts where t: "po_tasks s = (index, pts) # tasks" by (cases t) simp
    have "response < 0 \<or> 0 < n \<and> again" using assms(3) RunTask by simp
    from run_task_ok [OF assms(1,2) t this] obtain w s' where
      r: "run_decoder_task env response n again s = Inr (w, s')" "pool_ok m s'" "po_tasks s' = tasks"
        "po_given s' = po_given s @ (if response < 0 then [index] else held_slots s)"
        "held_slots s' = (if response < 0 then held_slots s else [index])"
        "po_arrived s' = po_arrived s" "dc_listener (po_dec s') = dc_listener (po_dec s)" by metis
    from r t show ?thesis
      by (intro exI [of _ s']) (simp add: RunTask accounted_def in_order_def)
  qed
qed (use assms in \<open>auto simp: packet_arrives_def pool_ok_def accounted_def in_order_def\<close>)

lemma pool_run_ok:
  assumes "keeps_room env" and "pool_ok m s" and "\<forall>ev \<in> set evs. orderly m ev"
  shows "\<exists>s'. fold_err (pool_step env) evs s = Inr s' \<and> pool_ok m s' \<and>
    po_arrived s' = po_arrived s @ concat (map arrival evs) \<and> dc_listener (po_dec s') = dc_listener (po_dec s) \<and>
    (accounted s \<longrightarrow> accounted s') \<and> ((\<forall>ev \<in> set evs. \<not> refuses ev) \<and> in_order s \<longrightarrow> in_order s')"
  using assms(2,3)
proof (induction evs arbitrary: s)
  case (Cons ev evs)
  have "orderly m ev" "\<forall>ev \<in> set evs. orderly m ev" using Cons.prems(2) by simp_all
  from pool_step_ok [OF assms(1) Cons.prems(1) this(1)] obtain s1 where
    s1: "pool_step env ev s = Inr s1" "pool_ok m s1" "po_arrived s1 = po_arrived s @ arrival ev"
      "dc_listener (po_dec s1) = dc_listener (po_dec s)" "accounted s \<longrightarrow> accounted s1"
      "\<not> refuses ev \<and> in_order s \<longrightarrow> in_order s1" by blast
  from Cons.IH [OF s1(2) \<open>\<forall>ev \<in> set evs. orderly m ev\<close>] s1 show ?case by auto
qed simp

lemma started_pool_ok:
  "roomy out \<Longrightarrow> dc_input d \<Longrightarrow> dc_holding d = [] \<Longrightarrow> pool_ok (length (subpipes inp)) (started_pool inp out d)"
  by (simp add: pool_ok_def started_pool_def)

text \<open>
  C24: A decoder that is not stopped, whose output always has a free slot, and whose packets are refused or complete a frame and
  end in \<open>EAGAIN\<close>, goes on without an error in whatever order the threads come:
  each packet that arrived has been given back once, is the one that is held, or waits; without refused packets they are
  given back in the order in which they came. (Outside of this packets are lost or given back twice: an output without a
  slot, an error other than \<open>EAGAIN\<close>, two held packets, and a stop while packets wait, each have a lemma below or in
  the theory of the codecs.)
\<close>

theorem pool_gives_back_in_order:
  assumes "keeps_room env" and "roomy out" and "dc_input d" and "dc_holding d = []"
    and "\<forall>ev \<in> set evs. orderly (length (subpipes inp)) ev"
  shows "\<exists>s. fold_err (pool_step env) evs (started_pool inp out d) = Inr s \<and>
    po_arrived s = concat (map arrival evs) \<and> length (dc_holding (po_dec s)) \<le> 1 \<and>
    mset (po_arrived s) = mset (po_given s @ dc_holding (po_dec s) @ map fst (po_tasks s)) \<and>
    ((\<forall>ev \<in> set evs. \<not> refuses ev) \<longrightarrow>
       po_arrived s = po_given s @ dc_holding (po_dec s) @ map fst (po_tasks s))"
  using pool_run_ok [OF assms(1) started_pool_ok [OF assms(2-4), of inp] assms(5)]
  by (auto simp: started_pool_def pool_ok_def accounted_def in_order_def assms(4))

text \<open>
  Stopping a decoder that holds a packet while another waits ends in a null pointer: when the waiting packet is
  refused, or completes a frame, its task gives a slot back to the pipe that \<open>stop\<close> has let go of. If none waits, the
  held slot is never given back.
\<close>

theorem stop_with_waiting_packet_crashes:
  assumes "keeps_room env" and "roomy out" and "dc_input d" and "dc_holding d = []" and "dc_listener d = Some k"
    and "\<forall>ev \<in> set evs. orderly (length (subpipes inp)) ev"
    and "fold_err (pool_step env) evs (started_pool inp out d) = Inr s"
    and "dc_holding (po_dec s) \<noteq> []" and "response < 0 \<or> 0 < n"
  shows "fold_err (pool_step env) (evs @ [StopDecoder, RunTask response n again]) (started_pool inp out d) =
    (if po_tasks s = [] then Inr (stop_decoder s) else Inl NullInput) \<and>
    po_given (stop_decoder s) = po_given s \<and> dc_holding (po_dec (stop_decoder s)) = dc_holding (po_dec s)"
proof -
  have ok: "pool_ok (length (subpipes inp)) s" "dc_listener (po_dec s) = Some k"
    using pool_run_ok [OF assms(1) started_pool_ok [OF assms(2-4), of inp] assms(6)] assms(5,7)
    by (simp_all add: started_pool_def)
  then have "0 < sem (po_out s)" "dc_input (po_dec s)" by (simp_all add: pool_ok_def roomy_def)
  with ok(2) assms(7-9) show ?thesis
    by (auto simp: fold_err_append stop_decoder_def decoder_stop_def run_decoder_task_def given_back_def Let_def
        split: list.splits)
qed

text \<open>A decoder that has taken one of two packets.\<close>

definition example_decoder :: decoder where
  "example_decoder = (new_decoder True 0)\<lparr>dc_input := True, dc_listener := Some 1\<rparr>"

definition example_events :: "(nat, nat) pool_event list" where
  "example_events = [Arrive 0 1, Arrive 1 2, RunTask 0 1 True]"

abbreviation fresh_readers :: "(int, nat) omap \<Rightarrow> (nat, nat) pipe \<Rightarrow> (nat, nat) pipe" where
  "fresh_readers \<equiv> \<lambda>ns q. new_pipe 2 id"

lemma example_pool_facts:
  "keeps_room fresh_readers" "roomy (new_pipe 2 id :: (nat, nat) pipe)"
  "dc_input example_decoder" "dc_holding example_decoder = []" "dc_listener example_decoder = Some 1"
  "\<forall>ev \<in> set example_events. orderly (length (subpipes example_input)) ev"
  by (simp_all add: keeps_room_def roomy_def balanced_def taken_def new_pipe_def example_decoder_def new_decoder_def
      example_events_def example_input_def)

theorem pool_gives_back_in_order_witness:
  "\<exists>s. fold_err (pool_step fresh_readers) example_events (started_pool example_input (new_pipe 2 id) example_decoder) = Inr s \<and>
    po_arrived s = [0, 1] \<and> po_arrived s = po_given s @ dc_holding (po_dec s) @ map fst (po_tasks s)"
  using pool_gives_back_in_order [OF example_pool_facts(1-4,6)] by (auto simp: example_events_def)

lemma example_pool_run:
  "\<exists>s. fold_err (pool_step fresh_readers) example_events (started_pool example_input (new_pipe 2 id) example_decoder) = Inr s \<and>
    dc_holding (po_dec s) = [0] \<and> po_tasks s = [(1, 2)]"
proof -
  let ?s = "snd (packet_arrives 1 2 (snd (packet_arrives 0 1
    (started_pool example_input (new_pipe 2 id :: (nat, nat) pipe) example_decoder))))"
  have "pool_ok 3 ?s" "po_tasks ?s = [(0, 1), (1, 2)]"
    using example_pool_facts(2-4)
    by (simp_all add: pool_ok_def packet_arrives_def started_pool_def example_input_def)
  then obtain w s' where "run_decoder_task fresh_readers 0 1 True ?s = Inr (w, s')" "po_tasks s' = [(1, 2)]"
    "held_slots s' = (if (0 :: int) < 0 then held_slots ?s else [0])"
    using run_task_ok [OF example_pool_facts(1), of 3 ?s 0 1 "[(1, 2)]" 0 1 True] by blast
  then show ?thesis
    by (intro exI [of _ s']) (simp add: example_events_def)
qed

theorem stop_with_waiting_packet_crashes_witness:
  "fold_err (pool_step fresh_readers) (example_events @ [StopDecoder, RunTask 0 1 True])
     (started_pool example_input (new_pipe 2 id) example_decoder) = Inl NullInput"
proof -
  obtain s where s: "fold_err (pool_step fresh_readers) example_events
      (started_pool example_input (new_pipe 2 id) example_decoder) = Inr s"
    "dc_holding (po_dec s) = [0]" "po_tasks s = [(1, 2)]" using example_pool_run by blast
  from stop_with_waiting_packet_crashes [OF example_pool_facts(1-6) s(1), of 0 1 True] s(2,3) show ?thesis by simp
qed

end
