(* ===== verification/UserSession.thy ===== *)
theory UserSession
  imports UserController
begin

text \<open>
  \<open>User::CallerController\<close> over the life of the client (\<open>lib/network/controllers/usercontroller.cpp\<close>): everything
  that happens to it as a sequence of events, its pool of handles, and what \<open>reset\<close> leaves behind.
\<close>

section \<open>Events\<close>

text \<open>
  \<open>None\<close>: the thread waits for its own mutex or for the thread of the controller, or an empty optional is read. The
  flags of an answer say whether its thread has held the mutex, and whether the thread of the controller gets its turn.
\<close>

datatype user_event =
  AskUser nat int
| UserAnswered int user_data
| UsersFound bool "user_data list"
| RoomUsersAnswered bool bool int "user_data list"
| UserUpdated user_update
| UserJoined int int
| UsersReset

fun user_step :: "user_event \<Rightarrow> user_ctrl \<Rightarrow> user_ctrl option" where
  "user_step (AskUser fresh k) c = Some (snd (get_user fresh k c))"
| "user_step (UserAnswered k res) c = map_option snd (get_user_done k res c)"
| "user_step (UsersFound turn users) c = map_option snd (find_users_done turn users c)"
| "user_step (RoomUsersAnswered held turn room users) c = map_option snd (getGroupUsers_done held turn room users c)"
| "user_step (UserUpdated upd) c = on_updateUser upd c"
| "user_step (UserJoined room k) c = Some (snd (on_addUser room k c))"
| "user_step UsersReset c = Some (reset_users c)"

section \<open>Handles that are given out once\<close>

definition handles_apart :: "user_ctrl \<Rightarrow> bool" where
  "handles_apart c \<longleftrightarrow> distinct (used c) \<and> set (used c) \<subseteq> {..<uc_next c}"

text \<open>A handle that is in use but neither filed for a user nor in the pool.\<close>

definition private_handle :: "nat \<Rightarrow> user_ctrl \<Rightarrow> bool" where
  "private_handle h c \<longleftrightarrow> h < uc_next c \<and> h \<notin> set (used c)"

lemma grow_apart: "handles_apart c \<Longrightarrow> handles_apart (pool_grown n c)"
  by (fastforce simp: handles_apart_def used_def grow_pool)

lemma grow_private: "private_handle h c \<Longrightarrow> private_handle h (pool_grown n c)"
  by (auto simp: private_handle_def grow_pool used_def)

text \<open>A handle from the pool: fresh for everybody, and nobody else loses one.\<close>

lemma getFreeHandle_apart:
  assumes "handles_apart c" and "getFreeHandle held turn c = Some (p, c')"
  shows "handles_apart c'" and "private_handle p c'"
    and "private_handle h c \<Longrightarrow> h \<noteq> p \<and> private_handle h c' \<and> uc_heap c' h = uc_heap c h"
proof -
  from assms(2) obtain g ps where or: "g = c \<or> g = pool_grown (max 64 (length (uc_handlers c))) c"
    and x: "uc_pool g = p # ps" and c': "c' = g\<lparr>uc_pool := ps\<rparr>" by (blast elim: getFreeHandle_cases)
  have g: "handles_apart g" using assms(1) grow_apart or by auto
  have pg: "private_handle h g \<and> uc_heap g h = uc_heap c h" if "private_handle h c"
    using that grow_private [OF that] or by (auto simp: private_handle_def)
  show "handles_apart c'" "private_handle p c'"
    using g by (auto simp: c' handles_apart_def private_handle_def used_def x)
  show "h \<noteq> p \<and> private_handle h c' \<and> uc_heap c' h = uc_heap c h" if "private_handle h c"
    using pg [OF that] by (auto simp: c' private_handle_def used_def x)
qed

lemma set_handle_frame [simp]:
  "used (set_handle h d c) = used c" "uc_next (set_handle h d c) = uc_next c"
  "uc_handlers (set_handle h d c) = uc_handlers c" "uc_pool (set_handle h d c) = uc_pool c"
  by (simp_all add: set_handle_def used_def)

lemma set_handle_heap: "uc_heap (set_handle h d c) = (uc_heap c)(h := d)"
  by (simp add: set_handle_def)

text \<open>Filing a handle under an id, as \<open>emplace\<close> does: an id that has one already keeps it.\<close>

lemma emplace_snd: "x \<in> set (omap_emplace k p xs) \<Longrightarrow> snd x = p \<or> x \<in> set xs"
  by (induction k p xs rule: omap_emplace.induct) (auto split: if_splits)

lemma emplace_distinct:
  "distinct (map snd xs) \<Longrightarrow> p \<notin> snd ` set xs \<Longrightarrow> distinct (map snd (omap_emplace k p xs))"
proof (induction k p xs rule: omap_emplace.induct)
  case (2 k v k' v' xs)
  then have "v' \<notin> snd ` set (omap_emplace k v xs)" by (auto dest: emplace_snd)
  with 2 show ?case by auto
qed simp

lemma file_apart:
  assumes "handles_apart c" and "private_handle p c"
    and "uc_handlers c' = omap_emplace k p (uc_handlers c)" and "uc_pool c' = uc_pool c" and "uc_next c' = uc_next c"
  shows "handles_apart c'" and "private_handle h c \<Longrightarrow> h \<noteq> p \<Longrightarrow> private_handle h c'"
proof -
  have sub: "snd ` set (uc_handlers c') \<subseteq> insert p (snd ` set (uc_handlers c))"
    unfolding assms(3) using emplace_snd by fastforce
  have apart: "distinct (map snd (uc_handlers c))" "p \<notin> snd ` set (uc_handlers c)" "p \<notin> set (uc_pool c)"
    "snd ` set (uc_handlers c) \<inter> set (uc_pool c) = {}"
    using assms(1,2) by (simp_all add: handles_apart_def private_handle_def used_def)
  have d: "distinct (map snd (uc_handlers c'))"
    unfolding assms(3) using apart by (intro emplace_distinct) simp_all
  have "snd ` set (uc_handlers c') \<inter> set (uc_pool c) = {}" using sub apart by blast
  then have "distinct (used c')"
    using d assms(1,4) by (simp add: handles_apart_def used_def)
  moreover have "set (used c') \<subseteq> insert p (set (used c))" using sub assms(4) by (auto simp: used_def)
  ultimately show "handles_apart c'"
    using assms(1,2,5) by (auto simp: handles_apart_def private_handle_def)
  show "private_handle h c \<Longrightarrow> h \<noteq> p \<Longrightarrow> private_handle h c'"
    using sub assms(4,5) unfolding private_handle_def used_def by auto
qed

lemma handles_for_apart:
  assumes "handles_apart c" and "handles_for held turn users c = Some (hs, c')"
  shows "handles_apart c' \<and> (\<forall>h. private_handle h c \<longrightarrow> private_handle h c' \<and> uc_heap c' h = uc_heap c h)"
  using assms
proof (induction users arbitrary: c hs)
  case (Cons user users)
  show ?case
  proof (cases "map_of (uc_handlers c) (u_id user)")
    case (Some h)
    with Cons show ?thesis by auto
  next
    case None
    with Cons.prems(2) obtain p c1 hs' where f: "getFreeHandle held turn c = Some (p, c1)"
      and r: "handles_for held turn users ((set_handle p user c1)\<lparr>uc_handlers := omap_emplace (u_id user) p (uc_handlers c1)\<rparr>) =
        Some (hs', c')"
      by (auto split: option.splits)
    let ?c = "(set_handle p user c1)\<lparr>uc_handlers := omap_emplace (u_id user) p (uc_handlers c1)\<rparr>"
    note g = getFreeHandle_apart [OF Cons.prems(1) f]
    have fa: "handles_apart ?c" "\<And>h. private_handle h c1 \<Longrightarrow> h \<noteq> p \<Longrightarrow> private_handle h ?c"
      using file_apart [OF g(1,2), of ?c "u_id user"] by simp_all
    have "uc_heap ?c h = uc_heap c1 h" if "h \<noteq> p" for h using that by (simp add: set_handle_heap)
    with Cons.IH [OF fa(1) r] fa(2) g(3) show ?thesis by metis
  qed
qed simp


section \<open>What every event keeps\<close>

lemma get_user_done_apart:
  assumes "handles_apart c" and "get_user_done k res c = Some (p, c')"
  shows "handles_apart c' \<and> (\<forall>h. private_handle h c \<longrightarrow> private_handle h c' \<and> uc_heap c' h = uc_heap c h)"
proof -
  from assms(2) obtain c1 where f: "getFreeHandle True True c = Some (p, c1)"
    and c': "c' = (set_handle p res c1)\<lparr>uc_handlers := omap_emplace k p (uc_handlers c1),
      uc_pending := (uc_pending c1)(k := None)\<rparr>"
    by (auto simp: get_user_done_def split: option.splits)
  note g = getFreeHandle_apart [OF assms(1) f]
  have "handles_apart c'" "\<And>h. private_handle h c1 \<Longrightarrow> h \<noteq> p \<Longrightarrow> private_handle h c'"
    using file_apart [OF g(1,2), of c' k] by (simp_all add: c')
  moreover have "uc_heap c' h = uc_heap c1 h" if "h \<noteq> p" for h using that by (simp add: c' set_handle_heap)
  ultimately show ?thesis using g(3) by metis
qed

lemma apart_frame:
  assumes "uc_handlers c' = uc_handlers c" and "uc_pool c' = uc_pool c" and "uc_next c' = uc_next c"
  shows "handles_apart c' = handles_apart c" and "private_handle h c' = private_handle h c"
  using assms by (simp_all add: handles_apart_def private_handle_def used_def)

lemma on_updateUser_frame:
  assumes "on_updateUser upd c = Some c'"
  shows "uc_handlers c' = uc_handlers c \<and> uc_pool c' = uc_pool c \<and> uc_next c' = uc_next c \<and>
    (\<forall>h. h \<notin> snd ` set (uc_handlers c) \<longrightarrow> uc_heap c' h = uc_heap c h)"
proof (cases "map_of (uc_handlers c) (uu_id upd)")
  case (Some g)
  then have g: "g \<in> snd ` set (uc_handlers c)" by (force dest: map_of_SomeD)
  from Some assms obtain d where "c' = c\<lparr>uc_heap := (uc_heap c)(g := d)\<rparr>"
    by (auto simp: on_updateUser_def Let_def split: option.splits)
  with g show ?thesis by auto
qed (use assms in \<open>simp add: on_updateUser_def\<close>)

lemma private_not_filed: "private_handle h c \<Longrightarrow> h \<notin> snd ` set (uc_handlers c)"
  by (simp add: private_handle_def used_def)

lemma user_step_apart:
  assumes "handles_apart c" and "user_step ev c = Some c'"
  shows "handles_apart c' \<and> (\<forall>h. private_handle h c \<longrightarrow> private_handle h c' \<and> uc_heap c' h = uc_heap c h)"
proof (cases ev)
  case (AskUser fresh k)
  with assms show ?thesis
    by (auto simp: get_user_def apart_frame [of "c\<lparr>uc_pending := q\<rparr>" c for q] split: option.splits)
next
  case (UserAnswered k res)
  with assms get_user_done_apart show ?thesis by auto
next
  case (UsersFound turn users)
  with assms handles_for_apart show ?thesis by (fastforce simp: find_users_done_def)
next
  case (RoomUsersAnswered held turn room users)
  let ?c = "c\<lparr>uc_rooms := (uc_rooms c)(room \<mapsto> uc_nextModel c), uc_nextModel := Suc (uc_nextModel c),
    uc_models := (uc_models c)(uc_nextModel c := new_user_model)\<rparr>"
  from assms(2) RoomUsersAnswered obtain hs c1 q where r: "handles_for held turn users ?c = Some (hs, c1)" "c' = c1\<lparr>uc_models := q\<rparr>"
    by (auto simp: getGroupUsers_done_def Let_def)
  have "handles_apart ?c" using assms(1) by (simp add: apart_frame [of ?c c])
  from handles_for_apart [OF this r(1)] show ?thesis
    by (simp add: r(2) apart_frame [of "c1\<lparr>uc_models := q\<rparr>" c1] apart_frame [of ?c c])
next
  case (UserUpdated upd)
  with on_updateUser_frame [of upd c c'] assms show ?thesis
    by (simp add: apart_frame [of c' c] private_not_filed)
next
  case (UserJoined room k)
  with assms show ?thesis
    by (auto simp: on_addUser_def apart_frame [of "c\<lparr>uc_models := q\<rparr>" c for q] split: option.splits)
next
  case UsersReset
  with assms show ?thesis
    by (auto simp: reset_users_def handles_apart_def private_handle_def used_def)
qed

fun user_run :: "user_event list \<Rightarrow> user_ctrl \<Rightarrow> user_ctrl option" where
  "user_run [] c = Some c"
| "user_run (ev # evs) c = Option.bind (user_step ev c) (user_run evs)"

section \<open>The pool runs out\<close>

fun is_answer :: "user_event \<Rightarrow> bool" where
  "is_answer (UserAnswered k res) = True"
| "is_answer _ = False"

fun asks_or_resets :: "user_event \<Rightarrow> bool" where
  "asks_or_resets (AskUser fresh k) = True"
| "asks_or_resets UsersReset = True"
| "asks_or_resets _ = False"

lemma get_user_done_pool:
  "uc_pool c \<noteq> [] \<Longrightarrow> \<exists>p c'. get_user_done k res c = Some (p, c') \<and> length (uc_pool c') = length (uc_pool c) - 1"
  by (cases "uc_pool c") (auto simp: get_user_done_def getFreeHandle_pool set_handle_def)

lemma user_run_pool:
  assumes "\<forall>ev \<in> set evs. is_answer ev \<or> asks_or_resets ev" and "length (filter is_answer evs) \<le> length (uc_pool c)"
  shows "\<exists>c'. user_run evs c = Some c' \<and> length (uc_pool c') = length (uc_pool c) - length (filter is_answer evs)"
  using assms
proof (induction evs arbitrary: c)
  case (Cons ev evs)
  have rest: "\<forall>ev \<in> set evs. is_answer ev \<or> asks_or_resets ev" using Cons.prems(1) by simp
  show ?case
  proof (cases "is_answer ev")
    case True
    then obtain k res where ev: "ev = UserAnswered k res" by (cases ev) auto
    with Cons.prems(2) have "uc_pool c \<noteq> []" by auto
    from get_user_done_pool [OF this, of k res] obtain p c1 where
      c1: "get_user_done k res c = Some (p, c1)" "length (uc_pool c1) = length (uc_pool c) - 1" by blast
    have "length (filter is_answer evs) \<le> length (uc_pool c1)" using Cons.prems(2) ev c1(2) by simp
    from Cons.IH [OF rest this] c1 ev show ?thesis by auto
  next
    case False
    with Cons.prems(1) have "asks_or_resets ev" by simp
    then obtain c1 where c1: "user_step ev c = Some c1" "uc_pool c1 = uc_pool c"
      by (cases ev) (auto simp: get_user_def reset_users_def split: option.splits)
    then have "length (filter is_answer evs) \<le> length (uc_pool c1)" using Cons.prems(2) False by simp
    from Cons.IH [OF rest this] c1 False show ?thesis by auto
  qed
qed simp

text \<open>
  C40: The pool of handles is never refilled by the answers to \<open>get\<close>, and no \<open>reset\<close> gives handles back: after 256
  answers, in however many sessions, the next answer to a request for a user, as well as the answer to the next login,
  waits for a mutex that its own thread holds.
\<close>

theorem pool_runs_out:
  assumes "\<forall>ev \<in> set evs. is_answer ev \<or> asks_or_resets ev" and "length (filter is_answer evs) = 256"
  shows "\<exists>c. user_run evs new_user_ctrl = Some c \<and>
    (\<forall>k res. user_step (UserAnswered k res) c = None \<and> get_self_done res c = None)"
proof -
  have "length (uc_pool new_user_ctrl) = 256" by (simp add: new_user_ctrl_def grow_pool)
  with user_run_pool [of evs new_user_ctrl] assms obtain c where "user_run evs new_user_ctrl = Some c" "uc_pool c = []"
    by auto
  then show ?thesis by (simp add: get_user_done_def get_self_done_def getFreeHandle_def growHandlePool_def)
qed

theorem pool_runs_out_witness:
  "\<exists>c. user_run (replicate 256 (UserAnswered 7 new_user)) new_user_ctrl = Some c \<and> get_self_done new_user c = None"
  using pool_runs_out [of "replicate 256 (UserAnswered 7 new_user)"] by auto

section \<open>Requests that outlive a session\<close>

text \<open>What files a handle for a user.\<close>

fun files :: "int \<Rightarrow> user_event \<Rightarrow> bool" where
  "files k (UserAnswered j res) = (j = k)"
| "files k (UsersFound turn users) = (k \<in> u_id ` set users)"
| "files k (RoomUsersAnswered held turn room users) = (k \<in> u_id ` set users)"
| "files k _ = False"

lemma getFreeHandle_frame:
  "getFreeHandle held turn c = Some (p, c') \<Longrightarrow> uc_handlers c' = uc_handlers c \<and> uc_pending c' = uc_pending c"
  by (auto simp: pool_grown_def elim!: getFreeHandle_cases)

lemma emplace_keys: "fst ` set (omap_emplace k p xs) = insert k (fst ` set xs)"
  by (rule keys_omap_emplace)

lemma handles_for_frame:
  "handles_for held turn users c = Some (hs, c') \<Longrightarrow> uc_pending c' = uc_pending c \<and>
     fst ` set (uc_handlers c') = fst ` set (uc_handlers c) \<union> u_id ` set users"
proof (induction users arbitrary: c hs)
  case (Cons user users)
  show ?case
  proof (cases "map_of (uc_handlers c) (u_id user)")
    case (Some h)
    then have "u_id user \<in> fst ` set (uc_handlers c)" by (force dest: map_of_SomeD)
    moreover from Some Cons.prems obtain hs' where "handles_for held turn users c = Some (hs', c')" by auto
    ultimately show ?thesis using Cons.IH by (simp add: insert_absorb)
  next
    case None
    with Cons.prems obtain p c1 hs' where f: "getFreeHandle held turn c = Some (p, c1)"
      and r: "handles_for held turn users ((set_handle p user c1)\<lparr>uc_handlers := omap_emplace (u_id user) p (uc_handlers c1)\<rparr>) =
        Some (hs', c')"
      by (auto split: option.splits)
    from Cons.IH [OF r] getFreeHandle_frame [OF f] show ?thesis by (auto simp: emplace_keys set_handle_def)
  qed
qed simp

lemma user_step_pending:
  assumes "uc_pending c k = Some f" and "k \<notin> fst ` set (uc_handlers c)" and "\<not> files k ev" and "user_step ev c = Some c'"
  shows "uc_pending c' k = Some f \<and> k \<notin> fst ` set (uc_handlers c')"
proof (cases ev)
  case (UserAnswered j res)
  with assms(4) obtain p c1 where f: "getFreeHandle True True c = Some (p, c1)"
    and c': "c' = (set_handle p res c1)\<lparr>uc_handlers := omap_emplace j p (uc_handlers c1),
      uc_pending := (uc_pending c1)(j := None)\<rparr>"
    by (auto simp: get_user_done_def split: option.splits)
  from getFreeHandle_frame [OF f] assms(1-3) UserAnswered show ?thesis by (simp add: c' emplace_keys)
next
  case (UsersFound turn users)
  with assms show ?thesis by (auto simp: find_users_done_def dest!: handles_for_frame)
next
  case (RoomUsersAnswered held turn room users)
  let ?c = "c\<lparr>uc_rooms := (uc_rooms c)(room \<mapsto> uc_nextModel c), uc_nextModel := Suc (uc_nextModel c),
    uc_models := (uc_models c)(uc_nextModel c := new_user_model)\<rparr>"
  from assms(4) RoomUsersAnswered obtain hs c1 q where "handles_for held turn users ?c = Some (hs, c1)" "c' = c1\<lparr>uc_models := q\<rparr>"
    by (auto simp: getGroupUsers_done_def Let_def)
  with handles_for_frame [of held turn users ?c hs c1] assms(1-3) RoomUsersAnswered show ?thesis by simp
next
  case (UserUpdated upd)
  with assms show ?thesis by (auto simp: on_updateUser_def Let_def split: option.splits)
qed (use assms in \<open>auto simp: get_user_def on_addUser_def reset_users_def split: option.splits\<close>)

text \<open>
  A request for a user that is never answered, because its connection was lost, blocks that user for good: whatever
  happens afterwards, \<open>reset\<close> and new sessions included, unless the user turns up in a list, asking for the user joins the
  abandoned request and nothing is sent.
\<close>

theorem abandoned_request_is_joined:
  assumes "get_user f k c = (Asked call, c1)" and "\<forall>ev \<in> set evs. \<not> files k ev" and "user_run evs c1 = Some c2"
  shows "get_user g k c2 = (Joined f, c2)"
proof -
  have "uc_pending c1 k = Some f \<and> k \<notin> fst ` set (uc_handlers c1)"
    using assms(1) by (auto simp: get_user_def map_of_None_keys split: option.splits)
  with assms(2,3) have "uc_pending c2 k = Some f \<and> k \<notin> fst ` set (uc_handlers c2)"
  proof (induction evs arbitrary: c1)
    case (Cons ev evs)
    from Cons.prems(2) obtain d where d: "user_step ev c1 = Some d" "user_run evs d = Some c2"
      by (cases "user_step ev c1") simp_all
    with Cons.IH [of d] user_step_pending [of c1 k f ev d] Cons.prems(1,3) show ?case by simp
  qed simp
  then show ?thesis using map_of_None_keys [of "uc_handlers c2" k] by (simp add: get_user_def)
qed

theorem abandoned_request_is_joined_witness:
  "get_user 5 9 (reset_users (snd (get_user 4 9 new_user_ctrl))) = (Joined 4, reset_users (snd (get_user 4 9 new_user_ctrl)))"
  by (rule abandoned_request_is_joined [of 4 9 new_user_ctrl _ _ "[UsersReset]"])
    (simp_all add: get_user_def new_user_ctrl_pool)

end
