(* ===== verification/QmlGlue.thy ===== *)
theory QmlGlue
  imports Session UserSession
begin

text \<open>
  What joins the client to its QML files: the singletons of \<open>app/qmlchatwindow.h\<close>, the part of
  \<open>QmlChatWindow::initialize\<close> that sets them up when the current user has arrived (\<open>app/qmlchatwindow.cpp\<close>), the
  window factory (\<open>app/qmlwindowfactory.cpp\<close>), the profile viewer (\<open>app/qmlprofileviewer.cpp\<close>) and the options of
  \<open>main\<close> (\<open>app/main.cpp\<close>). Objects are addresses; engines are numbered.
\<close>

section \<open>The singletons\<close>

text \<open>A singleton has the address of its object and the engine that asked for it first; \<open>Fatal\<close>: \<open>qCFatal\<close>.\<close>

record singleton =
  wr_instance :: "nat option"
  wr_engine :: "nat option"

datatype created = Fatal | Instance "nat option"

definition wrapper_create :: "nat \<Rightarrow> singleton \<Rightarrow> created \<times> singleton" where
  "wrapper_create engine w =
     (case wr_engine w of
        Some e \<Rightarrow> (if engine = e then Fatal else Instance (wr_instance w), w)
      | None \<Rightarrow> (Instance (wr_instance w), w\<lparr>wr_engine := Some engine\<rparr>))"

record wrappers =
  ws_message :: singleton
  ws_group :: singleton
  ws_call :: singleton
  ws_user :: singleton
  ws_current :: singleton
  ws_camera :: singleton
  ws_output :: singleton
  ws_microphone :: singleton

definition no_singleton :: singleton where
  "no_singleton = \<lparr>wr_instance = None, wr_engine = None\<rparr>"

definition no_wrappers :: wrappers where
  "no_wrappers =
     \<lparr>ws_message = no_singleton, ws_group = no_singleton, ws_call = no_singleton, ws_user = no_singleton, ws_current = no_singleton,
      ws_camera = no_singleton, ws_output = no_singleton, ws_microphone = no_singleton\<rparr>"

definition MessageControllerWrapper_create :: "nat \<Rightarrow> wrappers \<Rightarrow> created \<times> wrappers" where
  "MessageControllerWrapper_create engine ws =
     (let (r, w) = wrapper_create engine (ws_message ws) in (r, ws\<lparr>ws_message := w\<rparr>))"

definition GroupControllerWrapper_create :: "nat \<Rightarrow> wrappers \<Rightarrow> created \<times> wrappers" where
  "GroupControllerWrapper_create engine ws =
     (let (r, w) = wrapper_create engine (ws_group ws) in (r, ws\<lparr>ws_group := w\<rparr>))"

definition CallControllerWrapper_create :: "nat \<Rightarrow> wrappers \<Rightarrow> created \<times> wrappers" where
  "CallControllerWrapper_create engine ws =
     (let (r, w) = wrapper_create engine (ws_call ws) in (r, ws\<lparr>ws_call := w\<rparr>))"

definition UserControllerWrapper_create :: "nat \<Rightarrow> wrappers \<Rightarrow> created \<times> wrappers" where
  "UserControllerWrapper_create engine ws =
     (let (r, w) = wrapper_create engine (ws_user ws) in (r, ws\<lparr>ws_user := w\<rparr>))"

definition CurrentUserWrapper_create :: "nat \<Rightarrow> wrappers \<Rightarrow> created \<times> wrappers" where
  "CurrentUserWrapper_create engine ws =
     (let (r, w) = wrapper_create engine (ws_current ws) in (r, ws\<lparr>ws_current := w\<rparr>))"

definition CameraPipelineWrapper_create :: "nat \<Rightarrow> wrappers \<Rightarrow> created \<times> wrappers" where
  "CameraPipelineWrapper_create engine ws =
     (let (r, w) = wrapper_create engine (ws_camera ws) in (r, ws\<lparr>ws_camera := w\<rparr>))"

definition AudioOutputWrapper_create :: "nat \<Rightarrow> wrappers \<Rightarrow> created \<times> wrappers" where
  "AudioOutputWrapper_create engine ws =
     (let (r, w) = wrapper_create engine (ws_output ws) in (r, ws\<lparr>ws_output := w\<rparr>))"

definition MicrophonePipelineWrapper_create :: "nat \<Rightarrow> wrappers \<Rightarrow> created \<times> wrappers" where
  "MicrophonePipelineWrapper_create engine ws =
     (let (r, w) = wrapper_create engine (ws_microphone ws) in (r, ws\<lparr>ws_microphone := w\<rparr>))"

section \<open>The current user has arrived\<close>

text \<open>The addresses of the four controllers of a manager.\<close>

record controllers =
  ct_message :: nat
  ct_group :: nat
  ct_call :: nat
  ct_user :: nat

text \<open>\<open>gl_next\<close> is the next free address for a pipeline.\<close>

record glue =
  gl_wrappers :: wrappers
  gl_users :: user_ctrl
  gl_next :: nat

definition current_instance :: "glue \<Rightarrow> nat option" where
  "current_instance g = wr_instance (ws_current (gl_wrappers g))"

text \<open>The handle that QML shows is set once; later ones are copied into it.\<close>

definition setup_current :: "nat \<Rightarrow> glue \<Rightarrow> glue" where
  "setup_current h g =
     (case current_instance g of
        None \<Rightarrow> g\<lparr>gl_wrappers := (gl_wrappers g)\<lparr>ws_current := (ws_current (gl_wrappers g))\<lparr>wr_instance := Some h\<rparr>\<rparr>\<rparr>
      | Some i \<Rightarrow> g\<lparr>gl_users := set_handle i (uc_heap (gl_users g) h) (gl_users g)\<rparr>)"

definition setup_controllers :: "controllers \<Rightarrow> wrappers \<Rightarrow> wrappers" where
  "setup_controllers m ws =
     ws\<lparr>ws_user := (ws_user ws)\<lparr>wr_instance := Some (ct_user m)\<rparr>,
        ws_call := (ws_call ws)\<lparr>wr_instance := Some (ct_call m)\<rparr>,
        ws_group := (ws_group ws)\<lparr>wr_instance := Some (ct_group m)\<rparr>,
        ws_message := (ws_message ws)\<lparr>wr_instance := Some (ct_message m)\<rparr>\<rparr>"

definition setup_pipelines :: "glue \<Rightarrow> glue" where
  "setup_pipelines g =
     (let ws = gl_wrappers g; n = gl_next g;
          (ws, n) = (case wr_instance (ws_camera ws) of
                       None \<Rightarrow> (ws\<lparr>ws_camera := (ws_camera ws)\<lparr>wr_instance := Some n\<rparr>\<rparr>, Suc n)
                     | Some _ \<Rightarrow> (ws, n));
          (ws, n) = (case wr_instance (ws_microphone ws) of
                       None \<Rightarrow> (ws\<lparr>ws_microphone := (ws_microphone ws)\<lparr>wr_instance := Some n\<rparr>\<rparr>, Suc n)
                     | Some _ \<Rightarrow> (ws, n))
      in g\<lparr>gl_wrappers := ws, gl_next := n\<rparr>)"

definition user_received :: "controllers \<Rightarrow> nat \<Rightarrow> glue \<Rightarrow> glue" where
  "user_received m h g =
     (let g = setup_current h g in
      setup_pipelines (g\<lparr>gl_wrappers := setup_controllers m (gl_wrappers g)\<rparr>))"

section \<open>The window factory, the profile viewer and main\<close>

text \<open>A startup window; \<open>loaded\<close>: the component gives a window. What is logged for one that failed is its \<open>errorString\<close>.\<close>

record qml_startup =
  qs_startup :: startup_window
  qs_window :: bool
  qs_error :: string
  qs_hasError :: bool

definition new_qml_startup :: "bool \<Rightarrow> string \<Rightarrow> qml_startup" where
  "new_qml_startup loaded err =
     (if loaded then \<lparr>qs_startup = new_startup, qs_window = True, qs_error = [], qs_hasError = False\<rparr>
      else \<lparr>qs_startup = new_startup, qs_window = False, qs_error = err, qs_hasError = True\<rparr>)"

definition createStartupWindow :: "bool \<Rightarrow> string \<Rightarrow> string option \<times> qml_startup option" where
  "createStartupWindow loaded err =
     (let w = new_qml_startup loaded err in
      if qs_hasError w then (Some (''Cannot create startup window: '' @ sw_error (qs_startup w)), None)
      else (None, Some w))"

definition factory_createChatWindow :: "chat_window option" where
  "factory_createChatWindow = (let w = new_chat in if cw_hasError w then None else Some w)"

text \<open>The chat window of \<open>App\<close>; \<open>factory\<close> and \<open>manager\<close> say whether there are any.\<close>

definition app_createChatWindow :: "bool \<Rightarrow> bool \<Rightarrow> chat_window option" where
  "app_createChatWindow factory manager = (if \<not> factory \<or> \<not> manager then None else factory_createChatWindow)"

text \<open>The viewer: the profile is shown by the view, if there is one.\<close>

definition showProfile :: "nat \<Rightarrow> nat option \<Rightarrow> (nat \<times> nat) option" where
  "showProfile h vw = (case vw of None \<Rightarrow> None | Some v \<Rightarrow> Some (v, h))"

definition setView :: "nat option \<Rightarrow> nat option \<Rightarrow> bool \<times> nat option" where
  "setView other vw = (if vw = other then (False, vw) else (True, other))"

text \<open>Host and port from the command line; \<open>toInt\<close> is \<open>QString::toInt\<close>.\<close>

definition main_options :: "(string \<Rightarrow> int) \<Rightarrow> string option \<Rightarrow> string option \<Rightarrow> string \<times> int" where
  "main_options toInt host port = (or_default ''5.35.124.43'' host, toInt (or_default ''8000'' port))"


section \<open>The life of the client\<close>

text \<open>What happens to the user directory, and logins: the answer with the current user, and its continuation.\<close>

datatype glue_event = Users user_event | LoggedIn user_data

fun glue_step :: "controllers \<Rightarrow> glue_event \<Rightarrow> glue \<Rightarrow> glue option" where
  "glue_step m (Users ev) g = map_option (\<lambda>c. g\<lparr>gl_users := c\<rparr>) (user_step ev (gl_users g))"
| "glue_step m (LoggedIn res) g =
     map_option (\<lambda>(h, c). user_received m h (g\<lparr>gl_users := c\<rparr>)) (get_self_done res (gl_users g))"

fun glue_run :: "controllers \<Rightarrow> glue_event list \<Rightarrow> glue \<Rightarrow> glue option" where
  "glue_run m [] g = Some g"
| "glue_run m (ev # evs) g = Option.bind (glue_step m ev g) (glue_run m evs)"

fun logins :: "glue_event list \<Rightarrow> user_data list" where
  "logins [] = []"
| "logins (LoggedIn res # evs) = res # logins evs"
| "logins (Users ev # evs) = logins evs"

definition new_glue :: glue where
  "new_glue = \<lparr>gl_wrappers = no_wrappers, gl_users = new_user_ctrl, gl_next = 0\<rparr>"

text \<open>The handle that QML shows, when there is one, is private and has the data of the last login.\<close>

definition shows_login :: "user_data list \<Rightarrow> glue \<Rightarrow> bool" where
  "shows_login us g \<longleftrightarrow> handles_apart (gl_users g) \<and>
     (case current_instance g of
        None \<Rightarrow> us = []
      | Some i \<Rightarrow> us \<noteq> [] \<and> private_handle i (gl_users g) \<and> uc_heap (gl_users g) i = last us)"

lemma setup_rest [simp]:
  "current_instance (setup_pipelines g) = current_instance g" "gl_users (setup_pipelines g) = gl_users g"
  "current_instance (g\<lparr>gl_wrappers := setup_controllers m (gl_wrappers g)\<rparr>) = current_instance g"
  by (auto simp: setup_pipelines_def setup_controllers_def current_instance_def Let_def split: option.splits)

lemma login_step:
  assumes "shows_login us g" and "glue_step m (LoggedIn res) g = Some g'"
  shows "shows_login (us @ [res]) g' \<and> (\<forall>i. current_instance g = Some i \<longrightarrow> current_instance g' = Some i)"
proof -
  from assms(2) obtain h c1 where f: "getFreeHandle True True (gl_users g) = Some (h, c1)"
    and g': "g' = user_received m h (g\<lparr>gl_users := set_handle h res c1\<rparr>)"
    by (auto simp: get_self_done_def)
  have ap: "handles_apart (gl_users g)" using assms(1) by (simp add: shows_login_def)
  note p = getFreeHandle_apart [OF ap f]
  have fr: "handles_apart (set_handle k d c1)" "private_handle x (set_handle k d c1) = private_handle x c1" for k x d
    using p(1) by (simp_all add: handles_apart_def private_handle_def)
  have fr2: "handles_apart (set_handle j e (set_handle k d c1))"
    "private_handle x (set_handle j e (set_handle k d c1)) = private_handle x c1" for j e k x d
    using p(1) by (simp_all add: handles_apart_def private_handle_def)
  show ?thesis
  proof (cases "current_instance g")
    case None
    then have "current_instance g' = Some h" "gl_users g' = set_handle h res c1"
      by (simp_all add: g' user_received_def setup_current_def current_instance_def Let_def
          setup_pipelines_def setup_controllers_def split: option.splits)
    with None p(2) fr show ?thesis by (simp add: shows_login_def set_handle_heap)
  next
    case (Some i)
    with assms(1) have "private_handle i (gl_users g)" by (simp add: shows_login_def)
    with p(3) have i: "i \<noteq> h" "private_handle i c1" by blast+
    have "current_instance g' = Some i" "gl_users g' = set_handle i res (set_handle h res c1)"
      using Some by (simp_all add: g' user_received_def setup_current_def current_instance_def Let_def
          setup_pipelines_def setup_controllers_def set_handle_heap split: option.splits)
    with Some i fr2 show ?thesis by (simp add: shows_login_def set_handle_heap)
  qed
qed

lemma users_step:
  assumes "shows_login us g" and "glue_step m (Users ev) g = Some g'"
  shows "shows_login us g' \<and> current_instance g' = current_instance g"
proof -
  from assms(2) obtain c where c: "user_step ev (gl_users g) = Some c" "g' = g\<lparr>gl_users := c\<rparr>" by auto
  have "handles_apart (gl_users g)" using assms(1) by (simp add: shows_login_def)
  from user_step_apart [OF this c(1)] assms(1) show ?thesis
    by (auto simp: c(2) shows_login_def current_instance_def split: option.splits)
qed

lemma glue_run_shows:
  "glue_run m evs g = Some g' \<Longrightarrow> shows_login us g \<Longrightarrow>
     shows_login (us @ logins evs) g' \<and> (\<forall>i. current_instance g = Some i \<longrightarrow> current_instance g' = Some i)"
proof (induction evs arbitrary: g us)
  case (Cons ev evs)
  from Cons.prems(1) obtain g1 where g1: "glue_step m ev g = Some g1" "glue_run m evs g1 = Some g'"
    by (cases "glue_step m ev g") simp_all
  show ?case
  proof (cases ev)
    case (Users uev)
    with users_step [OF Cons.prems(2), of m uev g1] g1 Cons.IH [OF g1(2), of us] show ?thesis by simp
  next
    case (LoggedIn res)
    with login_step [OF Cons.prems(2), of m res g1] g1 Cons.IH [OF g1(2), of "us @ [res]"] show ?thesis by auto
  qed
qed simp

lemma new_glue_shows: "shows_login [] new_glue"
proof -
  have "handles_apart new_user_ctrl"
    unfolding new_user_ctrl_def by (rule grow_apart) (simp add: handles_apart_def used_def)
  then show ?thesis by (simp add: shows_login_def new_glue_def current_instance_def no_wrappers_def no_singleton_def)
qed

text \<open>
  C31: The object that QML holds as the current user is set at the first login and stays the same in every later session,
  and after any further events it has exactly the data that the server gave for the last login, in no list of users and
  never given to another user. So what QML fetched once is right after the next login; but an update of the server for the
  current user never reaches it.
\<close>

theorem current_user_of_last_login:
  assumes "glue_run m evs new_glue = Some g" and "logins evs \<noteq> []" and "glue_run m evs' g = Some g'"
  shows "\<exists>i. current_instance g = Some i \<and> current_instance g' = Some i \<and>
    uc_heap (gl_users g') i = last (logins evs @ logins evs') \<and> i \<notin> snd ` set (uc_handlers (gl_users g'))"
proof -
  have s: "shows_login (logins evs) g" using glue_run_shows [OF assms(1) new_glue_shows] by simp
  then obtain i where i: "current_instance g = Some i"
    using assms(2) by (auto simp: shows_login_def split: option.splits)
  with glue_run_shows [OF assms(3) s] have "shows_login (logins evs @ logins evs') g'" "current_instance g' = Some i"
    by simp_all
  with i private_not_filed [of i "gl_users g'"] show ?thesis by (simp add: shows_login_def)
qed

lemma user_received_pool: "uc_pool (gl_users (user_received m h g)) = uc_pool (gl_users g)"
  by (simp add: user_received_def setup_current_def Let_def split: option.split)

lemma login_pool:
  "uc_pool (gl_users g) \<noteq> [] \<Longrightarrow>
     \<exists>g'. glue_step m (LoggedIn res) g = Some g' \<and> uc_pool (gl_users g') = tl (uc_pool (gl_users g))"
  by (cases "uc_pool (gl_users g)") (simp_all add: get_self_done_def getFreeHandle_pool user_received_pool)

definition example_controllers :: controllers where
  "example_controllers = \<lparr>ct_message = 1, ct_group = 2, ct_call = 3, ct_user = 4\<rparr>"

theorem current_user_of_last_login_witness:
  "\<exists>i g'. glue_run example_controllers [LoggedIn (new_user\<lparr>u_id := 3\<rparr>), Users UsersReset, LoggedIn (new_user\<lparr>u_id := 8\<rparr>)]
      new_glue = Some g' \<and> current_instance g' = Some i \<and> u_id (uc_heap (gl_users g') i) = 8"
proof -
  let ?evs = "[LoggedIn (new_user\<lparr>u_id := 3\<rparr>), Users UsersReset]" and ?evs' = "[LoggedIn (new_user\<lparr>u_id := 8\<rparr>)]"
  have pool: "length (uc_pool (gl_users new_glue)) = 256" by (simp add: new_glue_def new_user_ctrl_def grow_pool)
  obtain g1 where g1: "glue_step example_controllers (LoggedIn (new_user\<lparr>u_id := 3\<rparr>)) new_glue = Some g1"
    "length (uc_pool (gl_users g1)) = 255"
    using login_pool [of new_glue example_controllers "new_user\<lparr>u_id := 3\<rparr>"] pool by fastforce
  define g2 where "g2 = g1\<lparr>gl_users := reset_users (gl_users g1)\<rparr>"
  have "uc_pool (gl_users g2) \<noteq> []" using g1(2) by (auto simp: g2_def reset_users_def)
  then obtain g3 where g3: "glue_step example_controllers (LoggedIn (new_user\<lparr>u_id := 8\<rparr>)) g2 = Some g3"
    using login_pool by blast
  have r1: "glue_run example_controllers ?evs new_glue = Some g2" using g1(1) by (simp add: g2_def del: glue_step.simps(2))
  have r2: "glue_run example_controllers ?evs' g2 = Some g3" using g3 by (simp del: glue_step.simps(2))
  have "glue_run example_controllers (?evs @ ?evs') new_glue = Some g3"
    using g1(1) g3 by (simp add: g2_def del: glue_step.simps(2))
  moreover have "logins ?evs \<noteq> []" by simp
  ultimately show ?thesis using current_user_of_last_login [OF r1 _ r2] by auto
qed

section \<open>Singletons and windows\<close>

text \<open>
  The check of the engine is the wrong way round: the engine that asked first is fatal when it asks again, another one gets
  the object without notice. Qt asks once per engine and type, so the check never does anything.
\<close>

lemma wrapper_check_inverted:
  "wrapper_create e \<lparr>wr_instance = p, wr_engine = None\<rparr> = (Instance p, \<lparr>wr_instance = p, wr_engine = Some e\<rparr>)"
  "fst (wrapper_create e \<lparr>wr_instance = p, wr_engine = Some e\<rparr>) = Fatal"
  "e' \<noteq> e \<Longrightarrow> fst (wrapper_create e' \<lparr>wr_instance = p, wr_engine = Some e\<rparr>) = Instance p"
  by (simp_all add: wrapper_create_def)

text \<open>A login never fails for want of a chat window; a startup window that fails is logged without its error.\<close>

lemma chat_window_always_made: "app_createChatWindow True True = Some new_chat"
  by (simp add: app_createChatWindow_def factory_createChatWindow_def new_chat_def)

lemma startup_error_not_logged:
  "createStartupWindow False err = (Some ''Cannot create startup window: '', None)"
  by (simp add: createStartupWindow_def new_qml_startup_def new_startup_def)

end
