(* ===== verification/MutexOrder.thy ===== *)
theory MutexOrder
  imports Prelude
begin

text \<open>
  Threads that take and release mutexes (\<open>std::mutex\<close>, which is not recursive), each as the sequence of its locks, in
  any interleaving; and the rule that keeps them from waiting for each other: the mutexes have ranks, and a thread takes
  only a mutex of higher rank than those it holds.
\<close>

section \<open>Threads and mutexes\<close>

datatype 'm instr = Lock 'm | Unlock 'm

text \<open>A thread: the mutexes it holds and what it still has to do.\<close>

type_synonym 'm thread = "'m list \<times> 'm instr list"

definition mutex_free :: "'m \<Rightarrow> 'm thread list \<Rightarrow> bool" where
  "mutex_free m ts \<longleftrightarrow> (\<forall>t \<in> set ts. m \<notin> set (fst t))"

fun thread_step :: "'m thread list \<Rightarrow> 'm thread \<Rightarrow> 'm thread option" where
  "thread_step ts (held, []) = None"
| "thread_step ts (held, Lock m # p) = (if mutex_free m ts then Some (m # held, p) else None)"
| "thread_step ts (held, Unlock m # p) = Some (remove1 m held, p)"

definition mutex_moves :: "'m thread list \<Rightarrow> 'm thread list list" where
  "mutex_moves ts =
     concat (map (\<lambda>i. case thread_step ts (ts ! i) of None \<Rightarrow> [] | Some t \<Rightarrow> [ts[i := t]]) [0..<length ts])"

inductive mutex_run :: "'m thread list \<Rightarrow> 'm thread list \<Rightarrow> bool" for ts where
  run_start: "mutex_run ts ts"
| run_move: "mutex_run ts us \<Longrightarrow> vs \<in> set (mutex_moves us) \<Longrightarrow> mutex_run ts vs"

definition threads :: "'m instr list list \<Rightarrow> 'm thread list" where
  "threads ps = map (\<lambda>p. ([], p)) ps"

definition work_left :: "'m thread list \<Rightarrow> nat" where
  "work_left ts = sum_list (map (\<lambda>t. length (snd t)) ts)"

lemma mutex_moves_iff:
  "vs \<in> set (mutex_moves ts) \<longleftrightarrow> (\<exists>i < length ts. \<exists>t. thread_step ts (ts ! i) = Some t \<and> vs = ts[i := t])"
  by (force simp: mutex_moves_def split: option.splits)

lemma stuck_iff: "mutex_moves ts = [] \<longleftrightarrow> (\<forall>t \<in> set ts. thread_step ts t = None)"
proof -
  have "(\<forall>i < length ts. thread_step ts (ts ! i) = None) \<longleftrightarrow> mutex_moves ts = []"
    by (auto simp: mutex_moves_def not_Some_eq [symmetric] simp del: not_Some_eq split: option.splits)
  then show ?thesis by (simp add: all_set_conv_all_nth)
qed

lemma thread_step_length: "thread_step ts t = Some t' \<Longrightarrow> length (snd t) = Suc (length (snd t'))"
  by (cases "(ts, t)" rule: thread_step.cases) (auto split: if_splits)

text \<open>Every move uses up an instruction, so every run ends.\<close>

lemma work_left_decreases: "vs \<in> set (mutex_moves ts) \<Longrightarrow> work_left ts = Suc (work_left vs)"
proof -
  assume "vs \<in> set (mutex_moves ts)"
  then obtain i t where i: "i < length ts" "thread_step ts (ts ! i) = Some t" "vs = ts[i := t]"
    by (auto simp: mutex_moves_iff)
  have "ts = take i ts @ ts ! i # drop (Suc i) ts" using i(1) by (rule id_take_nth_drop)
  then have "work_left ts = work_left (take i ts) + length (snd (ts ! i)) + work_left (drop (Suc i) ts)"
    by (metis (no_types, lifting) work_left_def add.assoc list.simps(9) map_append sum_list.Cons sum_list_append)
  moreover have "work_left vs = work_left (take i ts) + length (snd t) + work_left (drop (Suc i) ts)"
    using i(1) by (simp add: i(3) work_left_def upd_conv_take_nth_drop)
  ultimately show ?thesis using thread_step_length [OF i(2)] by simp
qed

section \<open>Ranks\<close>

fun follows :: "('m \<Rightarrow> nat) \<Rightarrow> 'm list \<Rightarrow> 'm instr list \<Rightarrow> bool" where
  "follows rank held [] \<longleftrightarrow> held = []"
| "follows rank held (Lock m # p) \<longleftrightarrow> (\<forall>x \<in> set held. rank x < rank m) \<and> follows rank (m # held) p"
| "follows rank held (Unlock m # p) \<longleftrightarrow> m \<in> set held \<and> follows rank (remove1 m held) p"

lemma follows_step:
  "follows rank (fst t) (snd t) \<Longrightarrow> thread_step ts t = Some t' \<Longrightarrow> follows rank (fst t') (snd t')"
  by (cases "(ts, t)" rule: thread_step.cases) (auto split: if_splits)

lemma follows_ended: "follows rank (fst t) (snd t) \<Longrightarrow> snd t = [] \<Longrightarrow> fst t = []"
  by simp

text \<open>One round of one mutex after another, as most functions of the client have it.\<close>

lemma follows_append:
  "follows rank held p \<Longrightarrow> follows rank [] q \<Longrightarrow> follows rank held (p @ q)"
  by (induction rank held p rule: follows.induct) auto

locale lock_hierarchy =
  fixes rank :: "'m \<Rightarrow> nat"
    and programs :: "'m instr list set"
  assumes ranked: "p \<in> programs \<Longrightarrow> follows rank [] p"
begin

lemma run_follows:
  assumes "mutex_run (threads ps) ts" and "set ps \<subseteq> programs"
  shows "\<forall>t \<in> set ts. follows rank (fst t) (snd t)"
  using assms(1)
proof (induction rule: mutex_run.induct)
  case run_start
  then show ?case using assms(2) ranked by (auto simp: threads_def)
next
  case (run_move us vs)
  from run_move.hyps(2) obtain i t where i: "i < length us" "thread_step us (us ! i) = Some t" "vs = us[i := t]"
    by (auto simp: mutex_moves_iff)
  then have "follows rank (fst t) (snd t)" using run_move.IH follows_step by (metis nth_mem)
  with run_move.IH i show ?case by (auto dest: set_update_subset_insert [THEN subsetD])
qed

text \<open>Threads that cannot go on are done: the one that waits for the mutex of highest rank waits for a thread that goes on.\<close>

lemma stuck_done:
  assumes "mutex_run (threads ps) ts" and "set ps \<subseteq> programs" and "mutex_moves ts = []"
  shows "\<forall>t \<in> set ts. t = ([], [])"
proof (rule ccontr)
  have f: "\<forall>t \<in> set ts. follows rank (fst t) (snd t)" by (rule run_follows [OF assms(1,2)])
  have s: "\<forall>t \<in> set ts. thread_step ts t = None" using assms(3) by (simp add: stuck_iff)
  define W where "W = {m. \<exists>h p. (h, Lock m # p) \<in> set ts}"
  have waits: "\<exists>m \<in> W. (\<exists>p. snd t = Lock m # p) \<and> \<not> mutex_free m ts" if "t \<in> set ts" "snd t \<noteq> []" for t
  proof -
    from s that(1) have "thread_step ts t = None" by blast
    with that obtain h m p where "t = (h, Lock m # p)" "\<not> mutex_free m ts"
      by (cases "(ts, t)" rule: thread_step.cases) (auto split: if_splits)
    with that(1) show ?thesis by (auto simp: W_def)
  qed
  have "W \<subseteq> (\<lambda>t. case snd t of Lock m # _ \<Rightarrow> m | Unlock m # _ \<Rightarrow> m) ` set ts"
    by (force simp: W_def)
  then have fin: "finite W" by (rule finite_subset) simp
  assume "\<not> ?thesis"
  then obtain t0 where "t0 \<in> set ts" "t0 \<noteq> ([], [])" by blast
  moreover from this f follows_ended have "snd t0 \<noteq> []" by (metis prod.collapse)
  ultimately have "W \<noteq> {}" using waits by blast
  with fin have "Max (rank ` W) \<in> rank ` W" by (intro Max_in) auto
  then obtain m where "m \<in> W" "rank m = Max (rank ` W)" by auto
  with fin have m: "m \<in> W" "\<And>x. x \<in> W \<Longrightarrow> rank x \<le> rank m" by auto
  from m(1) waits obtain t1 where t1: "t1 \<in> set ts" "m \<in> set (fst t1)"
    by (force simp: W_def mutex_free_def)
  with f follows_ended have "snd t1 \<noteq> []" by (metis empty_iff list.set(1))
  with waits t1(1) obtain m2 p where m2: "m2 \<in> W" "snd t1 = Lock m2 # p" by blast
  with f t1 have "rank m < rank m2" by (metis follows.simps(2))
  with m(2) [OF m2(1)] show False by simp
qed

end

end
