(* ===== verification/CallLocks.thy ===== *)
theory CallLocks
  imports MutexOrder
begin

text \<open>
  The mutexes of \<open>Call::Controller\<close> (\<open>lib/network/controllers/callcontroller.cpp\<close>) and the order in which its functions
  take them, with the mutexes of the coordinator, which every request takes (\<open>lib/network/networkcoordinator.cpp\<close>), and
  of the wrapper, which is held while a message of the server is handled and its continuations run
  (\<open>lib/network/serverrpcwrapper.cpp\<close>). What runs where: the handler of joins, and what is started with
  \<open>QtConcurrent::run\<close>, on a thread of its own; a continuation without context on the thread that handles the message;
  one with context on the thread of the controller. The coordinator's mutex is also taken for the number of the current user. The mutexes
  of the RTC service are taken after those of the controller, with at most that of the coordinator after them; they are left out.
\<close>

section \<open>What each function locks\<close>

datatype call_mutex = HandlesMutex | VideoMutex | AudioMutex | CoordinatorMutex | WrapperMutex

definition locked :: "'m \<Rightarrow> 'm instr list \<Rightarrow> 'm instr list" where
  "locked m p = Lock m # p @ [Unlock m]"

definition request_locks :: "call_mutex instr list" where
  "request_locks = locked CoordinatorMutex []"

text \<open>\<open>currentUser()\<close>.\<close>

definition user_locks :: "call_mutex instr list" where
  "user_locks = locked CoordinatorMutex []"

text \<open>\<open>fresh\<close>: the room has no handle yet, so its participants are asked for.\<close>

definition handle_locks :: "bool \<Rightarrow> call_mutex instr list" where
  "handle_locks fresh = locked HandlesMutex (if fresh then request_locks else [])"

definition join_received_locks :: "bool \<Rightarrow> bool \<Rightarrow> bool \<Rightarrow> call_mutex instr list" where
  "join_received_locks fresh video audio =
     handle_locks fresh @
     locked HandlesMutex (user_locks @ (if video then locked VideoMutex [] else []) @ (if audio then locked AudioMutex [] else []))"

text \<open>The user that joins is listed already.\<close>

definition listed_join_locks :: "bool \<Rightarrow> call_mutex instr list" where
  "listed_join_locks fresh = handle_locks fresh @ locked HandlesMutex []"

definition media_received_locks :: "bool \<Rightarrow> call_mutex instr list" where
  "media_received_locks fresh = locked WrapperMutex (handle_locks fresh @ locked HandlesMutex [])"

definition leave_received_locks :: "call_mutex instr list" where
  "leave_received_locks = locked VideoMutex [] @ locked HandlesMutex []"

definition connect_sink_locks :: "call_mutex instr list" where
  "connect_sink_locks = locked VideoMutex user_locks"

definition clear_media_locks :: "call_mutex instr list" where
  "clear_media_locks = locked AudioMutex [] @ locked VideoMutex []"

definition disconnect_locks :: "bool \<Rightarrow> call_mutex instr list" where
  "disconnect_locks inside = locked HandlesMutex [] @ (if inside then clear_media_locks @ request_locks else [])"

definition disconnect_answered_locks :: "call_mutex instr list" where
  "disconnect_answered_locks = locked WrapperMutex (locked HandlesMutex user_locks)"

text \<open>Closing asks for the current user in \<open>setAudio\<close> or \<open>setVideo\<close> and for the loop over the participants.\<close>

definition close_audio_locks :: "call_mutex instr list" where
  "close_audio_locks = locked AudioMutex [] @ locked HandlesMutex (user_locks @ user_locks) @ request_locks"

definition close_video_locks :: "call_mutex instr list" where
  "close_video_locks = locked VideoMutex [] @ locked HandlesMutex (user_locks @ user_locks) @ request_locks"

text \<open>Joining asks for the current user once per participant and once for the own row.\<close>

definition join_locks :: "nat \<Rightarrow> call_mutex instr list" where
  "join_locks n = locked HandlesMutex [] @ request_locks @ locked HandlesMutex (concat (replicate (Suc n) user_locks))"

definition open_video_locks :: "call_mutex instr list" where
  "open_video_locks = user_locks @ locked VideoMutex [] @ locked HandlesMutex user_locks @ request_locks"

definition open_audio_locks :: "call_mutex instr list" where
  "open_audio_locks = user_locks @ locked AudioMutex [] @ locked HandlesMutex user_locks @ request_locks"

text \<open>\<open>src\<close>: the stream is still open when the server answers.\<close>

definition video_answered_locks :: "bool \<Rightarrow> call_mutex instr list" where
  "video_answered_locks src = locked WrapperMutex (locked VideoMutex (if src then locked HandlesMutex [] else []))"

definition audio_answered_locks :: "bool \<Rightarrow> call_mutex instr list" where
  "audio_answered_locks src = locked WrapperMutex (locked AudioMutex (if src then locked HandlesMutex [] else []))"

text \<open>Releasing a handle, and the answer with the participants of a room.\<close>

definition short_locks :: "call_mutex instr list" where
  "short_locks = locked HandlesMutex []"

text \<open>Asking a handle for its media.\<close>

definition has_media_locks :: "call_mutex instr list" where
  "has_media_locks = locked HandlesMutex user_locks"

definition reset_locks :: "bool \<Rightarrow> bool \<Rightarrow> call_mutex instr list" where
  "reset_locks active inside = (if active then disconnect_locks inside else []) @ locked HandlesMutex []"

text \<open>A round of the network thread; while it connects it holds the mutex of the coordinator.\<close>

definition network_round_locks :: "bool \<Rightarrow> call_mutex instr list" where
  "network_round_locks connects = locked CoordinatorMutex (if connects then locked WrapperMutex [] else [])"

section \<open>Two orders\<close>

text \<open>What takes the mutexes of the streams alone or last, and what takes them alone or first.\<close>

definition common_programs :: "call_mutex instr list set" where
  "common_programs =
     range handle_locks \<union> range media_received_locks \<union> range disconnect_locks \<union>
     {reset_locks a i | a i. True} \<union> range listed_join_locks \<union> range join_locks \<union> {network_round_locks False} \<union>
     {request_locks, user_locks, leave_received_locks, connect_sink_locks, clear_media_locks, disconnect_answered_locks,
      close_audio_locks, close_video_locks, open_video_locks, open_audio_locks, short_locks, has_media_locks}"

definition join_programs :: "call_mutex instr list set" where
  "join_programs = common_programs \<union> {join_received_locks n v a | n v a. True}"

definition answer_programs :: "call_mutex instr list set" where
  "answer_programs =
     common_programs \<union> {join_received_locks n False False | n. True} \<union> range video_answered_locks \<union>
     range audio_answered_locks"

definition join_rank :: "call_mutex \<Rightarrow> nat" where
  "join_rank m =
     (case m of WrapperMutex \<Rightarrow> 0 | HandlesMutex \<Rightarrow> 1 | VideoMutex \<Rightarrow> 2 | AudioMutex \<Rightarrow> 3 | CoordinatorMutex \<Rightarrow> 4)"

definition answer_rank :: "call_mutex \<Rightarrow> nat" where
  "answer_rank m =
     (case m of WrapperMutex \<Rightarrow> 0 | VideoMutex \<Rightarrow> 1 | AudioMutex \<Rightarrow> 2 | HandlesMutex \<Rightarrow> 3 | CoordinatorMutex \<Rightarrow> 4)"

lemmas lock_programs =
  locked_def request_locks_def user_locks_def handle_locks_def join_received_locks_def listed_join_locks_def media_received_locks_def leave_received_locks_def
  connect_sink_locks_def clear_media_locks_def disconnect_locks_def disconnect_answered_locks_def close_audio_locks_def
  close_video_locks_def join_locks_def open_video_locks_def open_audio_locks_def video_answered_locks_def
  audio_answered_locks_def short_locks_def has_media_locks_def reset_locks_def network_round_locks_def

lemma users_ranked:
  "follows rank [HandlesMutex] (concat (replicate n user_locks) @ p) \<longleftrightarrow>
     (n = 0 \<or> rank HandlesMutex < rank CoordinatorMutex) \<and> follows rank [HandlesMutex] p"
  by (induction n) (auto simp: user_locks_def locked_def)

lemma common_ranked:
  "p \<in> common_programs \<Longrightarrow> follows join_rank [] p"
  "p \<in> common_programs \<Longrightarrow> follows answer_rank [] p"
  by (auto simp: common_programs_def lock_programs join_rank_def answer_rank_def
      users_ranked [unfolded lock_programs append.simps])

interpretation joins: lock_hierarchy join_rank join_programs
  by unfold_locales (auto simp: join_programs_def common_ranked lock_programs join_rank_def)

interpretation answers: lock_hierarchy answer_rank answer_programs
  by unfold_locales (auto simp: answer_programs_def common_ranked lock_programs answer_rank_def)

text \<open>
  C13: The threads of the call controller never wait for each other for good, however many there are and however they are
  interleaved, as long as the network stays connected (the network thread does not connect) and no answer about the own camera or
  microphone comes together with the join of another user while they are on: when no thread can go on, every one has
  ended and given back its mutexes.
\<close>

theorem call_threads_end:
  assumes "set ps \<subseteq> join_programs \<or> set ps \<subseteq> answer_programs"
    and "mutex_run (threads ps) ts" and "mutex_moves ts = []"
  shows "\<forall>t \<in> set ts. t = ([], [])"
  using assms joins.stuck_done [of ps ts] answers.stuck_done [of ps ts] by blast

text \<open>One thread that connects a view.\<close>

lemma sink_run:
  "mutex_run (threads [connect_sink_locks]) [([], [])]" "mutex_moves [([] :: call_mutex list, [])] = []"
proof -
  let ?ps = "threads [connect_sink_locks]"
  note step = run_move [where ts = ?ps] and moves = mutex_moves_def mutex_free_def
  have "mutex_run ?ps [([], [Lock VideoMutex, Lock CoordinatorMutex, Unlock CoordinatorMutex, Unlock VideoMutex])]"
    using run_start [of ?ps] by (simp add: threads_def lock_programs)
  then have "mutex_run ?ps [([VideoMutex], [Lock CoordinatorMutex, Unlock CoordinatorMutex, Unlock VideoMutex])]"
    by (rule step) (simp add: moves)
  then have "mutex_run ?ps [([CoordinatorMutex, VideoMutex], [Unlock CoordinatorMutex, Unlock VideoMutex])]"
    by (rule step) (simp add: moves)
  then have "mutex_run ?ps [([VideoMutex], [Unlock VideoMutex])]" by (rule step) (simp add: moves)
  then show "mutex_run ?ps [([], [])]" by (rule step) (simp add: moves)
  show "mutex_moves [([] :: call_mutex list, [])] = []" by (simp add: stuck_iff)
qed

theorem call_threads_end_witness:
  "mutex_run (threads [connect_sink_locks]) [([], [])] \<and> list_all (\<lambda>t. (t :: call_mutex thread) = ([], [])) [([], [])]"
proof -
  have "set [connect_sink_locks] \<subseteq> join_programs \<or> set [connect_sink_locks] \<subseteq> answer_programs"
    by (simp add: join_programs_def common_programs_def)
  from call_threads_end [OF this sink_run] show ?thesis unfolding list_all_iff by (rule conjI [OF sink_run(1)])
qed

section \<open>The deadlock of the camera\<close>

text \<open>
  C39: The camera can stop the client: the answer of the server about the own camera takes the mutex of the video stream
  and then that of the handles, the join of another user while the camera is on takes them the other way round. The two
  can end in a state in which neither goes on; the thread that handles the messages of the server is one of them and
  still holds the mutex of the wrapper, so no message is handled any more. The same with the microphone.
\<close>

theorem camera_answer_meets_join:
  "\<exists>ts. mutex_run (threads [join_received_locks fresh True audio, video_answered_locks True]) ts \<and> mutex_moves ts = [] \<and>
     \<not> mutex_free WrapperMutex ts \<and> \<not> mutex_free HandlesMutex ts \<and> \<not> mutex_free VideoMutex ts"
proof -
  let ?ps = "threads [join_received_locks fresh True audio, video_answered_locks True]"
  let ?u = "[Lock CoordinatorMutex, Unlock CoordinatorMutex]"
  let ?b = "[Lock VideoMutex, Unlock VideoMutex] @ (if audio then locked AudioMutex [] else []) @ [Unlock HandlesMutex]"
  let ?w = "video_answered_locks True"
  note step = run_move [where ts = ?ps]
  note moves = mutex_moves_def mutex_free_def lock_programs
  have "mutex_run ?ps [([], handle_locks fresh @ Lock HandlesMutex # ?u @ ?b), ([], ?w)]"
    using run_start [of ?ps] by (simp add: threads_def lock_programs)
  then have "mutex_run ?ps [([], Lock HandlesMutex # ?u @ ?b), ([], ?w)]"
  proof (cases fresh)
    case True
    assume "mutex_run ?ps [([], handle_locks fresh @ Lock HandlesMutex # ?u @ ?b), ([], ?w)]"
    then have "mutex_run ?ps [([HandlesMutex], request_locks @ Unlock HandlesMutex # Lock HandlesMutex # ?u @ ?b), ([], ?w)]"
      by (rule step) (simp add: moves True)
    then have "mutex_run ?ps [([CoordinatorMutex, HandlesMutex],
        Unlock CoordinatorMutex # Unlock HandlesMutex # Lock HandlesMutex # ?u @ ?b), ([], ?w)]"
      by (rule step) (simp add: moves)
    then have "mutex_run ?ps [([HandlesMutex], Unlock HandlesMutex # Lock HandlesMutex # ?u @ ?b), ([], ?w)]"
      by (rule step) (simp add: moves)
    then show ?thesis by (rule step) (simp add: moves)
  next
    case False
    assume "mutex_run ?ps [([], handle_locks fresh @ Lock HandlesMutex # ?u @ ?b), ([], ?w)]"
    then have "mutex_run ?ps [([HandlesMutex], Unlock HandlesMutex # Lock HandlesMutex # ?u @ ?b), ([], ?w)]"
      by (rule step) (simp add: moves False)
    then show ?thesis by (rule step) (simp add: moves)
  qed
  then have "mutex_run ?ps [([HandlesMutex], ?u @ ?b), ([], ?w)]" by (rule step) (simp add: moves)
  then have "mutex_run ?ps [([CoordinatorMutex, HandlesMutex], Unlock CoordinatorMutex # ?b), ([], ?w)]"
    by (rule step) (simp add: moves)
  then have "mutex_run ?ps [([HandlesMutex], ?b), ([], ?w)]" by (rule step) (simp add: moves)
  then have "mutex_run ?ps [([HandlesMutex], ?b),
      ([WrapperMutex], locked VideoMutex (locked HandlesMutex []) @ [Unlock WrapperMutex])]"
    by (rule step) (simp add: moves)
  then have "mutex_run ?ps [([HandlesMutex], ?b),
      ([VideoMutex, WrapperMutex], locked HandlesMutex [] @ [Unlock VideoMutex, Unlock WrapperMutex])]"
    by (rule step) (simp add: moves)
  then show ?thesis
    by (intro exI conjI) (assumption, simp_all add: moves)
qed

end
