(* ===== verification/CallHandle.thy ===== *)
theory CallHandle
  imports CallSessions
begin

text \<open>
  \<open>Call::Handle\<close> (\<open>lib/network/controllers/callcontroller.cpp\<close>), the object through which QML uses a call: its own
  setters, its calls of the controller, the signals that tell QML to read a property again, and what QML shows.
\<close>

section \<open>The functions of a handle\<close>

text \<open>\<open>setRoomID\<close> and \<open>setState\<close>, with the signals of the latter; the state is whether one is inside the call.\<close>

datatype handle_notice = StateNotice | VideoNotice | AudioNotice

definition set_room_id :: "int \<Rightarrow> call_handle \<Rightarrow> call_handle" where
  "set_room_id other x = (if ch_roomID x = other then x else x\<lparr>ch_roomID := other\<rparr>)"

definition set_call_state :: "bool \<Rightarrow> call_handle \<Rightarrow> handle_notice list \<times> call_handle" where
  "set_call_state other x = (if other = ch_inside x then ([], x) else ([StateNotice], x\<lparr>ch_inside := other\<rparr>))"

text \<open>What QML calls; \<open>n\<close> is the number of devices of an audio output, which the handle asks for before the controller does.\<close>

datatype handle_request =
  CloseVideo
| CloseAudio
| OpenVideo nat
| OpenAudio nat
| ConnectOutput int nat
| ConnectSink int nat
| DisconnectCall
| JoinCall
| ReleaseHandle

definition Handle_connectAudioOutput :: "call_env \<Rightarrow> int \<Rightarrow> nat \<Rightarrow> call_ctrl \<Rightarrow> (nat option \<times> call_ctrl) option" where
  "Handle_connectAudioOutput E userID n c = (if n = 0 then Some (None, c) else connectAudioOutput E (0 < n) userID c)"

definition Handle_release :: "call_ctrl \<Rightarrow> call_ctrl" where
  "Handle_release c = c"

text \<open>QML calls through the pointer it was given; the handle may be gone.\<close>

definition handle_invoke :: "call_env \<Rightarrow> nat \<Rightarrow> handle_request \<Rightarrow> call_ctrl \<Rightarrow> call_ctrl option" where
  "handle_invoke E h r c =
     (if ch_gone (cl_heap c h) then None else case r of
        CloseVideo \<Rightarrow> closeVideo E h c
      | CloseAudio \<Rightarrow> closeAudio E h c
      | OpenVideo st \<Rightarrow> Some (openVideo E h st c)
      | OpenAudio st \<Rightarrow> Some (openAudio E h st c)
      | ConnectOutput k n \<Rightarrow> map_option snd (Handle_connectAudioOutput E k n c)
      | ConnectSink k sink \<Rightarrow> connectVideoSink E k sink c
      | DisconnectCall \<Rightarrow> Some (snd (disconnect_call h c))
      | JoinCall \<Rightarrow> Some (join_call h c)
      | ReleaseHandle \<Rightarrow> Some (Handle_release c))"

section \<open>What QML shows\<close>

text \<open>The signals of a handle that an operation of the controller emits on it.\<close>

fun notices :: "nat \<Rightarrow> call_op \<Rightarrow> call_ctrl \<Rightarrow> handle_notice list" where
  "notices h (OpenedVideo g st) c = (if g = h then [VideoNotice] else [])"
| "notices h (OpenedAudio g st) c = (if g = h then [AudioNotice] else [])"
| "notices h (StopAudio g) c = (if g = h then [AudioNotice] else [])"
| "notices h (Joined g) c = (if g = h then fst (set_call_state True (cl_heap c h)) else [])"
| "notices h (Left g) c = (if g = h then fst (set_call_state False (cl_heap c h)) else [])"
| "notices h _ c = []"

text \<open>The three properties as QML has read them last; it reads a property again when its signal comes.\<close>

record handle_view =
  hv_inside :: bool
  hv_video :: bool
  hv_audio :: bool

definition handle_now :: "call_env \<Rightarrow> nat \<Rightarrow> call_ctrl \<Rightarrow> handle_view" where
  "handle_now E h c = \<lparr>hv_inside = ch_inside (cl_heap c h), hv_video = hasVideo E h c, hv_audio = hasAudio E h c\<rparr>"

definition read_again :: "handle_notice list \<Rightarrow> handle_view \<Rightarrow> handle_view \<Rightarrow> handle_view" where
  "read_again ns now v =
     \<lparr>hv_inside = (if StateNotice \<in> set ns then hv_inside now else hv_inside v),
      hv_video = (if VideoNotice \<in> set ns then hv_video now else hv_video v),
      hv_audio = (if AudioNotice \<in> set ns then hv_audio now else hv_audio v)\<rparr>"

definition shown_after :: "call_env \<Rightarrow> nat \<Rightarrow> call_op \<Rightarrow> call_ctrl \<Rightarrow> handle_view \<Rightarrow> (handle_view \<times> call_ctrl) option" where
  "shown_after E h op c v = map_option (\<lambda>c'. (read_again (notices h op c) (handle_now E h c') v, c')) (call_do E op c)"

lemma handle_forwards:
  "handle_invoke E h CloseVideo c = call_do E (StopVideo h) c"
  "handle_invoke E h CloseAudio c = call_do E (StopAudio h) c"
  "handle_invoke E h (OpenVideo st) c = call_do E (OpenedVideo h st) c"
  "handle_invoke E h (OpenAudio st) c = call_do E (OpenedAudio h st) c"
  "\<not> ch_gone (cl_heap c h) \<Longrightarrow> handle_invoke E h (ConnectOutput k n) c = call_do E (PlayAudio (0 < n) k) c"
  "\<not> ch_gone (cl_heap c h) \<Longrightarrow> handle_invoke E h (ConnectSink k sink) c = call_do E (ShowVideo k sink) c"
  "handle_invoke E h DisconnectCall c = call_do E (Leave h) c"
  "handle_invoke E h JoinCall c = call_do E (JoinRoom h) c"
  by (simp_all add: handle_invoke_def call_do_def Handle_connectAudioOutput_def connectAudioOutput_def)

section \<open>The own flags\<close>

lemma set_flag_keeps:
  assumes "qt_ok (ce_qt E)" and "im_wf (call_vt E) m" and "role \<in> {HasVideo, HasAudio}"
    and "idToIndex (ce_user E) m = Some r"
  shows "im_wf (call_vt E) (set_flag E role st m)" and "idToIndex (ce_user E) (set_flag E role st m) = Some r"
    and "participant_flag E (ce_user E) role (set_flag E role st m) = st"
    and "role' \<in> {HasVideo, HasAudio} \<Longrightarrow> role' \<noteq> role \<Longrightarrow>
      participant_flag E (ce_user E) role' (set_flag E role st m) = participant_flag E (ce_user E) role' m"
proof -
  let ?x = "im_data m ! nat r" and ?m' = "set_flag E role st m"
  let ?y = "if role = HasVideo then ?x\<lparr>p_hasVideo := st\<rparr> else ?x\<lparr>p_hasAudio := st\<rparr>"
  have rows: "in_rows r m" and id: "p_userID ?x = ce_user E"
    using idToIndex_wf [OF assms(2), of "ce_user E" r] assms(1,4) by auto
  have n: "nat r < length (im_data m)" using rows by (auto simp: in_rows_def)
  have all: "im_wf (call_vt E) ?m' \<and> im_data ?m' = (im_data m)[nat r := ?y] \<and> in_rows r ?m'"
  proof (cases "data_role (call_vt E) (Some r) role m = Some (QBool st)")
    case True
    then have "?y = ?x" using assms(3) rows by (auto simp: data_role_def participate_read_def role_defs)
    moreover from True assms(4) have "?m' = m" by (simp add: set_flag_def)
    ultimately show ?thesis using assms(2) rows n by (simp add: list_update_same_conv)
  next
    case False
    then have set: "?m' = snd (setData_role (call_vt E) (Some r) (QBool st) role m)"
      using assms(4) by (simp add: set_flag_def)
    have "participate_edit (ce_qt E) ?x (QBool st) r role = Some ?y"
      using False assms(1,3) rows
      by (auto simp: data_role_def participate_read_def participate_edit_def role_defs Let_def)
    then have "?y = or_default ?x (participate_edit (ce_qt E) ?x (QBool st) r role)" by (simp add: or_default_def)
    from flag_write [OF assms(1,2) rows _ set this] assms(3) show ?thesis by blast
  qed
  then have y: "im_data ?m' ! nat r = ?y" using n by simp
  show "im_wf (call_vt E) ?m'" using all by blast
  from all y id idToIndex_wf [of "call_vt E" ?m' "ce_user E" r] assms(1)
  show i: "idToIndex (ce_user E) ?m' = Some r" by auto
  have in': "in_rows r ?m'" using all by blast
  note f = flag_at [OF assms(1) i in'] flag_at [OF assms(1,4) rows]
  show "participant_flag E (ce_user E) role ?m' = st"
    using f assms(3) by (auto simp: y role_defs)
  show "role' \<in> {HasVideo, HasAudio} \<Longrightarrow> role' \<noteq> role \<Longrightarrow>
      participant_flag E (ce_user E) role' ?m' = participant_flag E (ce_user E) role' m"
    using f assms(3) by (auto simp: y role_defs)
qed


lemma setMedia_now:
  assumes "qt_ok (ce_qt E)" and "im_wf (call_vt E) (participants_of h c)"
    and "idToIndex (ce_user E) (participants_of h c) = Some r"
  shows "handle_now E h (setVideo E st h c) = (handle_now E h c)\<lparr>hv_video := st\<rparr>"
    and "handle_now E h (setAudio E st h c) = (handle_now E h c)\<lparr>hv_audio := st\<rparr>"
proof -
  note v = set_flag_keeps [OF assms(1,2) _ assms(3), where role = HasVideo and st = st]
  note a = set_flag_keeps [OF assms(1,2) _ assms(3), where role = HasAudio and st = st]
  have ne: "HasVideo \<noteq> HasAudio" by (simp add: role_defs)
  show "handle_now E h (setVideo E st h c) = (handle_now E h c)\<lparr>hv_video := st\<rparr>"
    using v(2,3) v(4) [where role' = HasAudio] ne assms(3)
    by (simp add: handle_now_def hasVideo_def hasAudio_def setVideo_def)
  show "handle_now E h (setAudio E st h c) = (handle_now E h c)\<lparr>hv_audio := st\<rparr>"
    using a(2,3) a(4) [where role' = HasVideo] ne assms(3)
    by (simp add: handle_now_def hasVideo_def hasAudio_def setAudio_def)
qed

lemma now_frame:
  "cl_heap c' = cl_heap c \<Longrightarrow> handle_now E h c' = handle_now E h c"
  by (simp add: handle_now_def hasVideo_def hasAudio_def)

lemma read_again_now: "read_again ns (v\<lparr>hv_video := b\<rparr>) v = (if VideoNotice \<in> set ns then v\<lparr>hv_video := b\<rparr> else v)"
  "read_again ns (v\<lparr>hv_audio := b\<rparr>) v = (if AudioNotice \<in> set ns then v\<lparr>hv_audio := b\<rparr> else v)"
  by (cases v; simp add: read_again_def)+

lemma source_heap [simp]: "cl_heap (close_video_source c) = cl_heap c" "cl_heap (close_audio_source c) = cl_heap c"
  by (simp_all add: close_video_source_def close_audio_source_def split: option.split)

text \<open>The own flags after the four operations.\<close>

lemma own_media_now:
  assumes "qt_ok (ce_qt E)" and "im_wf (call_vt E) (participants_of h c)"
    and "idToIndex (ce_user E) (participants_of h c) = Some r"
  shows "handle_now E h (openVideo E h st c) = (handle_now E h c)\<lparr>hv_video := True\<rparr>"
    and "handle_now E h (openAudio E h st c) = (handle_now E h c)\<lparr>hv_audio := True\<rparr>"
    and "closeVideo E h c = Some c' \<Longrightarrow> handle_now E h c' = (handle_now E h c)\<lparr>hv_video := False\<rparr>"
    and "closeAudio E h c = Some c' \<Longrightarrow> handle_now E h c' = (handle_now E h c)\<lparr>hv_audio := False\<rparr>"
proof -
  have set: "handle_now E h (setVideo E b h d) = (handle_now E h c)\<lparr>hv_video := b\<rparr>"
    "handle_now E h (setAudio E b h d) = (handle_now E h c)\<lparr>hv_audio := b\<rparr>" if "cl_heap d = cl_heap c" for b d
    using setMedia_now [where c = d and r = r and st = b and E = E and h = h] assms now_frame [OF that, of E h] that by simp_all
  show "handle_now E h (openVideo E h st c) = (handle_now E h c)\<lparr>hv_video := True\<rparr>"
    unfolding openVideo_def Let_def by (subst now_frame, simp add: send_call_def) (simp add: set)
  show "handle_now E h (openAudio E h st c) = (handle_now E h c)\<lparr>hv_audio := True\<rparr>"
    unfolding openAudio_def Let_def by (subst now_frame, simp add: send_call_def) (simp add: set)
  have frame: "handle_now E h (send_call q (d\<lparr>cl_rtc := x\<rparr>)) = handle_now E h d" for q d x
    by (rule now_frame) (simp add: send_call_def)
  show "handle_now E h c' = (handle_now E h c)\<lparr>hv_video := False\<rparr>" if "closeVideo E h c = Some c'"
  proof -
    from that obtain x where "c' = send_call (UpdateCallMedia_exec None (Some False))
        ((setVideo E False h (close_video_source c))\<lparr>cl_rtc := x\<rparr>)"
      by (auto simp: closeVideo_def Let_def)
    then show ?thesis by (simp add: frame set(1))
  qed
  show "handle_now E h c' = (handle_now E h c)\<lparr>hv_audio := False\<rparr>" if "closeAudio E h c = Some c'"
  proof -
    from that obtain x where "c' = send_call (UpdateCallMedia_exec (Some False) None)
        ((setAudio E False h (close_audio_source c))\<lparr>cl_rtc := x\<rparr>)"
      by (auto simp: closeAudio_def Let_def)
    then show ?thesis by (simp add: frame set(2))
  qed
qed

text \<open>
  QML shows the own camera and microphone as they are when the camera is turned on and when the microphone is turned on
  or off, but not when the camera is turned off: no signal tells it so, and it goes on showing a camera that is
  closed.
\<close>

theorem camera_shown_open:
  assumes "qt_ok (ce_qt E)" and "im_wf (call_vt E) (participants_of h c)"
    and "idToIndex (ce_user E) (participants_of h c) = Some r" and "call_do E op c = Some c'"
  shows "(op \<in> {OpenedVideo h st, OpenedAudio h st, StopAudio h} \<longrightarrow>
      shown_after E h op c (handle_now E h c) = Some (handle_now E h c', c')) \<and>
    (op = StopVideo h \<longrightarrow> shown_after E h op c (handle_now E h c) = Some (handle_now E h c, c') \<and> \<not> hasVideo E h c')"
proof -
  note now = own_media_now [OF assms(1-3)] and step = call_do_step [OF assms(4)]
  have "\<not> hasVideo E h c'" if "op = StopVideo h"
    using now(3) [of c'] step that by (simp add: handle_now_def)
  moreover have "shown_after E h op c (handle_now E h c) = Some (handle_now E h c', c')"
    if "op \<in> {OpenedVideo h st, OpenedAudio h st, StopAudio h}"
    using that assms(4) step now(1,2) now(4) [of c'] by (auto simp: shown_after_def read_again_now)
  moreover have "shown_after E h op c (handle_now E h c) = Some (handle_now E h c, c')" if "op = StopVideo h"
    using that assms(4) step now(3) [of c'] by (simp add: shown_after_def read_again_now)
  ultimately show ?thesis by blast
qed

theorem camera_shown_open_witness:
  "\<exists>c'. call_do example_env (StopVideo 0) example_call = Some c' \<and>
    shown_after example_env 0 (StopVideo 0) example_call (handle_now example_env 0 example_call) =
      Some (handle_now example_env 0 example_call, c') \<and> \<not> hasVideo example_env 0 c'"
proof -
  obtain r where r: "idToIndex (ce_user example_env) (participants_of 0 example_call) = Some r"
    using example_call_facts(3,11) by (auto simp: lookup_im_def data_at_def example_env_def split: option.splits)
  have "closeLocalVideo k idle_service = Some idle_service" for k
    by (simp add: closeLocalVideo_def idle_service_def new_service_def unlisten_raw_def)
  then have "fold_opt closeLocalVideo ks idle_service = Some idle_service" for ks
    by (induction ks) simp_all
  moreover have "cl_rtc (setVideo example_env False 0 (close_video_source example_call)) = idle_service"
    using example_call_facts(9) by (simp add: setVideo_def close_video_source_def split: option.split)
  moreover have "\<not> ch_gone (cl_heap example_call 0)" by (simp add: example_call_def)
  ultimately obtain c' where c': "call_do example_env (StopVideo 0) example_call = Some c'"
    by (simp add: closeVideo_def Let_def call_do_def)
  from camera_shown_open [OF example_call_facts(1) _ r c'] example_call_facts(3,4) c' show ?thesis by auto
qed

end
