(* ===== verification/Signalling.thy ===== *)
theory Signalling
  imports CallDelivery RtcService "HOL-Library.Sublist"
begin

text \<open>
  The way of the session descriptions and candidates from one client to another: from the callbacks of a peer connection
  (\<open>Service::createPeerContext\<close>, \<open>lib/network/rtcservice.cpp\<close>) through the queue of the coordinator, its thread and
  the wrapper to the wire, over the server, into the wrapper of the other client and the handlers that its \<open>rtc::Service\<close> has
  registered there. The server is an argument; that it hands a signal on to the named user with the id of the sender in
  its place is the hypothesis \<open>relays\<close>.
\<close>

section \<open>The client that receives\<close>

definition description_handler :: nat where
  "description_handler = 1"

definition candidate_handler :: nat where
  "candidate_handler = 2"

text \<open>What the constructor of \<open>Service\<close> registers.\<close>

definition register_service :: "wrapper \<Rightarrow> wrapper" where
  "register_service w =
     addClientHandler candidate_handler ''RtcCandidate'' (addClientHandler description_handler ''RtcDescription'' w)"

definition run_handler :: "jlib \<Rightarrow> nat \<times> json \<Rightarrow> service \<Rightarrow> service" where
  "run_handler J h s =
     (if fst h = description_handler then on_description (Description_handle J (snd h)) s
      else if fst h = candidate_handler then on_candidate (Candidate_handle J (snd h)) s
      else s)"

text \<open>A message from the transport: the wrapper calls the handlers.\<close>

definition receive_message :: "jlib \<Rightarrow> json \<Rightarrow> wrapper \<times> service \<Rightarrow> (wrapper \<times> service) option" where
  "receive_message J msg b =
     map_option (\<lambda>w. (w, fold (run_handler J) (drop (length (w_called (fst b))) (w_called w)) (snd b)))
       (handleTextMessage J (Some msg) (fst b))"

section \<open>Two clients and the server\<close>

text \<open>\<open>sg_taken\<close> counts the messages of the sender that the server has got, \<open>sg_inbox\<close> are those on the way to the receiver.\<close>

record signalling =
  sg_sender :: network
  sg_taken :: nat
  sg_inbox :: "json list"
  sg_receiver :: "wrapper \<times> service"

text \<open>
  The peer connection of the sender for a user has a description or a candidate; another call is queued; a round of the
  network thread, with the attempts to connect and an exception of \<open>send\<close>; the connection closes, and what the server has
  not got is lost; the server hands the next message on, or sends a message of its own; the receiver gets a message, or does something else.
\<close>

datatype signal_event =
  LocalDescription int string string nat
| LocalCandidate int string string nat
| QueueCall call nat
| NetworkRound "nat \<Rightarrow> attempt" "string option"
| ConnectionClosed
| Relay
| ServerSends json
| Receive
| ReceiverDoes rtc_op

definition queue_signal :: "call \<Rightarrow> nat \<Rightarrow> signalling \<Rightarrow> signalling" where
  "queue_signal c p s =
     s\<lparr>sg_sender := (sg_sender s)\<lparr>nw_co := queue_call \<lparr>mi_call = c, mi_promise = p\<rparr> (nw_co (sg_sender s))\<rparr>\<rparr>"

fun signal_step :: "ffmpeg \<Rightarrow> jlib \<Rightarrow> (json \<Rightarrow> json list) \<Rightarrow> signal_event \<Rightarrow> signalling \<Rightarrow> signalling option" where
  "signal_step M J server (LocalDescription k type description p) s =
     Some (queue_signal (on_local_description k type description) p s)"
| "signal_step M J server (LocalCandidate k mid candidate p) s =
     Some (queue_signal (on_local_candidate k mid candidate) p s)"
| "signal_step M J server (QueueCall c p) s = Some (queue_signal c p s)"
| "signal_step M J server (NetworkRound env failure) s =
     map_option (\<lambda>n. s\<lparr>sg_sender := n\<rparr>) (network_round env failure (sg_sender s))"
| "signal_step M J server ConnectionClosed s =
     Some (s\<lparr>sg_sender := (sg_sender s)\<lparr>nw_rpc := on_closed (nw_rpc (sg_sender s))\<rparr>,
             sg_taken := length (w_sent (nw_rpc (sg_sender s)))\<rparr>)"
| "signal_step M J server Relay s =
     Some (if sg_taken s < length (w_sent (nw_rpc (sg_sender s)))
           then s\<lparr>sg_taken := Suc (sg_taken s),
                  sg_inbox := sg_inbox s @ server (w_sent (nw_rpc (sg_sender s)) ! sg_taken s)\<rparr>
           else s)"
| "signal_step M J server (ServerSends msg) s = Some (s\<lparr>sg_inbox := sg_inbox s @ [msg]\<rparr>)"
| "signal_step M J server Receive s =
     (case sg_inbox s of
        [] \<Rightarrow> Some s
      | msg # rest \<Rightarrow> map_option (\<lambda>b. s\<lparr>sg_inbox := rest, sg_receiver := b\<rparr>) (receive_message J msg (sg_receiver s)))"
| "signal_step M J server (ReceiverDoes op) s =
     map_option (\<lambda>r. s\<lparr>sg_receiver := (fst (sg_receiver s), r)\<rparr>) (rtc_do M op (snd (sg_receiver s)))"

fun signal_run ::
    "ffmpeg \<Rightarrow> jlib \<Rightarrow> (json \<Rightarrow> json list) \<Rightarrow> signal_event list \<Rightarrow> signalling \<Rightarrow> signalling option" where
  "signal_run M J server [] s = Some s"
| "signal_run M J server (ev # evs) s = Option.bind (signal_step M J server ev s) (signal_run M J server evs)"

section \<open>Signals\<close>

text \<open>The text of a call on the wire.\<close>

definition wire_call :: "int \<Rightarrow> call \<Rightarrow> json" where
  "wire_call i c = method_call_to_json \<lparr>mc_id = i, mc_method = call_method c, mc_args = call_args c\<rparr>"

definition is_signal :: "call \<Rightarrow> bool" where
  "is_signal c \<longleftrightarrow> call_method c = ''RtcDescription'' \<or> call_method c = ''RtcCandidate''"

text \<open>
  What the server does for the sender \<open>a\<close> and the receiver \<open>b\<close>: it hands a signal for \<open>b\<close> on as one of \<open>a\<close>, those for other users
  not at all, and answers no other call with a signal.
\<close>

definition relays :: "int \<Rightarrow> int \<Rightarrow> (json \<Rightarrow> json list) \<Rightarrow> bool" where
  "relays a b server \<longleftrightarrow>
     (\<forall>i d. if rd_id d = b
        then \<exists>k. is_i32 k \<and> server (wire_call i (Description_exec d)) = [wire_call k (Description_exec (d\<lparr>rd_id := a\<rparr>))]
        else server (wire_call i (Description_exec d)) = []) \<and>
     (\<forall>i c. if rc_id c = b
        then \<exists>k. is_i32 k \<and> server (wire_call i (Candidate_exec c)) = [wire_call k (Candidate_exec (c\<lparr>rc_id := a\<rparr>))]
        else server (wire_call i (Candidate_exec c)) = []) \<and>
     (\<forall>i c. \<not> is_signal c \<longrightarrow> (\<forall>msg \<in> set (server (wire_call i c)). \<exists>k c'. is_i32 k \<and> \<not> is_signal c' \<and> msg = wire_call k c'))"

text \<open>What a call of the sender is to become for the connection that the receiver has with it.\<close>

definition signal_of :: "jlib \<Rightarrow> int \<Rightarrow> int \<Rightarrow> call \<Rightarrow> pc_command list" where
  "signal_of J a b c =
     (if call_method c = ''RtcDescription''
      then let d = Description_handle J (call_args c) in if rd_id d = b then [SetRemote (d\<lparr>rd_id := a\<rparr>)] else []
      else if call_method c = ''RtcCandidate''
      then let d = Candidate_handle J (call_args c) in if rc_id d = b then [AddCandidate (d\<lparr>rc_id := a\<rparr>)] else []
      else [])"

definition commands :: "int \<Rightarrow> service \<Rightarrow> pc_command list" where
  "commands a s = (case getPeerContext a s of None \<Rightarrow> [] | Some p \<Rightarrow> pr_commands p)"

text \<open>The signals for \<open>b\<close> that the sender has made, in order.\<close>

fun signals_made :: "int \<Rightarrow> int \<Rightarrow> signal_event list \<Rightarrow> pc_command list" where
  "signals_made a b [] = []"
| "signals_made a b (LocalDescription k type description p # evs) =
     (if k = b then [SetRemote \<lparr>rd_id = a, rd_description = description, rd_type = type\<rparr>] else []) @ signals_made a b evs"
| "signals_made a b (LocalCandidate k mid candidate p # evs) =
     (if k = b then [AddCandidate \<lparr>rc_id = a, rc_candidate = candidate, rc_mid = mid\<rparr>] else []) @ signals_made a b evs"
| "signals_made a b (ev # evs) = signals_made a b evs"

section \<open>What leaves the commands of a peer alone\<close>

definition spares :: "int \<Rightarrow> rtc_op \<Rightarrow> bool" where
  "spares a op \<longleftrightarrow> op \<noteq> CloseUser a \<and> op \<noteq> CloseAll \<and> (\<forall>d. op = Described d \<longrightarrow> rd_id d \<noteq> a) \<and>
     (\<forall>c. op = Candidated c \<longrightarrow> rc_id c \<noteq> a)"

lemma commands_peers: "sv_peers t = sv_peers s \<Longrightarrow> commands a t = commands a s"
  by (simp add: commands_def getPeerContext_def)

lemma commands_media [simp]:
  "commands a (on_video k f s) = commands a s" "commands a (on_audio k f s) = commands a s"
  by (cases "getPeerContext a s"; auto simp: commands_def)+

lemma commands_created [simp]: "commands a (getOrCreatePeerContext k s) = commands a s"
proof (cases "a = k \<and> getPeerContext k s = None")
  case True
  then show ?thesis by (simp add: commands_def get_getOrCreate new_peer_def)
next
  case False
  then have "getPeerContext a (getOrCreatePeerContext k s) = getPeerContext a s" by (subst get_getOrCreate) (rule if_not_P)
  then show ?thesis by (simp add: commands_def)
qed

lemma commands_with_peer:
  "commands a (with_peer k (\<lambda>p. p\<lparr>pr_commands := pr_commands p @ cs\<rparr>) (getOrCreatePeerContext k s)) =
     commands a s @ (if a = k then cs else [])"
proof -
  obtain p where "getPeerContext k (getOrCreatePeerContext k s) = Some p"
    by (cases "getPeerContext k s") (simp_all add: get_getOrCreate)
  moreover have "commands a (getOrCreatePeerContext k s) = commands a s" by simp
  ultimately show ?thesis by (auto simp: commands_def simp del: commands_created)
qed

lemma commands_fields [simp]:
  "commands a (s\<lparr>sv_packetizer := z\<rparr>) = commands a s" "commands a (s\<lparr>sv_audioEncoder := e\<rparr>) = commands a s"
  "commands a (s\<lparr>sv_rawIndex := i\<rparr>) = commands a s" "commands a (s\<lparr>sv_packetIndex := i\<rparr>) = commands a s"
  "commands a (s\<lparr>sv_freshPipe := n\<rparr>) = commands a s" "commands a (s\<lparr>sv_sent := l\<rparr>) = commands a s"
  by (rule commands_peers, simp)+

lemma commands_listen:
  "listen_raw k n s = Some t \<Longrightarrow> commands a t = commands a s" "listen_audio k n s = Some t \<Longrightarrow> commands a t = commands a s"
  by (auto simp: listen_raw_def listen_audio_def split: option.splits sum.splits)

lemma commands_unlisten:
  "unlisten_raw ls s = Some t \<Longrightarrow> commands a t = commands a s" "unlisten_audio ls s = Some t \<Longrightarrow> commands a t = commands a s"
  by (auto simp: unlisten_raw_def unlisten_audio_def split: option.splits if_splits)

lemma commands_start:
  "start_video M x s = Some t \<Longrightarrow> commands a t = commands a s" "start_audio M x s = Some t \<Longrightarrow> commands a t = commands a s"
  by (rule commands_peers, erule start_video_fields(1)) (rule commands_peers, erule start_audio_fields(1))

lemma commands_open:
  "openLocalVideo M k x s = Some t \<Longrightarrow> commands a t = commands a s"
  "openLocalAudio M k x s = Some t \<Longrightarrow> commands a t = commands a s"
  by (auto simp: openLocalVideo_def openLocalAudio_def split: option.splits if_splits
      dest!: commands_start [where a = a] commands_listen [where a = a])

lemma commands_track_open:
  "video_track_open k s = Some t \<Longrightarrow> commands a t = commands a s"
  "audio_track_open k s = Some t \<Longrightarrow> commands a t = commands a s"
  by (auto simp: video_track_open_def audio_track_open_def split: option.splits if_splits
      dest!: commands_listen [where a = a])

lemma commands_close_local:
  "closeLocalVideo k s = Some t \<Longrightarrow> commands a t = commands a s"
  "closeLocalAudio k s = Some t \<Longrightarrow> commands a t = commands a s"
  by (auto simp: closeLocalVideo_def closeLocalAudio_def dest!: commands_unlisten [where a = a])

lemma commands_ensured: "ensure_decoder found m s = Some (m', t) \<Longrightarrow> commands a t = commands a s"
  by (rule commands_peers) (erule ensure_decoder_fields(1))

lemma commands_remote:
  "getRemoteVideo M k s = Some (n, t) \<Longrightarrow> commands a t = commands a s"
  "getRemoteAudio M k s = Some (n, t) \<Longrightarrow> commands a t = commands a s"
  by (auto simp: getRemoteVideo_def getRemoteAudio_def Let_def split: option.splits prod.splits
      dest!: commands_ensured [where a = a])

lemma commands_track:
  "on_track_video k s = Some t \<Longrightarrow> commands a t = commands a s"
  "on_track_audio M k s = Some t \<Longrightarrow> commands a t = commands a s"
  by (auto simp: on_track_video_def on_track_audio_def Let_def split: option.splits sum.splits prod.splits)

lemma commands_frame:
  "on_video_frame M k s = Some (ns, t) \<Longrightarrow> commands a t = commands a s"
  "on_audio_frame M k s = Some (ns, t) \<Longrightarrow> commands a t = commands a s"
  by (auto simp: on_video_frame_def on_audio_frame_def split: option.splits track.splits prod.splits
      dest!: push_frame_cases commands_ensured [where a = a])

lemma commands_send:
  "send_video k n i s = Some t \<Longrightarrow> commands a t = commands a s" "send_audio k n i s = Some t \<Longrightarrow> commands a t = commands a s"
  by (auto simp: send_video_def send_audio_def Let_def split: option.splits sum.splits if_splits)

lemma commands_close_user:
  assumes "closeUserConnection k s = Some t" and "k \<noteq> a"
  shows "commands a t = commands a s"
proof -
  have "map_of (omap_erase k xs) a = map_of xs a" for xs :: "(int, peer) omap"
    using assms(2) by (induction xs) (auto simp: omap_erase_def)
  then have erased: "commands a (u\<lparr>sv_peers := omap_erase k (sv_peers u)\<rparr>) = commands a u" for u
    by (simp add: commands_def getPeerContext_def)
  show ?thesis
    using assms(1) by (auto simp: closeUserConnection_def Let_def flushRemoteVideo_def flushRemoteAudio_def erased bind_eq_Some_conv
        split: option.splits dest!: commands_unlisten [where a = a])
qed

lemma commands_signals:
  "commands a (on_description d s) = commands a s @ (if rd_id d = a \<and> a \<noteq> 0 then [SetRemote d] else [])"
  "commands a (on_candidate c s) = commands a s @ (if rc_id c = a then [AddCandidate c] else [])"
  by (auto simp: on_description_def on_candidate_def commands_with_peer)

lemma rtc_do_spares:
  assumes "spares a op" and "rtc_do M op s = Some s'"
  shows "commands a s' = commands a s"
  using assms
  by (cases op) (auto simp: spares_def flushRemoteVideo_def flushRemoteAudio_def commands_signals commands_open
      commands_track_open commands_remote commands_close_local commands_track commands_frame commands_send
      commands_close_user)

section \<open>What the receiver does with a message\<close>

definition handlers_ok :: "wrapper \<Rightarrow> bool" where
  "handlers_ok w \<longleftrightarrow> w_handlers w ''RtcDescription'' = [description_handler] \<and>
     w_handlers w ''RtcCandidate'' = [candidate_handler] \<and>
     (\<forall>m. m \<noteq> ''RtcDescription'' \<longrightarrow> m \<noteq> ''RtcCandidate'' \<longrightarrow>
        description_handler \<notin> set (w_handlers w m) \<and> candidate_handler \<notin> set (w_handlers w m))"

lemma run_others:
  "description_handler \<notin> set hs \<Longrightarrow> candidate_handler \<notin> set hs \<Longrightarrow> fold (run_handler J) (map (\<lambda>h. (h, x)) hs) s = s"
  by (induction hs) (auto simp: run_handler_def)

lemma text_of_call:
  assumes "jlib_ok J" and "is_i32 i"
  shows "handleTextMessage J (Some (wire_call i c)) w =
    Some (handleMethodCall \<lparr>mc_id = i, mc_method = call_method c, mc_args = call_args c\<rparr> w)"
proof -
  have "json_value (get_string J) ''type'' [] (wire_call i c) = Some ''methodCall''"
    using assms(1) by (simp add: wire_call_def method_call_to_json_def json_value_def)
  moreover have "method_call_from_json J (wire_call i c) new_method_call =
      \<lparr>mc_id = i, mc_method = call_method c, mc_args = call_args c\<rparr>"
    unfolding wire_call_def by (rule method_call_roundtrip) (use assms in simp_all)
  ultimately show ?thesis by (simp add: handleTextMessage_def)
qed

lemma receive_call:
  assumes "jlib_ok J" and "is_i32 i" and "handlers_ok w" and "a \<noteq> 0"
  shows "\<exists>w' s'. receive_message J (wire_call i c) (w, s) = Some (w', s') \<and> handlers_ok w' \<and>
    commands a s' = commands a s @ signal_of J a a c"
proof -
  let ?hs = "map (\<lambda>h. (h, call_args c)) (w_handlers w (call_method c))"
  let ?w = "w\<lparr>w_called := w_called w @ ?hs\<rparr>"
  have "receive_message J (wire_call i c) (w, s) = Some (?w, fold (run_handler J) ?hs s)"
    by (simp add: receive_message_def text_of_call [OF assms(1,2)] handleMethodCall_def)
  moreover have "handlers_ok ?w" using assms(3) by (simp add: handlers_ok_def)
  moreover have "commands a (fold (run_handler J) ?hs s) = commands a s @ signal_of J a a c"
  proof (cases "is_signal c")
    case True
    with assms(3,4) show ?thesis
      by (auto simp: is_signal_def handlers_ok_def signal_of_def Let_def run_handler_def commands_signals
          description_handler_def candidate_handler_def)
  next
    case False
    with assms(3) have "fold (run_handler J) ?hs s = s" by (intro run_others) (auto simp: handlers_ok_def is_signal_def)
    with False show ?thesis by (simp add: signal_of_def is_signal_def)
  qed
  ultimately show ?thesis by blast
qed

lemma receive_reply:
  assumes "jlib_ok J" and "handlers_ok w"
  shows "\<exists>w'. receive_message J (reply_to_json r) (w, s) = Some (w', s) \<and> handlers_ok w'"
proof -
  have "json_value (get_string J) ''type'' [] (reply_to_json r) = Some ''response''"
    using assms(1) by (simp add: reply_to_json_def json_value_def)
  then show ?thesis using assms(2)
    by (auto simp: receive_message_def handleTextMessage_def handleReply_def settle_def handlers_ok_def split: option.splits)
qed

section \<open>What the sender does in a round\<close>

lemma connect_attempt_keeps:
  assumes "connect_attempt x n = Some m"
  shows "nw_co m = nw_co n \<and> w_sent (nw_rpc m) = w_sent (nw_rpc n) \<and>
    (w_connected (nw_rpc n) \<or> x = Opens \<longrightarrow> w_connected (nw_rpc m))"
  using assms
  by (cases x) (auto simp: connect_attempt_def connect_def on_open_def on_error_def handleConnectionError_def settle_def
      Let_def split: option.splits)

lemma connect_loop_keeps:
  "connect_loop k env i n = Some m \<Longrightarrow> nw_co m = nw_co n \<and> w_sent (nw_rpc m) = w_sent (nw_rpc n) \<and>
     (w_connected (nw_rpc n) \<or> 0 < k \<and> env i = Opens \<longrightarrow> w_connected (nw_rpc m))"
proof (induction k arbitrary: i n)
  case (Suc k)
  show ?case
  proof (cases "w_connected (nw_rpc n)")
    case True
    with Suc.prems show ?thesis by simp
  next
    case False
    with Suc.prems obtain n' where n': "connect_attempt (env i) n = Some n'" "connect_loop k env (Suc i) n' = Some m"
      by (auto split: option.splits)
    from connect_attempt_keeps [OF n'(1)] Suc.IH [OF n'(2)] show ?thesis by auto
  qed
qed simp

lemma network_round_cases:
  assumes "network_round env failure n = Some m"
  shows "m = n \<or> (\<exists>mi new. takeMethod (nw_co n) = Some (mi, nw_co m) \<and> w_sent (nw_rpc m) = w_sent (nw_rpc n) @ new \<and>
    (new = [] \<or> (\<exists>i. new = [wire_call i (mi_call mi)])) \<and>
    (env 0 = Opens \<and> failure = None \<and> 0 < co_reconnectionCount (nw_co n) \<longrightarrow> new \<noteq> []))"
proof (cases "(co_directCalls (nw_co n) = [] \<and> co_authorizedCalls (nw_co n) = [] \<and> co_active (nw_co n)) \<or> \<not> co_active (nw_co n)")
  case True
  with assms show ?thesis by (auto simp: network_round_def split: if_splits)
next
  case False
  with assms obtain n' where n': "connect_loop (nat (co_reconnectionCount (nw_co n))) env 0 n = Some n'"
    by (auto simp: network_round_def split: option.splits if_splits)
  note k = connect_loop_keeps [OF n']
  let ?w = "\<lambda>mi. if \<not> w_connected (nw_rpc n') then settle (mi_promise mi) (Exception ''Server is not responding'') (nw_rpc n')
     else serverMethod (call_method (mi_call mi)) (call_args (mi_call mi)) (mi_promise mi) failure (nw_rpc n')"
  obtain mi c where mi: "takeMethod (nw_co n) = Some (mi, c)" "m = n'\<lparr>nw_co := c, nw_rpc := ?w mi\<rparr>"
    using False assms n' k by (auto simp: network_round_def split: option.splits if_splits)
  have "\<exists>new. w_sent (?w mi) = w_sent (nw_rpc n) @ new \<and> (new = [] \<or> (\<exists>i. new = [wire_call i (mi_call mi)])) \<and>
      (w_connected (nw_rpc n') \<and> failure = None \<longrightarrow> new \<noteq> [])"
    using k by (cases failure) (auto simp: settle_def serverMethod_def methodCallMsg_def generateID_def new_method_call_def
        handleError_def Let_def wire_call_def)
  with mi k show ?thesis by auto
qed

section \<open>Nothing is reordered\<close>

text \<open>A call of the sender: a signal that its service made, or no signal.\<close>

definition outgoing :: "call \<Rightarrow> bool" where
  "outgoing c \<longleftrightarrow> \<not> is_signal c \<or> (\<exists>d. is_i32 (rd_id d) \<and> c = Description_exec d) \<or>
     (\<exists>d. is_i32 (rc_id d) \<and> c = Candidate_exec d)"

text \<open>A message for the receiver and the commands for the connection with \<open>a\<close> that it brings.\<close>

definition brings :: "jlib \<Rightarrow> int \<Rightarrow> json \<Rightarrow> pc_command list \<Rightarrow> bool" where
  "brings J a msg cs \<longleftrightarrow> (\<exists>k c. is_i32 k \<and> msg = wire_call k c \<and> cs = signal_of J a a c) \<or>
     (\<exists>r. msg = reply_to_json r \<and> cs = [])"

fun event_ok :: "jlib \<Rightarrow> int \<Rightarrow> signal_event \<Rightarrow> bool" where
  "event_ok J a (LocalDescription k type description p) = is_i32 k"
| "event_ok J a (LocalCandidate k mid candidate p) = is_i32 k"
| "event_ok J a (QueueCall c p) = (\<not> is_signal c)"
| "event_ok J a (ServerSends msg) = brings J a msg []"
| "event_ok J a (ReceiverDoes op) = spares a op"
| "event_ok J a ev = True"

text \<open>Every round connects and sends, and the connection stays.\<close>

fun lossless :: "signal_event \<Rightarrow> bool" where
  "lossless (NetworkRound env failure) = (env 0 = Opens \<and> failure = None)"
| "lossless ConnectionClosed = False"
| "lossless ev = True"

definition kept :: "bool \<Rightarrow> 'x list \<Rightarrow> 'x list \<Rightarrow> bool" where
  "kept l xs ys \<longleftrightarrow> (if l then xs = ys else subseq xs ys)"

abbreviation direct_calls :: "signalling \<Rightarrow> call list" where
  "direct_calls s \<equiv> map mi_call (co_directCalls (nw_co (sg_sender s)))"

abbreviation on_wire :: "signalling \<Rightarrow> json list" where
  "on_wire s \<equiv> drop (sg_taken s) (w_sent (nw_rpc (sg_sender s)))"

definition signal_inv :: "jlib \<Rightarrow> int \<Rightarrow> int \<Rightarrow> bool \<Rightarrow> pc_command list \<Rightarrow> signalling \<Rightarrow> bool" where
  "signal_inv J a b l made s \<longleftrightarrow>
     (\<exists>cs ds. list_all2 (\<lambda>msg c. \<exists>i. msg = wire_call i c) (on_wire s) cs \<and> list_all2 (brings J a) (sg_inbox s) ds \<and>
        (\<forall>c \<in> set (cs @ direct_calls s). outgoing c) \<and>
        kept l (commands a (snd (sg_receiver s)) @ concat ds @ concat (map (signal_of J a b) (cs @ direct_calls s))) made) \<and>
     (\<forall>mi \<in> set (co_authorizedCalls (nw_co (sg_sender s))). \<not> is_signal (mi_call mi)) \<and>
     sg_taken s \<le> length (w_sent (nw_rpc (sg_sender s))) \<and> handlers_ok (fst (sg_receiver s)) \<and>
     0 < co_reconnectionCount (nw_co (sg_sender s))"

lemma kept_append: "kept l xs ys \<Longrightarrow> kept l (xs @ zs) (ys @ zs)"
  by (simp add: kept_def)

lemma kept_lost: "kept l (xs @ ys @ zs) made \<Longrightarrow> ys = [] \<or> \<not> l \<Longrightarrow> kept l (xs @ zs) made"
proof -
  assume k: "kept l (xs @ ys @ zs) made" and l: "ys = [] \<or> \<not> l"
  have "subseq (xs @ zs) (xs @ ys @ zs)" by (intro list_emb_append_mono list_emb_append2) simp_all
  with k l show ?thesis by (auto simp: kept_def intro: subseq_order.trans)
qed

lemma no_signal: "\<not> is_signal c \<Longrightarrow> signal_of J a b c = []"
  by (simp add: is_signal_def signal_of_def)

lemma signal_of_exec:
  assumes "jlib_ok J"
  shows "is_i32 (rd_id d) \<Longrightarrow> signal_of J a b (Description_exec d) = (if rd_id d = b then [SetRemote (d\<lparr>rd_id := a\<rparr>)] else [])"
    and "is_i32 (rc_id c) \<Longrightarrow> signal_of J a b (Candidate_exec c) = (if rc_id c = b then [AddCandidate (c\<lparr>rc_id := a\<rparr>)] else [])"
proof -
  have m: "call_method (Description_exec d) = ''RtcDescription''" "call_method (Candidate_exec c) = ''RtcCandidate''"
    by (simp_all add: Description_exec_def Candidate_exec_def directCall_def)
  have i: "is_i32 (0 :: int)" by (simp add: is_i32_def)
  show "signal_of J a b (Description_exec d) = (if rd_id d = b then [SetRemote (d\<lparr>rd_id := a\<rparr>)] else [])" if "is_i32 (rd_id d)"
    using rtc_roundtrip [OF assms that, of "\<lparr>rc_id = 0, rc_candidate = [], rc_mid = []\<rparr>"] i m(1)
    by (simp add: signal_of_def Let_def)
  show "signal_of J a b (Candidate_exec c) = (if rc_id c = b then [AddCandidate (c\<lparr>rc_id := a\<rparr>)] else [])" if "is_i32 (rc_id c)"
    using rtc_roundtrip [OF assms _ that, of "\<lparr>rd_id = 0, rd_description = [], rd_type = []\<rparr>"] i m(2)
    by (simp add: signal_of_def Let_def)
qed

lemma relaysD:
  assumes "relays a b server"
  shows "rd_id d = b \<Longrightarrow> \<exists>k. is_i32 k \<and> server (wire_call i (Description_exec d)) = [wire_call k (Description_exec (d\<lparr>rd_id := a\<rparr>))]"
    and "rd_id d \<noteq> b \<Longrightarrow> server (wire_call i (Description_exec d)) = []"
    and "rc_id c = b \<Longrightarrow> \<exists>k. is_i32 k \<and> server (wire_call i (Candidate_exec c)) = [wire_call k (Candidate_exec (c\<lparr>rc_id := a\<rparr>))]"
    and "rc_id c \<noteq> b \<Longrightarrow> server (wire_call i (Candidate_exec c)) = []"
  using assms unfolding relays_def by presburger+

lemma relayed:
  assumes "jlib_ok J" and "is_i32 a" and "relays a b server" and "outgoing c"
  shows "\<exists>ds. list_all2 (brings J a) (server (wire_call i c)) ds \<and> concat ds = signal_of J a b c"
proof -
  consider (other) "\<not> is_signal c" | (description) d where "is_i32 (rd_id d)" "c = Description_exec d"
    | (candidate) d where "is_i32 (rc_id d)" "c = Candidate_exec d" using assms(4) by (auto simp: outgoing_def)
  then show ?thesis
  proof cases
    case other
    with assms(3) have "\<forall>msg \<in> set (server (wire_call i c)). brings J a msg []"
      unfolding relays_def brings_def by (metis no_signal)
    then have "list_all2 (brings J a) (server (wire_call i c)) (map (\<lambda>_. []) (server (wire_call i c)))"
      by (simp add: list.rel_map list.rel_refl_strong)
    then show ?thesis by (intro exI conjI) (assumption, simp add: no_signal [OF other])
  next
    case description
    show ?thesis
    proof (cases "rd_id d = b")
      case True
      with relaysD(1) [OF assms(3)] description(2) obtain k where
        "is_i32 k" "server (wire_call i c) = [wire_call k (Description_exec (d\<lparr>rd_id := a\<rparr>))]" by blast
      then have "list_all2 (brings J a) (server (wire_call i c)) [signal_of J a a (Description_exec (d\<lparr>rd_id := a\<rparr>))]"
        by (auto simp: brings_def)
      then show ?thesis using True assms(1,2) description by (intro exI conjI) (assumption, simp add: signal_of_exec)
    next
      case False
      with relaysD(2) [OF assms(3)] description(2) have "server (wire_call i c) = []" by blast
      with False assms(1) description show ?thesis by (simp add: signal_of_exec)
    qed
  next
    case candidate
    show ?thesis
    proof (cases "rc_id d = b")
      case True
      with relaysD(3) [OF assms(3)] candidate(2) obtain k where
        "is_i32 k" "server (wire_call i c) = [wire_call k (Candidate_exec (d\<lparr>rc_id := a\<rparr>))]" by blast
      then have "list_all2 (brings J a) (server (wire_call i c)) [signal_of J a a (Candidate_exec (d\<lparr>rc_id := a\<rparr>))]"
        by (auto simp: brings_def)
      then show ?thesis using True assms(1,2) candidate by (intro exI conjI) (assumption, simp add: signal_of_exec)
    next
      case False
      with relaysD(4) [OF assms(3)] candidate(2) have "server (wire_call i c) = []" by blast
      with False assms(1) candidate show ?thesis by (simp add: signal_of_exec)
    qed
  qed
qed

lemma inv_queue:
  assumes "signal_inv J a b l made s" and "outgoing c" and "is_signal c \<Longrightarrow> call_priority c = DirectCall"
  shows "signal_inv J a b l (made @ signal_of J a b c) (queue_signal c p s)"
proof (cases "call_priority c")
  case AuthorizedCall
  with assms(3) have "\<not> is_signal c" by auto
  with AuthorizedCall assms(1) show ?thesis
    by (auto simp: signal_inv_def queue_signal_def queue_call_def no_signal)
next
  case DirectCall
  from assms(1) obtain cs ds where "list_all2 (\<lambda>msg c. \<exists>i. msg = wire_call i c) (on_wire s) cs" "list_all2 (brings J a) (sg_inbox s) ds"
    "\<forall>c \<in> set (cs @ direct_calls s). outgoing c"
    "kept l (commands a (snd (sg_receiver s)) @ concat ds @ concat (map (signal_of J a b) (cs @ direct_calls s))) made"
    by (auto simp: signal_inv_def)
  moreover from kept_append [OF this(4), of "signal_of J a b c"]
  have "kept l (commands a (snd (sg_receiver s)) @ concat ds @ concat (map (signal_of J a b) (cs @ direct_calls s @ [c])))
      (made @ signal_of J a b c)" by simp
  ultimately show ?thesis using DirectCall assms(1,2)
    unfolding signal_inv_def by (intro conjI exI [of _ cs] exI [of _ ds]) (auto simp: queue_signal_def queue_call_def)
qed

lemma take_calls:
  "takeMethod c = Some (mi, c') \<Longrightarrow> \<exists>taken. co_directCalls c = taken @ co_directCalls c' \<and>
     (taken = [mi] \<or> taken = [] \<and> mi \<in> set (co_authorizedCalls c)) \<and>
     set (co_authorizedCalls c') \<subseteq> set (co_authorizedCalls c) \<and> co_reconnectionCount c' = co_reconnectionCount c"
  by (auto simp: takeMethod_def split: list.splits)

lemma inv_round:
  assumes "signal_inv J a b l made s" and "l \<Longrightarrow> env 0 = Opens \<and> failure = None"
    and "network_round env failure (sg_sender s) = Some m"
  shows "signal_inv J a b l made (s\<lparr>sg_sender := m\<rparr>)"
proof -
  let ?n = "sg_sender s"
  from assms(1) obtain cs ds where w: "list_all2 (\<lambda>msg c. \<exists>i. msg = wire_call i c) (on_wire s) cs" "list_all2 (brings J a) (sg_inbox s) ds"
    "\<forall>c \<in> set (cs @ direct_calls s). outgoing c"
    "kept l (commands a (snd (sg_receiver s)) @ concat ds @ concat (map (signal_of J a b) (cs @ direct_calls s))) made"
    "\<forall>mi \<in> set (co_authorizedCalls (nw_co ?n)). \<not> is_signal (mi_call mi)" "0 < co_reconnectionCount (nw_co ?n)"
    "sg_taken s \<le> length (w_sent (nw_rpc ?n))" "handlers_ok (fst (sg_receiver s))"
    by (auto simp: signal_inv_def)
  from network_round_cases [OF assms(3)] consider (same) "m = ?n"
    | (taken) mi new where "takeMethod (nw_co ?n) = Some (mi, nw_co m)" "w_sent (nw_rpc m) = w_sent (nw_rpc ?n) @ new"
        "new = [] \<or> (\<exists>i. new = [wire_call i (mi_call mi)])" "l \<Longrightarrow> new \<noteq> []"
    using assms(2) w(6) by blast
  then show ?thesis
  proof cases
    case same
    with assms(1) show ?thesis by simp
  next
    case taken
    let ?cs = "if new = [] then [] else [mi_call mi]"
    from take_calls [OF taken(1)] obtain xs where x: "co_directCalls (nw_co ?n) = xs @ co_directCalls (nw_co m)"
      "xs = [mi] \<or> xs = [] \<and> mi \<in> set (co_authorizedCalls (nw_co ?n))"
      "set (co_authorizedCalls (nw_co m)) \<subseteq> set (co_authorizedCalls (nw_co ?n))"
      "co_reconnectionCount (nw_co m) = co_reconnectionCount (nw_co ?n)" by blast
    define rest where "rest = map mi_call xs"
    have r: "direct_calls s = rest @ map mi_call (co_directCalls (nw_co m))"
      "rest = [mi_call mi] \<or> rest = [] \<and> \<not> is_signal (mi_call mi)"
      using x(1,2) w(5) by (auto simp: rest_def)
    have "list_all2 (\<lambda>msg c. \<exists>i. msg = wire_call i c) (drop (sg_taken s) (w_sent (nw_rpc m))) (cs @ ?cs)"
      using w(1,7) taken(2,3) by (auto intro!: list_all2_appendI)
    moreover have "\<forall>c \<in> set ((cs @ ?cs) @ map mi_call (co_directCalls (nw_co m))). outgoing c"
      using w(3) r(1,2) by (auto simp: outgoing_def)
    moreover have "kept l (commands a (snd (sg_receiver s)) @ concat ds @
        concat (map (signal_of J a b) ((cs @ ?cs) @ map mi_call (co_directCalls (nw_co m))))) made"
    proof (cases "new = []")
      case True
      with taken(4) have "\<not> l" by auto
      with kept_lost [of l "commands a (snd (sg_receiver s)) @ concat ds @ concat (map (signal_of J a b) cs)"
          "concat (map (signal_of J a b) rest)" "concat (map (signal_of J a b) (map mi_call (co_directCalls (nw_co m))))" made]
      show ?thesis using w(4) True by (simp add: r(1) comp_def)
    next
      case False
      with w(4) r(2) show ?thesis by (auto simp: r(1) no_signal comp_def)
    qed
    ultimately show ?thesis using w(2,5-8) x(3,4) taken(2)
      unfolding signal_inv_def by (intro conjI exI [of _ "cs @ ?cs"] exI [of _ ds]) auto
  qed
qed

lemma inv_flight:
  assumes "signal_inv J a b l made s"
  obtains cs ds where "list_all2 (\<lambda>msg c. \<exists>i. msg = wire_call i c) (on_wire s) cs" "list_all2 (brings J a) (sg_inbox s) ds"
    "\<forall>c \<in> set (cs @ direct_calls s). outgoing c"
    "kept l (commands a (snd (sg_receiver s)) @ concat ds @ concat (map (signal_of J a b) (cs @ direct_calls s))) made"
  using assms unfolding signal_inv_def by blast

lemma inv_rest:
  assumes "signal_inv J a b l made s"
  shows "\<forall>mi \<in> set (co_authorizedCalls (nw_co (sg_sender s))). \<not> is_signal (mi_call mi)"
    "sg_taken s \<le> length (w_sent (nw_rpc (sg_sender s)))" "handlers_ok (fst (sg_receiver s))"
    "0 < co_reconnectionCount (nw_co (sg_sender s))"
  using assms by (simp_all add: signal_inv_def)

lemma inv_closed:
  assumes "signal_inv J a b l made s" and "\<not> l" and "signal_step M J server ConnectionClosed s = Some s'"
  shows "signal_inv J a b l made s'"
proof -
  from assms(1) obtain cs ds where w: "list_all2 (brings J a) (sg_inbox s) ds" "\<forall>c \<in> set (cs @ direct_calls s). outgoing c"
    "kept l (commands a (snd (sg_receiver s)) @ concat ds @ concat (map (signal_of J a b) (cs @ direct_calls s))) made"
    by (rule inv_flight)
  have sent: "w_sent (on_closed w) = w_sent w" for w by (simp add: on_closed_def Let_def split: option.splits)
  have "kept l (commands a (snd (sg_receiver s)) @ concat ds @ concat (map (signal_of J a b) (direct_calls s))) made"
    using kept_lost [of l "commands a (snd (sg_receiver s)) @ concat ds" "concat (map (signal_of J a b) cs)"
        "concat (map (signal_of J a b) (direct_calls s))" made] w(3) assms(2) by simp
  with w(1,2) inv_rest [OF assms(1)] assms(3) sent show ?thesis
    unfolding signal_inv_def by (intro conjI exI [of _ "[]"] exI [of _ ds]) auto
qed

lemma inv_relay:
  assumes "signal_inv J a b l made s" and "jlib_ok J" and "is_i32 a" and "relays a b server"
    and "signal_step M J server Relay s = Some s'"
  shows "signal_inv J a b l made s'"
proof (cases "sg_taken s < length (w_sent (nw_rpc (sg_sender s)))")
  case True
  let ?msg = "w_sent (nw_rpc (sg_sender s)) ! sg_taken s"
  from assms(1) obtain cs ds where w: "list_all2 (\<lambda>msg c. \<exists>i. msg = wire_call i c) (on_wire s) cs"
    "list_all2 (brings J a) (sg_inbox s) ds" "\<forall>c \<in> set (cs @ direct_calls s). outgoing c"
    "kept l (commands a (snd (sg_receiver s)) @ concat ds @ concat (map (signal_of J a b) (cs @ direct_calls s))) made"
    by (rule inv_flight)
  have "on_wire s = ?msg # drop (Suc (sg_taken s)) (w_sent (nw_rpc (sg_sender s)))"
    using True by (simp add: Cons_nth_drop_Suc)
  with w(1) obtain i c cs' where c: "?msg = wire_call i c" "cs = c # cs'"
    "list_all2 (\<lambda>msg c. \<exists>i. msg = wire_call i c) (drop (Suc (sg_taken s)) (w_sent (nw_rpc (sg_sender s)))) cs'"
    by (auto simp: list_all2_Cons1)
  with w(3) have "outgoing c" by simp
  from relayed [OF assms(2-4) this, of i] obtain es where
    e: "list_all2 (brings J a) (server ?msg) es" "concat es = signal_of J a b c" by (auto simp: c(1))
  have "kept l (commands a (snd (sg_receiver s)) @ concat (ds @ es) @ concat (map (signal_of J a b) (cs' @ direct_calls s))) made"
    using w(4) by (simp add: c(2) e(2))
  moreover have "list_all2 (brings J a) (sg_inbox s @ server ?msg) (ds @ es)" using w(2) e(1) by (rule list_all2_appendI)
  ultimately show ?thesis using w(3) c inv_rest [OF assms(1)] assms(5) True
    unfolding signal_inv_def by (intro conjI exI [of _ cs'] exI [of _ "ds @ es"]) auto
qed (use assms in auto)

lemma inv_server:
  assumes "signal_inv J a b l made s" and "brings J a msg []" and "signal_step M J server (ServerSends msg) s = Some s'"
  shows "signal_inv J a b l made s'"
proof -
  from assms(1) obtain cs ds where w: "list_all2 (\<lambda>msg c. \<exists>i. msg = wire_call i c) (on_wire s) cs"
    "list_all2 (brings J a) (sg_inbox s) ds" "\<forall>c \<in> set (cs @ direct_calls s). outgoing c"
    "kept l (commands a (snd (sg_receiver s)) @ concat ds @ concat (map (signal_of J a b) (cs @ direct_calls s))) made"
    by (rule inv_flight)
  have "list_all2 (brings J a) (sg_inbox s @ [msg]) (ds @ [[]])" using w(2) assms(2) by (simp add: list_all2_appendI)
  with w inv_rest [OF assms(1)] assms(3) show ?thesis
    unfolding signal_inv_def by (intro conjI exI [of _ cs] exI [of _ "ds @ [[]]"]) auto
qed

lemma receive_brings:
  assumes "jlib_ok J" and "a \<noteq> 0" and "brings J a msg cs" and "handlers_ok (fst r)"
  obtains r' where "receive_message J msg r = Some r'" "handlers_ok (fst r')" "commands a (snd r') = commands a (snd r) @ cs"
proof -
  obtain w s where r: "r = (w, s)" by (cases r)
  from assms(3) consider (call) k c where "is_i32 k" "msg = wire_call k c" "cs = signal_of J a a c"
    | (reply) p where "msg = reply_to_json p" "cs = []" by (auto simp: brings_def)
  then show thesis
  proof cases
    case call
    with receive_call [OF assms(1) call(1), of w a c s] assms(2,4) that show ?thesis by (auto simp: r)
  next
    case reply
    with receive_reply [OF assms(1), of w p s] assms(4) that show ?thesis by (auto simp: r)
  qed
qed

lemma inv_receive:
  assumes "signal_inv J a b l made s" and "jlib_ok J" and "a \<noteq> 0" and "signal_step M J server Receive s = Some s'"
  shows "signal_inv J a b l made s'"
proof (cases "sg_inbox s")
  case (Cons msg rest)
  from assms(1) obtain cs ds where w: "list_all2 (\<lambda>msg c. \<exists>i. msg = wire_call i c) (on_wire s) cs"
    "list_all2 (brings J a) (sg_inbox s) ds" "\<forall>c \<in> set (cs @ direct_calls s). outgoing c"
    "kept l (commands a (snd (sg_receiver s)) @ concat ds @ concat (map (signal_of J a b) (cs @ direct_calls s))) made"
    by (rule inv_flight)
  from w(2) Cons obtain d ds' where d: "ds = d # ds'" "brings J a msg d" "list_all2 (brings J a) rest ds'"
    by (auto simp: list_all2_Cons1)
  from receive_brings [OF assms(2,3) d(2) inv_rest(3) [OF assms(1)]] obtain r where
    r: "receive_message J msg (sg_receiver s) = Some r" "handlers_ok (fst r)"
      "commands a (snd r) = commands a (snd (sg_receiver s)) @ d" .
  with Cons assms(4) have "s' = s\<lparr>sg_inbox := rest, sg_receiver := r\<rparr>" by simp
  with w d r(2,3) inv_rest [OF assms(1)] show ?thesis
    unfolding signal_inv_def by (intro conjI exI [of _ cs] exI [of _ ds']) auto
qed (use assms in auto)

lemma inv_receiver_does:
  assumes "signal_inv J a b l made s" and "spares a op" and "signal_step M J server (ReceiverDoes op) s = Some s'"
  shows "signal_inv J a b l made s'"
proof -
  from assms(3) obtain r where r: "rtc_do M op (snd (sg_receiver s)) = Some r" "s' = s\<lparr>sg_receiver := (fst (sg_receiver s), r)\<rparr>"
    by auto
  from rtc_do_spares [OF assms(2) r(1)] assms(1) show ?thesis by (simp add: r(2) signal_inv_def)
qed

lemma outgoing_exec:
  "is_i32 (rd_id d) \<Longrightarrow> outgoing (Description_exec d)" "is_i32 (rc_id c) \<Longrightarrow> outgoing (Candidate_exec c)"
  by (auto simp: outgoing_def)

lemma signal_inv_step:
  assumes "jlib_ok J" and "is_i32 a" and "a \<noteq> 0" and "relays a b server" and "event_ok J a ev" and "l \<Longrightarrow> lossless ev"
    and "signal_step M J server ev s = Some s'" and "signal_inv J a b l made s"
  shows "signal_inv J a b l (made @ signals_made a b [ev]) s'"
proof (cases ev)
  case (LocalDescription k type description p)
  let ?c = "on_local_description k type description"
  have "outgoing ?c"
    using LocalDescription assms(5) outgoing_exec(1) [of "\<lparr>rd_id = k, rd_description = description, rd_type = type\<rparr>"]
    by (simp add: on_local_description_def)
  moreover have "call_priority ?c = DirectCall" by (simp add: on_local_description_def Description_exec_def directCall_def)
  ultimately show ?thesis using inv_queue [OF assms(8), of ?c p] LocalDescription assms(1,5,7)
    by (simp add: on_local_description_def signal_of_exec split: if_splits)
next
  case (LocalCandidate k mid candidate p)
  let ?c = "on_local_candidate k mid candidate"
  have "outgoing ?c"
    using LocalCandidate assms(5) outgoing_exec(2) [of "\<lparr>rc_id = k, rc_candidate = candidate, rc_mid = mid\<rparr>"]
    by (simp add: on_local_candidate_def)
  moreover have "call_priority ?c = DirectCall" by (simp add: on_local_candidate_def Candidate_exec_def directCall_def)
  ultimately show ?thesis using inv_queue [OF assms(8), of ?c p] LocalCandidate assms(1,5,7)
    by (simp add: on_local_candidate_def signal_of_exec split: if_splits)
next
  case (QueueCall c p)
  with inv_queue [OF assms(8), of c p] assms(5,7) show ?thesis by (simp add: outgoing_def no_signal)
next
  case (NetworkRound env failure)
  with inv_round [OF assms(8), of env failure] assms(6,7) show ?thesis by auto
next
  case ConnectionClosed
  with assms(6) have "\<not> l" by auto
  from inv_closed [OF assms(8) this assms(7) [unfolded ConnectionClosed]] show ?thesis by (simp add: ConnectionClosed)
next
  case Relay
  with inv_relay [OF assms(8,1,2,4)] assms(7) show ?thesis by simp
next
  case (ServerSends msg)
  with inv_server [OF assms(8)] assms(5,7) show ?thesis by simp
next
  case Receive
  with inv_receive [OF assms(8,1,3)] assms(7) show ?thesis by simp
next
  case (ReceiverDoes op)
  with inv_receiver_does [OF assms(8)] assms(5,7) show ?thesis by simp
qed

lemma signals_made_append: "signals_made a b (evs @ evs') = signals_made a b evs @ signals_made a b evs'"
  by (induction a b evs rule: signals_made.induct) simp_all

lemma signal_inv_run:
  assumes "jlib_ok J" and "is_i32 a" and "a \<noteq> 0" and "relays a b server"
    and "signal_run M J server evs s = Some s'" and "\<forall>ev \<in> set evs. event_ok J a ev \<and> (l \<longrightarrow> lossless ev)"
    and "signal_inv J a b l made s"
  shows "signal_inv J a b l (made @ signals_made a b evs) s'"
  using assms(5-7)
proof (induction evs arbitrary: s made)
  case (Cons ev evs)
  from Cons.prems(1) obtain t where t: "signal_step M J server ev s = Some t" "signal_run M J server evs t = Some s'"
    by (cases "signal_step M J server ev s") simp_all
  have "signal_inv J a b l (made @ signals_made a b [ev]) t"
    by (rule signal_inv_step [OF assms(1-4) _ _ t(1) Cons.prems(3)]) (use Cons.prems(2) in auto)
  from Cons.IH [OF t(2) _ this] Cons.prems(2) show ?case
    using signals_made_append [of a b "[ev]" evs] by simp
qed simp

text \<open>
  The start: nothing queued, and the service of the receiver has just been made. And the end of the way: nothing is queued,
  on the wire or at the receiver.
\<close>

definition signalling_start :: "network \<Rightarrow> service \<Rightarrow> signalling" where
  "signalling_start n sv =
     \<lparr>sg_sender = n, sg_taken = length (w_sent (nw_rpc n)), sg_inbox = [], sg_receiver = (register_service new_wrapper, sv)\<rparr>"

definition all_arrived :: "signalling \<Rightarrow> bool" where
  "all_arrived s \<longleftrightarrow> direct_calls s = [] \<and> on_wire s = [] \<and> sg_inbox s = []"

lemma signalling_start_inv:
  assumes "co_directCalls (nw_co n) = []" and "co_authorizedCalls (nw_co n) = []" and "0 < co_reconnectionCount (nw_co n)"
    and "getPeerContext a sv = None"
  shows "signal_inv J a b l [] (signalling_start n sv)"
  using assms
  by (auto simp: signal_inv_def signalling_start_def kept_def commands_def handlers_ok_def register_service_def
      addClientHandler_def new_wrapper_def description_handler_def candidate_handler_def)

text \<open>
  C8: The connection with a peer gets the descriptions and candidates that the peer made for it, each at most once and in the
  order in which they were made, whatever is queued, sent, received and done in between; and as long as every round
  connects and the connection stays, exactly these: a prefix of them at any time, and all when nothing is on
  its way. A call lost with the connection is not made again, nobody is told.
\<close>

theorem signals_arrive_in_order:
  assumes "jlib_ok J" and "is_i32 a" and "a \<noteq> 0" and "relays a b server"
    and "co_directCalls (nw_co n) = []" and "co_authorizedCalls (nw_co n) = []" and "0 < co_reconnectionCount (nw_co n)"
    and "getPeerContext a sv = None" and "\<forall>ev \<in> set evs. event_ok J a ev"
    and "signal_run M J server evs (signalling_start n sv) = Some s"
  shows "subseq (commands a (snd (sg_receiver s))) (signals_made a b evs) \<and>
    ((\<forall>ev \<in> set evs. lossless ev) \<longrightarrow>
       (\<exists>rest. signals_made a b evs = commands a (snd (sg_receiver s)) @ rest \<and> (all_arrived s \<longrightarrow> rest = [])))"
proof
  have start: "signal_inv J a b l [] (signalling_start n sv)" for l by (rule signalling_start_inv [OF assms(5-8)])
  have inv: "signal_inv J a b l (signals_made a b evs) s" if "l \<longrightarrow> (\<forall>ev \<in> set evs. lossless ev)" for l
    using signal_inv_run [OF assms(1-4,10) _ start, of l] that assms(9) by simp
  have "signal_inv J a b False (signals_made a b evs) s" by (rule inv) simp
  then obtain rest where "kept False (commands a (snd (sg_receiver s)) @ rest) (signals_made a b evs)" by (rule inv_flight)
  then show "subseq (commands a (snd (sg_receiver s))) (signals_made a b evs)"
    using subseq_order.trans [OF prefix_imp_subseq [OF prefixI [OF refl]]] unfolding kept_def by simp
  show "(\<forall>ev \<in> set evs. lossless ev) \<longrightarrow>
      (\<exists>rest. signals_made a b evs = commands a (snd (sg_receiver s)) @ rest \<and> (all_arrived s \<longrightarrow> rest = []))"
  proof
    assume "\<forall>ev \<in> set evs. lossless ev"
    then have "signal_inv J a b True (signals_made a b evs) s" by (intro inv) simp
    then obtain cs ds where w: "list_all2 (\<lambda>msg c. \<exists>i. msg = wire_call i c) (on_wire s) cs"
      "list_all2 (brings J a) (sg_inbox s) ds"
      "kept True (commands a (snd (sg_receiver s)) @ concat ds @ concat (map (signal_of J a b) (cs @ direct_calls s)))
         (signals_made a b evs)" by (rule inv_flight)
    let ?rest = "concat ds @ concat (map (signal_of J a b) (cs @ direct_calls s))"
    have "?rest = []" if "all_arrived s"
    proof -
      from that w(1,2) have "cs = []" "ds = []" "direct_calls s = []" by (simp_all add: all_arrived_def)
      then show ?thesis by simp
    qed
    with w(3) show "\<exists>rest. signals_made a b evs = commands a (snd (sg_receiver s)) @ rest \<and> (all_arrived s \<longrightarrow> rest = [])"
      unfolding kept_def by (intro exI [of _ ?rest]) simp
  qed
qed

section \<open>An offer and a candidate\<close>

text \<open>A server that knows the users \<open>a\<close> and \<open>b\<close>.\<close>

fun plain_server :: "int \<Rightarrow> int \<Rightarrow> json \<Rightarrow> json list" where
  "plain_server a b (JObject [t, i, (d, JObject [(x, JString m), (y, JObject ((z, JInt k) # rest))])]) =
     (if (m = ''RtcDescription'' \<or> m = ''RtcCandidate'') \<and> k = b
      then [JObject [t, (''messageID'', JInt 0), (d, JObject [(x, JString m), (y, JObject ((z, JInt a) # rest))])]]
      else [])"
| "plain_server a b msg = []"

lemma plain_server_calls:
  "plain_server a b (wire_call i (Description_exec d)) =
     (if rd_id d = b then [wire_call 0 (Description_exec (d\<lparr>rd_id := a\<rparr>))] else [])"
  "plain_server a b (wire_call i (Candidate_exec c)) =
     (if rc_id c = b then [wire_call 0 (Candidate_exec (c\<lparr>rc_id := a\<rparr>))] else [])"
  by (simp_all add: wire_call_def method_call_to_json_def Description_exec_def Candidate_exec_def directCall_def)

lemma plain_server_relays: "relays a b (plain_server a b)"
proof -
  have "plain_server a b (wire_call i c) = []" if "\<not> is_signal c" for i c
    using that by (cases "(a, b, wire_call i c)" rule: plain_server.cases)
      (auto simp: wire_call_def method_call_to_json_def is_signal_def)
  moreover have "is_i32 (0 :: int)" by (simp add: is_i32_def)
  ultimately show ?thesis unfolding relays_def plain_server_calls by auto
qed

definition example_signals :: "signal_event list" where
  "example_signals =
     [LocalDescription 2 ''offer'' ''sdp'' 1, QueueCall (serverCall ''getUser'' JNull) 2, LocalCandidate 2 ''0'' ''host'' 3,
      NetworkRound (\<lambda>_. Opens) None, NetworkRound (\<lambda>_. Opens) None, Relay, Relay, Receive, Receive]"

lemmas signal_run_simps =
  example_signals_def signalling_start_def idle_network_def queue_signal_def queue_call_def network_round_def
  connect_attempt_def connect_def on_open_def takeMethod_def serverMethod_def methodCallMsg_def generateID_def
  new_method_call_def new_coordinator_def new_wrapper_def on_local_description_def on_local_candidate_def
  Description_exec_def Candidate_exec_def directCall_def serverCall_def method_call_to_json_def settle_def all_arrived_def
  receive_message_def handleTextMessage_def handleMethodCall_def method_call_from_json_def plain_jlib_def at_step_def
  json_at_def value_step_def json_value_def or_default_def

lemma example_signals_run:
  "\<exists>s. signal_run good_ffmpeg plain_jlib (plain_server 1 2) example_signals
     (signalling_start (idle_network\<lparr>nw_fresh := 4\<rparr>) (new_service (\<lambda>_. packet_pipe) 0)) = Some s \<and> all_arrived s"
  by (simp add: signal_run_simps eval_nat_numeral)

theorem signals_arrive_in_order_witness:
  "\<exists>s. signal_run good_ffmpeg plain_jlib (plain_server 1 2) example_signals
     (signalling_start (idle_network\<lparr>nw_fresh := 4\<rparr>) (new_service (\<lambda>_. packet_pipe) 0)) = Some s \<and>
     commands 1 (snd (sg_receiver s)) =
       [SetRemote \<lparr>rd_id = 1, rd_description = ''sdp'', rd_type = ''offer''\<rparr>,
        AddCandidate \<lparr>rc_id = 1, rc_candidate = ''host'', rc_mid = ''0''\<rparr>]"
proof -
  obtain s where s: "signal_run good_ffmpeg plain_jlib (plain_server 1 2) example_signals
     (signalling_start (idle_network\<lparr>nw_fresh := 4\<rparr>) (new_service (\<lambda>_. packet_pipe) 0)) = Some s" "all_arrived s"
    using example_signals_run by blast
  have "is_i32 (1 :: int)" "(1 :: int) \<noteq> 0" "co_directCalls (nw_co (idle_network\<lparr>nw_fresh := 4\<rparr>)) = []"
    "co_authorizedCalls (nw_co (idle_network\<lparr>nw_fresh := 4\<rparr>)) = []" "0 < co_reconnectionCount (nw_co (idle_network\<lparr>nw_fresh := 4\<rparr>))"
    "getPeerContext 1 (new_service (\<lambda>_. packet_pipe) 0) = None"
    by (simp_all add: is_i32_def idle_network_def new_coordinator_def getPeerContext_def new_service_def)
  moreover have "\<forall>ev \<in> set example_signals. event_ok plain_jlib 1 ev" "\<forall>ev \<in> set example_signals. lossless ev"
    by (simp_all add: example_signals_def is_i32_def is_signal_def serverCall_def)
  ultimately have "commands 1 (snd (sg_receiver s)) = signals_made 1 2 example_signals"
    using signals_arrive_in_order [OF plain_jlib_ok _ _ plain_server_relays _ _ _ _ _ s(1)] s(2) by auto
  with s(1) show ?thesis by (simp add: example_signals_def)
qed

end
