(* ===== verification/ContextOwners.thy ===== *)
theory ContextOwners
  imports Prelude "HOL-Library.Multiset"
begin

text \<open>
  Who frees the codec contexts of a call (\<open>AVCodecContext\<close>): the shared pointers that \<open>createCodecContext\<close> makes
  (\<open>lib/media/media.h\<close>), the encoders that also free them by hand (\<open>lib/media/encoder.cpp\<close>), the configuration of the
  packetizer and the decoders, which only hold them, and \<open>rtc::Service\<close>, which makes and closes all of these
  (\<open>lib/network/rtcservice.cpp\<close>). What FFmpeg does when a context is freed is not modelled: the calls of
  \<open>avcodec_free_context\<close> are recorded.
\<close>

section \<open>Shared pointers\<close>

text \<open>Contexts are numbered; \<open>cx_owners\<close> is the use count, \<open>cx_freed\<close> the calls of \<open>avcodec_free_context\<close>, first one first.\<close>

record contexts =
  cx_owners :: "nat \<Rightarrow> nat"
  cx_next :: nat
  cx_freed :: "nat list"

definition no_contexts :: contexts where
  "no_contexts = \<lparr>cx_owners = (\<lambda>_. 0), cx_next = 0, cx_freed = []\<rparr>"

text \<open>\<open>ok\<close>: FFmpeg has memory for the context.\<close>

definition createCodecContext :: "bool \<Rightarrow> contexts \<Rightarrow> nat option \<times> contexts" where
  "createCodecContext ok x =
     (if ok then (Some (cx_next x), x\<lparr>cx_owners := (cx_owners x)(cx_next x := 1), cx_next := Suc (cx_next x)\<rparr>)
      else (None, x))"

definition cx_copy :: "nat option \<Rightarrow> contexts \<Rightarrow> contexts" where
  "cx_copy p x = (case p of None \<Rightarrow> x | Some a \<Rightarrow> x\<lparr>cx_owners := (cx_owners x)(a := Suc (cx_owners x a))\<rparr>)"

definition cx_reset :: "nat option \<Rightarrow> contexts \<Rightarrow> contexts" where
  "cx_reset p x =
     (case p of
        None \<Rightarrow> x
      | Some a \<Rightarrow>
          (let x = x\<lparr>cx_owners := (cx_owners x)(a := cx_owners x a - 1)\<rparr> in
           if cx_owners x a = 0 then x\<lparr>cx_freed := cx_freed x @ [a]\<rparr> else x))"

section \<open>Encoders and decoders\<close>

text \<open>
  The constructors of the encoders: the codec is looked for (\<open>found\<close>), \<open>initialize\<close> copies the pointer into
  \<open>_cCtx\<close>, and the local one goes away.
\<close>

definition encoder_made :: "bool \<Rightarrow> bool \<Rightarrow> contexts \<Rightarrow> nat option \<times> contexts" where
  "encoder_made found ok x =
     (if \<not> found then (None, x)
      else let (ctx, x) = createCodecContext ok x in
        (case ctx of None \<Rightarrow> (None, x) | Some a \<Rightarrow> (ctx, cx_reset ctx (cx_copy ctx x))))"

text \<open>\<open>close\<close>: the context is freed by hand, then the pointer is reset. The result is the new \<open>_cCtx\<close>.\<close>

definition encoder_closed :: "nat option \<Rightarrow> contexts \<Rightarrow> nat option \<times> contexts" where
  "encoder_closed ctx x =
     (case ctx of
        None \<Rightarrow> (None, x)
      | Some a \<Rightarrow> (None, cx_reset ctx (x\<lparr>cx_freed := cx_freed x @ [a]\<rparr>)))"

text \<open>The constructor of a decoder; \<open>opens\<close> is the answer of \<open>avcodec_open2\<close>. When it fails the local pointer is the only one.\<close>

definition decoder_made :: "bool \<Rightarrow> bool \<Rightarrow> bool \<Rightarrow> contexts \<Rightarrow> nat option \<times> contexts" where
  "decoder_made found ok opens x =
     (if \<not> found then (None, x)
      else let (ctx, x) = createCodecContext ok x in
        (case ctx of None \<Rightarrow> (None, x) | Some a \<Rightarrow> (if \<not> opens then (None, cx_reset ctx x) else (ctx, x))))"

section \<open>The service\<close>

text \<open>
  \<open>Some ctx\<close>: the object exists and has the pointer \<open>ctx\<close>. The decoders are those of the peers, by user and kind; \<open>True\<close> is
  video.
\<close>

record call_media =
  md_contexts :: contexts
  md_encoder :: "nat option option"
  md_packetizer :: "nat option option"
  md_audio :: "nat option option"
  md_decoders :: "((int \<times> bool) \<times> nat option) list"

definition no_media :: call_media where
  "no_media = \<lparr>md_contexts = no_contexts, md_encoder = None, md_packetizer = None, md_audio = None, md_decoders = []\<rparr>"

text \<open>\<open>openLocalVideo\<close>: the configuration has a copy of the pointer, which a new packetizer takes over.\<close>

definition video_opened :: "bool \<Rightarrow> bool \<Rightarrow> call_media \<Rightarrow> call_media" where
  "video_opened found ok s =
     (let (ctx, x) = (case md_encoder s of Some c \<Rightarrow> (c, md_contexts s) | None \<Rightarrow> encoder_made found ok (md_contexts s));
          x = cx_copy ctx x
      in case md_packetizer s of
           None \<Rightarrow> s\<lparr>md_contexts := x, md_encoder := Some ctx, md_packetizer := Some ctx\<rparr>
         | Some c \<Rightarrow> s\<lparr>md_contexts := cx_reset ctx x, md_encoder := Some ctx\<rparr>)"

definition audio_opened :: "bool \<Rightarrow> bool \<Rightarrow> call_media \<Rightarrow> call_media" where
  "audio_opened found ok s =
     (case md_audio s of
        Some c \<Rightarrow> s
      | None \<Rightarrow> (let (ctx, x) = encoder_made found ok (md_contexts s) in s\<lparr>md_contexts := x, md_audio := Some ctx\<rparr>))"

definition remote_opened :: "int \<times> bool \<Rightarrow> bool \<Rightarrow> bool \<Rightarrow> bool \<Rightarrow> call_media \<Rightarrow> call_media" where
  "remote_opened k found ok opens s =
     (if map_of (md_decoders s) k \<noteq> None then s
      else let (ctx, x) = decoder_made found ok opens (md_contexts s) in
        s\<lparr>md_contexts := x, md_decoders := (k, ctx) # md_decoders s\<rparr>)"

definition remote_flushed :: "int \<times> bool \<Rightarrow> call_media \<Rightarrow> call_media" where
  "remote_flushed k s =
     s\<lparr>md_contexts := fold cx_reset (map snd (filter (\<lambda>(j, c). j = k) (md_decoders s))) (md_contexts s),
       md_decoders := filter (\<lambda>(j, c). j \<noteq> k) (md_decoders s)\<rparr>"

text \<open>\<open>closeAllConnections\<close>: the encoders are closed, then encoder and packetizer are let go of, then the peers.\<close>

definition all_closed :: "call_media \<Rightarrow> call_media" where
  "all_closed s =
     (let x = md_contexts s;
          (video, x) = (case md_encoder s of None \<Rightarrow> (None, x) | Some c \<Rightarrow> encoder_closed c x);
          (audio, x) = (case md_audio s of None \<Rightarrow> (None, x) | Some c \<Rightarrow> encoder_closed c x);
          x = snd (encoder_closed video x);
          x = (case md_packetizer s of None \<Rightarrow> x | Some c \<Rightarrow> cx_reset c x);
          x = snd (encoder_closed audio x);
          x = fold cx_reset (map snd (md_decoders s)) x
      in \<lparr>md_contexts = x, md_encoder = None, md_packetizer = None, md_audio = None, md_decoders = []\<rparr>)"

datatype media_op =
  VideoOpened bool bool
| AudioOpened bool bool
| RemoteOpened "int \<times> bool" bool bool bool
| RemoteFlushed "int \<times> bool"

fun media_do :: "media_op \<Rightarrow> call_media \<Rightarrow> call_media" where
  "media_do (VideoOpened found ok) s = video_opened found ok s"
| "media_do (AudioOpened found ok) s = audio_opened found ok s"
| "media_do (RemoteOpened k found ok opens) s = remote_opened k found ok opens s"
| "media_do (RemoteFlushed k) s = remote_flushed k s"

section \<open>Use counts\<close>

abbreviation pointer :: "nat option option \<Rightarrow> nat multiset" where
  "pointer p \<equiv> (case p of Some (Some a) \<Rightarrow> {#a#} | _ \<Rightarrow> {#})"

definition held_by :: "((int \<times> bool) \<times> nat option) list \<Rightarrow> nat multiset" where
  "held_by ds = sum_list (map (\<lambda>(k, c). pointer (Some c)) ds)"

text \<open>All pointers to contexts that exist.\<close>

definition owners :: "call_media \<Rightarrow> nat multiset" where
  "owners s = pointer (md_encoder s) + pointer (md_packetizer s) + pointer (md_audio s) + held_by (md_decoders s)"

text \<open>
  \<open>rs\<close> are the pointers that exist: use counts are right, and what was made is held or has been freed once, and \<open>es\<close> by
  hand.
\<close>

definition counted :: "nat multiset \<Rightarrow> nat multiset \<Rightarrow> contexts \<Rightarrow> bool" where
  "counted es rs x \<longleftrightarrow> (\<forall>a. cx_owners x a = count rs a) \<and> (\<forall>a \<in># rs. a < cx_next x) \<and>
     (\<forall>a. count (mset (cx_freed x)) a = (if a < cx_next x \<and> a \<notin># rs then 1 else 0) + count es a) \<and>
     (\<forall>a \<in># es. a < cx_next x)"

lemma counted_create:
  assumes "counted es rs x" and "createCodecContext ok x = (p, y)"
  shows "counted es (rs + pointer (Some p)) y" and "p = Some a \<Longrightarrow> a \<notin># rs"
proof -
  have n: "cx_next x \<notin># rs" "count rs (cx_next x) = 0" using assms(1) by (auto simp: counted_def not_in_iff)
  with assms show "counted es (rs + pointer (Some p)) y" and "p = Some a \<Longrightarrow> a \<notin># rs"
    by (auto simp: counted_def createCodecContext_def less_Suc_eq split: if_splits)
qed

lemma counted_copy:
  "counted es rs x \<Longrightarrow> (\<And>a. c = Some a \<Longrightarrow> a \<in># rs) \<Longrightarrow> counted es (rs + pointer (Some c)) (cx_copy c x)"
  by (cases c) (auto simp: counted_def cx_copy_def)

lemma counted_reset: "counted es (rs + pointer (Some c)) x \<Longrightarrow> counted es rs (cx_reset c x)"
  by (cases c) (auto simp: counted_def cx_reset_def Let_def not_in_iff split: if_splits)

lemma counted_made:
  assumes "counted es rs x"
  shows "encoder_made found ok x = (c, y) \<Longrightarrow> counted es (rs + pointer (Some c)) y \<and> (\<forall>a. c = Some a \<longrightarrow> a \<notin># rs)"
    and "decoder_made found ok opens x = (c, y) \<Longrightarrow> counted es (rs + pointer (Some c)) y \<and> (\<forall>a. c = Some a \<longrightarrow> a \<notin># rs)"
proof -
  obtain p z where z: "createCodecContext ok x = (p, z)" by fastforce
  note z' = counted_create [OF assms z]
  show "counted es (rs + pointer (Some c)) y \<and> (\<forall>a. c = Some a \<longrightarrow> a \<notin># rs)" if "encoder_made found ok x = (c, y)"
  proof (cases "found \<and> p \<noteq> None")
    case True
    then obtain a where a: "p = Some a" by auto
    with z' have "counted es (rs + {#a#}) z" by simp
    from counted_reset [of _ _ "Some a"] counted_copy [OF this, of "Some a"] True that z z'(2) a show ?thesis
      by (auto simp: encoder_made_def)
  qed (use that z z' assms in \<open>auto simp: encoder_made_def split: if_splits\<close>)
  show "counted es (rs + pointer (Some c)) y \<and> (\<forall>a. c = Some a \<longrightarrow> a \<notin># rs)" if "decoder_made found ok opens x = (c, y)"
    using that z z' assms counted_reset [of es rs p z] by (auto simp: decoder_made_def split: if_splits option.splits)
qed

lemma held_by_Cons [simp]: "held_by [] = {#}" "held_by ((k, c) # ds) = pointer (Some c) + held_by ds"
  by (simp_all add: held_by_def)

lemma counted_drop:
  "counted es (rs + held_by ds) x \<Longrightarrow> counted es rs (fold cx_reset (map snd ds) x)"
proof (induction ds arbitrary: x)
  case (Cons d ds)
  obtain k c where d: "d = (k, c)" by fastforce
  have "counted es (rs + held_by ds) (cx_reset c x)"
    using counted_reset [of es "rs + held_by ds" c x] Cons.prems by (simp add: d ac_simps)
  from Cons.IH [OF this] show ?case by (simp add: d)
qed simp

lemma held_by_parts: "held_by (filter (\<lambda>(j, c). j \<noteq> k) ds) + held_by (filter (\<lambda>(j, c). j = k) ds) = held_by ds"
  by (induction ds) auto

text \<open>The packetizer shares the pointer of the video encoder; nobody else has that of an encoder.\<close>

definition media_ok :: "call_media \<Rightarrow> bool" where
  "media_ok s \<longleftrightarrow> counted {#} (owners s) (md_contexts s) \<and> md_packetizer s = md_encoder s \<and>
     (\<forall>a. md_encoder s = Some (Some a) \<longrightarrow> a \<notin># pointer (md_audio s) + held_by (md_decoders s)) \<and>
     (\<forall>a. md_audio s = Some (Some a) \<longrightarrow> a \<notin># pointer (md_encoder s) + held_by (md_decoders s))"

lemma video_opened_ok:
  assumes "media_ok s"
  shows "media_ok (video_opened found ok s)"
proof (cases "md_encoder s")
  case None
  let ?rs = "pointer (md_audio s) + held_by (md_decoders s)"
  obtain c x where m: "encoder_made found ok (md_contexts s) = (c, x)" by fastforce
  have o: "owners s = ?rs" "md_packetizer s = None" using assms None by (simp_all add: media_ok_def owners_def)
  then have "counted {#} ?rs (md_contexts s)" using assms by (simp add: media_ok_def)
  from counted_made(1) [OF this m] have c: "counted {#} (?rs + pointer (Some c)) x" "\<forall>a. c = Some a \<longrightarrow> a \<notin># ?rs" by blast+
  have "counted {#} (?rs + pointer (Some c) + pointer (Some c)) (cx_copy c x)"
    using counted_copy [OF c(1), of c] by simp
  with c(2) assms None o(2) m show ?thesis
    by (auto simp: video_opened_def media_ok_def owners_def ac_simps split: option.splits)
next
  case (Some c)
  have "counted {#} (owners s) (md_contexts s)" using assms by (simp add: media_ok_def)
  from counted_copy [OF this, of c] Some have "counted {#} (owners s + pointer (Some c)) (cx_copy c (md_contexts s))"
    by (simp add: owners_def)
  from counted_reset [OF this] assms Some show ?thesis by (simp add: video_opened_def media_ok_def owners_def)
qed

lemma audio_opened_ok:
  assumes "media_ok s"
  shows "media_ok (audio_opened found ok s)"
proof (cases "md_audio s")
  case None
  obtain c x where m: "encoder_made found ok (md_contexts s) = (c, x)" by fastforce
  have "counted {#} (owners s) (md_contexts s)" using assms by (simp add: media_ok_def)
  from counted_made(1) [OF this m] have c: "counted {#} (owners s + pointer (Some c)) x" "\<forall>a. c = Some a \<longrightarrow> a \<notin># owners s" by blast+
  with assms None m show ?thesis
    by (cases c) (auto simp: audio_opened_def media_ok_def owners_def ac_simps)
qed (use assms in \<open>simp add: audio_opened_def\<close>)

lemma remote_opened_ok:
  assumes "media_ok s"
  shows "media_ok (remote_opened k found ok opens s)"
proof (cases "map_of (md_decoders s) k")
  case None
  obtain c x where m: "decoder_made found ok opens (md_contexts s) = (c, x)" by fastforce
  have "counted {#} (owners s) (md_contexts s)" using assms by (simp add: media_ok_def)
  from counted_made(2) [OF this m] have c: "counted {#} (owners s + pointer (Some c)) x" "\<forall>a. c = Some a \<longrightarrow> a \<notin># owners s" by blast+
  with assms None m show ?thesis
    by (cases c) (auto simp: remote_opened_def media_ok_def owners_def ac_simps)
qed (use assms in \<open>simp add: remote_opened_def\<close>)

lemma remote_flushed_ok:
  assumes "media_ok s"
  shows "media_ok (remote_flushed k s)"
proof -
  let ?keep = "filter (\<lambda>(j, c). j \<noteq> k) (md_decoders s)" and ?drop = "filter (\<lambda>(j, c). j = k) (md_decoders s)"
  let ?rs = "pointer (md_encoder s) + pointer (md_packetizer s) + pointer (md_audio s) + held_by ?keep"
  have o: "owners s = ?rs + held_by ?drop" using held_by_parts [of k "md_decoders s"] by (simp add: owners_def ac_simps)
  have "counted {#} (owners s) (md_contexts s)" using assms by (simp add: media_ok_def)
  then have "counted {#} (?rs + held_by ?drop) (md_contexts s)" by (simp only: o)
  from counted_drop [OF this] have "counted {#} ?rs (fold cx_reset (map snd ?drop) (md_contexts s))" .
  moreover have "held_by ?keep \<subseteq># held_by (md_decoders s)"
    using held_by_parts [of k "md_decoders s"] by (metis mset_subset_eq_add_left)
  ultimately show ?thesis using assms
    by (auto simp: remote_flushed_def media_ok_def owners_def dest: mset_subset_eqD)
qed

lemma media_do_ok: "media_ok s \<Longrightarrow> media_ok (media_do op s)"
  by (cases op) (simp_all add: video_opened_ok audio_opened_ok remote_opened_ok remote_flushed_ok)

lemma media_run_ok: "media_ok (fold media_do ops no_media)"
proof -
  have "media_ok no_media" by (simp add: media_ok_def no_media_def owners_def counted_def no_contexts_def)
  then show ?thesis by (induction ops rule: rev_induct) (simp_all add: media_do_ok)
qed

section \<open>Closing\<close>

lemma counted_closed:
  assumes "counted es (rs + pointer (Some c)) x" and "encoder_closed c x = (d, y)"
  shows "counted (es + pointer (Some c)) rs y \<and> d = None"
proof (cases c)
  case (Some a)
  have "counted (es + {#a#}) (rs + {#a#}) (x\<lparr>cx_freed := cx_freed x @ [a]\<rparr>)"
    using assms(1) Some by (auto simp: counted_def)
  with counted_reset [of _ rs c "x\<lparr>cx_freed := cx_freed x @ [a]\<rparr>"] assms(2) Some show ?thesis
    by (simp add: encoder_closed_def)
qed (use assms in \<open>simp add: encoder_closed_def\<close>)

lemma closed_next [simp]:
  "cx_next (cx_reset c x) = cx_next x" "cx_next (snd (encoder_closed c x)) = cx_next x"
  "cx_next (fold cx_reset cs x) = cx_next x"
proof -
  show r: "cx_next (cx_reset c x) = cx_next x" for c x by (simp add: cx_reset_def Let_def split: option.splits)
  then show "cx_next (snd (encoder_closed c x)) = cx_next x" by (simp add: encoder_closed_def split: option.splits)
  show "cx_next (fold cx_reset cs x) = cx_next x" by (induction cs arbitrary: x) (simp_all add: r)
qed

lemma all_closed_counted:
  assumes "media_ok s"
  shows "counted (pointer (md_encoder s) + pointer (md_audio s)) {#} (md_contexts (all_closed s))"
    and "cx_next (md_contexts (all_closed s)) = cx_next (md_contexts s)"
proof -
  define flat :: "nat option option \<Rightarrow> nat option" where "flat p = (case p of None \<Rightarrow> None | Some c \<Rightarrow> c)" for p
  have flat: "(case flat p of None \<Rightarrow> {#} | Some a \<Rightarrow> {#a#}) = pointer p" for p by (simp add: flat_def split: option.splits)
  have same: "(case p of None \<Rightarrow> (None, x) | Some c \<Rightarrow> encoder_closed c x) = encoder_closed (flat p) x"
    "(case p of None \<Rightarrow> x | Some c \<Rightarrow> cx_reset c x) = cx_reset (flat p) x" for p x
    by (simp_all add: flat_def encoder_closed_def cx_reset_def split: option.splits)
  have none: "encoder_closed c x = (None, snd (encoder_closed c x))" "encoder_closed None x = (None, x)" for c x
    by (simp_all add: encoder_closed_def split: option.splits)
  let ?e = "md_encoder s" and ?p = "md_packetizer s" and ?a = "md_audio s" and ?h = "held_by (md_decoders s)"
  define x1 where "x1 = snd (encoder_closed (flat ?e) (md_contexts s))"
  define x2 where "x2 = snd (encoder_closed (flat ?a) x1)"
  have x3: "md_contexts (all_closed s) = fold cx_reset (map snd (md_decoders s)) (cx_reset (flat ?p) x2)"
    using none(1) [of "flat ?e" "md_contexts s"] none(1) [of "flat ?a" x1]
    by (simp add: all_closed_def same none(2) x1_def [symmetric] x2_def [symmetric])
  have "counted {#} (owners s) (md_contexts s)" using assms by (simp add: media_ok_def)
  then have "counted {#} ((pointer ?p + pointer ?a + ?h) + pointer (Some (flat ?e))) (md_contexts s)"
    by (simp add: owners_def flat ac_simps)
  from counted_closed [OF this none(1)] have "counted (pointer ?e) ((pointer ?p + ?h) + pointer (Some (flat ?a))) x1"
    by (simp add: x1_def flat ac_simps)
  from counted_closed [OF this none(1)] have "counted (pointer ?e + pointer ?a) (?h + pointer (Some (flat ?p))) x2"
    by (simp add: x2_def flat ac_simps)
  from counted_reset [OF this] have "counted (pointer ?e + pointer ?a) ({#} + ?h) (cx_reset (flat ?p) x2)" by simp
  from counted_drop [OF this] show "counted (pointer ?e + pointer ?a) {#} (md_contexts (all_closed s))" by (simp only: x3)
  show "cx_next (md_contexts (all_closed s)) = cx_next (md_contexts s)" by (simp add: x3 x2_def x1_def)
qed

text \<open>
  C38: Closing all connections frees the codec context of each encoder of the call twice, once by hand and once by the shared pointer;
  until then, and for the decoders always, a context is freed exactly once, when its last owner lets it go.
\<close>

theorem closing_frees_encoders_twice:
  "let s = fold media_do ops no_media; x = md_contexts s; y = md_contexts (all_closed s) in
     (\<forall>a. count_list (cx_freed x) a = (if a < cx_next x \<and> a \<notin># owners s then 1 else 0)) \<and>
     (\<forall>a < cx_next x. count_list (cx_freed y) a = (if md_encoder s = Some (Some a) \<or> md_audio s = Some (Some a) then 2 else 1))"
proof -
  define s where "s = fold media_do ops no_media"
  have ok: "media_ok s" unfolding s_def by (rule media_run_ok)
  then have "counted {#} (owners s) (md_contexts s)" by (simp add: media_ok_def)
  moreover have "count (pointer (md_encoder s) + pointer (md_audio s)) a =
      (if md_encoder s = Some (Some a) \<or> md_audio s = Some (Some a) then 1 else 0)" for a
    using ok by (auto simp: media_ok_def split: option.splits)
  ultimately show ?thesis
    using all_closed_counted [OF ok] by (simp add: counted_def count_mset Let_def s_def [symmetric])
qed

text \<open>A call with the camera on, in which the microphone was turned on and a user was seen, is left.\<close>

definition example_media :: "media_op list" where
  "example_media = [VideoOpened True True, AudioOpened True True, RemoteOpened (3, True) True True True]"

theorem closing_frees_encoders_twice_witness:
  "count_list (cx_freed (md_contexts (all_closed (fold media_do example_media no_media)))) 0 = 2 \<and>
   count_list (cx_freed (md_contexts (all_closed (fold media_do example_media no_media)))) 1 = 2 \<and>
   count_list (cx_freed (md_contexts (all_closed (fold media_do example_media no_media)))) 2 = 1"
proof -
  let ?s = "fold media_do example_media no_media"
  have "cx_next (md_contexts ?s) = 3" "md_encoder ?s = Some (Some 0)" "md_audio ?s = Some (Some 1)"
    by (simp_all add: example_media_def no_media_def no_contexts_def video_opened_def audio_opened_def remote_opened_def
        encoder_made_def decoder_made_def createCodecContext_def cx_copy_def cx_reset_def)
  with closing_frees_encoders_twice [of example_media] show ?thesis by (simp add: Let_def)
qed

end
