(* ===== verification/UserList.thy ===== *)
theory UserList
  imports UserController
begin

text \<open>
  The list of users as QML sees it: the roles and the reading of \<open>User::Model\<close> (\<open>lib/core/models/usermodel.h\<close>), and
  a view that reads a row when it appears and again when \<open>dataChanged\<close> names it, while the handles in the
  list change.
\<close>

section \<open>Reading\<close>

datatype user_role = IDRole | NameRole | TagRole | StatusRole | HandleRole

datatype user_value = IntValue int | TextValue string | StatusValue int | HandleValue nat

text \<open>\<open>None\<close> is the invalid \<open>QVariant\<close>.\<close>

definition user_read :: "(nat \<Rightarrow> user_data) \<Rightarrow> user_model \<Rightarrow> nat \<Rightarrow> user_role \<Rightarrow> user_value option" where
  "user_read heap m row role =
     (if length (um_data m) \<le> row then None
      else let h = um_data m ! row in
        Some (case role of
                IDRole \<Rightarrow> IntValue (u_id (heap h))
              | NameRole \<Rightarrow> TextValue (u_name (heap h))
              | TagRole \<Rightarrow> TextValue (u_tag (heap h))
              | StatusRole \<Rightarrow> StatusValue (u_status (heap h))
              | HandleRole \<Rightarrow> HandleValue h))"

definition user_role_names :: "(user_role \<times> string) list" where
  "user_role_names =
     [(NameRole, ''name''), (IDRole, ''id''), (StatusRole, ''status''), (TagRole, ''tag''), (HandleRole, ''handle'')]"

section \<open>A view on the list\<close>

text \<open>A row of the view: what was read last, by role.\<close>

type_synonym user_row = "user_role \<Rightarrow> user_value option"

record user_list =
  ul_heap :: "nat \<Rightarrow> user_data"
  ul_model :: user_model
  ul_rows :: "user_row list"

definition reread :: "(nat \<Rightarrow> user_data) \<Rightarrow> user_model \<Rightarrow> nat option list \<Rightarrow> user_row list \<Rightarrow> user_row list" where
  "reread heap m rows v = fold (\<lambda>r v. case r of None \<Rightarrow> v | Some i \<Rightarrow> v[i := user_read heap m i]) rows v"

text \<open>The connections of a handle are to three of its signals; each tells the same row.\<close>

definition list_told :: "handle_signal list \<Rightarrow> nat \<Rightarrow> user_model \<Rightarrow> nat option list" where
  "list_told signals u m =
     concat (map (\<lambda>x. if x \<in> {IdChanged, NameChanged, StatusChanged} then handle_changed u m else []) signals)"

text \<open>A setter of the handle at \<open>u\<close>, and what the view reads when it signals.\<close>

definition handle_set :: "nat \<Rightarrow> (user_data \<Rightarrow> handle_signal list \<times> user_data) \<Rightarrow> user_list \<Rightarrow> user_list" where
  "handle_set u f s =
     (let (signals, e) = f (ul_heap s u); heap = (ul_heap s)(u := e) in
      s\<lparr>ul_heap := heap, ul_rows := reread heap (ul_model s) (list_told signals u (ul_model s)) (ul_rows s)\<rparr>)"

datatype list_event = ListReset "nat list" | ListInserted nat | HandleGets nat user_data

text \<open>\<open>HandleGets\<close> is \<open>extractFromData\<close>, setter by setter.\<close>

fun list_step :: "list_event \<Rightarrow> user_list \<Rightarrow> user_list" where
  "list_step (ListReset hs) s =
     (let m = user_model_reset hs (ul_model s) in
      s\<lparr>ul_model := m, ul_rows := map (user_read (ul_heap s) m) [0..<length hs]\<rparr>)"
| "list_step (ListInserted u) s =
     (let m = insertHandler u (ul_model s) in
      s\<lparr>ul_model := m, ul_rows := ul_rows s @ [user_read (ul_heap s) m (length (um_data (ul_model s)))]\<rparr>)"
| "list_step (HandleGets u d) s =
     fold (handle_set u) [setName (u_name d), setTag (u_tag d), setID (u_id d), setStatus (u_status d)] s"

text \<open>The rows that came with the last reset.\<close>

definition rows_after :: "list_event \<Rightarrow> nat \<Rightarrow> nat" where
  "rows_after ev n = (case ev of ListReset hs \<Rightarrow> length hs | _ \<Rightarrow> n)"

definition reset_rows :: "list_event list \<Rightarrow> nat" where
  "reset_rows evs = fold rows_after evs 0"

text \<open>One of the three roles whose changes are told.\<close>

definition told_role :: "user_role \<Rightarrow> bool" where
  "told_role role \<longleftrightarrow> role \<in> {IDRole, NameRole, StatusRole, HandleRole}"

definition list_ok :: "nat \<Rightarrow> user_list \<Rightarrow> bool" where
  "list_ok n s \<longleftrightarrow> n \<le> length (um_data (ul_model s)) \<and> length (ul_rows s) = length (um_data (ul_model s)) \<and>
     (\<forall>i < n. (um_data (ul_model s) ! i, Some i) \<in> set (um_connections (ul_model s)) \<and>
        (\<forall>role. told_role role \<longrightarrow> (ul_rows s ! i) role = user_read (ul_heap s) (ul_model s) i role))"

lemma reread_length [simp]: "length (reread heap m rows v) = length v"
  unfolding reread_def by (induction rows arbitrary: v) (auto split: option.splits)

lemma reread_row:
  "i < length v \<Longrightarrow> reread heap m rows v ! i = (if Some i \<in> set rows then user_read heap m i else v ! i)"
  unfolding reread_def
proof (induction rows arbitrary: v)
  case (Cons r rows)
  then show ?case by (cases r) (auto simp: nth_list_update)
qed simp

lemma told_rows:
  assumes "(u, Some i) \<in> set (um_connections m)" and "i < length (um_data m)"
    and "x \<in> set signals" and "x \<in> {IdChanged, NameChanged, StatusChanged}"
  shows "Some i \<in> set (list_told signals u m)"
proof -
  have "Some i \<in> set (handle_changed u m)" using assms(1,2) by (force simp: handle_changed_def Let_def)
  with assms(3,4) show ?thesis unfolding list_told_def by (auto split: if_splits)
qed

text \<open>What a setter changes it signals.\<close>

definition tells :: "(user_data \<Rightarrow> handle_signal list \<times> user_data) \<Rightarrow> bool" where
  "tells f \<longleftrightarrow> (\<forall>d. (\<exists>x \<in> set (fst (f d)). x \<in> {IdChanged, NameChanged, StatusChanged}) \<or>
     u_id (snd (f d)) = u_id d \<and> u_name (snd (f d)) = u_name d \<and> u_status (snd (f d)) = u_status d)"

lemma setters_tell: "tells (setName n)" "tells (setTag t)" "tells (setID k)" "tells (setStatus st)"
  by (simp_all add: tells_def setName_def setTag_def setID_def setStatus_def)

lemma list_ok_set:
  assumes "list_ok n s" and "tells f"
  shows "list_ok n (handle_set u f s)"
proof -
  obtain signals e where x: "f (ul_heap s u) = (signals, e)" by fastforce
  let ?heap = "(ul_heap s)(u := e)" and ?m = "ul_model s"
  let ?rows = "reread ?heap ?m (list_told signals u ?m) (ul_rows s)"
  have "(?rows ! i) role = user_read ?heap ?m i role" if i: "i < n" and r: "told_role role" for i role
  proof (cases "Some i \<in> set (list_told signals u ?m)")
    case True
    with i assms(1) show ?thesis by (simp add: list_ok_def reread_row)
  next
    case False
    have old: "(ul_rows s ! i) role = user_read (ul_heap s) ?m i role" using assms(1) i r by (simp add: list_ok_def)
    have "user_read ?heap ?m i role = user_read (ul_heap s) ?m i role"
    proof (cases "um_data ?m ! i = u")
      case True
      with assms(1) i have "(u, Some i) \<in> set (um_connections ?m)" "i < length (um_data ?m)" by (auto simp: list_ok_def)
      with False told_rows [of u i ?m _ signals] have "\<not> (\<exists>x \<in> set signals. x \<in> {IdChanged, NameChanged, StatusChanged})"
        by blast
      with assms(2) x have "u_id e = u_id (ul_heap s u) \<and> u_name e = u_name (ul_heap s u) \<and> u_status e = u_status (ul_heap s u)"
        unfolding tells_def by (metis fst_conv snd_conv)
      with r True show ?thesis by (auto simp: user_read_def told_role_def Let_def split: user_role.splits)
    qed (simp add: user_read_def Let_def split: user_role.splits)
    with False old i assms(1) show ?thesis by (simp add: list_ok_def reread_row)
  qed
  with assms(1) x show ?thesis by (simp add: list_ok_def handle_set_def Let_def)
qed

lemma list_ok_step:
  assumes "list_ok n s"
  shows "list_ok (rows_after ev n) (list_step ev s)"
proof (cases ev)
  case (ListReset hs)
  have "(hs ! i, Some i) \<in> (\<lambda>(i, h). (h, Some i)) ` set (enumerate 0 hs)" if "i < length hs" for i
    using that by (force simp: in_set_enumerate_eq)
  then show ?thesis by (simp add: ListReset list_ok_def user_model_reset_def rows_after_def Let_def)
next
  case (ListInserted u)
  with assms show ?thesis
    by (auto simp: list_ok_def insertHandler_def rows_after_def Let_def nth_append user_read_def)
next
  case (HandleGets u d)
  with assms show ?thesis by (simp add: list_ok_set setters_tell rows_after_def)
qed

text \<open>
  The rows of a user list that came with its last reset show id, name and status of their users as they are, whatever
  users change and join.
\<close>

theorem user_list_follows:
  fixes s :: user_list
  assumes "ul_rows s = []" and "ul_model s = new_user_model" and "i < reset_rows evs" and "told_role role"
  shows "(ul_rows (fold list_step evs s) ! i) role =
    user_read (ul_heap (fold list_step evs s)) (ul_model (fold list_step evs s)) i role"
proof -
  have "list_ok (reset_rows evs) (fold list_step evs s)"
  proof (induction evs rule: rev_induct)
    case Nil
    then show ?case using assms(1,2) by (simp add: reset_rows_def list_ok_def new_user_model_def)
  next
    case (snoc ev evs)
    from list_ok_step [OF snoc, of ev] show ?case by (simp add: reset_rows_def)
  qed
  with assms(3,4) show ?thesis by (simp add: list_ok_def)
qed

text \<open>Two users are shown, one of them gets a new name, another joins.\<close>

definition shown_users :: user_list where
  "shown_users = \<lparr>ul_heap = (\<lambda>_. new_user), ul_model = new_user_model, ul_rows = []\<rparr>"

definition renamed_user :: "list_event list" where
  "renamed_user = [ListReset [4, 7], HandleGets 7 (new_user\<lparr>u_name := ''ann'', u_tag := ''a''\<rparr>), ListInserted 9]"

theorem user_list_follows_witness:
  "(ul_rows (fold list_step renamed_user shown_users) ! 1) NameRole = Some (TextValue ''ann'')"
proof -
  have "user_read (ul_heap (fold list_step renamed_user shown_users)) (ul_model (fold list_step renamed_user shown_users)) 1 NameRole =
      Some (TextValue ''ann'')"
    by (simp add: renamed_user_def shown_users_def user_read_def user_model_reset_def insertHandler_def handle_set_def
        setName_def setTag_def setID_def setStatus_def new_user_def new_user_model_def Let_def)
  with user_list_follows [of shown_users 1 renamed_user NameRole] show ?thesis
    by (simp add: shown_users_def renamed_user_def reset_rows_def rows_after_def told_role_def)
qed

text \<open>A tag is told to nobody: the row of a user whose tag changes shows the old one, even after its name was read again.\<close>

lemma tag_not_told: "ul_rows (handle_set u (setTag t) s) = ul_rows s"
  by (simp add: handle_set_def setTag_def list_told_def reread_def)

end
