(* ===== verification/MessageDelivery.thy ===== *)
theory MessageDelivery
  imports CallDelivery MessageController GroupController
begin

text \<open>
  A chat message from one client to another: \<open>Message::CallerController::create\<close>
  (\<open>lib/network/controllers/messagecontroller.cpp\<close>), the queue and a round of the coordinator, the wrapper and the wire,
  the answer of the server back to the continuation of the promise; and at the other client the call \<open>postMessage\<close> with
  its two handlers, of the message controller and of the group controller
  (\<open>lib/network/controllers/groupcontroller.cpp\<close>). The server is what it sends: the answer and the call.
\<close>

section \<open>Sending\<close>

text \<open>The continuation of \<open>create\<close>: it runs when the promise \<open>p\<close> of the call has a value, and not when it has failed.\<close>

definition after_create ::
    "qt \<Rightarrow> jlib \<Rightarrow> (message_data \<Rightarrow> message_data) \<Rightarrow> nat \<Rightarrow> nat \<Rightarrow> int \<Rightarrow> (nat \<times> outcome) list \<Rightarrow> message_ctrl \<Rightarrow> message_ctrl" where
  "after_create Q J mv p a tempId settled c =
     fold (\<lambda>(q, r) c. case r of
             Value v \<Rightarrow> (if q = p then snd (create_message_done Q mv a tempId (message_of Q J v) c) else c)
           | _ \<Rightarrow> c) settled c"

record messenger =
  ms_network :: network
  ms_messages :: message_ctrl

text \<open>
  \<open>create\<close>, the round that sends its call, and what its continuation does with the promises that were settled: in the
  round, and, when a text comes from the server, by that text.
\<close>

definition send_message ::
    "qt \<Rightarrow> jlib \<Rightarrow> (message_data \<Rightarrow> message_data) \<Rightarrow> string \<Rightarrow> int \<Rightarrow> int \<Rightarrow> datetime \<Rightarrow> nat \<Rightarrow> (nat \<Rightarrow> attempt) \<Rightarrow> json option \<Rightarrow>
       messenger \<Rightarrow> messenger option" where
  "send_message Q J mv body roomID user now p env answer s =
     (case create_message Q mv body roomID user now (ms_messages s) of
        (None, c) \<Rightarrow> None
      | (Some (call, a, tempId), c) \<Rightarrow>
          (let n = ms_network s; old = length (w_settled (nw_rpc n)) in
           case network_round env None (n\<lparr>nw_co := queue_call \<lparr>mi_call = call, mi_promise = p\<rparr> (nw_co n)\<rparr>) of
             None \<Rightarrow> None
           | Some n \<Rightarrow>
               (case (case answer of None \<Rightarrow> Some (nw_rpc n) | Some msg \<Rightarrow> handleTextMessage J (Some msg) (nw_rpc n)) of
                  None \<Rightarrow> None
                | Some w \<Rightarrow>
                    Some \<lparr>ms_network = n\<lparr>nw_rpc := w\<rparr>,
                          ms_messages = after_create Q J mv p a tempId (drop old (w_settled w)) c\<rparr>)))"

section \<open>Receiving\<close>

definition message_handler :: nat where
  "message_handler = 3"

definition room_handler :: nat where
  "room_handler = 4"

record chat_client =
  cc_rpc :: wrapper
  cc_messages :: message_ctrl
  cc_rooms :: "group_ext im"

text \<open>The handlers of \<open>postMessage\<close>. The room model is one table for all rooms.\<close>

definition run_posted ::
    "qt \<Rightarrow> jlib \<Rightarrow> (message_data \<Rightarrow> message_data) \<Rightarrow> (group_ext \<Rightarrow> group_ext) \<Rightarrow> nat \<times> json \<Rightarrow> chat_client \<Rightarrow> chat_client" where
  "run_posted Q J mv gv h s =
     (if fst h = message_handler then s\<lparr>cc_messages := on_message Q mv (message_of Q J (snd h)) (cc_messages s)\<rparr>
      else if fst h = room_handler then s\<lparr>cc_rooms := on_postMessage Q gv (message_of Q J (snd h)) (cc_rooms s)\<rparr>
      else s)"

definition receive_posted ::
    "qt \<Rightarrow> jlib \<Rightarrow> (message_data \<Rightarrow> message_data) \<Rightarrow> (group_ext \<Rightarrow> group_ext) \<Rightarrow> json \<Rightarrow> chat_client \<Rightarrow> chat_client option" where
  "receive_posted Q J mv gv msg s =
     map_option (\<lambda>w. fold (run_posted Q J mv gv) (drop (length (w_called (cc_rpc s))) (w_called w)) (s\<lparr>cc_rpc := w\<rparr>))
       (handleTextMessage J (Some msg) (cc_rpc s))"

section \<open>From one client to the other\<close>

text \<open>Ready to send in the room: its list is well formed and has no row of the answer or with a temporary id.\<close>

definition ready_to_send :: "qt \<Rightarrow> (message_data \<Rightarrow> message_data) \<Rightarrow> int \<Rightarrow> nat \<Rightarrow> int \<Rightarrow> messenger \<Rightarrow> bool" where
  "ready_to_send Q mv roomID a k s \<longleftrightarrow>
     (let n = ms_network s; c = ms_messages s; m = mc_models c a in
      co_active (nw_co n) \<and> co_directCalls (nw_co n) = [] \<and> co_authorizedCalls (nw_co n) = [] \<and>
      w_connection (nw_rpc n) = None \<and> w_requests (nw_rpc n) (next_id (nw_rpc n)) = None \<and> mc_history c roomID = Some a \<and> im_wf (message_vt Q mv) m \<and> rowCount m \<noteq> 1 \<and>
      0 \<le> mc_tempCounter c \<and> lookup_im m 0 = None \<and> lookup_im m (- (mc_tempCounter c + 1)) = None \<and> lookup_im m k = None)"

definition posts_handled :: "wrapper \<Rightarrow> bool" where
  "posts_handled w \<longleftrightarrow> w_handlers w ''postMessage'' = [message_handler, room_handler]"

lemma after_create_quiet:
  assumes "\<forall>x \<in> set xs. case snd x of Value v \<Rightarrow> False | _ \<Rightarrow> True"
  shows "after_create Q J mv p a t (xs @ ys) c = after_create Q J mv p a t ys c"
  using assms by (induction xs) (auto simp: after_create_def split: outcome.splits)

lemma after_create_one:
  "after_create Q J mv p a t [(p, Value v)] c = snd (create_message_done Q mv a t (message_of Q J v) c)"
  "after_create Q J mv p a t [(p, Exception e)] c = c"
  by (simp_all add: after_create_def)

lemma text_sends_nothing: "handleTextMessage J msg w = Some w' \<Longrightarrow> w_sent w' = w_sent w"
  by (auto simp: handleTextMessage_def handleReply_def handleMethodCall_def settle_def split: option.splits if_splits)

lemma message_sent:
  assumes "jlib_ok J" and "qt_conv Q" and "ready_to_send Q mv roomID a (m_id data) s" and "\<forall>desc. reached env n \<noteq> Throws desc"
    and "message_of Q J v = data" and "is_i32 k" and "n = ms_network s" and "c = ms_messages s"
  shows "if reached env n = Opens
    then \<exists>s'. send_message Q J mv body roomID user now p env (Some (reply_to_json \<lparr>r_id = k,
             r_repTo = next_id (nw_rpc n), r_error = None, r_status = Success, r_reply = v\<rparr>)) s = Some s' \<and>
        w_sent (nw_rpc (ms_network s')) = w_sent (nw_rpc n) @ [method_call_to_json \<lparr>mc_id = next_id (nw_rpc n),
          mc_method = ''sendChatMessage'', mc_args = call_args (Message_Create_exec body roomID)\<rparr>] \<and>
        im_data (mc_models (ms_messages s') a) = data # im_data (mc_models c a)
    else \<exists>s'. send_message Q J mv body roomID user now p env None s = Some s' \<and>
        w_sent (nw_rpc (ms_network s')) = w_sent (nw_rpc n) \<and>
        im_data (mc_models (ms_messages s') a) = sending_row Q body (- (mc_tempCounter c + 1)) user now # im_data (mc_models c a)"
proof -
  let ?t = "- (mc_tempCounter c + 1)" and ?call = "Message_Create_exec body roomID" and ?id = "next_id (nw_rpc n)"
  let ?mi = "\<lparr>mi_call = ?call, mi_promise = p\<rparr>"
  note h = assms(3) [unfolded ready_to_send_def Let_def, folded assms(7,8)]
  obtain c1 c2 where c: "create_message Q mv body roomID user now c = (Some (?call, a, ?t), c1)"
    "im_data (mc_models c1 a) = sending_row Q body ?t user now # im_data (mc_models c a)"
    "create_message_done Q mv a ?t data c1 = (m_id data, c2)" "im_data (mc_models c2 a) = data # im_data (mc_models c a)"
    using sent_message_is_replaced [OF assms(2), of c roomID a mv data] h by blast
  obtain m co where r: "network_round env None (n\<lparr>nw_co := queue_call ?mi (nw_co n)\<rparr>) = Some (m\<lparr>nw_co := co, nw_rpc :=
       (if \<not> w_connected (nw_rpc m) then settle (mi_promise ?mi) (Exception ''Server is not responding'') (nw_rpc m)
        else serverMethod (call_method (mi_call ?mi)) (call_args (mi_call ?mi)) (mi_promise ?mi) None (nw_rpc m))\<rparr>)"
    "same_calls (n\<lparr>nw_co := queue_call ?mi (nw_co n)\<rparr>) m"
    "w_connected (nw_rpc m) \<longleftrightarrow> reached env n = Opens"
    "settled_more (nw_rpc n) (nw_rpc m)"
    by (rule one_call_round [of n env ?mi]) (use h assms(4) in auto)
  from r(4) obtain xs where xs: "w_settled (nw_rpc m) = w_settled (nw_rpc n) @ xs"
    "\<forall>x \<in> set xs. case snd x of Value v \<Rightarrow> False | _ \<Rightarrow> True" by (auto simp: settled_more_def)
  show ?thesis
  proof (cases "w_connected (nw_rpc m)")
    case True
    let ?w = "serverMethod (call_method ?call) (call_args ?call) p None (nw_rpc m)"
    have s: "w_sent ?w = w_sent (nw_rpc n) @ [method_call_to_json \<lparr>mc_id = ?id, mc_method = call_method ?call, mc_args = call_args ?call\<rparr>]"
      "w_requests ?w ?id = Some p" "w_settled ?w = w_settled (nw_rpc m)"
      using call_sent [OF r(2)] h by simp_all
    from reply_of_call [OF assms(1) s(2) next_id_int assms(6) refl, of v] obtain w where w:
      "handleTextMessage J (Some (reply_to_json \<lparr>r_id = k, r_repTo = ?id, r_error = None, r_status = Success, r_reply = v\<rparr>)) ?w = Some w"
      "w_settled w = w_settled ?w @ [(p, Value v)]" by blast
    have "after_create Q J mv p a ?t (drop (length (w_settled (nw_rpc n))) (w_settled w)) c1 = c2"
      using c(3) by (simp add: w(2) s(3) xs(1) after_create_quiet [OF xs(2)] after_create_one assms(5))
    with True r(1,3) c w(1) s(1) text_sends_nothing [OF w(1)] show ?thesis
      by (simp add: send_message_def Let_def assms(7,8) [symmetric]) (simp add: Message_Create_exec_def serverCall_def)
  next
    case False
    have "after_create Q J mv p a ?t (drop (length (w_settled (nw_rpc n)))
        (w_settled (settle p (Exception ''Server is not responding'') (nw_rpc m)))) c1 = c1"
      by (simp add: xs(1) settle_def after_create_quiet [OF xs(2)] after_create_one)
    moreover have "network_round env None (n\<lparr>nw_co := queue_call ?mi (nw_co n)\<rparr>) =
        Some (m\<lparr>nw_co := co, nw_rpc := settle p (Exception ''Server is not responding'') (nw_rpc m)\<rparr>)"
      using r(1) False by simp
    ultimately have "send_message Q J mv body roomID user now p env None s =
        Some \<lparr>ms_network = m\<lparr>nw_co := co, nw_rpc := settle p (Exception ''Server is not responding'') (nw_rpc m)\<rparr>,
              ms_messages = c1\<rparr>"
      using c(1) by (simp add: send_message_def Let_def assms(7,8) [symmetric])
    moreover have "w_sent (nw_rpc m) = w_sent (nw_rpc n)" using r(2) by (simp add: same_calls_def)
    moreover have nc: "reached env n \<noteq> Opens" using False r(3) by blast
    ultimately show ?thesis using c(2) unfolding if_not_P [OF nc] by (simp add: settle_def)
  qed
qed


definition example_answer :: json where
  "example_answer = JObject [(''id'', JInt 12), (''userID'', JInt 7), (''roomID'', JInt 6), (''messageIndex'', JInt 1), (''body'', JString ''hi'')]"

definition example_sender :: messenger where
  "example_sender = \<lparr>ms_network = idle_network, ms_messages = snd (add_model 6 new_message_ctrl)\<rparr>"

definition example_receiver :: chat_client where
  "example_receiver = \<lparr>cc_rpc = new_wrapper\<lparr>w_handlers := (\<lambda>m. if m = ''postMessage'' then [message_handler, room_handler] else [])\<rparr>,
     cc_messages = new_message_ctrl, cc_rooms = two_rooms\<rparr>"

lemma example_delivery:
  "message_of plain_qt plain_jlib example_answer =
     \<lparr>m_id = 12, m_userID = 7, m_roomID = 6, m_time = None, m_body = ''hi'', m_messageIndex = 1\<rparr>"
  "mc_history (ms_messages example_sender) 6 = Some 0" "mc_models (ms_messages example_sender) 0 = empty_im"
  "mc_tempCounter (ms_messages example_sender) = 1" "ms_network example_sender = idle_network"
  "posts_handled (cc_rpc example_receiver)" "cc_messages example_receiver = new_message_ctrl" "cc_rooms example_receiver = two_rooms"
  "room_messages 6 new_message_ctrl = empty_im" "lookup_im two_rooms 6 = Some (new_group_ext\<lparr>x_id := 6\<rparr>)"
  by (simp_all add: message_of_def message_from_json_def example_answer_def plain_jlib_def new_message_def value_step_def
      member_step_def example_sender_def add_model_def new_message_ctrl_def example_receiver_def posts_handled_def
      room_messages_def json_value_def json_contains_def json_at_def to_u32_def has_key_def)
    (simp add: lookup_im_def two_rooms_def idToIndex_def model_index_def in_rows_def data_at_def)


end
