(* ===== verification/PacketBytes.thy ===== *)
theory PacketBytes
  imports DecoderPool "HOL-Library.Sublist"
begin

text \<open>
  The bytes of received packets: the handler of a track moves the bytes of a frame into the array \<open>packets\<close> of the
  peer context (\<open>lib/network/rtcservice.h\<close>, \<open>rtcservice.cpp\<close>), \<open>fillPacket\<close> (\<open>lib/media/media.cpp\<close>) makes the packet of the
  slot point at them, and the decoder reads them later, in a task of its pool (\<open>DecoderPool\<close>). When the context is destroyed
  its members go in the reverse of their order in the class, and that of the audio is not that of the video.
\<close>

section \<open>Memory and packets\<close>

type_synonym bytes = "8 word list"

text \<open>Storage by address; \<open>None\<close> when it was freed or never there.\<close>

record memory =
  mm_bytes :: "nat \<Rightarrow> bytes option"
  mm_next :: nat

text \<open>\<open>pk_buffers\<close> counts the buffers that FFmpeg made for the packet: each takes the place of the one before, which nobody frees.\<close>

record av_packet =
  pk_data :: "nat option"
  pk_size :: nat
  pk_buffers :: nat

definition new_packet :: av_packet where
  "new_packet = \<lparr>pk_data = None, pk_size = 0, pk_buffers = 0\<rparr>"

text \<open>\<open>ok\<close>: \<open>av_packet_from_data\<close> has not failed; it makes the packet refer to the bytes where they are.\<close>

definition fillPacket :: "bool \<Rightarrow> nat \<Rightarrow> nat \<Rightarrow> av_packet \<Rightarrow> bool \<times> av_packet" where
  "fillPacket ok a n p =
     (if \<not> ok then (False, p) else (True, p\<lparr>pk_data := Some a, pk_buffers := Suc (pk_buffers p), pk_size := n\<rparr>))"

section \<open>A received stream\<close>

text \<open>
  \<open>rx_vectors\<close> is the storage of each vector in \<open>packets\<close>, \<open>rx_packets\<close> the packet of each slot of \<open>packetPipe\<close>. \<open>rx_published\<close> and
  \<open>rx_seen\<close> record the frames that were published and what the decoder read of each.
\<close>

record receiver =
  rx_pool :: "(nat, nat, nat, nat) decoder_pool"
  rx_memory :: memory
  rx_vectors :: "nat \<Rightarrow> nat option"
  rx_packets :: "nat \<Rightarrow> av_packet"
  rx_published :: "bytes list"
  rx_seen :: "bytes option list"

definition new_receiver :: "int \<Rightarrow> decoder \<Rightarrow> (nat, nat) pipe \<Rightarrow> receiver" where
  "new_receiver k d out =
     \<lparr>rx_pool = started_pool ((new_pipe 128 id)\<lparr>listeners := [(k, 0)]\<rparr>) out d,
      rx_memory = \<lparr>mm_bytes = Map.empty, mm_next = 0\<rparr>, rx_vectors = Map.empty, rx_packets = (\<lambda>_. new_packet),
      rx_published = [], rx_seen = []\<rparr>"

text \<open>\<open>packets[i] = std::move(data)\<close>: the old storage is freed, the new one is that of \<open>data\<close>.\<close>

definition vector_assigned :: "nat \<Rightarrow> bytes \<Rightarrow> receiver \<Rightarrow> receiver" where
  "vector_assigned i data s =
     (let m = rx_memory s; a = mm_next m;
          old = (case rx_vectors s i of None \<Rightarrow> mm_bytes m | Some b \<Rightarrow> (mm_bytes m)(b := None))
      in s\<lparr>rx_memory := \<lparr>mm_bytes = old(a := Some data), mm_next = Suc a\<rparr>, rx_vectors := (rx_vectors s)(i := Some a)\<rparr>)"

text \<open>The handler of \<open>onFrame\<close>; \<open>fills\<close> is the answer of \<open>av_packet_from_data\<close>.\<close>

definition frame_received :: "int \<Rightarrow> bool \<Rightarrow> bytes \<Rightarrow> receiver \<Rightarrow> codec_error + receiver" where
  "frame_received pts fills data s =
     (case tryHoldForWriting (po_inp (rx_pool s)) of
        Inl x \<Rightarrow> Inl (PipeError x)
      | Inr (None, inp) \<Rightarrow> Inr (s\<lparr>rx_pool := (rx_pool s)\<lparr>po_inp := inp\<rparr>\<rparr>)
      | Inr (Some (_, i), inp) \<Rightarrow>
          (let a = mm_next (rx_memory s);
               (filled, pk) = fillPacket fills a (length data) (rx_packets s i);
               s = (vector_assigned i data s)\<lparr>rx_packets := (rx_packets s)(i := pk)\<rparr>
           in if \<not> filled then Inr (s\<lparr>rx_pool := (rx_pool s)\<lparr>po_inp := inp\<rparr>\<rparr>)
              else (case unmapWriting i True inp of
                      Inl x \<Rightarrow> Inl (PipeError x)
                    | Inr (ns, inp) \<Rightarrow>
                        Inr (s\<lparr>rx_pool := fold (\<lambda>_ p. snd (packet_arrives i pts p)) ns ((rx_pool s)\<lparr>po_inp := inp\<rparr>),
                               rx_published := rx_published s @ [data]\<rparr>))))"

text \<open>What \<open>avcodec_send_packet\<close> finds at the packet of a slot.\<close>

definition packet_bytes :: "receiver \<Rightarrow> nat \<Rightarrow> bytes option" where
  "packet_bytes s i =
     (case pk_data (rx_packets s i) of
        None \<Rightarrow> None
      | Some a \<Rightarrow> map_option (take (pk_size (rx_packets s i))) (mm_bytes (rx_memory s) a))"

definition packet_decoded ::
    "((int, nat) omap \<Rightarrow> (nat, nat) pipe \<Rightarrow> (nat, nat) pipe) \<Rightarrow> int \<Rightarrow> nat \<Rightarrow> bool \<Rightarrow> receiver \<Rightarrow> codec_error + receiver" where
  "packet_decoded env response n again s =
     (case po_tasks (rx_pool s) of
        [] \<Rightarrow> Inr s
      | (i, pts) # tasks \<Rightarrow>
          map_sum id (\<lambda>(warned, p). s\<lparr>rx_pool := p, rx_seen := rx_seen s @ [packet_bytes s i]\<rparr>)
            (run_decoder_task env response n again (rx_pool s)))"

datatype receiver_event = FrameReceived int bool bytes | PacketDecoded int nat bool

fun receiver_step ::
    "((int, nat) omap \<Rightarrow> (nat, nat) pipe \<Rightarrow> (nat, nat) pipe) \<Rightarrow> receiver_event \<Rightarrow> receiver \<Rightarrow> codec_error + receiver" where
  "receiver_step env (FrameReceived pts fills data) s = frame_received pts fills data s"
| "receiver_step env (PacketDecoded response n again) s = packet_decoded env response n again s"

section \<open>Destruction\<close>

datatype context_member = TrackMember | DecoderMember | PacketsMember | PipeMember | OtherMember

definition video_members :: "context_member list" where
  "video_members = [TrackMember, PacketsMember, DecoderMember, PipeMember, OtherMember, OtherMember]"

definition audio_members :: "context_member list" where
  "audio_members = [TrackMember, DecoderMember, PacketsMember, PipeMember, OtherMember, OtherMember, OtherMember]"

text \<open>
  The destructor of the decoder stops it, and then its pool waits for the tasks that are left: each reads its packet, and then goes on as
  FFmpeg answers (\<open>ans\<close>, for each of them); the first that has to give a slot back to the input that is gone ends the
  program. Closing the tracks, which comes first, ends the frames. The packets of a null buffer pipe let go of their
  bytes without freeing them. The result says whether the program has ended.
\<close>

fun finish_tasks ::
    "((int, nat) omap \<Rightarrow> (nat, nat) pipe \<Rightarrow> (nat, nat) pipe) \<Rightarrow> (nat \<Rightarrow> int \<times> nat \<times> bool) \<Rightarrow> nat \<Rightarrow> (nat \<times> int) list \<Rightarrow>
       receiver \<Rightarrow> bool \<times> receiver" where
  "finish_tasks env ans j [] s = (False, s)"
| "finish_tasks env ans j ((i, pts) # tasks) s =
     (let (response, n, again) = ans j; s = s\<lparr>rx_seen := rx_seen s @ [packet_bytes s i]\<rparr>
      in case run_decoder_task env response n again (rx_pool s) of
           Inl x \<Rightarrow> (True, s)
         | Inr (warned, p) \<Rightarrow> finish_tasks env ans (Suc j) tasks (s\<lparr>rx_pool := p\<rparr>))"

fun member_destroyed ::
    "((int, nat) omap \<Rightarrow> (nat, nat) pipe \<Rightarrow> (nat, nat) pipe) \<Rightarrow> (nat \<Rightarrow> int \<times> nat \<times> bool) \<Rightarrow> context_member \<Rightarrow> receiver \<Rightarrow>
       bool \<times> receiver" where
  "member_destroyed env ans DecoderMember s =
     finish_tasks env ans 0 (po_tasks (rx_pool s)) (s\<lparr>rx_pool := stop_decoder (rx_pool s)\<rparr>)"
| "member_destroyed env ans PacketsMember s =
     (False,
      s\<lparr>rx_memory := (rx_memory s)\<lparr>mm_bytes := (\<lambda>a. if \<exists>i < 128. rx_vectors s i = Some a then None else mm_bytes (rx_memory s) a)\<rparr>,
        rx_vectors := Map.empty\<rparr>)"
| "member_destroyed env ans m s = (False, s)"

definition context_destroyed ::
    "((int, nat) omap \<Rightarrow> (nat, nat) pipe \<Rightarrow> (nat, nat) pipe) \<Rightarrow> (nat \<Rightarrow> int \<times> nat \<times> bool) \<Rightarrow> context_member list \<Rightarrow> receiver \<Rightarrow>
       bool \<times> receiver" where
  "context_destroyed env ans ms s =
     fold (\<lambda>m (ended, s). if ended then (True, s) else member_destroyed env ans m s) (rev ms) (False, s)"

section \<open>Every reading finds its bytes\<close>

text \<open>The slots of packets that the decoder has not given back.\<close>

abbreviation owed_slots :: "receiver \<Rightarrow> nat list" where
  "owed_slots s \<equiv> held_slots (rx_pool s) @ waiting_slots (rx_pool s)"

text \<open>The input pipe: one listener, the decoder, and each owed slot taken for one reading.\<close>

definition one_reader :: "nat list \<Rightarrow> (nat, nat) pipe \<Rightarrow> bool" where
  "one_reader is p \<longleftrightarrow> balanced p \<and> addListenerQueue p = [] \<and> removeListenerQueue p = [] \<and> length (listeners p) = 1 \<and>
     distinct is \<and> (\<forall>i \<in> set is. i < length (subpipes p) \<and> \<not> isFree (subpipes p ! i) \<and> readings (subpipes p ! i) = 1)"

definition vectors_ok :: "receiver \<Rightarrow> bool" where
  "vectors_ok s \<longleftrightarrow> (\<forall>i a. rx_vectors s i = Some a \<longrightarrow> i < 128 \<and> a < mm_next (rx_memory s)) \<and>
     (\<forall>i j a. rx_vectors s i = Some a \<longrightarrow> rx_vectors s j = Some a \<longrightarrow> i = j)"

definition receiver_ok :: "receiver \<Rightarrow> bool" where
  "receiver_ok s \<longleftrightarrow> pool_ok 128 (rx_pool s) \<and> dc_listener (po_dec (rx_pool s)) \<noteq> None \<and> one_reader (owed_slots s) (po_inp (rx_pool s)) \<and> vectors_ok s \<and>
     (\<forall>i \<in> set (waiting_slots (rx_pool s)). rx_vectors s i \<noteq> None \<and> pk_data (rx_packets s i) = rx_vectors s i) \<and>
     rx_seen s @ map (packet_bytes s) (waiting_slots (rx_pool s)) = map Some (rx_published s)"

lemma give_back_one:
  assumes "one_reader is p" and "i \<in> set is"
  obtains q where "unmapReading i p = Inr q" "one_reader (filter (\<lambda>j. j \<noteq> i) is) q" "length (subpipes q) = length (subpipes p)"
proof -
  let ?s = "subpipes p ! i" and ?ss = "(subpipes p)[i := (subpipes p ! i)\<lparr>readings := 0, isFree := True\<rparr>]"
  have i: "i < length (subpipes p)" "\<not> isFree ?s" "readings ?s = 1" using assms by (simp_all add: one_reader_def)
  let ?q = "p\<lparr>subpipes := ?ss, sem := Suc (sem p)\<rparr>"
  have u: "unmapReading i p = Inr ?q" using i by (simp add: unmapReading_def Let_def sem_release_def)
  have "taken ?q + 1 = taken p"
    using filter_update_length [OF i(1), of "\<lambda>s. \<not> isFree s" "?s\<lparr>readings := 0, isFree := True\<rparr>"] i(2) by (simp add: taken_def)
  then have "balanced ?q" using assms(1) by (simp add: one_reader_def balanced_def)
  with assms(1) have "one_reader (filter (\<lambda>j. j \<noteq> i) is) ?q" by (auto simp: one_reader_def nth_list_update)
  with u show ?thesis by (intro that [of ?q]) simp_all
qed

lemma one_reader_mono: "one_reader is p \<Longrightarrow> distinct js \<Longrightarrow> set js \<subseteq> set is \<Longrightarrow> one_reader js p"
  by (auto simp: one_reader_def)

text \<open>A slot is taken for writing: none of those owed.\<close>

lemma take_for_writing:
  assumes "one_reader is p"
  shows "tryHoldForWriting p = Inr (None, p) \<or>
    (\<exists>d i q. tryHoldForWriting p = Inr (Some (d, i), q) \<and> i < length (subpipes p) \<and> i \<notin> set is \<and> one_reader is q \<and>
       length (subpipes q) = length (subpipes p) \<and> \<not> isFree (subpipes q ! i))"
proof -
  have b: "balanced p" using assms by (simp add: one_reader_def)
  from tryHold_balanced [OF b refl] show ?thesis
  proof
    assume "\<exists>d i q. tryHoldForWriting p = Inr (Some (d, i), q) \<and> i < length (subpipes p) \<and> isFree (subpipes p ! i) \<and>
       subpipes q = (subpipes p)[i := (subpipes p ! i)\<lparr>isFree := False\<rparr>] \<and> Suc (sem q) = sem p \<and> balanced q"
    then obtain d i q where t: "tryHoldForWriting p = Inr (Some (d, i), q)" "i < length (subpipes p)" "isFree (subpipes p ! i)"
      "subpipes q = (subpipes p)[i := (subpipes p ! i)\<lparr>isFree := False\<rparr>]" "balanced q" by blast
    then have i: "i \<notin> set is" using assms by (auto simp: one_reader_def)
    have "addListenerQueue q = addListenerQueue p" "removeListenerQueue q = removeListenerQueue p" "listeners q = listeners p"
      using t(1) by (auto simp: tryHoldForWriting_def sem_acquire_def getFree_def split: if_splits option.splits)
    with t i assms have "one_reader is q" by (auto simp: one_reader_def nth_list_update)
    with t i show ?thesis by (intro disjI2 exI [of _ d] exI [of _ i] exI [of _ q]) simp
  qed simp
qed

text \<open>The slot is published to the decoder.\<close>

lemma publish_one:
  assumes "one_reader is p" and "i < length (subpipes p)" and "\<not> isFree (subpipes p ! i)" and "i \<notin> set is"
  obtains n q where "unmapWriting i True p = Inr ([n], q)" "one_reader (is @ [i]) q" "length (subpipes q) = length (subpipes p)"
proof -
  have d: "drain_queues p = p"
    using assms(1) by (cases p) (simp add: one_reader_def drain_queues_def omap_emplace_all_def omap_erase_all_def)
  from assms(1) obtain n where n: "listeners p = [n]" by (auto simp: one_reader_def length_Suc_conv)
  let ?q = "p\<lparr>subpipes := (subpipes p)[i := (subpipes p ! i)\<lparr>readings := 1\<rparr>]\<rparr>"
  have u: "unmapWriting i True p = Inr ([n], ?q)" using assms(2) by (simp add: unmapWriting_def Let_def d n)
  have "balanced p" using assms(1) by (simp add: one_reader_def)
  from unmapWriting_taken(1) [OF this assms(2,3) u] assms have "one_reader (is @ [i]) ?q"
    by (auto simp: one_reader_def nth_list_update)
  with u show ?thesis by (intro that [of n ?q]) simp_all
qed

lemma packet_bytes_cong:
  "rx_packets t i = rx_packets s i \<Longrightarrow> rx_memory t = rx_memory s \<Longrightarrow> packet_bytes t i = packet_bytes s i"
  by (simp add: packet_bytes_def split: option.split)

text \<open>A new vector in a slot that is not owed changes the bytes of no other slot.\<close>

lemma assigned_elsewhere:
  assumes "vectors_ok s" and "rx_vectors s j = pk_data (rx_packets s j)" and "rx_vectors s j \<noteq> None" and "j \<noteq> i"
  shows "packet_bytes (vector_assigned i data s) j = packet_bytes s j"
    and "rx_vectors (vector_assigned i data s) j = rx_vectors s j"
proof -
  obtain a where a: "rx_vectors s j = Some a" "pk_data (rx_packets s j) = Some a" using assms(2,3) by auto
  have "a < mm_next (rx_memory s)" "rx_vectors s i \<noteq> Some a" using assms(1,4) a(1) unfolding vectors_ok_def by blast+
  with a show "packet_bytes (vector_assigned i data s) j = packet_bytes s j"
    by (cases "rx_vectors s i") (auto simp: packet_bytes_def vector_assigned_def Let_def)
  show "rx_vectors (vector_assigned i data s) j = rx_vectors s j" using assms(4) by (simp add: vector_assigned_def Let_def)
qed

lemma assigned_vectors_ok: "vectors_ok s \<Longrightarrow> i < 128 \<Longrightarrow> vectors_ok (vector_assigned i data s)"
  by (auto simp: vectors_ok_def vector_assigned_def Let_def less_Suc_eq split: if_splits)

lemma assigned_fields:
  "rx_pool (vector_assigned i data s) = rx_pool s" "rx_seen (vector_assigned i data s) = rx_seen s"
  "rx_published (vector_assigned i data s) = rx_published s" "rx_packets (vector_assigned i data s) = rx_packets s"
  by (simp_all add: vector_assigned_def Let_def)

lemma receiver_okD:
  assumes "receiver_ok s"
  shows "pool_ok 128 (rx_pool s)" and "dc_listener (po_dec (rx_pool s)) \<noteq> None" and "one_reader (owed_slots s) (po_inp (rx_pool s))" and "vectors_ok s"
    and "j \<in> set (waiting_slots (rx_pool s)) \<Longrightarrow> rx_vectors s j \<noteq> None \<and> pk_data (rx_packets s j) = rx_vectors s j"
    and "rx_seen s @ map (packet_bytes s) (waiting_slots (rx_pool s)) = map Some (rx_published s)"
  using assms unfolding receiver_ok_def by blast+

text \<open>The bytes of a frame are moved into a slot that is not owed; its packet is filled, or not.\<close>

lemma assigned_ok:
  assumes "receiver_ok s" and "i < 128" and "i \<notin> set (owed_slots s)" and "v = vector_assigned i data s"
    and "t = v\<lparr>rx_packets := (rx_packets s)(i := pk), rx_pool := p, rx_published := ds\<rparr>"
  shows "vectors_ok t" and "rx_seen t = rx_seen s"
    and "map (packet_bytes t) (waiting_slots (rx_pool s)) = map (packet_bytes s) (waiting_slots (rx_pool s))"
    and "j \<in> set (waiting_slots (rx_pool s)) \<Longrightarrow> rx_vectors t j \<noteq> None \<and> pk_data (rx_packets t j) = rx_vectors t j"
    and "rx_vectors t i = Some (mm_next (rx_memory s))"
    and "pk_data pk = Some (mm_next (rx_memory s)) \<Longrightarrow> pk_size pk = length data \<Longrightarrow> packet_bytes t i = Some data"
proof -
  note ok = receiver_okD [OF assms(1)]
  have o: "packet_bytes t k = packet_bytes s k" "rx_vectors t k = rx_vectors s k" "rx_packets t k = rx_packets s k"
    if k: "k \<in> set (waiting_slots (rx_pool s))" for k
  proof -
    have ne: "k \<noteq> i" using assms(3) k by auto
    then have "packet_bytes t k = packet_bytes v k"
      by (intro packet_bytes_cong) (simp_all add: assms(4,5) assigned_fields)
    with ne assigned_elsewhere [OF ok(4), of k i data] ok(5) [OF k] show "packet_bytes t k = packet_bytes s k"
      "rx_vectors t k = rx_vectors s k" "rx_packets t k = rx_packets s k" by (simp_all add: assms(4,5))
  qed
  show "map (packet_bytes t) (waiting_slots (rx_pool s)) = map (packet_bytes s) (waiting_slots (rx_pool s))"
    using o(1) by (intro map_cong) simp_all
  show "j \<in> set (waiting_slots (rx_pool s)) \<Longrightarrow> rx_vectors t j \<noteq> None \<and> pk_data (rx_packets t j) = rx_vectors t j"
    using o(2,3) ok(5) by simp
  show "vectors_ok t" using assigned_vectors_ok [OF ok(4) assms(2), of data] by (simp add: assms(4,5) vectors_ok_def)
  show "rx_seen t = rx_seen s" "rx_vectors t i = Some (mm_next (rx_memory s))"
    by (simp_all add: assms(4,5) vector_assigned_def Let_def)
  show "pk_data pk = Some (mm_next (rx_memory s)) \<Longrightarrow> pk_size pk = length data \<Longrightarrow> packet_bytes t i = Some data"
    by (simp add: packet_bytes_def assms(4,5) vector_assigned_def Let_def)
qed

lemma unfilled_ok:
  assumes "receiver_ok s" and "i < 128" and "i \<notin> set (owed_slots s)" and "one_reader (owed_slots s) q"
    and "length (subpipes q) = 128"
    and "t = (vector_assigned i data s)\<lparr>rx_packets := (rx_packets s)(i := pk), rx_pool := (rx_pool s)\<lparr>po_inp := q\<rparr>,
      rx_published := rx_published s\<rparr>"
  shows "receiver_ok t"
proof -
  note a = assigned_ok [OF assms(1-3) refl assms(6)] and ok = receiver_okD [OF assms(1)]
  have p: "rx_pool t = (rx_pool s)\<lparr>po_inp := q\<rparr>" "rx_published t = rx_published s" by (simp_all add: assms(6))
  have "rx_seen t @ map (packet_bytes t) (waiting_slots (rx_pool s)) = map Some (rx_published t)"
    by (simp only: a(2) a(3) p(2) ok(6))
  with a(1,4) ok(1,2) assms(4,5) show ?thesis by (simp add: receiver_ok_def p pool_ok_def)
qed

lemma filled_ok:
  assumes "receiver_ok s" and "i < 128" and "i \<notin> set (owed_slots s)" and "one_reader (owed_slots s @ [i]) q"
    and "length (subpipes q) = 128"
    and "t = (vector_assigned i data s)\<lparr>rx_packets := (rx_packets s)(i := pk),
      rx_pool := snd (packet_arrives i pts ((rx_pool s)\<lparr>po_inp := q\<rparr>)), rx_published := rx_published s @ [data]\<rparr>"
    and "pk_data pk = Some (mm_next (rx_memory s))" and "pk_size pk = length data"
  shows "receiver_ok t"
proof -
  note a = assigned_ok [OF assms(1-3) refl assms(6)] and ok = receiver_okD [OF assms(1)]
  have p: "po_inp (rx_pool t) = q" "po_tasks (rx_pool t) = po_tasks (rx_pool s) @ [(i, pts)]"
    "held_slots (rx_pool t) = held_slots (rx_pool s)" "po_dec (rx_pool t) = po_dec (rx_pool s)"
    "po_out (rx_pool t) = po_out (rx_pool s)" "rx_published t = rx_published s @ [data]" "pk_data (rx_packets t i) = Some (mm_next (rx_memory s))"
    using assms(7) by (simp_all add: assms(6) packet_arrives_def)
  have "rx_seen t @ map (packet_bytes t) (waiting_slots (rx_pool s) @ [i]) = map Some (rx_published t)"
    by (simp only: a(2) a(3) a(6) [OF assms(7,8)] p ok(6) map_append append_assoc [symmetric] list.map)
  with a(1,4,5) ok(1,2) assms(2,4,5) p show ?thesis
    by (simp only: receiver_ok_def p(1-6) pool_ok_def map_append list.map fst_conv append_assoc) auto
qed

lemma frame_received_ok:
  assumes "receiver_ok s"
  shows "\<exists>s'. frame_received pts fills data s = Inr s' \<and> receiver_ok s' \<and>
    rx_published s' \<in> {rx_published s, rx_published s @ [data]}"
proof -
  let ?p = "po_inp (rx_pool s)"
  note ok = receiver_okD [OF assms]
  have len: "length (subpipes ?p) = 128" using ok(1) by (simp add: pool_ok_def)
  from take_for_writing [OF ok(3)] show ?thesis
  proof
    assume "tryHoldForWriting ?p = Inr (None, ?p)"
    with assms show ?thesis by (simp add: frame_received_def)
  next
    assume "\<exists>d i q. tryHoldForWriting ?p = Inr (Some (d, i), q) \<and> i < length (subpipes ?p) \<and> i \<notin> set (owed_slots s) \<and>
       one_reader (owed_slots s) q \<and> length (subpipes q) = length (subpipes ?p) \<and> \<not> isFree (subpipes q ! i)"
    then obtain d i q where t: "tryHoldForWriting ?p = Inr (Some (d, i), q)" "i < 128" "i \<notin> set (owed_slots s)"
      "one_reader (owed_slots s) q" "length (subpipes q) = 128" "\<not> isFree (subpipes q ! i)" using len by auto
    show ?thesis
    proof (cases fills)
      case False
      let ?s = "(vector_assigned i data s)\<lparr>rx_packets := (rx_packets s)(i := rx_packets s i),
        rx_pool := (rx_pool s)\<lparr>po_inp := q\<rparr>, rx_published := rx_published s\<rparr>"
      have "frame_received pts fills data s = Inr ?s"
        using t(1) False by (simp add: frame_received_def fillPacket_def assigned_fields)
      with unfilled_ok [OF assms t(2-5) refl, where pk = "rx_packets s i" and data = data] show ?thesis by (intro exI [of _ ?s]) simp
    next
      case True
      let ?pk = "(rx_packets s i)\<lparr>pk_data := Some (mm_next (rx_memory s)), pk_buffers := Suc (pk_buffers (rx_packets s i)),
        pk_size := length data\<rparr>"
      obtain n r where u: "unmapWriting i True q = Inr ([n], r)" "one_reader (owed_slots s @ [i]) r" "length (subpipes r) = 128"
        using publish_one [OF t(4) _ t(6,3)] t(2,5) by metis
      let ?s = "(vector_assigned i data s)\<lparr>rx_packets := (rx_packets s)(i := ?pk),
        rx_pool := snd (packet_arrives i pts ((rx_pool s)\<lparr>po_inp := r\<rparr>)), rx_published := rx_published s @ [data]\<rparr>"
      have "frame_received pts fills data s = Inr ?s"
        using t(1) True u(1) by (simp add: frame_received_def fillPacket_def assigned_fields)
      with filled_ok [OF assms t(2,3) u(2,3) refl, of ?pk data pts] show ?thesis by (intro exI [of _ ?s]) simp
    qed
  qed
qed

lemma packet_decoded_ok:
  assumes "keeps_room env" and "receiver_ok s" and "response < 0 \<or> 0 < n \<and> again"
  shows "\<exists>s'. packet_decoded env response n again s = Inr s' \<and> receiver_ok s' \<and> rx_published s' = rx_published s"
proof (cases "po_tasks (rx_pool s)")
  case Nil
  with assms(2) show ?thesis by (simp add: packet_decoded_def)
next
  case (Cons t tasks)
  then obtain i pts where t: "po_tasks (rx_pool s) = (i, pts) # tasks" by (cases t) simp
  let ?p = "po_inp (rx_pool s)" and ?held = "held_slots (rx_pool s)"
  let ?given = "if response < 0 then [i] else ?held" and ?now = "if response < 0 then ?held else [i]"
  have ok: "pool_ok 128 (rx_pool s)" "one_reader (?held @ i # map fst tasks) ?p"
    using assms(2) t unfolding receiver_ok_def by simp_all
  from run_task_ok [OF assms(1) ok(1) t assms(3)] obtain w p where
    r: "run_decoder_task env response n again (rx_pool s) = Inr (w, p)" "pool_ok 128 p" "po_tasks p = tasks"
      "held_slots p = ?now" "dc_listener (po_dec p) = dc_listener (po_dec (rx_pool s))" "fold_err unmapReading ?given ?p = Inr (po_inp p)" by blast
  have "one_reader (?now @ map fst tasks) (po_inp p)"
  proof (cases ?given)
    case Nil
    with r(6) have "po_inp p = ?p" by simp
    moreover have "\<not> response < 0" "?held = []" using Nil by (auto split: if_splits)
    ultimately show ?thesis using ok(2) by simp
  next
    case (Cons j js)
    have "js = []" using Cons ok(1) by (cases js) (auto simp: pool_ok_def split: if_splits)
    have j: "j \<in> set (?held @ i # map fst tasks)" using Cons by (auto split: if_splits)
    obtain q where q: "unmapReading j ?p = Inr q" "one_reader (filter (\<lambda>k. k \<noteq> j) (?held @ i # map fst tasks)) q"
      by (rule give_back_one [OF ok(2) j])
    then have "po_inp p = q" using r(6) by (simp add: Cons \<open>js = []\<close>)
    moreover have "set (?now @ map fst tasks) \<subseteq> set (filter (\<lambda>k. k \<noteq> j) (?held @ i # map fst tasks))"
      using ok Cons \<open>js = []\<close> by (auto simp: one_reader_def split: if_splits)
    moreover have "distinct (?now @ map fst tasks)" using ok(2) by (auto simp: one_reader_def)
    ultimately show ?thesis using one_reader_mono [OF q(2)] by simp
  qed
  moreover have "rx_seen s @ packet_bytes s i # map (packet_bytes s) (map fst tasks) = map Some (rx_published s)"
    and "\<forall>k \<in> set (map fst tasks). rx_vectors s k \<noteq> None \<and> pk_data (rx_packets s k) = rx_vectors s k" and "vectors_ok s"
    and "dc_listener (po_dec (rx_pool s)) \<noteq> None"
    using assms(2) t unfolding receiver_ok_def by simp_all
  moreover have "packet_bytes (s\<lparr>rx_pool := p, rx_seen := x\<rparr>) = packet_bytes s" for x
    by (intro ext packet_bytes_cong) simp_all
  ultimately have "receiver_ok (s\<lparr>rx_pool := p, rx_seen := rx_seen s @ [packet_bytes s i]\<rparr>)"
    using r(2-5) by (simp add: receiver_ok_def vectors_ok_def)
  with t r(1) show ?thesis by (simp add: packet_decoded_def)
qed

fun frame_bytes :: "receiver_event \<Rightarrow> bytes list" where
  "frame_bytes (FrameReceived pts fills data) = [data]"
| "frame_bytes (PacketDecoded response n again) = []"

text \<open>Packets that are refused or complete a frame, as in \<open>DecoderPool\<close>.\<close>

fun decodes :: "receiver_event \<Rightarrow> bool" where
  "decodes (FrameReceived pts fills data) = True"
| "decodes (PacketDecoded response n again) = (response < 0 \<or> 0 < n \<and> again)"

lemma receiver_run_ok:
  assumes "keeps_room env" and "receiver_ok s" and "\<forall>ev \<in> set evs. decodes ev"
  shows "\<exists>s'. fold_err (receiver_step env) evs s = Inr s' \<and> receiver_ok s' \<and>
    (\<exists>xs. rx_published s' = rx_published s @ xs \<and> subseq xs (concat (map frame_bytes evs)))"
  using assms(2,3)
proof (induction evs arbitrary: s)
  case (Cons ev evs)
  have "\<exists>s1. receiver_step env ev s = Inr s1 \<and> receiver_ok s1 \<and>
      (\<exists>xs. rx_published s1 = rx_published s @ xs \<and> subseq xs (frame_bytes ev))"
  proof (cases ev)
    case (FrameReceived pts fills data)
    with frame_received_ok [OF Cons.prems(1), of pts fills data] show ?thesis by auto
  next
    case (PacketDecoded response n again)
    with packet_decoded_ok [OF assms(1) Cons.prems(1), of response n again] Cons.prems(2) show ?thesis by auto
  qed
  then obtain s1 xs where s1: "receiver_step env ev s = Inr s1" "receiver_ok s1" "rx_published s1 = rx_published s @ xs"
    "subseq xs (frame_bytes ev)" by blast
  from Cons.IH [OF s1(2)] Cons.prems(2) obtain s' ys where "fold_err (receiver_step env) evs s1 = Inr s'" "receiver_ok s'"
    "rx_published s' = rx_published s1 @ ys" "subseq ys (concat (map frame_bytes evs))" by auto
  with s1 show ?case by (auto intro: list_emb_append_mono)
qed simp

lemma new_receiver_ok:
  assumes "roomy out" and "dc_input d" and "dc_holding d = []" and "dc_listener d \<noteq> None"
  shows "receiver_ok (new_receiver k d out)"
  using assms
  by (simp add: receiver_ok_def new_receiver_def pool_ok_def started_pool_def one_reader_def vectors_ok_def balanced_def
      taken_def new_pipe_def)

text \<open>How many waiting tasks read their packet after the decoder was stopped: up to the first that must give a slot back.\<close>

definition reads_after_stop :: "(nat \<Rightarrow> int \<times> nat \<times> bool) \<Rightarrow> receiver \<Rightarrow> nat" where
  "reads_after_stop ans s = (if held_slots (rx_pool s) = [] \<and> 0 \<le> fst (ans 0) then 2 else 1)"

lemma task_after_stop:
  assumes "keeps_room env" and "roomy (po_out p)" and "\<not> dc_input (po_dec p)" and "length (held_slots p) \<le> 1"
    and "po_tasks p = (i, pts) # tasks" and "response < 0 \<or> 0 < n \<and> again"
  shows "held_slots p \<noteq> [] \<or> response < 0 \<Longrightarrow> run_decoder_task env response n again p = Inl NullInput"
    and "held_slots p = [] \<Longrightarrow> 0 \<le> response \<Longrightarrow> \<exists>w q. run_decoder_task env response n again p = Inr (w, q) \<and> held_slots q = [i] \<and>
      \<not> dc_input (po_dec q) \<and> roomy (po_out q) \<and> po_tasks q = tasks"
proof -
  show "run_decoder_task env response n again p = Inl NullInput" if "held_slots p \<noteq> [] \<or> response < 0"
    using that assms by (auto simp: run_decoder_task_def given_back_def roomy_def Let_def)
  show "\<exists>w q. run_decoder_task env response n again p = Inr (w, q) \<and> held_slots q = [i] \<and>
      \<not> dc_input (po_dec q) \<and> roomy (po_out q) \<and> po_tasks q = tasks" if h: "held_slots p = []" "0 \<le> response"
  proof -
    have g: "given_back response n (held_slots p) (po_out p) i = []" using h by (simp add: given_back_def)
    from decode_packet_held [OF assms(2,1), of response n "held_slots p" i "po_inp p" "po_inp p" again] g obtain out where
      "decode_packet env response n again i (held_slots p) (po_inp p) (po_out p) = Inr ([i], po_inp p, out)" "roomy out"
      using h assms(6) by (auto simp: held_after_def)
    with g assms(3,5) show ?thesis by (simp add: run_decoder_task_def Let_def)
  qed
qed

lemma seen_same_bytes [simp]: "packet_bytes (s\<lparr>rx_seen := x\<rparr>) = packet_bytes s" "packet_bytes (s\<lparr>rx_pool := p\<rparr>) = packet_bytes s"
  by (intro ext packet_bytes_cong; simp)+

lemma finish_after_stop:
  assumes "keeps_room env" and "\<forall>j. case ans j of (response, n, again) \<Rightarrow> response < 0 \<or> 0 < n \<and> again"
    and "roomy (po_out (rx_pool s))" and "\<not> dc_input (po_dec (rx_pool s))" and "length (held_slots (rx_pool s)) \<le> 1"
    and "po_tasks (rx_pool s) = ts"
  shows "\<exists>t. finish_tasks env ans 0 ts s = (reads_after_stop ans s \<le> length ts, t) \<and>
    rx_seen t = rx_seen s @ take (reads_after_stop ans s) (map (\<lambda>(i, pts). packet_bytes s i) ts)"
proof (cases ts)
  case Nil
  then show ?thesis by (auto simp: reads_after_stop_def)
next
  case (Cons x us)
  obtain i pts where x: "x = (i, pts)" by (cases x)
  obtain response n again where a: "ans 0 = (response, n, again)" by (cases "ans 0")
  have ok: "response < 0 \<or> 0 < n \<and> again" using assms(2) a by (metis (mono_tags, lifting) case_prod_conv)
  have t: "po_tasks (rx_pool s) = (i, pts) # us" using assms(6) Cons x by simp
  note first = task_after_stop [OF assms(1,3,4,5) t ok]
  show ?thesis
  proof (cases "held_slots (rx_pool s) = [] \<and> 0 \<le> response")
    case False
    with first(1) Cons x a show ?thesis by (auto simp: reads_after_stop_def)
  next
    case True
    with first(2) obtain w q where q: "run_decoder_task env response n again (rx_pool s) = Inr (w, q)" "held_slots q = [i]"
      "\<not> dc_input (po_dec q)" "roomy (po_out q)" "po_tasks q = us" by blast
    show ?thesis
    proof (cases us)
      case Nil
      with True q(1) Cons x a show ?thesis by (simp add: reads_after_stop_def)
    next
      case u: (Cons y vs)
      obtain j pts' where y: "y = (j, pts')" by (cases y)
      obtain r' n' again' where b: "ans (Suc 0) = (r', n', again')" by (cases "ans (Suc 0)")
      have ok': "r' < 0 \<or> 0 < n' \<and> again'" using assms(2) b by (metis (mono_tags, lifting) case_prod_conv)
      have tq: "po_tasks q = (j, pts') # vs" and lq: "length (held_slots q) \<le> 1" using q u y by simp_all
      have "run_decoder_task env r' n' again' q = Inl NullInput"
        by (rule task_after_stop(1) [OF assms(1) q(4,3) lq tq ok']) (simp add: q(2))
      with True q(1) Cons x a u y b show ?thesis by (simp add: reads_after_stop_def numeral_2_eq_2)
    qed
  qed
qed

text \<open>
  C23: The decoder of a received stream reads the bytes of the published frames, each once, in order and unchanged, however frames and
  its tasks alternate. When the context is destroyed the decoder is stopped, and of the tasks that still wait the first one or two read their
  packet; then the program ends in a null pointer, unless fewer wait. In the context of the video they read the next
  bytes in order; in that of the audio they read freed bytes, since its vectors are declared behind the decoder and so go before it.
  (The output of the decoder has a free slot, and packets are refused or complete a frame and end in \<open>EAGAIN\<close>.)
\<close>

theorem received_bytes_intact:
  assumes "keeps_room env" and "roomy out" and "dc_input d" and "dc_holding d = []" and "dc_listener d \<noteq> None"
    and "\<forall>ev \<in> set evs. decodes ev" and "\<forall>j. case ans j of (response, n, again) \<Rightarrow> response < 0 \<or> 0 < n \<and> again"
  shows "\<exists>s t u. fold_err (receiver_step env) evs (new_receiver k d out) = Inr s \<and>
    subseq (rx_published s) (concat (map frame_bytes evs)) \<and>
    length (rx_seen s) + length (po_tasks (rx_pool s)) = length (rx_published s) \<and>
    rx_seen s = map Some (take (length (rx_seen s)) (rx_published s)) \<and>
    context_destroyed env ans video_members s = (reads_after_stop ans s \<le> length (po_tasks (rx_pool s)), t) \<and>
    rx_seen t = map Some (take (length (rx_seen s) + reads_after_stop ans s) (rx_published s)) \<and>
    context_destroyed env ans audio_members s = (reads_after_stop ans s \<le> length (po_tasks (rx_pool s)), u) \<and>
    rx_seen u = rx_seen s @ replicate (min (reads_after_stop ans s) (length (po_tasks (rx_pool s)))) None"
proof -
  from receiver_run_ok [OF assms(1) new_receiver_ok [OF assms(2-5)] assms(6), of k] obtain s where
    s: "fold_err (receiver_step env) evs (new_receiver k d out) = Inr s" "receiver_ok s"
      "subseq (rx_published s) (concat (map frame_bytes evs))" by (auto simp: new_receiver_def)
  let ?w = "waiting_slots (rx_pool s)" and ?ts = "po_tasks (rx_pool s)" and ?r = "reads_after_stop ans s"
  note ok = receiver_okD [OF s(2)]
  have len: "length (rx_seen s) + length ?ts = length (rx_published s)"
    using arg_cong [OF ok(6), of length] by simp
  have "rx_seen s = take (length (rx_seen s)) (map Some (rx_published s))" by (simp add: ok(6) [symmetric])
  then have seen: "rx_seen s = map Some (take (length (rx_seen s)) (rx_published s))" by (simp only: take_map)
  let ?stop = "\<lambda>s. s\<lparr>rx_pool := stop_decoder (rx_pool s)\<rparr>"
  have stop: "po_out (stop_decoder p) = po_out p" "po_tasks (stop_decoder p) = po_tasks p" "held_slots (stop_decoder p) = held_slots p"
    "dc_listener (po_dec p) \<noteq> None \<Longrightarrow> \<not> dc_input (po_dec (stop_decoder p))" for p :: "(nat, nat, nat, nat) decoder_pool"
    by (auto simp: stop_decoder_def decoder_stop_def split: option.split)
  have fin: "\<exists>t. member_destroyed env ans DecoderMember v = (?r \<le> length ?ts, t) \<and>
      rx_seen t = rx_seen s @ take ?r (map (\<lambda>(i, pts). packet_bytes v i) ?ts)"
    if "rx_pool v = rx_pool s" "rx_seen v = rx_seen s" for v
    using finish_after_stop [OF assms(1,7), of "?stop v" ?ts] ok(1,2) that stop [of "rx_pool s"]
    by (auto simp: pool_ok_def reads_after_stop_def)
  obtain t where t: "member_destroyed env ans DecoderMember s = (?r \<le> length ?ts, t)"
    "rx_seen t = rx_seen s @ take ?r (map (\<lambda>(i, pts). packet_bytes s i) ?ts)" using fin [of s] by blast
  have m: "map (\<lambda>(i, pts). packet_bytes v i) ?ts = map (packet_bytes v) ?w" for v
    by (simp add: case_prod_beta comp_def)
  have "rx_seen t = take (length (rx_seen s) + ?r) (rx_seen s @ map (packet_bytes s) ?w)" by (simp add: t(2) m del: map_map)
  then have rt: "rx_seen t = map Some (take (length (rx_seen s) + ?r) (rx_published s))" by (simp only: ok(6) take_map)
  define v where "v = snd (member_destroyed env ans PacketsMember s)"
  have "packet_bytes v i = None" if "i \<in> set ?w" for i
    using ok(5) [OF that] ok(4) by (force simp: v_def packet_bytes_def vectors_ok_def)
  then have none: "map (\<lambda>(i, pts). packet_bytes v i) ?ts = replicate (length ?ts) None"
    by (auto simp: list_eq_iff_nth_eq case_prod_beta)
  obtain u where u: "member_destroyed env ans DecoderMember v = (?r \<le> length ?ts, u)"
    "rx_seen u = rx_seen s @ take ?r (map (\<lambda>(i, pts). packet_bytes v i) ?ts)" using fin [of v] by (auto simp: v_def)
  have ru: "rx_seen u = rx_seen s @ replicate (min ?r (length ?ts)) None" by (simp add: u(2) none)
  have p: "member_destroyed env ans PacketsMember x = (False, snd (member_destroyed env ans PacketsMember x))" for x by simp
  obtain t' where "context_destroyed env ans video_members s = (?r \<le> length ?ts, t')" "rx_seen t' = rx_seen t"
    using t(1) by (cases "?r \<le> length ?ts") (simp_all add: context_destroyed_def video_members_def)
  moreover have "context_destroyed env ans audio_members s = (?r \<le> length ?ts, u)"
    using u(1) unfolding v_def by (cases "?r \<le> length ?ts") (simp_all add: context_destroyed_def audio_members_def)
  ultimately show ?thesis using s(1,3) len seen rt ru by (intro exI [of _ s] exI [of _ t'] exI [of _ u]) simp
qed

text \<open>Three frames for a decoder that has taken one.\<close>

definition example_stream :: "receiver_event list" where
  "example_stream = [FrameReceived 1 True [7, 8], FrameReceived 2 True [9], PacketDecoded 0 1 True, FrameReceived 3 True [4]]"

lemma example_stream_run:
  "case fold_err (receiver_step fresh_readers) example_stream (new_receiver 1 example_decoder (new_pipe 2 id)) of
     Inl x \<Rightarrow> False
   | Inr s \<Rightarrow> rx_published s = [[7, 8], [9], [4]] \<and> length (po_tasks (rx_pool s)) = 2 \<and> held_slots (rx_pool s) = [0]"
  by code_simp

theorem received_bytes_intact_witness:
  "\<exists>s t u. fold_err (receiver_step fresh_readers) example_stream (new_receiver 1 example_decoder (new_pipe 2 id)) = Inr s \<and>
    rx_seen s = [Some [7, 8]] \<and>
    context_destroyed fresh_readers (\<lambda>_. (0, 1, True)) video_members s = (True, t) \<and> rx_seen t = [Some [7, 8], Some [9]] \<and>
    context_destroyed fresh_readers (\<lambda>_. (0, 1, True)) audio_members s = (True, u) \<and> rx_seen u = [Some [7, 8], None]"
proof -
  have e: "\<forall>ev \<in> set example_stream. decodes ev" by (simp add: example_stream_def)
  have l: "dc_listener example_decoder \<noteq> None" using example_pool_facts(5) by simp
  have a: "\<forall>j :: nat. case (0 :: int, 1 :: nat, True) of (response, n, again) \<Rightarrow> response < 0 \<or> 0 < n \<and> again" by simp
  from received_bytes_intact [OF example_pool_facts(1-4) l e a, of 1] example_stream_run show ?thesis
    by (auto simp: reads_after_stop_def numeral_2_eq_2)
qed

end
