(* ===== verification/FrameView.thy ===== *)
theory FrameView
  imports SinkConnector Formats
begin

text \<open>
  What the sink sees of a decoded frame: \<open>Media::Video::QtVideoBuffer\<close> (\<open>lib/media/media.h\<close>, \<open>lib/media/media.cpp\<close>), which hands
  format and planes of an \<open>AVFrame\<close> to Qt, and the \<open>QVideoFrame\<close> that \<open>SinkConnector\<close> makes once per buffer, with the format that
  the buffer has at that moment. Qt asks for the planes later, whenever it draws.
\<close>

section \<open>The buffer\<close>

text \<open>The fields of \<open>AVFrame\<close> that the buffer reads; \<open>av_linesize\<close> and \<open>av_data\<close> have an entry per plane.\<close>

record av_picture =
  av_width :: int
  av_height :: int
  av_format :: av_pixel
  av_linesize :: "nat \<Rightarrow> int"
  av_data :: "nat \<Rightarrow> nat"

definition QtVideoBuffer_format ::
    "(nat \<Rightarrow> bool \<times> nat) \<Rightarrow> av_picture option \<Rightarrow> (int \<times> int) \<times> qt_pixel" where
  "QtVideoBuffer_format desc frame =
     (case frame of
        None \<Rightarrow> ((0, 0), Format_Invalid)
      | Some f \<Rightarrow> ((av_width f, av_height f), toQtPixel desc (av_format f)))"

record map_data =
  md_planeCount :: int
  md_bytesPerLine :: "int list"
  md_dataSize :: "int list"
  md_data :: "nat list"

definition new_map_data :: map_data where
  "new_map_data = \<lparr>md_planeCount = 0, md_bytesPerLine = replicate 4 0, md_dataSize = replicate 4 0, md_data = replicate 4 0\<rparr>"

text \<open>\<open>planes\<close> is \<open>av_pix_fmt_count_planes\<close>.\<close>

definition QtVideoBuffer_map :: "(av_pixel \<Rightarrow> int) \<Rightarrow> av_picture option \<Rightarrow> map_data" where
  "QtVideoBuffer_map planes frame =
     (case frame of
        None \<Rightarrow> new_map_data
      | Some f \<Rightarrow>
          fold (\<lambda>i out. out\<lparr>md_bytesPerLine := (md_bytesPerLine out)[i := av_linesize f i],
                  md_dataSize := (md_dataSize out)[i := av_linesize f i], md_data := (md_data out)[i := av_data f i]\<rparr>)
            [0..<3] (new_map_data\<lparr>md_planeCount := planes (av_format f)\<rparr>))"

lemma QtVideoBuffer_map_frame:
  "QtVideoBuffer_map planes (Some f) =
     \<lparr>md_planeCount = planes (av_format f), md_bytesPerLine = map (av_linesize f) [0, 1, 2] @ [0],
      md_dataSize = map (av_linesize f) [0, 1, 2] @ [0], md_data = map (av_data f) [0, 1, 2] @ [0]\<rparr>"
  by (simp add: QtVideoBuffer_map_def new_map_data_def numeral_eq_Suc)

section \<open>The frames on the sink\<close>

text \<open>\<open>vv_formats\<close>: the format of the \<open>QVideoFrame\<close> of each buffer.\<close>

record 'c video_view =
  vv_connector :: "(av_picture, 'c) connector"
  vv_formats :: "nat \<Rightarrow> (int \<times> int) \<times> qt_pixel"

text \<open>The listener of \<open>establish\<close>, with what it makes of the \<open>QVideoFrame\<close>.\<close>

definition frame_viewed ::
    "(nat \<Rightarrow> bool \<times> nat) \<Rightarrow> av_picture \<Rightarrow> nat \<Rightarrow> 'c video_view \<Rightarrow> sink_error + 'c video_view" where
  "frame_viewed desc frame index v =
     (let w = vv_connector v; b = buf (current w);
          formats = (if qframe (current w) = None then (vv_formats v)(b := QtVideoBuffer_format desc (Some frame))
                     else vv_formats v)
      in map_sum id (\<lambda>w. v\<lparr>vv_connector := w, vv_formats := formats\<rparr>) (on_frame frame index w))"

definition view_frames ::
    "(nat \<Rightarrow> bool \<times> nat) \<Rightarrow> (av_picture \<times> nat) list \<Rightarrow> 'c video_view \<Rightarrow> sink_error + 'c video_view" where
  "view_frames desc = fold_err (\<lambda>(frame, index) v. frame_viewed desc frame index v)"

text \<open>What is drawn: the format of the \<open>QVideoFrame\<close> that is on the sink, and the planes of its buffer.\<close>

definition drawn :: "(av_pixel \<Rightarrow> int) \<Rightarrow> 'c video_view \<Rightarrow> (((int \<times> int) \<times> qt_pixel) \<times> map_data) option" where
  "drawn planes v =
     (let w = vv_connector v in
      case sink w of
        None \<Rightarrow> None
      | Some s \<Rightarrow> (case shown w s of
                     None \<Rightarrow> None
                   | Some b \<Rightarrow> Some (vv_formats v b, QtVideoBuffer_map planes (buffers w b))))"

lemma view_frames_defined:
  "show_frames fs (vv_connector v) = Inr w \<Longrightarrow> \<exists>v'. view_frames desc fs v = Inr v' \<and> vv_connector v' = w"
proof (induction fs arbitrary: v)
  case (Cons fi fs)
  obtain f i where fi: "fi = (f, i)" by (cases fi)
  from Cons.prems obtain w1 where w1: "on_frame f i (vv_connector v) = Inr w1" "show_frames fs w1 = Inr w"
    by (auto simp: fi split: sum.splits)
  then obtain v1 where v1: "frame_viewed desc f i v = Inr v1" "vv_connector v1 = w1"
    by (simp add: frame_viewed_def Let_def)
  with Cons.IH [of v1] w1(2) show ?case by (auto simp: view_frames_def fi)
qed (simp add: view_frames_def)

text \<open>The two buffers take turns, and each keeps the format of its first frame.\<close>

definition viewed_run ::
    "(nat \<Rightarrow> bool \<times> nat) \<Rightarrow> nat \<Rightarrow> nat \<Rightarrow> nat \<Rightarrow> nat \<Rightarrow> (av_picture \<times> nat) list \<Rightarrow> 'c video_view \<Rightarrow> bool" where
  "viewed_run desc a s x y fs v \<longleftrightarrow>
     (let w = vv_connector v; n = length fs in
      connected a s w \<and> buf (current w) = (if even n then x else y) \<and> buf (prev w) = (if even n then y else x) \<and>
      (qframe (current w) = None \<longleftrightarrow> n < 2) \<and> (qframe (prev w) = None \<longleftrightarrow> n < 1) \<and>
      (\<forall>i < min n 2. vv_formats v (if i = 0 then x else y) = QtVideoBuffer_format desc (Some (fst (fs ! i)))) \<and>
      (fs \<noteq> [] \<longrightarrow> shown w s = Some (buf (prev w)) \<and> buffers w (buf (prev w)) = Some (fst (last fs))))"

lemma viewed_step:
  assumes "viewed_run desc a s x y fs v" and "x \<noteq> y" and "i < 2 ^ 64 - 1" and "frame_viewed desc f i v = Inr v'"
  shows "viewed_run desc a s x y (fs @ [(f, i)]) v'"
proof -
  let ?w = "vv_connector v" and ?w' = "vv_connector v'" and ?n = "length fs"
  have r: "connected a s ?w" "buf (current ?w) = (if even ?n then x else y)" "buf (prev ?w) = (if even ?n then y else x)"
    "qframe (current ?w) = None \<longleftrightarrow> ?n < 2" "qframe (prev ?w) = None \<longleftrightarrow> ?n < 1"
    and fm: "\<And>j. j < min ?n 2 \<Longrightarrow> vv_formats v (if j = 0 then x else y) = QtVideoBuffer_format desc (Some (fst (fs ! j)))"
    using assms(1) unfolding viewed_run_def Let_def by blast+
  from assms(4) have on: "on_frame f i ?w = Inr ?w'" and fv: "vv_formats v' = (if qframe (current ?w) = None
      then (vv_formats v)(buf (current ?w) := QtVideoBuffer_format desc (Some f)) else vv_formats v)"
    by (cases "on_frame f i ?w"; auto simp: frame_viewed_def Let_def)+
  from on obtain p where w': "?w' = ?w\<lparr>buffers := (buffers ?w)(buf (current ?w) := Some f),
      shown := (shown ?w)(s := Some (buf (current ?w))), pipes := (pipes ?w)(a := p), current := prev ?w,
      prev := (current ?w)\<lparr>pipeIndex := of_nat i, qframe := Some (buf (current ?w))\<rparr>\<rparr>"
    unfolding on_frame_connected [OF r(1) assms(3)] by (auto split: sum.splits dest: sym)
  have fm': "vv_formats v' (if j = 0 then x else y) = QtVideoBuffer_format desc (Some (fst ((fs @ [(f, i)]) ! j)))"
    if j: "j < min (Suc ?n) 2" for j
  proof (cases "j < ?n")
    case True
    then have "vv_formats v (if j = 0 then x else y) = QtVideoBuffer_format desc (Some (fst ((fs @ [(f, i)]) ! j)))"
      using fm [of j] j by (simp add: nth_append)
    moreover have "?n < 2 \<Longrightarrow> j = 0 \<and> ?n = 1" using True j by simp
    ultimately show ?thesis using fv r(2,4) assms(2) by auto
  next
    case False
    with j have "?n = j" "?n < 2" by simp_all
    then have "buf (current ?w) = (if j = 0 then x else y)" using r(2) by (cases "j = 0") auto
    with fv r(4) \<open>?n = j\<close> \<open>?n < 2\<close> show ?thesis by (simp add: nth_append)
  qed
  show ?thesis
    unfolding viewed_run_def Let_def
  proof (intro conjI allI impI)
    show "connected a s ?w'" by (rule on_frame_result(1) [OF r(1) assms(3) on])
    fix j assume "j < min (length (fs @ [(f, i)])) 2"
    then show "vv_formats v' (if j = 0 then x else y) = QtVideoBuffer_format desc (Some (fst ((fs @ [(f, i)]) ! j)))"
      by (intro fm') simp
  qed (use r(2-5) in \<open>auto simp: w'\<close>)
qed

lemma viewed_frames:
  assumes "viewed_run desc a s x y [] v" and "x \<noteq> y" and "\<forall>(f, i) \<in> set fs. i < 2 ^ 64 - 1" and "view_frames desc fs v = Inr v'"
  shows "viewed_run desc a s x y fs v'"
  using assms(3,4)
proof (induction fs arbitrary: v' rule: rev_induct)
  case Nil
  with assms(1) show ?case by (simp add: view_frames_def)
next
  case (snoc fi fs)
  obtain f i where fi: "fi = (f, i)" by (cases fi)
  from snoc.prems(2) obtain v1 where v1: "view_frames desc fs v = Inr v1" "frame_viewed desc f i v1 = Inr v'"
    by (auto simp: view_frames_def fold_err_append fi split: sum.splits)
  from snoc.prems(1) have "i < 2 ^ 64 - 1" "\<forall>(f, i) \<in> set fs. i < 2 ^ 64 - 1" by (simp_all add: fi)
  with viewed_step [OF snoc.IH [OF _ v1(1)] assms(2) _ v1(2)] show ?case by (simp add: fi)
qed

text \<open>
  C37: What is drawn of a run of frames after connecting: the planes of the last frame, each said to be one line long, in size and format
  of the first frame that went into its buffer: its own size and format as long as no frame has others, and the old ones when they
  changed after both buffers were filled.
\<close>

theorem drawn_with_first_format:
  assumes "connected a s (vv_connector v)" and "held (vv_connector v) = []" and "qframe (current (vv_connector v)) = None"
    and "qframe (prev (vv_connector v)) = None" and "fs \<noteq> []" and "\<forall>(f, i) \<in> set fs. i < 2 ^ 64 - 1"
    and "\<And>i. count_list (map snd fs) i \<le> owed_readings (pipes (vv_connector v) a) i"
  shows "\<exists>v' out. view_frames desc fs v = Inr v' \<and>
    drawn planes v' = Some (QtVideoBuffer_format desc (Some (fst (fs ! ((length fs - 1) mod 2)))), out) \<and>
    md_data out = map (av_data (fst (last fs))) [0, 1, 2] @ [0] \<and>
    md_dataSize out = md_bytesPerLine out \<and> md_bytesPerLine out = map (av_linesize (fst (last fs))) [0, 1, 2] @ [0] \<and>
    ((\<forall>(f, i) \<in> set fs. av_width f = av_width (fst (last fs)) \<and> av_height f = av_height (fst (last fs)) \<and>
        av_format f = av_format (fst (last fs))) \<longrightarrow>
     drawn planes v' = Some (QtVideoBuffer_format desc (Some (fst (last fs))), out))"
proof -
  let ?w = "vv_connector v" and ?n = "length fs" and ?l = "fst (last fs)"
  have "count_list (map snd (butlast fs)) i \<le> owed_readings (pipes ?w a) i" for i
  proof -
    have "fs = butlast fs @ [last fs]" using assms(5) by simp
    then have "count_list (map snd fs) i = count_list (map snd (butlast fs @ [last fs])) i" by simp
    with assms(7) [of i] show ?thesis by (simp split: if_splits)
  qed
  from dpool.release_list [OF this] assms(2) obtain p where
    "fold_err unmapReading (held ?w @ map snd (butlast fs)) (pipes ?w a) = Inr p" by auto
  from show_frames_releases [OF assms(1,6,5) this] view_frames_defined obtain v' where v': "view_frames desc fs v = Inr v'"
    by blast
  let ?x = "buf (current ?w)" and ?y = "buf (prev ?w)" and ?w' = "vv_connector v'"
  have "?x \<noteq> ?y" "viewed_run desc a s ?x ?y [] v" using assms(1,3,4) by (simp_all add: connected_def viewed_run_def)
  from viewed_frames [OF this(2,1) assms(6) v'] have r: "connected a s ?w'" "buf (prev ?w') = (if even ?n then ?y else ?x)"
    "shown ?w' s = Some (buf (prev ?w'))" "buffers ?w' (buf (prev ?w')) = Some ?l"
    and fm: "\<And>i. i < min ?n 2 \<Longrightarrow> vv_formats v' (if i = 0 then ?x else ?y) = QtVideoBuffer_format desc (Some (fst (fs ! i)))"
    using assms(5) unfolding viewed_run_def Let_def by blast+
  have m: "(?n - 1) mod 2 = 0 \<longleftrightarrow> odd ?n" "(?n - 1) mod 2 < min ?n 2"
    using assms(5) by (cases ?n; simp add: even_iff_mod_2_eq_zero; presburger)+
  from fm [OF m(2)] r(2) m(1) have
    "vv_formats v' (buf (prev ?w')) = QtVideoBuffer_format desc (Some (fst (fs ! ((?n - 1) mod 2))))"
    by (cases "even ?n") simp_all
  with r have d: "drawn planes v' = Some (QtVideoBuffer_format desc (Some (fst (fs ! ((?n - 1) mod 2)))),
      QtVideoBuffer_map planes (Some ?l))" by (simp add: drawn_def Let_def connected_def)
  have mem: "fs ! ((?n - 1) mod 2) \<in> set fs" using m(2) by (intro nth_mem) simp
  have "QtVideoBuffer_format desc (Some (fst (fs ! ((?n - 1) mod 2)))) = QtVideoBuffer_format desc (Some ?l)"
    if "\<forall>(f, i) \<in> set fs. av_width f = av_width ?l \<and> av_height f = av_height ?l \<and> av_format f = av_format ?l"
    using bspec [OF that mem] by (simp add: QtVideoBuffer_format_def case_prod_beta)
  with d v' show ?thesis
    by (intro exI [of _ v'] exI [of _ "QtVideoBuffer_map planes (Some ?l)"]) (simp add: QtVideoBuffer_map_frame)
qed

text \<open>The sender turns from 640 by 480 to 320 by 240 after the first frame; the third is drawn in the old size.\<close>

definition example_picture :: "int \<Rightarrow> int \<Rightarrow> av_picture" where
  "example_picture w h = \<lparr>av_width = w, av_height = h, av_format = AV_PIX_FMT_YUV420P,
     av_linesize = (\<lambda>i. if i = 0 then w else w div 2), av_data = (\<lambda>i. i + 1)\<rparr>"

definition example_pictures :: "(av_picture \<times> nat) list" where
  "example_pictures = [(example_picture 640 480, 0), (example_picture 320 240, 1), (example_picture 320 240, 2)]"

definition example_view :: "nat video_view" where
  "example_view =
     \<lparr>vv_connector = (new_connector (\<lambda>_. \<lparr>subpipes = replicate 3 \<lparr>isFree = False, ptr = example_picture 0 0, readings = 1\<rparr>,
          sem = 0, listeners = [], addListenerQueue = [], removeListenerQueue = []\<rparr>))\<lparr>input := Some 7, sink := Some 4\<rparr>,
      vv_formats = (\<lambda>_. ((0, 0), Format_Invalid))\<rparr>"

theorem drawn_with_first_format_witness:
  "\<exists>v' out. view_frames (\<lambda>_. (False, 8)) example_pictures example_view = Inr v' \<and>
     drawn (\<lambda>_. 3) v' = Some (((640, 480), Format_YUV420P), out) \<and> md_dataSize out = [320, 160, 160, 0] \<and>
     av_width (fst (last example_pictures)) = 320"
proof -
  let ?w = "vv_connector example_view"
  have w: "connected 7 4 ?w" "held ?w = []" "qframe (current ?w) = None" "qframe (prev ?w) = None"
    by (simp_all add: connected_def held_def frame_ok_def example_view_def new_connector_def fresh_buffers_def empty_frame_def)
  have o: "count_list (map snd example_pictures) i \<le> owed_readings (pipes ?w 7) i" for i
    by (auto simp: example_pictures_def owed_readings_def example_view_def new_connector_def fresh_buffers_def nth_Cons')
  have "example_pictures \<noteq> []" "\<forall>(f, i) \<in> set example_pictures. i < 2 ^ 64 - 1" by (simp_all add: example_pictures_def)
  from drawn_with_first_format [OF w this o, of "\<lambda>_. (False, 8)" "\<lambda>_. 3"] show ?thesis
    by (auto simp: example_pictures_def example_picture_def QtVideoBuffer_format_def)
qed

end
