(* ===== verification/RtcListeners.thy ===== *)
theory RtcListeners
  imports RtcService
begin

text \<open>
  The listeners of the peers on the packetizer of \<open>rtc::Service\<close> (\<open>lib/network/rtcservice.cpp\<close>) over all runs of the
  service: their numbers come from one counter that only grows, so a new number is never one that is still registered,
  queued or kept by a peer. With it the life of an outgoing video: opening registers one listener more, closing leaves exactly
  the others.
\<close>

section \<open>The numbers in use\<close>

definition pipe_numbers :: "('a, 'c) pipe \<Rightarrow> int set" where
  "pipe_numbers p = fst ` set (listeners p) \<union> snd ` set (addListenerQueue p) \<union> set (removeListenerQueue p)"

definition numbers :: "service \<Rightarrow> int set" where
  "numbers s =
     (case sv_packetizer s of None \<Rightarrow> {} | Some z \<Rightarrow> pipe_numbers (pk_output z)) \<union>
     {l. \<exists>(k, p) \<in> set (sv_peers s). pm_listener (pr_video p) = Some l}"

text \<open>What an operation may do to the numbers: take new ones from the counter and forget old ones.\<close>

definition grows :: "service \<Rightarrow> service \<Rightarrow> bool" where
  "grows s t \<longleftrightarrow>
     sv_rawIndex s \<le> sv_rawIndex t \<and> numbers t \<subseteq> numbers s \<union> {sv_rawIndex s <.. sv_rawIndex t}"

lemma grows_refl [simp]: "grows s s"
  by (simp add: grows_def)

lemma grows_trans: "grows s t \<Longrightarrow> grows t u \<Longrightarrow> grows s u"
  by (fastforce simp: grows_def)

lemma grows_same:
  assumes "set (sv_peers t) \<subseteq> set (sv_peers s)" and "sv_rawIndex t = sv_rawIndex s"
    and "\<And>z'. sv_packetizer t = Some z' \<Longrightarrow>
           pipe_numbers (pk_output z') \<subseteq> numbers s"
  shows "grows s t"
  using assms unfolding grows_def numbers_def by (fastforce split: option.splits)

lemma numbers_packetizer: "sv_packetizer s = Some z \<Longrightarrow> pipe_numbers (pk_output z) \<subseteq> numbers s"
  by (auto simp: numbers_def)

lemma grows_fields:
  assumes "sv_peers t = sv_peers s" and "sv_rawIndex t = sv_rawIndex s" and "ls \<subseteq> numbers s"
    and "\<forall>z'. sv_packetizer t = Some z' \<longrightarrow>
           (\<exists>z. sv_packetizer s = Some z \<and> pipe_numbers (pk_output z') = pipe_numbers (pk_output z) \<union> ls)"
  shows "grows s t"
proof (rule grows_same)
  fix z'
  assume "sv_packetizer t = Some z'"
  with assms(3,4) numbers_packetizer show "pipe_numbers (pk_output z') \<subseteq> numbers s" by (metis Un_least)
qed (use assms in simp_all)

lemma numbers_peer: "(k, p) \<in> set (sv_peers s) \<Longrightarrow> pm_listener (pr_video p) = Some l \<Longrightarrow> l \<in> numbers s"
  by (force simp: numbers_def)

lemma numbers_cases:
  assumes "l \<in> numbers s"
  obtains z where "sv_packetizer s = Some z" "l \<in> pipe_numbers (pk_output z)"
  | k p where "(k, p) \<in> set (sv_peers s)" "pm_listener (pr_video p) = Some l"
  using assms by (auto simp: numbers_def split: option.splits)

lemma grows_on_video:
  assumes "\<And>p l. (k, p) \<in> set (sv_peers s) \<Longrightarrow> pm_listener (f (pr_video p)) = Some l \<Longrightarrow> l \<in> numbers s"
  shows "grows s (on_video k f s)"
proof -
  have "numbers (on_video k f s) \<subseteq> numbers s"
  proof
    fix l
    assume "l \<in> numbers (on_video k f s)"
    then show "l \<in> numbers s"
    proof (cases rule: numbers_cases)
      case (1 z)
      then show ?thesis using numbers_packetizer [of s z] by auto
    next
      case (2 j p)
      then obtain q where "(j, q) \<in> set (sv_peers s)" "p = (if j = k then q\<lparr>pr_video := f (pr_video q)\<rparr> else q)"
        by (auto simp: on_video_def with_peer_def)
      with 2 assms show ?thesis by (auto intro: numbers_peer split: if_splits)
    qed
  qed
  then show ?thesis by (auto simp: grows_def)
qed

lemma grows_keep_listener: "(\<And>m. pm_listener (f m) = pm_listener m) \<Longrightarrow> grows s (on_video k f s)"
  by (rule grows_on_video) (simp add: numbers_peer)

lemma grows_with_peer:
  assumes "\<And>p. pr_video (f p) = pr_video p"
  shows "grows s (with_peer k f s)"
proof -
  have "numbers (with_peer k f s) \<subseteq> numbers s"
  proof
    fix l
    assume "l \<in> numbers (with_peer k f s)"
    then show "l \<in> numbers s"
    proof (cases rule: numbers_cases)
      case (1 z)
      then show ?thesis using numbers_packetizer [of s z] by auto
    next
      case (2 j p)
      with assms show ?thesis by (auto simp: with_peer_def intro: numbers_peer split: if_splits)
    qed
  qed
  then show ?thesis by (auto simp: grows_def)
qed

lemma grows_on_audio [simp]: "grows s (on_audio k f s)"
  unfolding on_audio_def by (rule grows_with_peer) simp

section \<open>Every operation\<close>

lemma grows_getOrCreate [simp]: "grows s (getOrCreatePeerContext k s)"
proof -
  have "set (omap_emplace k v xs) \<subseteq> insert (k, v) (set xs)" for v and xs :: "(int, peer) omap"
    by (induction k v xs rule: omap_emplace.induct) auto
  then have "numbers (createPeerContext k s) \<subseteq> numbers s"
    by (fastforce simp: createPeerContext_def numbers_def new_peer_def new_media_def)
  then show ?thesis by (auto simp: getOrCreatePeerContext_def createPeerContext_def grows_def)
qed

lemma pipe_numbers_ops [simp]:
  "pipe_numbers (p\<lparr>addListenerQueue := addListenerQueue p @ [(c, i)]\<rparr>) = insert i (pipe_numbers p)"
  "pipe_numbers (removeListener i p) = insert i (pipe_numbers p)"
  "pipe_numbers packet_pipe = {}" "pipe_numbers raw_pipe = {}"
  by (auto simp: pipe_numbers_def removeListener_def)

lemma grows_listen_raw:
  assumes "listen_raw k n s = Some t"
  shows "grows s t"
proof -
  obtain z idx out where t: "sv_packetizer s = Some z"
    "onDataChanged (SendTo k n) (sv_rawIndex s) (pk_output z) = Inr (sv_rawIndex s + 1, sv_rawIndex s + 1, out)"
    "t = on_video k (\<lambda>m. m\<lparr>pm_listener := Some (sv_rawIndex s + 1)\<rparr>)
       (s\<lparr>sv_packetizer := Some (z\<lparr>pk_output := out\<rparr>), sv_rawIndex := sv_rawIndex s + 1\<rparr>)"
    using assms by (auto simp: listen_raw_def onDataChanged_def split: option.splits sum.splits if_splits)
  let ?u = "s\<lparr>sv_packetizer := Some (z\<lparr>pk_output := out\<rparr>), sv_rawIndex := sv_rawIndex s + 1\<rparr>"
  have out: "pipe_numbers out = insert (sv_rawIndex s + 1) (pipe_numbers (pk_output z))"
    using t(2) by (auto simp: onDataChanged_def split: if_splits)
  have u: "grows s ?u" using t(1) out by (auto simp: grows_def numbers_def)
  have "sv_rawIndex s + 1 \<in> numbers ?u" using out by (simp add: numbers_def)
  then have "grows ?u t" unfolding t(3) by (intro grows_on_video) simp
  with u show ?thesis by (rule grows_trans)
qed

lemma grows_start_video:
  assumes "start_video M a s = Some t"
  shows "grows s t"
proof (rule grows_same)
  fix z'
  assume z: "sv_packetizer t = Some z'"
  show "pipe_numbers (pk_output z') \<subseteq> numbers s"
  proof (cases "sv_packetizer s")
    case None
    with assms z have "pk_output z' = raw_pipe"
      by (auto simp: start_video_def Let_def new_packetizer_def packetizer_start_def split: sum.splits if_splits)
    then show ?thesis by simp
  next
    case (Some w)
    with assms z have "pk_output z' = pk_output w"
      by (auto simp: start_video_def Let_def packetizer_start_def split: sum.splits if_splits)
    with Some show ?thesis by (simp add: numbers_packetizer)
  qed
qed (simp_all add: start_video_fields [OF assms])

lemma grows_openLocalVideo:
  assumes "openLocalVideo M k a s = Some s'"
  shows "grows s s'"
proof -
  from assms obtain t where t: "start_video M a (getOrCreatePeerContext k s) = Some t"
    "s' = on_video k (\<lambda>m. m\<lparr>pm_track := Some OpenedTrack, pm_opening := True\<rparr>) t \<or> (\<exists>n. listen_raw k n t = Some s')"
    by (auto simp: openLocalVideo_def split: option.splits if_splits)
  have "grows t s'" using t(2) by (auto intro: grows_keep_listener grows_listen_raw)
  then show ?thesis using grows_start_video [OF t(1)] grows_trans grows_getOrCreate by meson
qed

lemma grows_video_track_open:
  assumes "video_track_open k s = Some s'"
  shows "grows s s'"
proof -
  have "grows s (on_video k (\<lambda>m. m\<lparr>pm_opening := False\<rparr>) s)" by (rule grows_keep_listener) simp
  with assms show ?thesis
    by (auto simp: video_track_open_def split: option.splits if_splits dest: grows_listen_raw intro: grows_trans)
qed

lemma grows_audio_ops:
  shows "openLocalAudio M k a s = Some s' \<Longrightarrow> grows s s'" and "audio_track_open k s = Some s' \<Longrightarrow> grows s s'"
proof -
  have l: "grows s s'" if "listen_audio k n s = Some s'" for n s s'
  proof -
    from that obtain t l where t: "s' = on_audio k (\<lambda>m. m\<lparr>pm_listener := Some l\<rparr>) t" "sv_peers t = sv_peers s"
      "sv_rawIndex t = sv_rawIndex s" "sv_packetizer t = sv_packetizer s"
      by (auto simp: listen_audio_def split: option.splits sum.splits)
    have "grows s t" by (rule grows_same) (use t in \<open>simp_all add: numbers_packetizer\<close>)
    then show ?thesis unfolding t(1) by (rule grows_trans) simp
  qed
  show "grows s s'" if o: "openLocalAudio M k a s = Some s'"
  proof -
    from o obtain t where t: "start_audio M a (getOrCreatePeerContext k s) = Some t"
      "s' = on_audio k (\<lambda>m. m\<lparr>pm_track := Some OpenedTrack, pm_opening := True\<rparr>) t \<or> (\<exists>n. listen_audio k n t = Some s')"
      by (auto simp: openLocalAudio_def split: option.splits if_splits)
    have r: "sv_rawIndex t = sv_rawIndex (getOrCreatePeerContext k s)"
      using t(1) by (auto simp: start_audio_def Let_def split: sum.splits)
    have "grows (getOrCreatePeerContext k s) t"
      by (rule grows_same) (use start_audio_fields [OF t(1)] r in \<open>simp_all add: numbers_packetizer\<close>)
    moreover have "grows t s'" using t(2) by (auto intro: l)
    ultimately show ?thesis using grows_trans grows_getOrCreate by meson
  qed
  show "grows s s'" if "audio_track_open k s = Some s'"
    using that by (auto simp: audio_track_open_def split: option.splits if_splits dest: l intro: grows_trans [OF grows_on_audio])
qed

lemma pipe_numbers_remove_all:
  "pipe_numbers (foldl (\<lambda>out l. removeListener l out) p ls) = pipe_numbers p \<union> set ls"
  by (induction ls arbitrary: p) auto

lemma grows_unlisten:
  shows "unlisten_raw ls s = Some t \<Longrightarrow> set ls \<subseteq> numbers s \<Longrightarrow> grows s t"
    and "unlisten_audio ms s = Some t \<Longrightarrow> grows s t"
proof -
  show "grows s t" if "unlisten_raw ls s = Some t" "set ls \<subseteq> numbers s"
    by (rule grows_fields [where ls = "set ls"])
      (use that in \<open>auto simp: unlisten_raw_def pipe_numbers_remove_all split: if_splits option.splits\<close>)
  show "grows s t" if "unlisten_audio ms s = Some t"
    by (rule grows_fields [where ls = "{}"])
      (use that in \<open>auto simp: unlisten_audio_def split: if_splits option.splits\<close>)
qed

lemma grows_flush [simp]: "grows s (flushRemoteVideo k s)" "grows s (flushRemoteAudio k s)"
  by (simp_all add: flushRemoteVideo_def flushRemoteAudio_def grows_keep_listener)

lemma getPeer_set: "getPeerContext k s = Some p \<Longrightarrow> (k, p) \<in> set (sv_peers s)"
  unfolding getPeerContext_def by (rule map_of_SomeD)

lemma grows_closeUser:
  assumes "closeUserConnection k s = Some s'"
  shows "grows s s'"
proof -
  let ?f = "flushRemoteVideo k (flushRemoteAudio k s)"
  have f: "grows s ?f" using grows_trans grows_flush by meson
  show ?thesis
  proof (cases "getPeerContext k ?f")
    case None
    with assms f show ?thesis by (simp add: closeUserConnection_def Let_def)
  next
    case (Some p)
    with assms obtain t ms u where
      u: "unlisten_raw (case pm_listener (pr_video p) of Some l \<Rightarrow> [l] | None \<Rightarrow> []) ?f = Some t"
      "unlisten_audio ms t = Some u" "s' = u\<lparr>sv_peers := omap_erase k (sv_peers u)\<rparr>"
      unfolding closeUserConnection_def Let_def by (simp only: option.case bind_eq_Some_conv) blast
    have "grows ?f t"
      by (rule grows_unlisten(1) [OF u(1)]) (auto intro: numbers_peer getPeer_set [OF Some] split: option.splits)
    moreover have "grows t u" by (rule grows_unlisten(2) [OF u(2)])
    moreover have "grows u s'" unfolding u(3)
      by (rule grows_same) (auto simp: omap_erase_def numbers_packetizer)
    ultimately show ?thesis using f grows_trans by meson
  qed
qed

lemma grows_closeLocal:
  shows "closeLocalVideo k s = Some t \<Longrightarrow> grows s t" and "closeLocalAudio k s = Some t \<Longrightarrow> grows s t"
proof -
  have "set (List.map_filter (\<lambda>(j, p). pm_listener (pr_video p)) (sv_peers s)) \<subseteq> numbers s"
    by (auto simp: map_filter_def intro: numbers_peer)
  then show "closeLocalVideo k s = Some t \<Longrightarrow> grows s t"
    unfolding closeLocalVideo_def by (rule grows_unlisten(1) [rotated])
  show "closeLocalAudio k s = Some t \<Longrightarrow> grows s t"
    unfolding closeLocalAudio_def by (rule grows_unlisten(2))
qed

lemma grows_closeAll [simp]: "grows s (closeAllConnections s)"
  by (auto simp: grows_def numbers_def closeAllConnections_def close_codecs_def clear_peers_def Let_def)

lemma grows_ensure:
  assumes "ensure_decoder found m s = Some (m', t)"
  shows "grows s t" "pm_listener m' = pm_listener m" "sv_peers t = sv_peers s"
proof -
  note f = ensure_decoder_fields [OF assms]
  have "sv_rawIndex t = sv_rawIndex s" using assms by (auto simp: ensure_decoder_def Let_def split: option.splits)
  then show "grows s t" by (intro grows_same) (simp_all add: f numbers_packetizer)
  show "pm_listener m' = pm_listener m" "sv_peers t = sv_peers s" by (simp_all add: f)
qed

lemma grows_ensured:
  assumes "ensure_decoder found (pr_video p) s = Some (m, t)" and "getPeerContext k s = Some p"
    and "pm_listener m' = pm_listener m"
  shows "grows s (on_video k (\<lambda>_. m') t)"
proof -
  note e = grows_ensure [OF assms(1)]
  have "grows t (on_video k (\<lambda>_. m') t)"
    by (rule grows_on_video) (use e(2,3) assms(3) getPeer_set [OF assms(2)] in \<open>auto intro: numbers_peer\<close>)
  with e(1) show ?thesis by (rule grows_trans)
qed

lemma grows_getRemote:
  shows "getRemoteVideo M k s = Some (a, s') \<Longrightarrow> grows s s'" and "getRemoteAudio M k s = Some (a, s') \<Longrightarrow> grows s s'"
proof -
  show "grows s s'" if "getRemoteVideo M k s = Some (a, s')"
    using that by (auto simp: getRemoteVideo_def Let_def split: option.splits
        intro: grows_trans [OF grows_getOrCreate] grows_ensured)
  show "grows s s'" if "getRemoteAudio M k s = Some (a, s')"
    using that by (auto simp: getRemoteAudio_def Let_def split: option.splits dest: grows_ensure(1)
        intro: grows_trans [OF grows_getOrCreate] grows_trans [OF _ grows_on_audio])
qed

lemma grows_track:
  shows "on_track_video k s = Some s' \<Longrightarrow> grows s s'" and "on_track_audio M k s = Some s' \<Longrightarrow> grows s s'"
proof -
  show "grows s s'" if "on_track_video k s = Some s'"
    using that by (auto simp: on_track_video_def split: option.splits intro: grows_keep_listener)
  show "grows s s'" if t: "on_track_audio M k s = Some s'"
  proof -
    from t obtain u m where u: "s' = on_audio k (\<lambda>_. m) u" "sv_peers u = sv_peers s" "sv_rawIndex u = sv_rawIndex s"
      "sv_packetizer u = sv_packetizer s"
      by (auto simp: on_track_audio_def Let_def split: option.splits sum.splits prod.splits)
    have "grows s u" by (rule grows_same) (use u in \<open>simp_all add: numbers_packetizer\<close>)
    then show ?thesis unfolding u(1) by (rule grows_trans) simp
  qed
qed

lemma grows_frame:
  shows "on_video_frame M k s = Some (ns, s') \<Longrightarrow> grows s s'" and "on_audio_frame M k s = Some (ns, s') \<Longrightarrow> grows s s'"
proof -
  have keep: "grows s (on_video k (\<lambda>m. m\<lparr>pm_pipe := Some q\<rparr>) s)" for q by (rule grows_keep_listener) simp
  show "grows s s'" if v: "on_video_frame M k s = Some (ns, s')"
  proof -
    from v consider "s' = s" | q where "s' = on_video k (\<lambda>m. m\<lparr>pm_pipe := Some q\<rparr>) s"
      | p m u m' where "getPeerContext k s = Some p" "ensure_decoder (fm_h264 M) (pr_video p) s = Some (m, u)"
        "s' = on_video k (\<lambda>_. m') u" "pm_listener m' = pm_listener m"
      by (auto simp: on_video_frame_def split: option.splits track.splits dest!: push_frame_cases)
    then show ?thesis by cases (auto intro: keep grows_ensured)
  qed
  show "grows s s'" if v: "on_audio_frame M k s = Some (ns, s')"
  proof -
    have "grows s s'" if "getPeerContext k s = Some p" "pm_track (pr_audio p) = Some OpenedTrack" for p
    proof -
      from v that obtain m u q where e: "ensure_decoder (fm_opus M) (pr_audio p) s = Some (m, u)"
        "push_frame (fm_fills M) None (\<lambda>ns q. (ns, on_audio k (\<lambda>_. m\<lparr>pm_pipe := Some q\<rparr>) u)) q = Some (ns, s')"
        by (auto simp: on_audio_frame_def split: option.splits)
      from push_frame_cases [OF e(2)] obtain f where "s' = on_audio k f u" by auto
      then show ?thesis using grows_ensure(1) [OF e(1)] grows_trans grows_on_audio by metis
    qed
    moreover have "grows s s'" if "getPeerContext k s = Some p" "pm_track (pr_audio p) \<noteq> Some OpenedTrack" for p
      using v that by (auto simp: on_audio_frame_def split: option.splits track.splits dest!: push_frame_cases)
    moreover have "grows s s'" if "getPeerContext k s = None"
      using v that by (simp add: on_audio_frame_def)
    ultimately show ?thesis by blast
  qed
qed

lemma grows_signalling [simp]: "grows s (on_description d s)" "grows s (on_candidate c s)"
  unfolding on_description_def on_candidate_def
  by (auto intro!: grows_trans [OF grows_getOrCreate grows_with_peer])

lemma pipe_numbers_unmap: "unmapReading i p = Inr q \<Longrightarrow> pipe_numbers q = pipe_numbers p"
  by (auto simp: unmapReading_def Let_def sem_release_def pipe_numbers_def split: if_splits)

lemma grows_send:
  shows "send_video k n i s = Some s' \<Longrightarrow> grows s s'" and "send_audio k n i s = Some s' \<Longrightarrow> grows s s'"
proof -
  show "grows s s'" if "send_video k n i s = Some s'"
  proof -
    from that obtain z out where t: "sv_packetizer s = Some z" "unmapReading i (pk_output z) = Inr out"
      "sv_packetizer s' = Some (z\<lparr>pk_output := out\<rparr>)" "sv_peers s' = sv_peers s" "sv_rawIndex s' = sv_rawIndex s"
      by (auto simp: send_video_def Let_def split: option.splits sum.splits if_splits)
    show ?thesis by (rule grows_fields [where ls = "{}"]) (simp_all add: t pipe_numbers_unmap [OF t(2)])
  qed
  show "grows s s'" if "send_audio k n i s = Some s'"
  proof -
    from that have t: "sv_packetizer s' = sv_packetizer s" "sv_peers s' = sv_peers s" "sv_rawIndex s' = sv_rawIndex s"
      by (auto simp: send_audio_def Let_def split: option.splits sum.splits if_splits)
    show ?thesis by (rule grows_fields [where ls = "{}"]) (simp_all add: t)
  qed
qed

lemma grows_do: "rtc_do M op s = Some s' \<Longrightarrow> grows s s'"
  by (cases op) (auto dest: grows_openLocalVideo grows_audio_ops grows_video_track_open grows_getRemote grows_closeUser
      grows_closeLocal grows_track grows_frame grows_send)

lemma numbers_bounded: "rtc_reachable M s \<Longrightarrow> numbers s \<subseteq> {..sv_rawIndex s}"
proof (induction rule: rtc_reachable.induct)
  case (rtc_start frames n)
  show ?case by (simp add: numbers_def new_service_def)
next
  case (rtc_next s op s')
  from grows_do [OF rtc_next.hyps(2)] rtc_next.IH show ?case by (fastforce simp: grows_def)
qed

section \<open>The life of an outgoing video\<close>

text \<open>The listeners the next publication of the packetizer calls.\<close>

definition registered :: "service \<Rightarrow> (int \<times> handler) set" where
  "registered s = (case sv_packetizer s of None \<Rightarrow> {} | Some z \<Rightarrow> set (listeners (drain_queues (pk_output z))))"

lemma set_emplace_new: "k \<notin> fst ` set xs \<Longrightarrow> set (omap_emplace k v xs) = insert (k, v) (set xs)"
  by (induction k v xs rule: omap_emplace.induct) auto

abbreviation with_listener :: "'c \<Rightarrow> int \<Rightarrow> ('a, 'c) pipe \<Rightarrow> ('a, 'c) pipe" where
  "with_listener h i p \<equiv> p\<lparr>addListenerQueue := addListenerQueue p @ [(h, i)]\<rparr>"

lemma drain_new:
  assumes "i \<notin> pipe_numbers p"
  shows "set (listeners (drain_queues (with_listener h i p))) = insert (i, h) (set (listeners (drain_queues p)))"
    and "set (listeners (drain_queues (removeListener i (with_listener h i p)))) = set (listeners (drain_queues p))"
    and "i \<notin> fst ` set (listeners (drain_queues p))"
proof -
  let ?e = "omap_emplace_all (addListenerQueue p) (listeners p)"
  have i: "i \<notin> fst ` set ?e" "i \<notin> set (removeListenerQueue p)"
    using assms(1) by (auto simp: pipe_numbers_def omap_simps)
  note e = set_emplace_new [OF i(1), of h]
  have "(i, b) \<notin> set ?e" for b using i(1) by force
  then show "set (listeners (drain_queues (with_listener h i p))) = insert (i, h) (set (listeners (drain_queues p)))"
    "set (listeners (drain_queues (removeListener i (with_listener h i p)))) = set (listeners (drain_queues p))"
    using i(2) by (auto simp: drain_queues_def removeListener_def set_omap_erase_all omap_emplace_all_snoc e)
  show "i \<notin> fst ` set (listeners (drain_queues p))"
    using assms(1) by (auto simp: keys_drain pipe_numbers_def)
qed

lemma registered_start_video: "start_video M a s = Some t \<Longrightarrow> registered t = registered s"
  by (auto simp: start_video_def Let_def registered_def new_packetizer_def packetizer_start_def drain_queues_def
      omap_emplace_all_def omap_erase_all_def split: sum.splits if_splits option.splits)

text \<open>For a user without a context, the track that opens is a new one and its listener the next of the counter.\<close>

lemma opened_video:
  assumes "getPeerContext k s = None" and "openLocalVideo M k a s = Some s1" and "video_track_open k s1 = Some s2"
  obtains t z where "start_video M a (createPeerContext k s) = Some t" "sv_packetizer t = Some z"
    "sv_packetizer s2 = Some (z\<lparr>pk_output := with_listener (SendTo k (sv_fresh s)) (sv_rawIndex s + 1) (pk_output z)\<rparr>)"
    "\<exists>p. getPeerContext k s2 = Some p \<and> pm_listener (pr_video p) = Some (sv_rawIndex s + 1) \<and>
       pm_listener (pr_audio p) = None"
proof -
  let ?c = "createPeerContext k s"
  have g: "getOrCreatePeerContext k s = ?c" using assms(1) by (simp add: getOrCreatePeerContext_def)
  have cp: "getPeerContext k ?c = Some (new_peer (sv_fresh s))"
    using get_getOrCreate [of k k s] assms(1) g by simp
  from assms(2) g obtain t q where t: "start_video M a ?c = Some t" "getPeerContext k t = Some q"
    "(if pm_track (pr_video q) = None
      then Some (on_video k (\<lambda>m. m\<lparr>pm_track := Some OpenedTrack, pm_opening := True\<rparr>) t)
      else listen_raw k (pr_no q) t) = Some s1"
    by (auto simp: openLocalVideo_def split: option.splits)
  note f = start_video_fields [OF t(1)]
  have q: "q = new_peer (sv_fresh s)" using t(2) cp f(1) by (simp add: getPeerContext_def)
  with t(3) have s1: "s1 = on_video k (\<lambda>m. m\<lparr>pm_track := Some OpenedTrack, pm_opening := True\<rparr>) t"
    by (simp add: new_peer_def new_media_def)
  obtain z where z: "sv_packetizer t = Some z" using f(3) by blast
  have i: "sv_rawIndex s1 = sv_rawIndex s" using s1 f(5) by (simp add: createPeerContext_def)
  let ?l = "sv_rawIndex s + 1"
  have "listen_raw k (sv_fresh s) (on_video k (\<lambda>m. m\<lparr>pm_opening := False\<rparr>) s1) = Some s2"
    using assms(3) s1 t(2) q by (simp add: video_track_open_def new_peer_def)
  then obtain out where r:
    "onDataChanged (SendTo k (sv_fresh s)) (sv_rawIndex s) (pk_output z) = Inr (?l, ?l, out)"
    "sv_packetizer s2 = Some (z\<lparr>pk_output := out\<rparr>)" "\<exists>p. getPeerContext k s2 = Some p \<and>
      pm_listener (pr_video p) = Some ?l \<and> pm_listener (pr_audio p) = None"
    by (rule listen_raw_some) (use z t(2) q s1 i in \<open>auto simp: new_peer_def new_media_def\<close>)
  from r(1) have "out = with_listener (SendTo k (sv_fresh s)) ?l (pk_output z)"
    by (simp add: onDataChanged_def split: if_splits)
  with that t(1) z r(2,3) show ?thesis by blast
qed

text \<open>
  C16: The life of an outgoing video, in every state the service can reach: for a user without a
  context, opening the video and the \<open>onOpen\<close> of the track register one listener more, under a number that is not in use,
  which sends to this user; closing the connection removes it and leaves exactly the listeners from before.
\<close>

theorem video_sent_until_closed:
  assumes "rtc_reachable M s" and "getPeerContext k s = None"
    and "openLocalVideo M k a s = Some s1" and "video_track_open k s1 = Some s2"
  shows "registered s2 = insert (sv_rawIndex s + 1, SendTo k (sv_fresh s)) (registered s) \<and>
    sv_rawIndex s + 1 \<notin> fst ` registered s \<and>
    (\<exists>s3. closeUserConnection k s2 = Some s3 \<and> getPeerContext k s3 = None \<and> registered s3 = registered s)"
proof -
  let ?l = "sv_rawIndex s + 1"
  from assms(2-4) obtain t z where t: "start_video M a (createPeerContext k s) = Some t" "sv_packetizer t = Some z"
    and s2: "sv_packetizer s2 = Some (z\<lparr>pk_output := with_listener (SendTo k (sv_fresh s)) ?l (pk_output z)\<rparr>)"
    and p: "\<exists>p. getPeerContext k s2 = Some p \<and> pm_listener (pr_video p) = Some ?l \<and> pm_listener (pr_audio p) = None"
    by (rule opened_video)
  have c: "grows s (createPeerContext k s)" "sv_packetizer (createPeerContext k s) = sv_packetizer s"
    using grows_getOrCreate [of s k] assms(2) by (simp_all add: getOrCreatePeerContext_def createPeerContext_def)
  have r: "registered t = registered s"
    using registered_start_video [OF t(1)] c(2) by (simp add: registered_def)
  have "grows s t" using grows_trans [OF c(1) grows_start_video [OF t(1)]] .
  moreover have "sv_rawIndex t = sv_rawIndex s" using start_video_fields(5) [OF t(1)] by (simp add: createPeerContext_def)
  ultimately have "numbers t \<subseteq> {..sv_rawIndex s}" using numbers_bounded [OF assms(1)] by (auto simp: grows_def)
  with numbers_packetizer [OF t(2)] have "?l \<notin> pipe_numbers (pk_output z)" by auto
  note d = drain_new(1,2) [OF this, of "SendTo k (sv_fresh s)"] drain_new(3) [OF this]
  obtain s3 where s3: "closeUserConnection k s2 = Some s3" "getPeerContext k s3 = None"
    "sv_packetizer s3 = Some (z\<lparr>pk_output := removeListener ?l (with_listener (SendTo k (sv_fresh s)) ?l (pk_output z))\<rparr>)"
    using p closeUser_video [OF _ _ s2] by fastforce
  have "registered t = set (listeners (drain_queues (pk_output z)))" using t(2) by (simp add: registered_def)
  with d s2 s3 r show ?thesis by (simp add: registered_def)
qed

theorem video_sent_until_closed_witness:
  "\<exists>s1. openLocalVideo good_ffmpeg 3 0 idle_service = Some s1 \<and> video_track_open 3 s1 = Some video_call \<and>
    registered video_call = insert (1, SendTo 3 0) (registered idle_service) \<and> 1 \<notin> fst ` registered idle_service \<and>
    (\<exists>s3. closeUserConnection 3 video_call = Some s3 \<and> getPeerContext 3 s3 = None \<and>
      registered s3 = registered idle_service)"
proof -
  obtain s1 where s1: "openLocalVideo good_ffmpeg 3 0 idle_service = Some s1" "video_track_open 3 s1 = Some video_call"
    using video_call_run by (auto split: option.splits)
  have r: "rtc_reachable good_ffmpeg idle_service" by (simp add: idle_service_def rtc_start)
  have n: "getPeerContext 3 idle_service = None" "sv_rawIndex idle_service = 0" "sv_fresh idle_service = 0"
    by (simp_all add: idle_service_def new_service_def getPeerContext_def)
  show ?thesis using video_sent_until_closed [OF r n(1) s1] s1 n(2,3) by simp
qed

end
