(* ===== verification/GuardedObject.thy ===== *)
theory GuardedObject
  imports "HOL-Library.Multiset"
begin

text \<open>
  An object that several threads use, each under the recursive mutex of the object (\<open>std::recursive_mutex\<close>): threads as
  programs that take and release the mutex and read and write the object in between, in any interleaving. An operation
  that takes the mutex first and has released it as often when it ends is shown to be one step: every run leaves the
  object as if the operations had been run one after the other, in an order that keeps that of each thread; and
  no run gets stuck.
\<close>

section \<open>Threads\<close>

text \<open>
  \<open>Step f k\<close> writes the object and goes on with what \<open>k\<close> makes of its old value, which is how a program branches on what it has read.
\<close>

datatype 's prog =
    Done
  | Acq "'s prog"
  | Rel "'s prog"
  | Step "'s \<Rightarrow> 's" "'s \<Rightarrow> 's prog"

text \<open>How often the thread holds the mutex, and what it still has to do.\<close>

type_synonym 's worker = "nat \<times> 's prog"

definition others_wait :: "nat \<Rightarrow> 's worker list \<Rightarrow> bool" where
  "others_wait i ts \<longleftrightarrow> (\<forall>j < length ts. j \<noteq> i \<longrightarrow> fst (ts ! j) = 0)"

fun worker_step :: "bool \<Rightarrow> 's \<Rightarrow> 's worker \<Rightarrow> ('s \<times> 's worker) option" where
  "worker_step ok s (d, Done) = None"
| "worker_step ok s (d, Acq p) = (if ok then Some (s, Suc d, p) else None)"
| "worker_step ok s (d, Rel p) = (if d = 0 then None else Some (s, d - 1, p))"
| "worker_step ok s (d, Step f k) = Some (f s, d, k s)"

definition worker_moves :: "'s \<times> 's worker list \<Rightarrow> ('s \<times> 's worker list) list" where
  "worker_moves c =
     (case c of (s, ts) \<Rightarrow>
        concat (map (\<lambda>i. case worker_step (others_wait i ts) s (ts ! i) of
                           None \<Rightarrow> [] | Some (s', t) \<Rightarrow> [(s', ts[i := t])]) [0..<length ts]))"

inductive worker_run :: "'s \<times> 's worker list \<Rightarrow> 's \<times> 's worker list \<Rightarrow> bool" for c where
  run_none: "worker_run c c"
| run_step: "worker_run c d \<Longrightarrow> e \<in> set (worker_moves d) \<Longrightarrow> worker_run c e"

lemma worker_moves_iff:
  fixes s s' :: 's
  shows "(s', ts') \<in> set (worker_moves (s, ts)) \<longleftrightarrow>
     (\<exists>i < length ts. \<exists>t. worker_step (others_wait i ts) s (ts ! i) = Some (s', t) \<and> ts' = ts[i := t])"
proof -
  have "(s', ts') \<in> set (case w of None \<Rightarrow> [] | Some (s, t) \<Rightarrow> [(s, f t)]) \<longleftrightarrow> (\<exists>t. w = Some (s', t) \<and> ts' = f t)"
    for w :: "('s \<times> 's worker) option" and f by (cases w) auto
  note e = this
  show ?thesis by (simp add: worker_moves_def e Bex_def) metis
qed

text \<open>Running one thread alone until it has released the mutex for good.\<close>

primrec finish :: "'s prog \<Rightarrow> nat \<Rightarrow> 's \<Rightarrow> ('s \<times> 's prog) option" where
  "finish Done d s = None"
| "finish (Acq p) d s = finish p (Suc d) s"
| "finish (Rel p) d s = (if d \<le> 1 then Some (s, p) else finish p (d - 1) s)"
| "finish (Step f k) d s = finish (k s) d (f s)"

text \<open>Operations one after the other; \<open>merges oss os\<close>: an order of all of them that keeps the order of each list.\<close>

inductive merges :: "'o list list \<Rightarrow> 'o list \<Rightarrow> bool" where
  merges_end: "\<forall>os \<in> set oss. os = [] \<Longrightarrow> merges oss []"
| merges_step: "i < length oss \<Longrightarrow> oss ! i = x # xs \<Longrightarrow> merges (oss[i := xs]) os \<Longrightarrow> merges oss (x # os)"

lemma merges_mset: "merges oss os \<Longrightarrow> mset os = mset (concat oss)"
proof (induction rule: merges.induct)
  case (merges_end oss)
  then have "concat oss = []" by simp
  then show ?case by simp
next
  case (merges_step i oss x xs os)
  have "oss = take i oss @ (x # xs) # drop (Suc i) oss" using merges_step.hyps(1,2) id_take_nth_drop by metis
  then have "mset (concat oss) = mset (concat (take i oss)) + mset (x # xs) + mset (concat (drop (Suc i) oss))"
    by (metis (no_types, lifting) concat.simps(2) concat_append mset_append union_assoc)
  moreover have "oss[i := xs] = take i oss @ xs # drop (Suc i) oss"
    using merges_step.hyps(1) by (rule upd_conv_take_nth_drop)
  ultimately show ?case using merges_step.IH by simp
qed

text \<open>A thread that holds the mutex can run alone; what it comes to is what \<open>finish\<close> says.\<close>

lemma run_alone:
  assumes "finish p d s = Some (s', k)" and "0 < d" and "i < length ts" and "others_wait i ts"
    and "worker_run c (s, ts[i := (d, p)])"
  shows "worker_run c (s', ts[i := (0, k)])"
  using assms(1,2,5)
proof (induction p arbitrary: d s)
  case Done
  then show ?case by simp
next
  case (Acq p)
  have o: "others_wait i (ts[i := t])" for t using assms(4) by (simp add: others_wait_def)
  have "(s, ts[i := (Suc d, p)]) \<in> set (worker_moves (s, ts[i := (d, Acq p)]))"
    unfolding worker_moves_iff by (rule exI [of _ i]) (use assms(3) o in simp)
  with Acq.prems(3) have "worker_run c (s, ts[i := (Suc d, p)])" by (rule run_step)
  with Acq.IH [of "Suc d" s] Acq.prems(1) show ?case by simp
next
  case (Rel p)
  have "(s, ts[i := (d - 1, p)]) \<in> set (worker_moves (s, ts[i := (d, Rel p)]))"
    unfolding worker_moves_iff by (rule exI [of _ i]) (use assms(3) Rel.prems(2) in simp)
  with Rel.prems(3) have r: "worker_run c (s, ts[i := (d - 1, p)])" by (rule run_step)
  show ?case
  proof (cases "d \<le> 1")
    case True
    with Rel.prems(1,2) r show ?thesis by simp
  next
    case False
    with Rel.IH [of "d - 1" s] Rel.prems(1) r show ?thesis by simp
  qed
next
  case (Step f g)
  have "(f s, ts[i := (d, g s)]) \<in> set (worker_moves (s, ts[i := (d, Step f g)]))"
    unfolding worker_moves_iff by (rule exI [of _ i]) (use assms(3) in simp)
  with Step.prems(3) have "worker_run c (f s, ts[i := (d, g s)])" by (rule run_step)
  with Step.IH [of "g s" d "f s"] Step.prems(1,2) show ?case by simp
qed

lemma done_stuck: "\<forall>t \<in> set ts. snd t = Done \<Longrightarrow> worker_moves (s, ts) = []"
proof -
  assume d: "\<forall>t \<in> set ts. snd t = Done"
  have "worker_step ok s (ts ! i) = None" if "i < length ts" for ok i
  proof -
    from d that have "snd (ts ! i) = Done" by simp
    then show ?thesis by (cases "ts ! i") simp
  qed
  then show ?thesis by (simp add: worker_moves_def)
qed

section \<open>Operations under the mutex\<close>

text \<open>What an operation does is written with its continuation: \<open>program x k\<close> goes on with \<open>k\<close>.\<close>

fun thread_of :: "('o \<Rightarrow> 's prog \<Rightarrow> 's prog) \<Rightarrow> 'o list \<Rightarrow> 's prog" where
  "thread_of program [] = Done"
| "thread_of program (x # xs) = program x (thread_of program xs)"

locale guarded_object =
  fixes program :: "'o \<Rightarrow> 's prog \<Rightarrow> 's prog"
    and effect :: "'o \<Rightarrow> 's \<Rightarrow> 's"
  assumes guarded: "\<exists>p. program x k = Acq p \<and> (\<forall>s. finish p 1 s = Some (effect x s, k))"
begin

lemma thread_of_cases: "thread_of program xs = Done \<and> xs = [] \<or> (\<exists>p. thread_of program xs = Acq p \<and> xs \<noteq> [])"
  using guarded by (cases xs) (auto, metis)

lemma thread_of_Acq:
  assumes "thread_of program xs = Acq p"
  obtains y ys where "xs = y # ys" "\<And>s. finish p 1 s = Some (effect y s, thread_of program ys)"
proof (cases xs)
  case (Cons y ys)
  with assms guarded [of y "thread_of program ys"] that show ?thesis by fastforce
qed (use assms in simp)

text \<open>
  Between the threads and the operations: no thread is inside one, or one is, and running it to the end of its operation
  gives what the operation does.
\<close>

definition outside :: "'s worker list \<Rightarrow> 'o list list \<Rightarrow> nat \<Rightarrow> bool" where
  "outside ts oss i \<longleftrightarrow> ts ! i = (0, thread_of program (oss ! i))"

definition inside :: "'s \<Rightarrow> 's \<Rightarrow> 's worker \<Rightarrow> 'o list \<Rightarrow> bool" where
  "inside a s t os \<longleftrightarrow>
     (\<exists>x xs. os = x # xs \<and> 0 < fst t \<and> finish (snd t) (fst t) s = Some (effect x a, thread_of program xs))"

definition simulates :: "'s \<Rightarrow> 'o list list \<Rightarrow> 's \<Rightarrow> 's worker list \<Rightarrow> bool" where
  "simulates a oss s ts \<longleftrightarrow>
     length ts = length oss \<and>
     ((s = a \<and> (\<forall>i < length ts. outside ts oss i)) \<or>
      (\<exists>i < length ts. inside a s (ts ! i) (oss ! i) \<and> (\<forall>j < length ts. j \<noteq> i \<longrightarrow> outside ts oss j)))"

lemma step_outside:
  assumes "\<forall>i < length ts. outside ts oss i" and "i < length ts" and "length ts = length oss"
    and "worker_step (others_wait i ts) s (ts ! i) = Some (s', t)"
  shows "simulates s oss s' (ts[i := t])"
proof -
  have o: "ts ! i = (0, thread_of program (oss ! i))" using assms(1,2) by (simp add: outside_def)
  with assms(4) obtain p where p: "thread_of program (oss ! i) = Acq p" "s' = s" "t = (1, p)"
    using thread_of_cases [of "oss ! i"] by (auto split: if_splits)
  obtain x xs where x: "oss ! i = x # xs" "\<And>s. finish p 1 s = Some (effect x s, thread_of program xs)"
    using p(1) by (rule thread_of_Acq) blast
  have "inside s s' t (oss ! i)" using p x by (simp add: inside_def)
  moreover have "\<forall>j < length ts. j \<noteq> i \<longrightarrow> outside (ts[i := t]) oss j" using assms(1) by (simp add: outside_def)
  ultimately show ?thesis using assms(2,3) unfolding simulates_def by auto
qed

lemma step_inside:
  assumes "inside a s (ts ! i) (oss ! i)" and "\<forall>j < length ts. j \<noteq> i \<longrightarrow> outside ts oss j" and "i < length ts"
    and "length ts = length oss" and "k < length ts"
    and "worker_step (others_wait k ts) s (ts ! k) = Some (s', t)"
  shows "k = i \<and> (inside a s' t (oss ! i) \<or>
    (\<exists>x xs. oss ! i = x # xs \<and> s' = effect x a \<and> t = (0, thread_of program xs)))"
proof -
  from assms(1) obtain d p x xs where i: "ts ! i = (d, p)" "oss ! i = x # xs" "0 < d"
    "finish p d s = Some (effect x a, thread_of program xs)"
    by (auto simp: inside_def) (metis prod.collapse)
  have "k = i"
  proof (rule ccontr)
    assume "k \<noteq> i"
    then have "ts ! k = (0, thread_of program (oss ! k))" "\<not> others_wait k ts"
      using assms(2,3,5) i(1,3) by (auto simp: outside_def others_wait_def)
    with assms(6) show False using thread_of_cases [of "oss ! k"] by auto
  qed
  with assms(6) i show ?thesis
    by (cases p) (auto simp: inside_def split: if_splits)
qed

lemma simulates_step:
  assumes "simulates a oss s ts" and "(s', ts') \<in> set (worker_moves (s, ts))"
  shows "simulates a oss s' ts' \<or>
    (\<exists>i < length oss. \<exists>x xs. oss ! i = x # xs \<and> simulates (effect x a) (oss[i := xs]) s' ts')"
proof -
  from assms(2) obtain k t where k: "k < length ts" "worker_step (others_wait k ts) s (ts ! k) = Some (s', t)"
    "ts' = ts[k := t]" unfolding worker_moves_iff by blast
  have len: "length ts = length oss" using assms(1) by (simp add: simulates_def)
  from assms(1) consider "s = a" "\<forall>i < length ts. outside ts oss i"
    | i where "i < length ts" "inside a s (ts ! i) (oss ! i)" "\<forall>j < length ts. j \<noteq> i \<longrightarrow> outside ts oss j"
    unfolding simulates_def by blast
  then show ?thesis
  proof cases
    case 1
    then show ?thesis using step_outside [OF 1(2) k(1) len k(2)] k(3) by simp
  next
    case (2 i)
    from step_inside [OF 2(2,3,1) len k(1,2)] consider "k = i" "inside a s' t (oss ! i)"
      | x xs where "k = i" "oss ! i = x # xs" "s' = effect x a" "t = (0, thread_of program xs)" by blast
    then show ?thesis
    proof cases
      case 1
      then have "simulates a oss s' ts'"
        using 2(1,3) k(3) len unfolding simulates_def by (auto simp: outside_def)
      then show ?thesis ..
    next
      case (2 x xs)
      have "simulates (effect x a) (oss[i := xs]) s' ts'"
        using 2 \<open>\<forall>j < length ts. j \<noteq> i \<longrightarrow> outside ts oss j\<close> k(1,3) len
        unfolding simulates_def by (auto simp: outside_def nth_list_update)
      then show ?thesis using 2 k(1) len by auto
    qed
  qed
qed

text \<open>Every state of a run is where the operations have got to one after the other.\<close>

lemma run_simulates:
  assumes "worker_run (s, map (\<lambda>os. (0, thread_of program os)) oss) (s', ts)"
  shows "\<exists>a oss'. simulates a oss' s' ts \<and> (\<forall>os. merges oss' os \<longrightarrow>
    (\<exists>pre. merges oss (pre @ os) \<and> a = fold effect pre s))"
  using assms
proof (induction "(s', ts)" arbitrary: s' ts rule: worker_run.induct)
  case run_none
  have "simulates s oss s (map (\<lambda>os. (0, thread_of program os)) oss)" by (simp add: simulates_def outside_def)
  then show ?case using run_none by (metis append_Nil fold_simps(1))
next
  case (run_step d)
  obtain s1 ts1 where d: "d = (s1, ts1)" by (cases d)
  from run_step.hyps(2) [OF d] obtain a oss' where a: "simulates a oss' s1 ts1"
    "\<forall>os. merges oss' os \<longrightarrow> (\<exists>pre. merges oss (pre @ os) \<and> a = fold effect pre s)" by blast
  from simulates_step [OF a(1)] run_step.hyps(3) d
  consider "simulates a oss' s' ts"
    | i x xs where "i < length oss'" "oss' ! i = x # xs" "simulates (effect x a) (oss'[i := xs]) s' ts" by blast
  then show ?case
  proof cases
    case 1
    with a(2) show ?thesis by blast
  next
    case (2 i x xs)
    have "\<exists>pre. merges oss (pre @ os) \<and> effect x a = fold effect pre s" if "merges (oss'[i := xs]) os" for os
    proof -
      from merges_step [OF 2(1,2) that] a(2) obtain pre where "merges oss (pre @ x # os)" "a = fold effect pre s"
        by blast
      then have "merges oss ((pre @ [x]) @ os) \<and> effect x a = fold effect (pre @ [x]) s" by simp
      then show ?thesis by blast
    qed
    with 2(3) show ?thesis by blast
  qed
qed

lemma simulates_moves:
  assumes "simulates a oss s ts" and "worker_moves (s, ts) = []"
  shows "(\<forall>t \<in> set ts. t = (0, Done)) \<and> s = a \<and> (\<forall>os \<in> set oss. os = [])"
proof -
  have stuck: "worker_step (others_wait i ts) s (ts ! i) = None" if "i < length ts" for i
  proof (rule ccontr)
    assume "worker_step (others_wait i ts) s (ts ! i) \<noteq> None"
    then obtain s' t where "worker_step (others_wait i ts) s (ts ! i) = Some (s', t)" by auto
    with that have "(s', ts[i := t]) \<in> set (worker_moves (s, ts))" unfolding worker_moves_iff by blast
    with assms(2) show False by simp
  qed
  have len: "length ts = length oss" using assms(1) by (simp add: simulates_def)
  have "\<not> inside a s (ts ! i) (oss ! i)" if i: "i < length ts" "\<forall>j < length ts. j \<noteq> i \<longrightarrow> outside ts oss j" for i
  proof
    assume "inside a s (ts ! i) (oss ! i)"
    then obtain d p x xs where "ts ! i = (d, p)" "0 < d" "finish p d s = Some (effect x a, thread_of program xs)"
      by (auto simp: inside_def) (metis prod.collapse)
    moreover have "others_wait i ts" using i(2) by (simp add: others_wait_def outside_def)
    ultimately show False using stuck [OF i(1)] by (cases p) auto
  qed
  with assms(1) have o: "s = a" "\<forall>i < length ts. outside ts oss i" unfolding simulates_def by blast+
  have "others_wait i ts" if "i < length ts" for i using o(2) by (simp add: others_wait_def outside_def)
  with o(2) stuck have "oss ! i = [] \<and> ts ! i = (0, Done)" if "i < length ts" for i
    using that thread_of_cases [of "oss ! i"] by (fastforce simp: outside_def)
  with o(1) len show ?thesis by (auto simp: in_set_conv_nth)
qed

lemma run_serial:
  assumes "worker_run (s, map (\<lambda>os. (0, thread_of program os)) oss) (s', ts)" and "worker_moves (s', ts) = []"
  shows "(\<forall>t \<in> set ts. t = (0, Done)) \<and> (\<exists>os. merges oss os \<and> s' = fold effect os s)"
proof -
  from run_simulates [OF assms(1)] obtain a oss' where a: "simulates a oss' s' ts"
    "\<forall>os. merges oss' os \<longrightarrow> (\<exists>pre. merges oss (pre @ os) \<and> a = fold effect pre s)" by blast
  from simulates_moves [OF a(1) assms(2)] have e: "\<forall>t \<in> set ts. t = (0, Done)" "s' = a" "merges oss' []"
    by (auto intro: merges_end)
  with a(2) show ?thesis by force
qed

text \<open>The other way round, every order of the operations is a run.\<close>

lemma serial_run:
  assumes "merges oss os"
  shows "worker_run c (s, map (\<lambda>os. (0, thread_of program os)) oss) \<Longrightarrow>
    worker_run c (fold effect os s, map (\<lambda>_. (0, Done)) oss)"
  using assms
proof (induction arbitrary: s rule: merges.induct)
  case (merges_end oss)
  then have "map (\<lambda>os. (0 :: nat, thread_of program os)) oss = map (\<lambda>_. (0, Done)) oss" by (intro map_cong) auto
  with merges_end.prems show ?case by (simp only: fold_simps)
next
  case (merges_step i oss x xs os)
  let ?ts = "map (\<lambda>os. (0, thread_of program os)) oss"
  obtain p where p: "program x (thread_of program xs) = Acq p" "\<And>s. finish p 1 s = Some (effect x s, thread_of program xs)"
    using guarded by blast
  have i: "i < length ?ts" "others_wait i ?ts" "?ts ! i = (0, Acq p)"
    using merges_step.hyps(1,2) p(1) by (simp_all add: others_wait_def)
  have "(s, ?ts[i := (1, p)]) \<in> set (worker_moves (s, ?ts))"
    unfolding worker_moves_iff by (rule exI [of _ i]) (use i in simp)
  with merges_step.prems have "worker_run c (s, ?ts[i := (1, p)])" by (rule run_step)
  with p(2) i have "worker_run c (effect x s, ?ts[i := (0, thread_of program xs)])" by (intro run_alone) auto
  moreover have "?ts[i := (0 :: nat, thread_of program xs)] = map (\<lambda>os. (0, thread_of program os)) (oss[i := xs])"
    by (simp add: map_update)
  moreover have "map (\<lambda>_. (0 :: nat, Done :: 's prog)) (oss[i := xs]) = map (\<lambda>_. (0, Done)) oss"
    by (rule nth_equalityI) simp_all
  ultimately show ?case using merges_step.IH [of "effect x s"] by simp
qed

end

end
