(* ===== verification/ModelLocks.thy ===== *)
theory ModelLocks
  imports GuardedObject MutexOrder GroupController MessageController
begin

text \<open>
  The mutex of a list model (\<open>MyLocker\<close> and \<open>MutexLock\<close> in \<open>lib/core/models/identifyingmodel.h\<close>): every method of the
  model takes it, and the controllers take it around several of them
  (\<open>lib/network/controllers/groupcontroller.cpp\<close>, \<open>messagecontroller.cpp\<close>), on the thread of the views and on the
  thread that handles the messages of the server. Here the operations of the controllers are written as the locks and methods they
  consist of; that nothing comes between is then proved, and with it that the controllers may be modelled as they are, an operation
  as one step.
\<close>

section \<open>Methods and scopes\<close>

text \<open>A method of the model under its \<open>MyLocker\<close>: \<open>k\<close> goes on with its result.\<close>

definition locked_call :: "('s \<Rightarrow> 'r \<times> 's) \<Rightarrow> ('r \<Rightarrow> 's prog) \<Rightarrow> 's prog" where
  "locked_call f k = Acq (Step (\<lambda>m. snd (f m)) (\<lambda>m. Rel (k (fst (f m)))))"

text \<open>
  \<open>auto g = qScopeGuard([=]() { model->unlock(); }); model->lock();\<close> and what follows in the scope, which goes on
  with its argument at every \<open>return\<close>.
\<close>

definition scope :: "('s prog \<Rightarrow> 's prog) \<Rightarrow> 's prog \<Rightarrow> 's prog" where
  "scope body k = Acq (body (Rel k))"

lemma finish_call [simp]:
  "0 < d \<Longrightarrow> finish (locked_call f k) d m = finish (k (fst (f m))) d (snd (f m))"
  by (simp add: locked_call_def)

section \<open>The rooms\<close>

text \<open>The methods of the model of the rooms that the controller calls.\<close>

definition find_row :: "int \<Rightarrow> 't im \<Rightarrow> int option \<times> 't im" where
  "find_row k m = (idToIndex k m, m)"

definition row_index :: "int \<Rightarrow> 't im \<Rightarrow> int option \<times> 't im" where
  "row_index row m = (model_index row m, m)"

definition read_int ::
    "qt \<Rightarrow> (group_ext \<Rightarrow> group_ext) \<Rightarrow> int \<Rightarrow> int \<Rightarrow> group_ext im \<Rightarrow> int \<times> group_ext im" where
  "read_int Q mv r role m = (room_int Q mv (Some r) role m, m)"

text \<open>The row of a room, if it has one, and what is done with it.\<close>

definition at_row :: "int \<Rightarrow> (int \<Rightarrow> 't im prog \<Rightarrow> 't im prog) \<Rightarrow> 't im prog \<Rightarrow> 't im prog" where
  "at_row k body = scope (\<lambda>ret. locked_call (find_row k) (\<lambda>index. case index of None \<Rightarrow> ret | Some r \<Rightarrow> body r ret))"

definition increment_program ::
    "qt \<Rightarrow> (group_ext \<Rightarrow> group_ext) \<Rightarrow> int \<Rightarrow> int \<Rightarrow> group_ext im prog \<Rightarrow> group_ext im prog" where
  "increment_program Q mv roomID n = at_row roomID (\<lambda>r ret.
     locked_call (read_int Q mv r MessageCountRole) (\<lambda>messageCount.
     locked_call (setData_role (group_vt Q mv) (Some r) (QInt (to_i32 (n + messageCount))) MessageCountRole) (\<lambda>_. ret)))"

definition add_room_program ::
    "qt \<Rightarrow> (group_ext \<Rightarrow> group_ext) \<Rightarrow> group_ext \<Rightarrow> group_ext im prog \<Rightarrow> group_ext im prog" where
  "add_room_program Q mv g = scope (\<lambda>ret.
     locked_call (insertRows (group_vt Q mv) 0 1) (\<lambda>_.
     locked_call (row_index 0) (\<lambda>index.
     locked_call (setData_value (group_vt Q mv) index g) (\<lambda>_. ret))))"

definition message_program ::
    "qt \<Rightarrow> (group_ext \<Rightarrow> group_ext) \<Rightarrow> message_data \<Rightarrow> group_ext im prog \<Rightarrow> group_ext im prog" where
  "message_program Q mv mess = at_row (m_roomID mess) (\<lambda>r ret.
     let write = (\<lambda>role v. locked_call (setData_role (group_vt Q mv) (Some r) v role)) in
     locked_call (read_int Q mv r MessageCountRole) (\<lambda>messageCount.
     write MessageCountRole (QInt (to_i32 (messageCount + 1))) (\<lambda>_.
     write LastMessageBody (QBytes (m_body mess)) (\<lambda>_.
     write LastMessageTime (QTime (m_time mess)) (\<lambda>_.
     write LastMessageSender (QInt (m_userID mess)) (\<lambda>_. ret))))))"

text \<open>\<open>if (upd.tag.has_value()) groupModel->setData(\<dots>)\<close>.\<close>

definition write_optional ::
    "qt \<Rightarrow> (group_ext \<Rightarrow> group_ext) \<Rightarrow> int \<Rightarrow> int \<Rightarrow> ('x \<Rightarrow> qvariant) \<Rightarrow> 'x option \<Rightarrow> group_ext im prog \<Rightarrow> group_ext im prog"
where
  "write_optional Q mv r role f v k =
     (case v of None \<Rightarrow> k | Some x \<Rightarrow> locked_call (setData_role (group_vt Q mv) (Some r) (f x) role) (\<lambda>_. k))"

definition update_program ::
    "qt \<Rightarrow> (group_ext \<Rightarrow> group_ext) \<Rightarrow> group_update \<Rightarrow> group_ext im prog \<Rightarrow> group_ext im prog" where
  "update_program Q mv upd = at_row (gu_id upd) (\<lambda>r ret.
     write_optional Q mv r TagRole QString (gu_tag upd)
     (write_optional Q mv r NameRole QString (gu_name upd)
     (write_optional Q mv r ForeignReadings QInt (gu_foreignReadings upd)
     (write_optional Q mv r LocalReadings QInt (gu_localReadings upd)
     (write_optional Q mv r MessageCountRole QInt (gu_messageCount upd) ret)))))"

definition readings_program ::
    "qt \<Rightarrow> (group_ext \<Rightarrow> group_ext) \<Rightarrow> int \<Rightarrow> int \<Rightarrow> group_ext im prog \<Rightarrow> group_ext im prog" where
  "readings_program Q mv roomID n = at_row roomID (\<lambda>r ret.
     locked_call (read_int Q mv r LocalReadings) (\<lambda>readings.
     if to_u64 readings \<ge> n then ret
     else locked_call (setData_role (group_vt Q mv) (Some r) (QUInt (to_u32 n)) LocalReadings) (\<lambda>_. ret)))"

text \<open>\<open>setLastSender\<close>, \<open>setLastMessageBody\<close> and \<open>setLastMessageTime\<close> are alike.\<close>

definition last_program ::
    "qt \<Rightarrow> (group_ext \<Rightarrow> group_ext) \<Rightarrow> int \<Rightarrow> int \<Rightarrow> qvariant \<Rightarrow> group_ext im prog \<Rightarrow> group_ext im prog" where
  "last_program Q mv roomID role v = at_row roomID (\<lambda>r ret.
     locked_call (setData_role (group_vt Q mv) (Some r) v role) (\<lambda>_. ret))"

datatype room_op =
    IncrementCount int int
  | AddRoom group_ext
  | MessagePosted message_data
  | RoomUpdated group_update
  | ReadingsSet int int
  | LastSenderSet int int
  | LastBodySet int string
  | LastTimeSet int datetime
  | RoomsLoaded "group_ext list"
  | RoomsReset
  | CellRead "int option" int

fun room_program :: "qt \<Rightarrow> (group_ext \<Rightarrow> group_ext) \<Rightarrow> room_op \<Rightarrow> group_ext im prog \<Rightarrow> group_ext im prog" where
  "room_program Q mv (IncrementCount k n) = increment_program Q mv k n"
| "room_program Q mv (AddRoom g) = add_room_program Q mv g"
| "room_program Q mv (MessagePosted mess) = message_program Q mv mess"
| "room_program Q mv (RoomUpdated upd) = update_program Q mv upd"
| "room_program Q mv (ReadingsSet k n) = readings_program Q mv k n"
| "room_program Q mv (LastSenderSet k user) = last_program Q mv k LastMessageSender (QInt user)"
| "room_program Q mv (LastBodySet k body) = last_program Q mv k LastMessageBody (QString body)"
| "room_program Q mv (LastTimeSet k time) = last_program Q mv k LastMessageTime (QTime time)"
| "room_program Q mv (RoomsLoaded rooms) = (\<lambda>k. locked_call (insertRange (group_vt Q mv) 0 rooms) (\<lambda>_. k))"
| "room_program Q mv RoomsReset = (\<lambda>k. locked_call (\<lambda>m. ((), reset_im m)) (\<lambda>_. k))"
| "room_program Q mv (CellRead index role) =
     (\<lambda>k. locked_call (\<lambda>m. (data_role (group_vt Q mv) index role m, m)) (\<lambda>_. k))"

text \<open>The same operations as the controller has them in one step.\<close>

fun room_effect :: "qt \<Rightarrow> (group_ext \<Rightarrow> group_ext) \<Rightarrow> room_op \<Rightarrow> group_ext im \<Rightarrow> group_ext im" where
  "room_effect Q mv (IncrementCount k n) m = snd (incrementMessageCount Q mv k n m)"
| "room_effect Q mv (AddRoom g) m = on_addRoom Q mv g m"
| "room_effect Q mv (MessagePosted mess) m = on_postMessage Q mv mess m"
| "room_effect Q mv (RoomUpdated upd) m = on_updateRoom Q mv upd m"
| "room_effect Q mv (ReadingsSet k n) m =
     gc_rooms (snd (setLocalReadings Q mv k n (new_group_ctrl\<lparr>gc_rooms := m\<rparr>)))"
| "room_effect Q mv (LastSenderSet k user) m = setLastSender Q mv k user m"
| "room_effect Q mv (LastBodySet k body) m = setLastMessageBody Q mv k body m"
| "room_effect Q mv (LastTimeSet k time) m = setLastMessageTime Q mv k time m"
| "room_effect Q mv (RoomsLoaded rooms) m = load_rooms_done Q mv rooms m"
| "room_effect Q mv RoomsReset m = gc_rooms (reset_rooms (new_group_ctrl\<lparr>gc_rooms := m\<rparr>))"
| "room_effect Q mv (CellRead index role) m = m"

lemma at_row_Acq:
  "\<exists>p. at_row k body c = Acq p \<and>
     (\<forall>m. finish p 1 m = (case idToIndex k m of None \<Rightarrow> Some (m, c) | Some r \<Rightarrow> finish (body r (Rel c)) 1 m))"
  by (simp add: at_row_def scope_def find_row_def split: option.split)

lemma at_row_guarded:
  assumes "\<And>m r. idToIndex k m = Some r \<Longrightarrow> finish (body r (Rel c)) 1 m = Some (f r m, c)"
    and "\<And>m. g m = (case idToIndex k m of None \<Rightarrow> m | Some r \<Rightarrow> f r m)"
  shows "\<exists>p. at_row k body c = Acq p \<and> (\<forall>m. finish p 1 m = Some (g m, c))"
proof -
  obtain p where p: "at_row k body c = Acq p"
    "\<forall>m. finish p 1 m = (case idToIndex k m of None \<Rightarrow> Some (m, c) | Some r \<Rightarrow> finish (body r (Rel c)) 1 m)"
    using at_row_Acq by blast
  then have "finish p 1 m = Some (g m, c)" for m using assms by (cases "idToIndex k m") simp_all
  with p(1) show ?thesis by blast
qed

lemma finish_optional:
  "0 < d \<Longrightarrow> finish (write_optional Q mv r role f v k) d m = finish k d (write_present Q mv r role f v m)"
  by (cases v) (simp_all add: write_optional_def write_present_def room_write_def)

lemma room_guarded: "\<exists>p. room_program Q mv x k = Acq p \<and> (\<forall>m. finish p 1 m = Some (room_effect Q mv x m, k))"
proof (cases x)
  case (IncrementCount r n)
  then show ?thesis
    by (simp only: room_program.simps increment_program_def)
      (rule at_row_guarded [where f = "\<lambda>r m. snd (setData_role (group_vt Q mv) (Some r)
           (QInt (to_i32 (n + room_int Q mv (Some r) MessageCountRole m))) MessageCountRole m)"],
        simp_all add: read_int_def incrementMessageCount_def split: option.split)
next
  case (MessagePosted mess)
  then show ?thesis
    by (simp only: room_program.simps message_program_def)
      (rule at_row_guarded, simp_all add: read_int_def on_postMessage_def room_write_def Let_def split: option.split)
next
  case (RoomUpdated upd)
  then show ?thesis
    by (simp only: room_program.simps update_program_def)
      (rule at_row_guarded, simp_all add: finish_optional on_updateRoom_def Let_def split: option.split)
next
  case (ReadingsSet r n)
  then show ?thesis
    by (simp only: room_program.simps readings_program_def)
      (rule at_row_guarded [where f = "\<lambda>r m. if to_u64 (room_int Q mv (Some r) LocalReadings m) \<ge> n then m
           else room_write Q mv (Some r) LocalReadings (QUInt (to_u32 n)) m"],
        simp_all add: read_int_def setLocalReadings_def room_write_def split: option.split)
next
  case (LastSenderSet r n)
  then show ?thesis
    by (simp only: room_program.simps last_program_def)
      (rule at_row_guarded, simp_all add: setLastSender_def room_write_def split: option.split)
next
  case (LastBodySet r b)
  then show ?thesis
    by (simp only: room_program.simps last_program_def)
      (rule at_row_guarded, simp_all add: setLastMessageBody_def room_write_def split: option.split)
next
  case (LastTimeSet r t)
  then show ?thesis
    by (simp only: room_program.simps last_program_def)
      (rule at_row_guarded, simp_all add: setLastMessageTime_def room_write_def split: option.split)
qed (simp_all add: add_room_program_def scope_def locked_call_def row_index_def on_addRoom_def load_rooms_done_def
    reset_rooms_def Let_def)

interpretation rooms_guard: guarded_object "room_program Q mv" "room_effect Q mv"
  by unfold_locales (rule room_guarded)

text \<open>
  C11: The threads that use the list of rooms, in whatever interleaving of their locks and methods, never get stuck, and leave
  the list as if the operations had been run one after the other, each in one step, in an order that keeps that of every thread.
\<close>

theorem room_operations_in_one_step:
  assumes "worker_run (m, map (\<lambda>os. (0, thread_of (room_program Q mv) os)) oss) (m', ts)"
    and "worker_moves (m', ts) = []"
  shows "(\<forall>t \<in> set ts. t = (0, Done)) \<and> (\<exists>os. merges oss os \<and> m' = fold (room_effect Q mv) os m)"
  using assms by (rule rooms_guard.run_serial)

text \<open>Two threads that post messages.\<close>

definition posted_to_six :: room_op where
  "posted_to_six = MessagePosted (new_message\<lparr>m_roomID := 6\<rparr>)"

definition two_posts :: "room_op list list" where
  "two_posts = [[posted_to_six], [LastSenderSet 6 1, posted_to_six]]"

definition two_posts_result :: "group_ext im" where
  "two_posts_result = fold (room_effect plain_qt id) [LastSenderSet 6 1, posted_to_six, posted_to_six] two_rooms"

lemma two_posts_run:
  "worker_run (two_rooms, map (\<lambda>os. (0, thread_of (room_program plain_qt id) os)) two_posts)
     (two_posts_result, [(0, Done), (0, Done)])"
  "worker_moves (two_posts_result, [(0, Done), (0, Done)]) = []"
proof -
  have m: "merges two_posts [LastSenderSet 6 1, posted_to_six, posted_to_six]"
    unfolding two_posts_def
    by (rule merges_step [of 1], simp, simp, simp, rule merges_step [of 0], simp, simp, simp, rule merges_step [of 1],
        simp, simp, rule merges_end, simp)
  show "worker_run (two_rooms, map (\<lambda>os. (0, thread_of (room_program plain_qt id) os)) two_posts)
     (two_posts_result, [(0, Done), (0, Done)])"
    using rooms_guard.serial_run [OF m run_none] by (simp add: two_posts_def two_posts_result_def)
  show "worker_moves (two_posts_result, [(0, Done), (0, Done)]) = []" by (rule done_stuck) simp
qed

theorem room_operations_in_one_step_witness:
  "list_all (\<lambda>t. t = (0, Done)) [(0, Done), (0 :: nat, Done :: group_ext im prog)] \<and>
    (\<exists>os. merges two_posts os \<and> two_posts_result = fold (room_effect plain_qt id) os two_rooms)"
  using room_operations_in_one_step [OF two_posts_run] by simp

section \<open>No message is lost from the counter\<close>

definition message_count :: "group_ext im \<Rightarrow> int \<Rightarrow> int option" where
  "message_count m k = map_option x_messageCount (lookup_im m k)"

fun posted_to :: "int \<Rightarrow> room_op \<Rightarrow> bool" where
  "posted_to k (MessagePosted mess) \<longleftrightarrow> m_roomID mess = k"
| "posted_to k _ \<longleftrightarrow> False"

text \<open>What happens to the rooms during a session between two answers with lists of rooms and updates of the server.\<close>

fun counted_op :: "room_op \<Rightarrow> bool" where
  "counted_op (MessagePosted mess) = True"
| "counted_op (ReadingsSet k n) = True"
| "counted_op (LastSenderSet k user) = True"
| "counted_op (LastBodySet k body) = True"
| "counted_op (LastTimeSet k time) = True"
| "counted_op (CellRead index role) = True"
| "counted_op _ = False"

definition counter_kept :: "qt \<Rightarrow> (group_ext \<Rightarrow> group_ext) \<Rightarrow> group_ext im \<Rightarrow> group_ext im \<Rightarrow> bool" where
  "counter_kept Q mv m m' \<longleftrightarrow> im_wf (group_vt Q mv) m' \<and> message_count m' = message_count m"

lemma room_write_kept:
  assumes q: "qt_ok Q" and wf: "im_wf (group_vt Q mv) m" and i: "idToIndex k m = Some r"
    and role: "role \<in> {LastMessageSender, LastMessageBody, LastMessageTime, LocalReadings}"
  shows "counter_kept Q mv m (room_write Q mv (Some r) role v m)"
proof -
  have r: "in_rows r m" using i by (simp add: idToIndex_wf [OF wf])
  let ?x = "im_data m ! nat r"
  have a: "at_room Q mv k r ?x m" using wf i by (simp add: at_room_def)
  have n: "role \<noteq> IDRole" using role by (auto simp: role_defs)
  show ?thesis
  proof (cases "v = QInvalid \<or> group_edit Q ?x v r role = None")
    case True
    then have "room_write Q mv (Some r) role v m = m"
      using n r by (auto simp: room_write_def setData_role_def Let_def)
    then show ?thesis using wf by (simp add: counter_kept_def)
  next
    case False
    then obtain y where y: "v \<noteq> QInvalid" "group_edit Q ?x v r role = Some y" by blast
    then have e: "x_id y = x_id ?x" "x_messageCount y = x_messageCount ?x"
      using role by (auto simp: group_edit_def role_defs split: if_splits)
    note w = room_write_data [OF q a n y e(1)]
    have "lookup_im m k = Some ?x" using i r by (simp add: lookup_im_def data_at_def)
    with at_room_lookup(1) [OF q wf i w] w(1) e(2) show ?thesis
      by (auto simp: counter_kept_def message_count_def at_room_def fun_eq_iff)
  qed
qed

lemma on_postMessage_count:
  assumes "qt_conv Q" and "im_wf (group_vt Q mv) m"
  shows "im_wf (group_vt Q mv) (on_postMessage Q mv mess m) \<and>
    message_count (on_postMessage Q mv mess m) k =
      map_option (\<lambda>n. if m_roomID mess = k then to_i32 (n + 1) else n) (message_count m k)"
proof (cases "idToIndex (m_roomID mess) m")
  case None
  then have "lookup_im m (m_roomID mess) = None" by (simp add: lookup_None_index [OF assms(2)])
  with None assms(2) show ?thesis
    by (cases "m_roomID mess = k") (auto simp: on_postMessage_def message_count_def option.map_comp comp_def option.map_ident)
next
  case (Some r)
  have ok: "qt_ok Q" using assms(1) by simp
  have r: "in_rows r m" using Some by (simp add: idToIndex_wf [OF assms(2)])
  have x: "lookup_im m (m_roomID mess) = Some (im_data m ! nat r)"
    using Some r by (simp add: lookup_im_def data_at_def)
  have a: "at_room Q mv (m_roomID mess) r (im_data m ! nat r) m" using assms(2) Some by (simp add: at_room_def)
  note p = on_postMessage_at [OF assms(1) a]
  show ?thesis
    using at_room_lookup(1) [OF ok assms(2) Some p] p(1) x
    by (auto simp: message_count_def at_room_def with_message_def option.map_comp comp_def option.map_ident)
qed

lemma counted_effect:
  assumes q: "qt_conv Q" and wf: "im_wf (group_vt Q mv) m" and c: "counted_op x"
  shows "im_wf (group_vt Q mv) (room_effect Q mv x m) \<and>
    message_count (room_effect Q mv x m) k =
      map_option (\<lambda>n. if posted_to k x then to_i32 (n + 1) else n) (message_count m k)"
proof -
  have ok: "qt_ok Q" using q by simp
  have same: "counter_kept Q mv m m" using wf by (simp add: counter_kept_def)
  note w = room_write_kept [OF ok wf]
  have kept: "counter_kept Q mv m (room_effect Q mv x m) \<and> \<not> posted_to k x" if "\<forall>mess. x \<noteq> MessagePosted mess"
    using c that
    by (cases x) (auto simp: setLastSender_def setLastMessageBody_def setLastMessageTime_def setLocalReadings_def
        new_group_ctrl_def w same split: option.split)
  show ?thesis
  proof (cases "\<exists>mess. x = MessagePosted mess")
    case True
    with on_postMessage_count [OF q wf] show ?thesis by auto
  next
    case False
    with kept show ?thesis by (auto simp: counter_kept_def option.map_ident)
  qed
qed

lemma counted_fold:
  assumes "qt_conv Q" and "im_wf (group_vt Q mv) m" and "\<forall>x \<in> set os. counted_op x"
    and "\<forall>n. message_count m k = Some n \<longrightarrow> is_i32 n"
  shows "im_wf (group_vt Q mv) (fold (room_effect Q mv) os m) \<and>
    message_count (fold (room_effect Q mv) os m) k =
      map_option (\<lambda>n. to_i32 (n + int (length (filter (posted_to k) os)))) (message_count m k)"
  using assms(2-4)
proof (induction os arbitrary: m)
  case Nil
  then show ?case by (cases "message_count m k") simp_all
next
  case (Cons x os)
  have "counted_op x" using Cons.prems(2) by simp
  note e = counted_effect [OF assms(1) Cons.prems(1) this, of k]
  with Cons.IH [of "room_effect Q mv x m"] Cons.prems(2,3) show ?case
    by (cases "message_count m k") (auto simp: ac_simps)
qed


lemma two_rooms_count: "message_count two_rooms 6 = Some 0"
  by (simp add: message_count_def lookup_im_def two_rooms_def idToIndex_def model_index_def in_rows_def data_at_def
      new_group_ext_def)


section \<open>The messages of a room\<close>

definition send_program ::
    "qt \<Rightarrow> (message_data \<Rightarrow> message_data) \<Rightarrow> string \<Rightarrow> int \<Rightarrow> int \<Rightarrow> datetime \<Rightarrow>
       message_data im prog \<Rightarrow> message_data im prog" where
  "send_program Q mv body tempId user now = scope (\<lambda>ret.
     let write = (\<lambda>index v role. locked_call (setData_role (message_vt Q mv) index v role)) in
     locked_call (insertRows (message_vt Q mv) 0 1) (\<lambda>ok. if \<not> ok then ret else
     locked_call (row_index 0) (\<lambda>index.
     write index (QString body) BodyRole (\<lambda>_.
     write index (QInt tempId) IDRole (\<lambda>_.
     write index (QInt user) UserIdRole (\<lambda>_.
     write index (QTime now) TimeRole (\<lambda>_.
     write index (QInt (- 1)) MessageIndexRole (\<lambda>_. ret))))))))"

definition answer_program ::
    "qt \<Rightarrow> (message_data \<Rightarrow> message_data) \<Rightarrow> int \<Rightarrow> message_data \<Rightarrow> message_data im prog \<Rightarrow> message_data im prog" where
  "answer_program Q mv tempId data = at_row tempId (\<lambda>r ret.
     locked_call (setData_value (message_vt Q mv) (Some r) data) (\<lambda>_. ret))"

datatype message_op =
    MessageSent string int int datetime
  | MessageAnswered int message_data
  | MessageArrived message_data
  | MessagesLoaded int "message_data list"
  | MessageRead "int option" int

fun message_op_program ::
    "qt \<Rightarrow> (message_data \<Rightarrow> message_data) \<Rightarrow> message_op \<Rightarrow> message_data im prog \<Rightarrow> message_data im prog" where
  "message_op_program Q mv (MessageSent body tempId user now) = send_program Q mv body tempId user now"
| "message_op_program Q mv (MessageAnswered tempId data) = answer_program Q mv tempId data"
| "message_op_program Q mv (MessageArrived data) = (\<lambda>k. locked_call (insertData (message_vt Q mv) 0 data) (\<lambda>_. k))"
| "message_op_program Q mv (MessagesLoaded row res) =
     (\<lambda>k. locked_call (insertRange (message_vt Q mv) row (rev res)) (\<lambda>_. k))"
| "message_op_program Q mv (MessageRead index role) =
     (\<lambda>k. locked_call (\<lambda>m. (data_role (message_vt Q mv) index role m, m)) (\<lambda>_. k))"

fun message_effect ::
    "qt \<Rightarrow> (message_data \<Rightarrow> message_data) \<Rightarrow> message_op \<Rightarrow> message_data im \<Rightarrow> message_data im" where
  "message_effect Q mv (MessageSent body tempId user now) m =
     (case insertRows (message_vt Q mv) 0 1 m of
        (False, m) \<Rightarrow> m | (True, m) \<Rightarrow> show_sending Q mv body tempId user now m)"
| "message_effect Q mv (MessageAnswered tempId data) m =
     (case idToIndex tempId m of None \<Rightarrow> m | Some r \<Rightarrow> snd (setData_value (message_vt Q mv) (Some r) data m))"
| "message_effect Q mv (MessageArrived data) m = snd (insertData (message_vt Q mv) 0 data m)"
| "message_effect Q mv (MessagesLoaded row res) m = snd (insertRange (message_vt Q mv) row (rev res) m)"
| "message_effect Q mv (MessageRead index role) m = m"

text \<open>These are the effects of the operations of the controller on the model they work on.\<close>

lemma controller_effects:
  "model_of roomID c = (a, c') \<Longrightarrow>
     mc_models (snd (create_message Q mv body roomID user now c)) a =
       message_effect Q mv (MessageSent body (- (mc_tempCounter c' + 1)) user now) (mc_models c' a)"
  "mc_models (snd (create_message_done Q mv a tempId data c)) a =
     message_effect Q mv (MessageAnswered tempId data) (mc_models c a)"
  "m_id data \<noteq> invalidID \<Longrightarrow> m_roomID data \<noteq> invalidID \<Longrightarrow> model_of (m_roomID data) c = (a, c') \<Longrightarrow>
     mc_models (on_message Q mv data c) a = message_effect Q mv (MessageArrived data) (mc_models c' a)"
  "mc_history c roomID = Some a \<Longrightarrow> load_messages_done Q mv roomID row res c = Some c' \<Longrightarrow>
     mc_models c' a = message_effect Q mv (MessagesLoaded row res) (mc_models c a)"
  by (auto simp: create_message_def create_message_done_def on_message_def load_messages_done_def update_model_def Let_def
      insertRows_def split: bool.split option.split prod.split)

lemma message_guarded:
  "\<exists>p. message_op_program Q mv x k = Acq p \<and> (\<forall>m. finish p 1 m = Some (message_effect Q mv x m, k))"
proof (cases x)
  case (MessageSent body tempId user now)
  have "finish (locked_call (insertRows (message_vt Q mv) 0 1) f) 1 m =
      (case insertRows (message_vt Q mv) 0 1 m of (b, m') \<Rightarrow> finish (f b) 1 m')" for f and m :: "message_data im"
    by (simp add: case_prod_beta)
  with MessageSent show ?thesis
    by (simp add: send_program_def scope_def Let_def row_index_def show_sending_def message_write_def
        split: prod.split bool.split)
next
  case (MessageAnswered tempId data)
  then show ?thesis
    by (simp only: message_op_program.simps answer_program_def) (rule at_row_guarded, simp_all split: option.split)
qed (simp_all add: locked_call_def)

interpretation messages_guard: guarded_object "message_op_program Q mv" "message_effect Q mv"
  by unfold_locales (rule message_guarded)

text \<open>A message that is sent, answered and followed by others on another thread is not mixed up with them.\<close>

lemma message_operations_in_one_step:
  assumes "worker_run (m, map (\<lambda>os. (0, thread_of (message_op_program Q mv) os)) oss) (m', ts)"
    and "worker_moves (m', ts) = []"
  shows "(\<forall>t \<in> set ts. t = (0, Done)) \<and> (\<exists>os. merges oss os \<and> m' = fold (message_effect Q mv) os m)"
  using assms by (rule messages_guard.run_serial)

section \<open>The models among the other mutexes\<close>

text \<open>
  The mutexes that the threads with a model take besides its own, the outermost lock of a recursive mutex standing for all:
  the mutex of the wrapper is held while a message of the server is handled, that of the coordinator is taken for
  every request and for the number of the current user. \<open>MessagesLock\<close> is that of the model of a room.
\<close>

datatype model_mutex = WrapperLock | RoomsLock | MessagesLock int | CoordinatorLock

abbreviation within :: "'m \<Rightarrow> 'm instr list \<Rightarrow> 'm instr list" where
  "within m p \<equiv> Lock m # p @ [Unlock m]"

text \<open>A view or a setter; a handler or continuation of the server, on the rooms or on messages.\<close>

definition view_locks :: "model_mutex \<Rightarrow> model_mutex instr list" where
  "view_locks m = within m []"

definition server_locks :: "model_mutex \<Rightarrow> model_mutex instr list" where
  "server_locks m = within WrapperLock (view_locks m)"

definition model_request_locks :: "model_mutex instr list" where
  "model_request_locks = within CoordinatorLock []"

text \<open>The timer of the read counters, which reports \<open>n\<close> rooms, each under the lock.\<close>

definition readings_timer_locks :: "nat \<Rightarrow> model_mutex instr list" where
  "readings_timer_locks n = concat (replicate n (within RoomsLock model_request_locks))"

text \<open>A message that is sent: the number of the current user and the request.\<close>

definition send_locks :: "int \<Rightarrow> model_mutex instr list" where
  "send_locks r = within (MessagesLock r) (within CoordinatorLock [] @ model_request_locks)"

text \<open>The task of a closed connection, which calls back under the mutex of the coordinator.\<close>

definition closed_task_locks :: "model_mutex instr list" where
  "closed_task_locks = within WrapperLock (within CoordinatorLock [])"

definition model_programs :: "model_mutex instr list set" where
  "model_programs =
     {view_locks RoomsLock, server_locks RoomsLock, model_request_locks, closed_task_locks} \<union>
     range (\<lambda>r. view_locks (MessagesLock r)) \<union> range (\<lambda>r. server_locks (MessagesLock r)) \<union>
     range readings_timer_locks \<union> range send_locks"

definition model_rank :: "model_mutex \<Rightarrow> nat" where
  "model_rank m = (case m of WrapperLock \<Rightarrow> 0 | RoomsLock \<Rightarrow> 1 | MessagesLock r \<Rightarrow> 1 | CoordinatorLock \<Rightarrow> 2)"

lemma model_programs_ranked: "p \<in> model_programs \<Longrightarrow> follows model_rank [] p"
proof -
  have "follows model_rank [] (readings_timer_locks n)" for n
    by (induction n) (simp_all add: readings_timer_locks_def model_request_locks_def model_rank_def)
  then show "p \<in> model_programs \<Longrightarrow> follows model_rank [] p"
    by (auto simp: model_programs_def model_rank_def view_locks_def server_locks_def model_request_locks_def
        send_locks_def closed_task_locks_def)
qed

interpretation model_order: lock_hierarchy model_rank model_programs
  by unfold_locales (rule model_programs_ranked)

text \<open>So the threads with models do not wait for each other for good, as long as the network thread does not have to connect.\<close>

lemma model_threads_end:
  "mutex_run (threads ps) ts \<Longrightarrow> set ps \<subseteq> model_programs \<Longrightarrow> mutex_moves ts = [] \<Longrightarrow> \<forall>t \<in> set ts. t = ([], [])"
  by (rule model_order.stuck_done)

end
