(* ===== verification/StreamSources.thy ===== *)
theory StreamSources
  imports MediaSources
begin

text \<open>
  The interface \<open>StreamSource\<close> (\<open>lib/media/media.h\<close>) between the pipelines of \<open>lib/media/pipelines.cpp\<close> and the call
  controller, which opens a source, gives its output to every participant (\<open>openVideo\<close>, \<open>openAudio\<close> and the handler of
  \<open>Api::Join\<close> in \<open>lib/network/controllers/callcontroller.cpp\<close>) and closes it. The contract is the locale
  \<open>stream_source\<close>; camera, microphone and the test camera on a fixed device provide it.
\<close>

section \<open>The pipelines as sources\<close>

text \<open>The devices a view offers: every listed name is converted and appended.\<close>

fun append_devices :: "string list \<Rightarrow> string list \<Rightarrow> string list" where
  "append_devices out [] = out"
| "append_devices out (d # ds) = append_devices (out @ [d]) ds"

definition camera_availableDevices :: "bool \<Rightarrow> (string \<times> bool list) list option \<Rightarrow> string list option" where
  "camera_availableDevices platform dlist = map_option (append_devices []) (camera_devices platform dlist)"

definition microphone_availableDevices :: "bool \<Rightarrow> (string \<times> bool list) list option \<Rightarrow> string list" where
  "microphone_availableDevices platform dlist = append_devices [] (microphone_devices platform dlist)"

definition currentDevice :: "'c pipeline \<Rightarrow> string" where
  "currentDevice p = pl_dev p"

definition pipeline_isOpen :: "'c pipeline \<Rightarrow> bool" where
  "pipeline_isOpen p = pl_isOpen p"

text \<open>The members of \<open>MicrophonePipeline\<close> that repeat those of the camera.\<close>

definition new_microphone_pipeline :: "nat \<Rightarrow> 'c pipeline" where
  "new_microphone_pipeline a =
     \<lparr>pl_dev = unknownDevice, pl_source = None, pl_decoder = None, pl_fresh = a, pl_isOpen = False, pl_opening = None,
      pl_next = 0, pl_results = Map.empty, pl_deviceChanges = 0\<rparr>"

definition microphone_setCurrentDevice :: "string \<Rightarrow> 'c pipeline \<Rightarrow> 'c pipeline" where
  "microphone_setCurrentDevice dev p =
     (if dev = pl_dev p then p else p\<lparr>pl_dev := dev, pl_deviceChanges := Suc (pl_deviceChanges p)\<rparr>)"

definition microphone_frameOutput :: "'c pipeline \<Rightarrow> nat option option" where
  "microphone_frameOutput p = (case pl_decoder p of None \<Rightarrow> None | Some (out, running) \<Rightarrow> Some out)"

definition microphone_isOpen :: "'c pipeline \<Rightarrow> bool" where
  "microphone_isOpen p = pl_isOpen p"

text \<open>
  \<open>open\<close> as the controller uses it, which goes on when the future has its result: \<open>work\<close> is the worker, run after the caller has stored
  its future. The result is that of the returned future, \<open>None\<close> when it never gets one.
\<close>

type_synonym 'c opened = "(string + string \<times> 'c) option \<times> 'c pipeline"

definition open_and_wait :: "(nat \<Rightarrow> 'c pipeline \<Rightarrow> 'c pipeline option) \<Rightarrow> 'c pipeline \<Rightarrow> 'c opened option" where
  "open_and_wait work p =
     (case spawn_open p of
        (None, q) \<Rightarrow> Some (Option.bind (value_open q) (pl_results q), q)
      | (Some n, q) \<Rightarrow> map_option (\<lambda>q. (pl_results q n, q)) (work n (assign_open n q)))"

definition camera_source_open :: "'c probe \<Rightarrow> 'c pipeline \<Rightarrow> 'c opened option" where
  "camera_source_open r = open_and_wait (\<lambda>n p. Some (camera_work r n p))"

definition microphone_source_open :: "'c probe \<Rightarrow> 'c pipeline \<Rightarrow> 'c opened option" where
  "microphone_source_open r = open_and_wait (microphone_work r)"

text \<open>The test camera is constructed with its configuration \<open>cfg\<close> and the pipe \<open>t\<close>; its future is ready at once.\<close>

definition test_source_open :: "string \<times> 'c \<Rightarrow> 'c probe \<Rightarrow> 'c pipeline \<Rightarrow> 'c opened option" where
  "test_source_open cfg r p =
     (if pl_dev p = TestDeviceName then Some (Some (Inr cfg), snd (test_open p)) else camera_source_open r p)"

definition test_isOpen :: "'c pipeline \<Rightarrow> bool" where
  "test_isOpen p = pipeline_isOpen p"

lemma append_devices_eq [simp]: "append_devices out ds = out @ ds"
  by (induction ds arbitrary: out) simp_all

lemma camera_availableDevices_eq: "camera_availableDevices platform dlist = camera_devices platform dlist"
  by (cases "camera_devices platform dlist") (simp_all add: camera_availableDevices_def)

lemma microphone_members [simp]:
  "new_microphone_pipeline = new_pipeline" "microphone_setCurrentDevice = setCurrentDevice"
  "microphone_frameOutput = frameOutput" "microphone_isOpen = pipeline_isOpen" "test_isOpen = pipeline_isOpen"
  by (auto simp: fun_eq_iff new_microphone_pipeline_def new_pipeline_def microphone_setCurrentDevice_def
      setCurrentDevice_def microphone_frameOutput_def frameOutput_def microphone_isOpen_def pipeline_isOpen_def
      test_isOpen_def split: option.split)

section \<open>The local stream of the controller\<close>

text \<open>
  What the controller does with \<open>_localVideoStream\<close> or \<open>_localAudioStream\<close> while it uses one source: \<open>held\<close>, whether \<open>src\<close> is
  set; the list, which participant was given which pipe, or the null pipe of a decoder that gave up. Only an opening that succeeds is followed by the continuation
  that sets \<open>src\<close>. \<open>None\<close> is the use of a null decoder, or a source that ended the program.
\<close>

datatype ('r, 'd) local_op = OpenLocal 'r | GiveTo int | CloseLocal | ChooseDevice 'd

type_synonym 's local_stream = "'s \<times> bool \<times> (int \<times> nat option) list"

fun local_do ::
  "('s \<Rightarrow> nat option option) \<Rightarrow> ('r \<Rightarrow> 's \<Rightarrow> ((string + 'conf) option \<times> 's) option) \<Rightarrow> ('s \<Rightarrow> 's) \<Rightarrow> ('d \<Rightarrow> 's \<Rightarrow> 's) \<Rightarrow>
   ('r, 'd) local_op \<Rightarrow> 's local_stream \<Rightarrow> 's local_stream option" where
  "local_do out opn cls pick (OpenLocal r) (s, held, given) =
     (case opn r s of
        None \<Rightarrow> None
      | Some (Some (Inr conf), s) \<Rightarrow> Some (s, True, given)
      | Some (_, s) \<Rightarrow> Some (s, held, given))"
| "local_do out opn cls pick (GiveTo u) (s, held, given) =
     (if \<not> held then Some (s, held, given)
      else case out s of None \<Rightarrow> None | Some pipe \<Rightarrow> Some (s, held, given @ [(u, pipe)]))"
| "local_do out opn cls pick CloseLocal (s, held, given) = Some (if held then cls s else s, False, given)"
| "local_do out opn cls pick (ChooseDevice d) (s, held, given) = Some (pick d s, held, given)"

fun local_run ::
  "('s \<Rightarrow> nat option option) \<Rightarrow> ('r \<Rightarrow> 's \<Rightarrow> ((string + 'conf) option \<times> 's) option) \<Rightarrow> ('s \<Rightarrow> 's) \<Rightarrow> ('d \<Rightarrow> 's \<Rightarrow> 's) \<Rightarrow>
   ('r, 'd) local_op list \<Rightarrow> 's local_stream \<Rightarrow> 's local_stream option" where
  "local_run out opn cls pick [] l = Some l"
| "local_run out opn cls pick (op # ops) l =
     (case local_do out opn cls pick op l of None \<Rightarrow> None | Some l \<Rightarrow> local_run out opn cls pick ops l)"

text \<open>The participants that ask while the source is held.\<close>

fun asking :: "('r, 'd) local_op list \<Rightarrow> int list" where
  "asking [] = []"
| "asking (CloseLocal # ops) = []"
| "asking (GiveTo u # ops) = u # asking ops"
| "asking (_ # ops) = asking ops"

section \<open>The contract of a source\<close>

locale stream_source =
  fixes ok :: "'s \<Rightarrow> bool"
    and out :: "'s \<Rightarrow> nat option option"
    and isOpen :: "'s \<Rightarrow> bool"
    and opn :: "'r \<Rightarrow> 's \<Rightarrow> ((string + 'conf) option \<times> 's) option"
    and cls :: "'s \<Rightarrow> 's"
    and pick :: "'d \<Rightarrow> 's \<Rightarrow> 's"
  assumes open_total: "ok s \<Longrightarrow> \<exists>res s'. opn r s = Some (res, s') \<and> ok s'"
    and open_gives_output: "ok s \<Longrightarrow> opn r s = Some (Some (Inr conf), s') \<Longrightarrow> isOpen s' \<and> out s' \<noteq> None"
    and open_fails: "ok s \<Longrightarrow> opn r s = Some (res, s') \<Longrightarrow> \<forall>conf. res \<noteq> Some (Inr conf) \<Longrightarrow>
      out s' = out s \<and> (isOpen s' \<longrightarrow> isOpen s)"
    and close_closes: "ok s \<Longrightarrow> ok (cls s) \<and> \<not> isOpen (cls s) \<and> out (cls s) = out s"
    and pick_keeps: "ok s \<Longrightarrow> ok (pick d s) \<and> isOpen (pick d s) = isOpen s \<and> out (pick d s) = out s"
begin

text \<open>A source that is held has an output, whatever is opened, fails, is chosen or closed.\<close>

lemma local_do_safe:
  assumes "ok s" and "held \<longrightarrow> out s \<noteq> None"
  shows "\<exists>s' held' given'. local_do out opn cls pick op (s, held, given) = Some (s', held', given') \<and> ok s' \<and>
    (held' \<longrightarrow> out s' \<noteq> None)"
proof (cases op)
  case (OpenLocal r)
  obtain res s' where o: "opn r s = Some (res, s')" "ok s'" using open_total [OF assms(1)] by blast
  show ?thesis
  proof (cases "\<exists>conf. res = Some (Inr conf)")
    case True
    with o OpenLocal open_gives_output [OF assms(1)] show ?thesis by auto
  next
    case False
    with open_fails [OF assms(1) o(1)] assms(2) o OpenLocal show ?thesis by (auto split: option.split sum.split)
  qed
qed (use assms close_closes pick_keeps in \<open>auto split: option.split\<close>)

lemma local_run_safe:
  assumes "ok s" and "held \<longrightarrow> out s \<noteq> None"
  shows "\<exists>s' held' given'. local_run out opn cls pick ops (s, held, given) = Some (s', held', given') \<and> ok s' \<and>
    (held' \<longrightarrow> out s' \<noteq> None)"
  using assms
proof (induction ops arbitrary: s held given)
  case (Cons op ops)
  from local_do_safe [OF Cons.prems, of op given] Cons.IH show ?case by fastforce
qed simp

text \<open>Until the source is opened again its output stays the same, and everyone who asks while it is held gets that one.\<close>

lemma local_run_same_output:
  assumes "ok s" and "out s = Some pipe" and "held = isOpen s" and "\<forall>op \<in> set ops. \<forall>r. op \<noteq> OpenLocal r"
  shows "\<exists>s'. local_run out opn cls pick ops (s, held, given) =
      Some (s', held \<and> CloseLocal \<notin> set ops, given @ (if held then map (\<lambda>u. (u, pipe)) (asking ops) else [])) \<and>
    out s' = Some pipe \<and> isOpen s' = (held \<and> CloseLocal \<notin> set ops) \<and> ok s'"
  using assms
proof (induction ops arbitrary: s held given)
  case (Cons op ops)
  show ?case
  proof (cases op)
    case (OpenLocal r)
    with Cons.prems(4) show ?thesis by auto
  next
    case (GiveTo u)
    with Cons.prems Cons.IH [of s held "if held then given @ [(u, pipe)] else given"] show ?thesis by (cases held) auto
  next
    case CloseLocal
    define t where "t = (if held then cls s else s)"
    have "ok t" "out t = Some pipe" "\<not> isOpen t" using Cons.prems close_closes [of s] by (auto simp: t_def)
    with CloseLocal Cons.prems(4) Cons.IH [of t False given] show ?thesis by (cases held) (simp_all add: t_def)
  next
    case (ChooseDevice d)
    with Cons.prems pick_keeps [of s d] Cons.IH [of "pick d s" held given] show ?thesis by auto
  qed
qed simp

end

section \<open>The pipelines fulfil the contract\<close>

text \<open>Between two calls of a controller that waits for each opening no future is stored.\<close>

definition idle_pipeline :: "'c pipeline \<Rightarrow> bool" where
  "idle_pipeline p \<longleftrightarrow> pipeline_ok p \<and> pl_opening p = None"

lemma open_and_wait_idle:
  "pl_opening p = None \<Longrightarrow> open_and_wait work p = map_option (\<lambda>q. (pl_results q (pl_next p), q))
     (work (pl_next p) (p\<lparr>pl_next := Suc (pl_next p), pl_opening := Some (pl_next p)\<rparr>))"
  by (simp add: open_and_wait_def spawn_open_def assign_open_def)

text \<open>
  What the body of a worker leaves behind: a new decoder after success, initialized if \<open>b\<close>; the old output after a
  failure.
\<close>

definition body_promise :: "bool \<Rightarrow> (string + string \<times> 'c) \<Rightarrow> 'c pipeline \<Rightarrow> 'c pipeline \<Rightarrow> bool" where
  "body_promise b res p p' \<longleftrightarrow>
     (case res of Inr conf \<Rightarrow> pl_isOpen p' \<and> pl_decoder p' = Some (started_decoder b (pl_fresh p))
      | Inl e \<Rightarrow> frameOutput p' = frameOutput p \<and> (pl_isOpen p' \<longrightarrow> pl_isOpen p))"

lemma frameOutput_close [simp]:
  "frameOutput (close_camera p) = frameOutput p" "frameOutput (close_microphone p) = frameOutput p"
  by (auto simp: frameOutput_def close_camera_def close_microphone_def option.map_comp comp_def split_def)

lemma frameOutput_stamp [simp]:
  "frameOutput (p\<lparr>pl_results := x\<rparr>) = frameOutput p" "frameOutput (p\<lparr>pl_opening := y\<rparr>) = frameOutput p"
  "frameOutput (p\<lparr>pl_next := n\<rparr>) = frameOutput p" "frameOutput (p\<lparr>pl_source := c\<rparr>) = frameOutput p"
  by (simp_all add: frameOutput_def)

lemma camera_body_promise: "camera_body r p = (res, p') \<Longrightarrow> body_promise (decoder_found r) res p p'"
  by (auto simp: camera_body_def body_promise_def Let_def split: if_splits prod.splits option.splits)

lemma microphone_body_promise: "microphone_body r p = Some (res, p') \<Longrightarrow> body_promise (decoder_found r) res p p'"
  by (auto simp: microphone_body_def body_promise_def Let_def split: if_splits option.splits)

lemma camera_source_open_idle:
  assumes "idle_pipeline p"
  shows "\<exists>res q. camera_source_open r p = Some (Some res, q) \<and> idle_pipeline q \<and> body_promise (decoder_found r) res p q"
proof -
  let ?q = "p\<lparr>pl_next := Suc (pl_next p), pl_opening := Some (pl_next p)\<rparr>"
  obtain res q where b: "camera_body r ?q = (res, q)" by (cases "camera_body r ?q")
  moreover have "pipeline_ok q" using pipeline_ok_camera_body [OF _ b] assms by (simp add: idle_pipeline_def)
  ultimately show ?thesis
    using assms camera_body_promise [OF b]
    by (auto simp: camera_source_open_def idle_pipeline_def open_and_wait_idle camera_work_def body_promise_def
        split: sum.splits)
qed

lemma microphone_source_open_idle:
  assumes "idle_pipeline p"
  shows "\<exists>res q. microphone_source_open r p = Some (Some res, q) \<and> idle_pipeline q \<and> body_promise (decoder_found r) res p q"
proof -
  let ?q = "p\<lparr>pl_next := Suc (pl_next p), pl_opening := Some (pl_next p)\<rparr>"
  obtain res q where b: "microphone_body r ?q = Some (res, q)" "pipeline_ok q"
    using microphone_body_total [of ?q r] assms by (auto simp: idle_pipeline_def)
  then show ?thesis
    using assms microphone_body_promise [OF b(1)]
    by (auto simp: microphone_source_open_def idle_pipeline_def open_and_wait_idle microphone_work_def body_promise_def
        split: sum.splits)
qed

lemma body_promise_output:
  "body_promise b (Inr conf) p q \<Longrightarrow> pl_isOpen q \<and> frameOutput q = Some (if b then Some (pl_fresh p) else None)"
  by (simp add: body_promise_def frameOutput_def started_decoder_def)

lemma body_promise_failure:
  "body_promise b res p q \<Longrightarrow> \<forall>conf. res \<noteq> Inr conf \<Longrightarrow> frameOutput q = frameOutput p \<and> (pl_isOpen q \<longrightarrow> pl_isOpen p)"
  by (cases res) (simp_all add: body_promise_def)

lemma idle_close: "idle_pipeline p \<Longrightarrow> idle_pipeline (close_camera p) \<and> idle_pipeline (close_microphone p)"
  by (simp add: idle_pipeline_def pipeline_ok_close) (simp add: close_camera_def close_microphone_def)

lemma idle_device:
  "idle_pipeline (setCurrentDevice d p) = idle_pipeline p" "pl_isOpen (setCurrentDevice d p) = pl_isOpen p"
  "frameOutput (setCurrentDevice d p) = frameOutput p"
  by (simp_all add: setCurrentDevice_def idle_pipeline_def pipeline_ok_def frameOutput_def)

interpretation camera: stream_source idle_pipeline frameOutput pipeline_isOpen camera_source_open close_camera
  setCurrentDevice
proof (unfold_locales, goal_cases)
  case (1 s r) then show ?case using camera_source_open_idle by blast
next
  case (2 s r conf s') with camera_source_open_idle [OF 2(1), of r] body_promise_output [of "decoder_found r" conf s s']
  show ?case by (auto simp: pipeline_isOpen_def)
next
  case (3 s r res s')
  then obtain res' where "res = Some res'" "body_promise (decoder_found r) res' s s'" using camera_source_open_idle [OF 3(1), of r] by auto
  with 3(3) body_promise_failure [of "decoder_found r" res' s s'] show ?case by (simp add: pipeline_isOpen_def)
qed (auto simp: idle_close idle_device pipeline_isOpen_def)

interpretation microphone: stream_source idle_pipeline microphone_frameOutput microphone_isOpen microphone_source_open
  close_microphone microphone_setCurrentDevice
proof (unfold_locales, goal_cases)
  case (1 s r) then show ?case using microphone_source_open_idle by blast
next
  case (2 s r conf s') with microphone_source_open_idle [OF 2(1), of r] body_promise_output [of "decoder_found r" conf s s']
  show ?case by (auto simp: pipeline_isOpen_def)
next
  case (3 s r res s')
  then obtain res' where "res = Some res'" "body_promise (decoder_found r) res' s s'" using microphone_source_open_idle [OF 3(1), of r] by auto
  with 3(3) body_promise_failure [of "decoder_found r" res' s s'] show ?case by (simp add: pipeline_isOpen_def)
qed (auto simp: idle_close idle_device pipeline_isOpen_def)

text \<open>The test camera as long as its device is not changed: on the test device, or as a camera.\<close>

definition test_ok :: "'c pipeline \<Rightarrow> bool" where
  "test_ok p \<longleftrightarrow> pl_dev p = TestDeviceName \<or> idle_pipeline p"

lemma camera_source_open_dev: "camera_source_open r p = Some (res, q) \<Longrightarrow> pl_dev q = pl_dev p"
  by (auto simp: camera_source_open_def open_and_wait_def spawn_open_def assign_open_def camera_work_def camera_body_def
      Let_def split: option.splits prod.splits if_splits)

lemma test_source_open_other:
  "pl_dev p \<noteq> TestDeviceName \<Longrightarrow> test_source_open cfg r p = camera_source_open r p \<and> test_frameOutput t p = frameOutput p \<and>
    test_close p = close_camera p"
  by (simp add: test_source_open_def test_frameOutput_def test_close_def)

lemma test_source_open_Test:
  "pl_dev p = TestDeviceName \<Longrightarrow> test_source_open cfg r p = Some (Some (Inr cfg), p\<lparr>pl_isOpen := True\<rparr>) \<and>
    test_frameOutput t p = Some (Some t) \<and> test_close p = p\<lparr>pl_isOpen := False\<rparr>"
  by (simp add: test_source_open_def test_frameOutput_def test_close_def test_open_def)

interpretation test_camera: stream_source test_ok "test_frameOutput t" test_isOpen "test_source_open cfg" test_close
  "\<lambda>_ :: unit. id"
proof (unfold_locales, goal_cases)
  case (1 s r)
  then show ?case
    using camera.open_total [of s r] by (cases "pl_dev s = TestDeviceName")
      (auto simp: test_ok_def test_source_open_Test [where t = t] test_source_open_other [where t = t])
next
  case (2 s r conf s')
  then show ?case
    using camera.open_gives_output [of s r conf s'] camera_source_open_dev [of r s]
    by (cases "pl_dev s = TestDeviceName")
      (auto simp: test_ok_def pipeline_isOpen_def test_frameOutput_def test_source_open_Test [where t = t]
        test_source_open_other [where t = t])
next
  case (3 s r res s')
  have dev: "pl_dev s \<noteq> TestDeviceName" using 3(2,3) test_source_open_Test [of s cfg r] by (cases cfg) auto
  note other = test_source_open_other [OF dev, where t = t]
  have cam: "idle_pipeline s" "camera_source_open r s = Some (res, s')"
    using 3(1,2) other dev by (simp_all add: test_ok_def)
  with camera.open_fails [OF cam 3(3)] camera_source_open_dev [OF cam(2)] other dev show ?case
    by (simp add: test_frameOutput_def)
next
  case (4 s)
  then show ?case
    using camera.close_closes [of s]
    by (cases "pl_dev s = TestDeviceName")
      (auto simp: test_ok_def pipeline_isOpen_def test_frameOutput_def test_source_open_Test [where t = t]
        test_source_open_other [where t = t])
qed simp

section \<open>The participants of a call and the local stream\<close>

text \<open>The video of the controller over the camera, or its audio over the microphone.\<close>

definition stream_of_call ::
  "bool \<Rightarrow> ('c probe, string) local_op list \<Rightarrow> 'c pipeline local_stream \<Rightarrow> 'c pipeline local_stream option" where
  "stream_of_call mic =
     (if mic
      then local_run microphone_frameOutput microphone_source_open close_microphone microphone_setCurrentDevice
      else local_run frameOutput camera_source_open close_camera setCurrentDevice)"

definition source_open :: "bool \<Rightarrow> 'c probe \<Rightarrow> 'c pipeline \<Rightarrow> 'c opened option" where
  "source_open mic r = (if mic then microphone_source_open r else camera_source_open r)"

lemma reached_idle: "source_run mic ops (new_pipeline a) = Some p \<Longrightarrow> pl_opening p = None \<Longrightarrow> idle_pipeline p"
  by (simp add: idle_pipeline_def source_run_ok)

lemma source_open_success:
  assumes "idle_pipeline p" and "source_open mic r p = Some (Some (Inr conf), q)"
  shows "idle_pipeline q" "pl_isOpen q" "frameOutput q = Some (if decoder_found r then Some (pl_fresh p) else None)"
  using assms camera_source_open_idle [OF assms(1), of r] microphone_source_open_idle [OF assms(1), of r]
    body_promise_output [of "decoder_found r" conf p q] by (auto simp: source_open_def split: if_splits)

text \<open>
  C21: After a source reached in any way was opened, everyone who is given the local stream before it is closed gets the one
  pipe that this opening made, or all get a null pipe if FFmpeg had no decoder for it, whichever devices are chosen meanwhile; the source is
  open exactly until it is closed. And in any order of openings that succeed or fail, requests, choices and closings, no null decoder
  is asked for its output.
\<close>

theorem participants_share_pipe:
  assumes "source_run mic ops (new_pipeline a) = Some p" and "pl_opening p = None"
    and "source_open mic r p = Some (Some (Inr conf), q)" and "\<forall>op \<in> set acts. \<forall>r. op \<noteq> OpenLocal r"
  shows "(\<exists>q'. stream_of_call mic acts (q, True, []) =
        Some (q', CloseLocal \<notin> set acts, map (\<lambda>u. (u, if decoder_found r then Some (pl_fresh p) else None)) (asking acts)) \<and>
      pl_isOpen q' = (CloseLocal \<notin> set acts)) \<and>
    (\<forall>any_acts. stream_of_call mic any_acts (p, False, []) \<noteq> None)"
proof -
  note p = reached_idle [OF assms(1,2)]
  note q = source_open_success [OF p assms(3)]
  have "\<exists>q'. stream_of_call mic acts (q, True, []) =
        Some (q', CloseLocal \<notin> set acts, map (\<lambda>u. (u, if decoder_found r then Some (pl_fresh p) else None)) (asking acts)) \<and>
      pl_isOpen q' = (CloseLocal \<notin> set acts)"
  proof (cases mic)
    case True
    with microphone.local_run_same_output [OF q(1) _ _ assms(4), of "if decoder_found r then Some (pl_fresh p) else None" True "[]"] q(2,3)
    show ?thesis by (auto simp: stream_of_call_def pipeline_isOpen_def)
  next
    case False
    with camera.local_run_same_output [OF q(1,3) _ assms(4), of True "[]"] q(2)
    show ?thesis by (auto simp: stream_of_call_def pipeline_isOpen_def)
  qed
  moreover have "stream_of_call mic any_acts (p, False, []) \<noteq> None" for any_acts
    using camera.local_run_safe [OF p, of False any_acts "[]"] microphone.local_run_safe [OF p, of False any_acts "[]"]
    by (auto simp: stream_of_call_def)
  ultimately show ?thesis by blast
qed

theorem participants_share_pipe_witness:
  "\<exists>p q q'. source_open False (Streams [(True, 5 :: nat)] True) p = Some (Some (Inr (''a'', 5)), q) \<and>
    stream_of_call False [GiveTo 7, ChooseDevice ''b'', GiveTo 8, CloseLocal, GiveTo 9] (q, True, []) =
      Some (q', False, [(7, Some 3), (8, Some 3)]) \<and> \<not> pl_isOpen q' \<and>
    stream_of_call False [GiveTo 7, OpenLocal InputFails, GiveTo 8] (p, False, []) \<noteq> None"
proof -
  define p :: "nat pipeline" where "p = setCurrentDevice ''a'' (new_pipeline 3)"
  obtain q where q: "source_open False (Streams [(True, 5)] True) p = Some (Some (Inr (''a'', 5)), q)"
    by (simp add: p_def source_open_def camera_source_open_def open_and_wait_def spawn_open_def assign_open_def
        camera_work_def camera_body_def camera_open_def new_capture_def setCurrentDevice_def new_pipeline_def
        unknownDevice_def)
  have "source_run False [SetDevice ''a''] (new_pipeline 3) = Some p" "pl_opening p = None" and fresh: "pl_fresh p = 3"
    by (simp_all add: p_def setCurrentDevice_def new_pipeline_def unknownDevice_def)
  from participants_share_pipe [OF this(1,2) q, of "[GiveTo 7, ChooseDevice ''b'', GiveTo 8, CloseLocal, GiveTo 9]"]
  obtain q' where "stream_of_call False [GiveTo 7, ChooseDevice ''b'', GiveTo 8, CloseLocal, GiveTo 9] (q, True, []) =
      Some (q', False, [(7, Some 3), (8, Some 3)])" "\<not> pl_isOpen q'"
    "stream_of_call False [GiveTo 7, OpenLocal InputFails, GiveTo 8] (p, False, []) \<noteq> None"
    using fresh by (auto simp: decoder_found_def)
  with q show ?thesis by (intro exI conjI)
qed

text \<open>
  The test camera breaks the contract when its device changes: opened on the test device and then set to a camera that was
  never opened, it still counts as open, and the next participant is given the output of a null decoder.
\<close>

lemma test_device_changed_while_open:
  assumes "pl_decoder p = None" and "pl_dev p = TestDeviceName" and "d \<noteq> TestDeviceName"
  shows "test_isOpen (setCurrentDevice d (snd (test_open p))) \<and>
    local_run (test_frameOutput t) (test_source_open cfg) test_close setCurrentDevice
      [OpenLocal r, GiveTo u, ChooseDevice d, GiveTo v] (p, False, []) = None"
  using assms by (simp add: test_source_open_def test_open_def setCurrentDevice_def test_frameOutput_def frameOutput_def
      pipeline_isOpen_def)

end
