(* ===== verification/Spec2Isabelle.thy ===== *)
theory Spec2Isabelle
  imports Capture MediaSources SinkConnector AudioOutput CodecSetup Demuxer DataPipeSystem Models Api GroupController
    MessageController UserController TaskQueue RpcSystem Coordinator CallSessions CallDelivery LockOrder
    Settings Session Publication DecoderPool QmlGlue CallLocks CallHandle Signalling ContextOwners UserList MessageDelivery PacketBytes
    FrameView RtcListeners ModelLocks StreamSources
begin

text \<open>
  A model of the ChatUp client, a Qt program for chats and calls, and what makes its parts correct.

  \<^bold>\<open>The program.\<close> \<open>App\<close> (\<open>app/app.cpp\<close>) shows the startup window, logs in over \<open>NetworkCoordinator\<close> and makes the chat
  window, whose views work on four controllers: rooms, messages, users and calls. A controller asks the server through
  the queues of the coordinator, whose thread connects when it must and hands each call to \<open>ServerRPCWrapper\<close>; the
  answer settles a promise, and the calls of the server reach handlers of the controllers. What the views show are list
  models over \<open>IdentifyingModel\<close>. The call controller joins calls and drives \<open>rtc::Service\<close>, which has one peer
  connection per participant. Media run through pipelines of threads joined by \<open>DataPipe\<close>: a capture thread
  writes packets, a decoder makes frames of them, a sink connector or an audio output shows them, an encoder and a
  packetizer send them; received packets go through demuxers and decoders the same way.

  \<^bold>\<open>How it is modelled.\<close> A class is a record of its members, an operation or handler a function from state to state, with
  its guards and early returns. An operation that holds the lock of its class is one step; for the models that several threads share this is proved in \<open>ModelLocks\<close>.
  One that gives its lock back in between is two (\<open>closeAllConnections\<close> of \<open>RtcService\<close>), and \<open>CallLocks\<close>, \<open>LockOrder\<close> and \<open>UserController\<close>
  say what waits for a mutex or for another thread. What runs later, a
  continuation of a future, a timer, a callback of the network or of a track, is an operation of its own, so that anything may come
  between. Exceptions are values: \<open>Inl\<close> of an error, or a failed future; a null pointer or an empty optional that is
  dereferenced, or a call that never returns, is \<open>None\<close>, as the theories say. Objects shared by pointer are addresses in a heap. Integers are kept as \<open>int\<close> with the conversions of the
  code written out (\<open>to_i32\<close>, \<open>to_u32\<close>, \<open>to_u64\<close>), so the message ids, the message counters of the rooms and the read counters wrap as an \<open>int\<close> does; slot counters and time stamps are words. Qt, nlohmann::json,
  FFmpeg and libdatachannel are arguments: records of functions (\<open>qt\<close>, \<open>jlib\<close>, \<open>ffmpeg\<close>) with what is relied on
  as hypotheses (\<open>qt_ok\<close>, \<open>qt_conv\<close>), which \<open>plain_qt\<close> and \<open>plain_jlib\<close> fulfil.

  \<^bold>\<open>The theories.\<close> \<open>Prelude\<close>: machine integers, \<open>std::map\<close> as a sorted list, \<open>try\<close> blocks, generic lemmas.
  \<open>Qt\<close>: variants and JSON.

  Contracts, as locales: \<open>SlotPool\<close> (what a reader owes a pipe, used by connectors, encoders, decoders and outputs, interpreted by
  \<open>DataPipe\<close>), \<open>WorkQueue\<close> (nothing is lost between two threads, interpreted by \<open>Coordinator\<close> and \<open>TaskQueue\<close>), \<open>IdLookup\<close>
  (a row is found exactly for its id, interpreted by \<open>IdentifyingModel\<close> and through it by the three models of \<open>Models\<close>), the
  contract of a setting in \<open>Settings\<close>, \<open>MutexOrder\<close> (threads that take their mutexes in one order all end, interpreted by
  \<open>CallLocks\<close> and \<open>ModelLocks\<close>), \<open>StreamSources\<close> (what the call controller
  relies on when it opens a camera or a microphone, interpreted there by the pipelines), and \<open>GuardedObject\<close> (an operation under the mutex of its object is one step, whatever runs beside it,
  interpreted by \<open>ModelLocks\<close>).

  Media: \<open>DataPipe\<close> (\<open>lib/media/datapipe.h\<close>) and \<open>DataPipeSystem\<close>, its writers and readers interleaved, with slots
  conserved and \<open>getFree\<close> never throwing, and \<open>Publication\<close>, its loop over the listeners, which runs without the lock; \<open>Capture\<close> (the loops of \<open>camerainput.cpp\<close> and \<open>microphoneinput.cpp\<close>) and
  \<open>MediaSources\<close> (their devices, and \<open>pipelines.cpp\<close>); \<open>Formats\<close> (the tables of \<open>media.h\<close> and \<open>media.cpp\<close>);
  \<open>Codec\<close>, \<open>CodecSetup\<close> and \<open>Demuxer\<close> (\<open>encoder.cpp\<close>, \<open>decoder.cpp\<close>, \<open>rtppacketizer.cpp\<close>), with what each worker
  gives back and publishes; \<open>DecoderPool\<close>, the tasks of a decoder in its thread pool, \<open>PacketBytes\<close>, the memory of the packets they
  read, and \<open>ContextOwners\<close>, who frees the codec contexts; \<open>SinkConnector\<close> (\<open>media.cpp\<close>) and \<open>FrameView\<close>, what is drawn of its
  frames; \<open>AudioOutput\<close> (\<open>audiooutput.cpp\<close>).

  Data: \<open>ChatData\<close> (\<open>lib/core/data.cpp\<close>) with its encodings, \<open>IdentifyingModel\<close>
  (\<open>lib/core/models/identifyingmodel.h\<close>), refined to finite maps where the index is kept, \<open>Models\<close>, and \<open>ModelLocks\<close>, the mutex of a
  model and the threads of the controllers that share it.

  Network: \<open>Api\<close> (\<open>lib/network/api\<close>), \<open>Rpc\<close> and \<open>RpcSystem\<close> (\<open>rpc.cpp\<close>, \<open>serverrpcwrapper.cpp\<close>), \<open>TaskQueue\<close>
  (\<open>lib/core/taskqueue.cpp\<close>), \<open>Coordinator\<close> (\<open>networkcoordinator.cpp\<close>), \<open>CallDelivery\<close>, a round of its thread over the wrapper, from
  the queue to the reply, and \<open>LockOrder\<close>, the two mutexes of both classes; \<open>GroupController\<close>, \<open>MessageController\<close> and, over both
  and the network, \<open>MessageDelivery\<close>, a message from one client to another; \<open>UserController\<close> with \<open>UserSession\<close>, its handles over
  several logins, and \<open>UserList\<close>, what a view shows of them; \<open>CallController\<close> with \<open>CallHandle\<close>, what QML is told of a call, and
  \<open>CallLocks\<close>, its mutexes (\<open>lib/network/controllers\<close>); \<open>RtcService\<close> (\<open>rtcservice.cpp\<close>) with \<open>RtcListeners\<close>, the numbers of its listeners, \<open>CallSessions\<close>, the
  runs of the call controller over it, and \<open>Signalling\<close>, descriptions and candidates on their way to the service of a peer.

  Application: \<open>Startup\<close> (\<open>startupwindow.cpp\<close>, \<open>qmlstartupwindow.cpp\<close>), \<open>Settings\<close> (\<open>applicationsettings.cpp\<close>), \<open>Session\<close>
  (\<open>app.cpp\<close>, \<open>qmlchatwindow.cpp\<close>, \<open>controllermanager.cpp\<close>), \<open>QmlGlue\<close> (the objects QML holds, the factory of the windows, the
  options of \<open>main.cpp\<close>).

  \<^bold>\<open>What is shown.\<close> Invariants of everything reachable: the books of a pipe, promises settled at most once, one handle per room and
  per user as long as the pools can be grown, consistent peers, sources that are open exactly when they capture, with or without a decoder. Refinements: the list models are finite maps, an
  update of a room is \<open>extractTo\<close>. Compositions: a message and a session description from the controller or the service of one
  client, over queue, wire and server, to those of another. Functional behaviour of the operations a user sees: sending, receiving and counting
  messages, read counters, joining and leaving calls, login and logout. Round trips of the encodings and tables. Exactly when
  a demuxer, the audio encoder and the resolution of a list of users return. Where the code does not do what it means to, the theorem states
  what it does, with the input that shows it.

  \<^bold>\<open>Bounds.\<close> Every loop of the model is structural, or a \<open>partial_function\<close> whose result is proved to exist: a demuxer ends with
  the first round that fails or uses up its datagram, so after at most one round per byte if FFmpeg asks for something in each, and never if no round
  does; an audio encoder needs one round per chunk, and does not end for a frame size of 0. A run of the RPC layer is bounded by the
  2147483646 ids that an \<open>int\<close> gives. The slot counters and stamps are words; the read counters are proved to stay in
  the range of \<open>int\<close>. The coordinator tries to connect as often as \<open>_reconnectionCount\<close> says.
  The pools of handles hold 256 users and 12 calls at first; a released handle of a call is in the pool and deleted, and both is kept.

  \<^bold>\<open>Not modelled.\<close> The QML views and the registration of types with the QML engine, the
  allocation of packets and frames (FFmpeg only), session negotiation inside libdatachannel, the server (an argument where its answers
  matter, as in \<open>Signalling\<close>), the language of the application (commented out), logging, the sharing of one \<open>QModelIndex\<close> between
  models, and \<open>core/cache.h\<close>, which nothing includes. The WebSocket client over Qt (\<open>qtwsclient.cpp\<close>) is not built and
  could not be: line 29 ends in a stray character, the header names another class than the source, and \<open>connect2Server\<close> has
  no return. Real time is an argument where the code reads the clock.
\<close>

end
